(* ===== verification/Dma_Prelude.thy ===== *)
theory Dma_Prelude
  imports Main
begin

text \<open>
  Shared vocabulary of the development: the exceptions the Python code raises, actions (state
  transformers that may raise and keep the state they reached), the two loop shapes the code
  uses, views of a shared object inside a larger state (the locale \<open>lens\<close>), Python indexing,
  and the arithmetic reading of the masks and shifts on Python's unbounded integers.
\<close>

unbundle bit_operations_syntax

named_theorems bits \<open>masks and shifts as mod, div and times\<close>
named_theorems act_simps \<open>evaluation of actions\<close>
named_theorems pres \<open>actions that keep an invariant\<close>
named_theorems errs \<open>actions and the exceptions they may raise\<close>

section \<open>Exceptions\<close>

text \<open>
  The class of an exception is the constructor; the detail says which raise statement it is and
  carries the values its message prints.
\<close>

datatype detail =
    FifoLength | FifoOverflow string | FifoEmpty string
  | MemorySize | SramSize
  | AxiUnaligned int | ReadBounds | WriteBounds | FetchLength int | DfOutFull
  | MidShort int int | MidFull int int
  | RinglenZero | DescBounds | RingFull | NoProgress | MaxSteps | NothingPending
  | AxiStalled int | SramStalled int | MaxIters
  | SmemIndex int int | SramIndex int int | UnknownOp string | BadLiteral string int
  | UnpackCount | FormatCode
  | FirmwareNack int | AckByteTimeout | NoAck | ReadTimeout | CrcMismatch int int | NotInFirmware

datatype exn =
    ValueError detail
  | RuntimeError detail
  | OverflowError detail
  | IndexError
  | KeyError
  | AttributeError
  | FileNotFoundError
  | SerialException
  | CsvError
  | ZeroDivisionError
  | TimeoutError detail
  | NotImplementedError detail
  | StructError
  | TypeError
  | SystemExit int

type_synonym 'a result = "exn + 'a"

section \<open>Actions: state, result or exception\<close>

text \<open>
  A Python method that mutates objects is an action. An exception does not undo what was done
  before it, so the state is part of the outcome in both cases.
\<close>

type_synonym ('s, 'a) act = "'s \<Rightarrow> 'a result \<times> 's"

definition act_return :: "'a \<Rightarrow> ('s, 'a) act" where
  "act_return x s = (Inr x, s)"

definition act_raise :: "exn \<Rightarrow> ('s, 'a) act" where
  "act_raise e s = (Inl e, s)"

definition act_bind :: "('s, 'a) act \<Rightarrow> ('a \<Rightarrow> ('s, 'b) act) \<Rightarrow> ('s, 'b) act" where
  "act_bind m f s = (case m s of (Inl e, t) \<Rightarrow> (Inl e, t) | (Inr x, t) \<Rightarrow> f x t)"

definition act_read :: "('s \<Rightarrow> 'a result) \<Rightarrow> ('s, 'a) act" where
  "act_read f s = (f s, s)"

definition act_gets :: "('s \<Rightarrow> 'a) \<Rightarrow> ('s, 'a) act" where
  "act_gets f s = (Inr (f s), s)"

definition act_modify :: "('s \<Rightarrow> 's) \<Rightarrow> ('s, unit) act" where
  "act_modify f s = (Inr (), f s)"

definition res_bind :: "'a result \<Rightarrow> ('a \<Rightarrow> 'b result) \<Rightarrow> 'b result" where
  "res_bind r f = (case r of Inl e \<Rightarrow> Inl e | Inr x \<Rightarrow> f x)"

lemma act_return_apply [act_simps]: "act_return x s = (Inr x, s)"
  by (simp add: act_return_def)

lemma act_raise_apply [act_simps]: "act_raise e s = (Inl e, s)"
  by (simp add: act_raise_def)

lemma act_read_apply [act_simps]: "act_read f s = (f s, s)"
  by (simp add: act_read_def)

lemma act_gets_apply [act_simps]: "act_gets f s = (Inr (f s), s)"
  by (simp add: act_gets_def)

lemma act_modify_apply [act_simps]: "act_modify f s = (Inr (), f s)"
  by (simp add: act_modify_def)

lemma act_bind_Inr [act_simps]: "m s = (Inr x, t) \<Longrightarrow> act_bind m f s = f x t"
  by (simp add: act_bind_def)

lemma act_bind_Inl [act_simps]: "m s = (Inl e, t) \<Longrightarrow> act_bind m f s = (Inl e, t)"
  by (simp add: act_bind_def)

lemma act_bind_steps [act_simps]:
  "act_bind (act_return x) f s = f x s"
  "act_bind (act_raise e) f s = (Inl e, s)"
  "act_bind (act_gets g) f s = f (g s) s"
  "act_bind (act_modify h) k s = k () (h s)"
  "act_bind (act_read p) f s = (case p s of Inl e \<Rightarrow> (Inl e, s) | Inr x \<Rightarrow> f x s)"
  by (simp_all add: act_bind_def act_simps)

lemma res_bind_simps [simp]:
  "res_bind (Inr x) f = f x" "res_bind (Inl e) f = Inl e"
  by (simp_all add: res_bind_def)

lemma act_bind_eq_Inr:
  "act_bind m f s = (Inr y, u) \<longleftrightarrow> (\<exists>x t. m s = (Inr x, t) \<and> f x t = (Inr y, u))"
  by (auto simp: act_bind_def split: prod.splits sum.splits)

lemma act_bind_eq_Inl:
  "act_bind m f s = (Inl e, u) \<longleftrightarrow>
     m s = (Inl e, u) \<or> (\<exists>x t. m s = (Inr x, t) \<and> f x t = (Inl e, u))"
  by (auto simp: act_bind_def split: prod.splits sum.splits)

lemma act_bind_assoc: "act_bind (act_bind m f) g = act_bind m (\<lambda>x. act_bind (f x) g)"
  by (rule ext) (simp add: act_bind_def split: prod.split sum.split)

subsection \<open>The two loop shapes\<close>

text \<open>
  \<open>for x in xs: body(x)\<close> and \<open>[body(x) for x in xs]\<close>; both stop at the first exception.
\<close>

primrec for_each :: "('x \<Rightarrow> ('s, unit) act) \<Rightarrow> 'x list \<Rightarrow> ('s, unit) act" where
  "for_each f [] = act_return ()"
| "for_each f (x # xs) = act_bind (f x) (\<lambda>_. for_each f xs)"

primrec map_each :: "('x \<Rightarrow> ('s, 'a) act) \<Rightarrow> 'x list \<Rightarrow> ('s, 'a list) act" where
  "map_each f [] = act_return []"
| "map_each f (x # xs) =
     act_bind (f x) (\<lambda>y. act_bind (map_each f xs) (\<lambda>ys. act_return (y # ys)))"

lemma for_each_append:
  "for_each f (xs @ ys) = act_bind (for_each f xs) (\<lambda>_. for_each f ys)"
  by (induction xs) (simp_all add: act_bind_assoc, simp add: act_bind_def act_return_def)

lemma map_each_reads: "(\<And>x. f x s = (Inr (g x), s)) \<Longrightarrow> map_each f xs s = (Inr (map g xs), s)"
  by (induction xs) (simp_all add: act_simps)

text \<open>Python's \<open>range(n)\<close>.\<close>

definition py_range :: "int \<Rightarrow> int list" where
  "py_range n = map int [0..<nat n]"

lemma length_py_range [simp]: "length (py_range n) = nat n"
  by (simp add: py_range_def)

subsection \<open>Invariants of actions\<close>

text \<open>\<open>preserves I m\<close>: whatever the outcome, \<open>m\<close> leaves a state in \<open>I\<close>.\<close>

definition preserves :: "('s \<Rightarrow> bool) \<Rightarrow> ('s, 'a) act \<Rightarrow> bool" where
  "preserves I m \<longleftrightarrow> (\<forall>s. I s \<longrightarrow> I (snd (m s)))"

lemma preservesI: "(\<And>s. I s \<Longrightarrow> I (snd (m s))) \<Longrightarrow> preserves I m"
  by (simp add: preserves_def)

lemma preservesD: "preserves I m \<Longrightarrow> I s \<Longrightarrow> I (snd (m s))"
  by (simp add: preserves_def)

lemma preserves_basic [pres]:
  "preserves I (act_return x)" "preserves I (act_raise e)"
  "preserves I (act_read f)" "preserves I (act_gets g)"
  by (simp_all add: preserves_def act_simps)

lemma preserves_bind [pres]:
  "preserves I m \<Longrightarrow> (\<And>x. preserves I (f x)) \<Longrightarrow> preserves I (act_bind m f)"
  by (fastforce simp: preserves_def act_bind_def split: prod.split sum.split)

lemma preserves_if [pres]:
  "(c \<Longrightarrow> preserves I m) \<Longrightarrow> (\<not> c \<Longrightarrow> preserves I n) \<Longrightarrow> preserves I (if c then m else n)"
  by simp

lemma preserves_for_each [pres]:
  "(\<And>x. preserves I (f x)) \<Longrightarrow> preserves I (for_each f xs)"
  by (induction xs) (auto intro: pres)

lemma preserves_map_each [pres]:
  "(\<And>x. preserves I (f x)) \<Longrightarrow> preserves I (map_each f xs)"
  by (induction xs) (auto intro!: pres)

text \<open>\<open>err_keeps I m\<close>: an exception of \<open>m\<close> leaves a state in \<open>I\<close>.\<close>

definition err_keeps :: "('s \<Rightarrow> bool) \<Rightarrow> ('s, 'a) act \<Rightarrow> bool" where
  "err_keeps I m \<longleftrightarrow> (\<forall>s e t. I s \<longrightarrow> m s = (Inl e, t) \<longrightarrow> I t)"

lemma err_keepsD: "err_keeps I m \<Longrightarrow> I s \<Longrightarrow> m s = (Inl e, t) \<Longrightarrow> I t"
  by (simp add: err_keeps_def)

lemma err_keeps_preserves: "preserves I m \<Longrightarrow> err_keeps I m"
  by (force simp: preserves_def err_keeps_def)

lemma err_keeps_bind:
  "preserves I m \<Longrightarrow> (\<And>x. err_keeps I (f x)) \<Longrightarrow> err_keeps I (act_bind m f)"
  by (fastforce simp: err_keeps_def preserves_def act_bind_eq_Inl)

lemmas err_keeps_leaf = err_keeps_preserves [OF preserves_basic(1)]
  err_keeps_preserves [OF preserves_basic(2)] err_keeps_preserves [OF preserves_for_each]

lemma err_keeps_if:
  "err_keeps I m \<Longrightarrow> err_keeps I n \<Longrightarrow> err_keeps I (if c then m else n)"
  by simp

lemma preserves_after:
  "preserves I (f x) \<Longrightarrow> m s = (Inr x, t) \<Longrightarrow> I t \<Longrightarrow> I (snd (act_bind m f s))"
  by (simp add: act_bind_Inr preservesD)

subsection \<open>The exceptions of actions\<close>

text \<open>\<open>try: m; except <p>: h\<close>, and \<open>raises_only P m\<close>: every exception of \<open>m\<close> satisfies \<open>P\<close>.\<close>

definition act_catch :: "(exn \<Rightarrow> bool) \<Rightarrow> ('s, 'a) act \<Rightarrow> ('s, 'a) act \<Rightarrow> ('s, 'a) act" where
  "act_catch p m h s = (case m s of
     (Inl e, t) \<Rightarrow> if p e then h t else (Inl e, t) | (Inr x, t) \<Rightarrow> (Inr x, t))"

definition raises_only :: "(exn \<Rightarrow> bool) \<Rightarrow> ('s, 'a) act \<Rightarrow> bool" where
  "raises_only P m \<longleftrightarrow> (\<forall>s e t. m s = (Inl e, t) \<longrightarrow> P e)"

lemma raises_onlyI: "(\<And>s e t. m s = (Inl e, t) \<Longrightarrow> P e) \<Longrightarrow> raises_only P m"
  by (simp add: raises_only_def)

lemma raises_onlyD: "raises_only P m \<Longrightarrow> m s = (Inl e, t) \<Longrightarrow> P e"
  unfolding raises_only_def by blast

lemma raises_basic [errs]:
  "raises_only P (act_return x)" "raises_only P (act_gets g)" "raises_only P (act_modify f)"
  by (simp_all add: raises_only_def act_simps)

lemma raises_raise [errs]: "P e \<Longrightarrow> raises_only P (act_raise e)"
  by (simp add: raises_only_def act_simps)

lemma raises_read [errs]: "(\<And>s e. f s = Inl e \<Longrightarrow> P e) \<Longrightarrow> raises_only P (act_read f)"
  by (auto simp: raises_only_def act_simps)

lemma raises_bind [errs]:
  "raises_only P m \<Longrightarrow> (\<And>x. raises_only P (f x)) \<Longrightarrow> raises_only P (act_bind m f)"
  by (fastforce simp: raises_only_def act_bind_eq_Inl)

lemma raises_if [errs]:
  "(c \<Longrightarrow> raises_only P m) \<Longrightarrow> (\<not> c \<Longrightarrow> raises_only P n) \<Longrightarrow> raises_only P (if c then m else n)"
  by simp

lemma raises_for_each [errs]:
  "(\<And>x. x \<in> set xs \<Longrightarrow> raises_only P (f x)) \<Longrightarrow> raises_only P (for_each f xs)"
  by (induction xs) (auto intro: errs)

lemma raises_catch [errs]:
  "raises_only (\<lambda>e. \<not> p e \<longrightarrow> P e) m \<Longrightarrow> raises_only P h \<Longrightarrow> raises_only P (act_catch p m h)"
  by (fastforce simp: raises_only_def act_catch_def split: prod.splits sum.splits if_splits)

section \<open>Views of shared objects\<close>

text \<open>
  The Python objects hold references to shared FIFOs and memories. In the model the shared
  object is a part of a larger state, and a component's method runs on its view of that state.
\<close>

definition zoom :: "('s \<Rightarrow> 'v) \<Rightarrow> ('v \<Rightarrow> 's \<Rightarrow> 's) \<Rightarrow> ('v, 'a) act \<Rightarrow> ('s, 'a) act" where
  "zoom view put m s = (case m (view s) of (r, v) \<Rightarrow> (r, put v s))"

lemma zoom_apply [act_simps]: "m (view s) = (r, v) \<Longrightarrow> zoom view put m s = (r, put v s)"
  by (simp add: zoom_def)

locale lens =
  fixes view :: "'s \<Rightarrow> 'v"
    and put :: "'v \<Rightarrow> 's \<Rightarrow> 's"
  assumes view_put: "view (put v s) = v"
    and put_put: "put v (put w s) = put v s"
    and put_view: "put (view s) s = s"
begin

lemma zoom_return: "zoom view put (act_return x) = act_return x"
  by (rule ext) (simp add: zoom_def act_return_def put_view)

lemma zoom_bind:
  "zoom view put (act_bind m f) = act_bind (zoom view put m) (\<lambda>x. zoom view put (f x))"
  by (rule ext)
    (simp add: zoom_def act_bind_def view_put put_put split: prod.split sum.split)

lemma zoom_for_each:
  "zoom view put (for_each f xs) = for_each (\<lambda>x. zoom view put (f x)) xs"
  by (induction xs) (simp_all add: zoom_return zoom_bind)

lemma zoom_map_each:
  "zoom view put (map_each f xs) = map_each (\<lambda>x. zoom view put (f x)) xs"
  by (induction xs) (simp_all add: zoom_return zoom_bind)

lemma zoom_catch:
  "zoom view put (act_catch p m h) = act_catch p (zoom view put m) (zoom view put h)"
  by (rule ext) (simp add: zoom_def act_catch_def view_put put_put split: prod.split sum.split)

lemma zoom_raise: "zoom view put (act_raise e) = act_raise e"
  by (rule ext) (simp add: zoom_def act_raise_def put_view)

lemma zoom_preserves:
  "preserves J m \<Longrightarrow> (\<And>s. I s \<Longrightarrow> J (view s)) \<Longrightarrow> (\<And>s v. I s \<Longrightarrow> J v \<Longrightarrow> I (put v s)) \<Longrightarrow>
   preserves I (zoom view put m)"
  by (fastforce simp: preserves_def zoom_def split: prod.split)

end

section \<open>Simulations\<close>

text \<open>
  A sequence of calls, each with an outcome (an exception is an outcome the caller sees, and the
  next call runs on the state it left), and the contract of a refinement: related states stay
  related under every legal call, with equal outcomes.
\<close>

fun run_calls :: "('c \<Rightarrow> 's \<Rightarrow> 'o \<times> 's) \<Rightarrow> 'c list \<Rightarrow> 's \<Rightarrow> 'o list \<times> 's" where
  "run_calls f [] s = ([], s)"
| "run_calls f (c # cs) s =
     (case f c s of (out, t) \<Rightarrow> (case run_calls f cs t of (outs, u) \<Rightarrow> (out # outs, u)))"

locale simulation =
  fixes concrete :: "'c \<Rightarrow> 's \<Rightarrow> 'o \<times> 's"
    and abstract :: "'c \<Rightarrow> 'a \<Rightarrow> 'o \<times> 'a"
    and rel :: "'s \<Rightarrow> 'a \<Rightarrow> bool"
    and legal :: "'c \<Rightarrow> bool"
  assumes step_out: "rel s a \<Longrightarrow> legal c \<Longrightarrow> fst (concrete c s) = fst (abstract c a)"
    and step_rel: "rel s a \<Longrightarrow> legal c \<Longrightarrow> rel (snd (concrete c s)) (snd (abstract c a))"
begin

lemma run_simulates:
  "rel s a \<Longrightarrow> \<forall>c \<in> set cs. legal c \<Longrightarrow>
   fst (run_calls concrete cs s) = fst (run_calls abstract cs a) \<and>
   rel (snd (run_calls concrete cs s)) (snd (run_calls abstract cs a))"
proof (induction cs arbitrary: s a)
  case Nil
  then show ?case by simp
next
  case (Cons c cs)
  obtain x t y b where steps: "concrete c s = (x, t)" "abstract c a = (y, b)"
    by (cases "concrete c s"; cases "abstract c a")
  with Cons.prems step_out [of s a c] step_rel [of s a c] have "x = y" and "rel t b" by auto
  with Cons.IH [of t b] Cons.prems(2) steps show ?case
    by (auto split: prod.split)
qed

end

section \<open>Python indexing\<close>

text \<open>Negative indices count from the end; anything else out of range raises IndexError.\<close>

definition py_index :: "'a list \<Rightarrow> int \<Rightarrow> nat result" where
  "py_index xs i =
     (let j = (if i < 0 then i + int (length xs) else i)
      in if 0 \<le> j \<and> j < int (length xs) then Inr (nat j) else Inl IndexError)"

definition py_getitem :: "'a list \<Rightarrow> int \<Rightarrow> 'a result" where
  "py_getitem xs i = res_bind (py_index xs i) (\<lambda>j. Inr (xs ! j))"

definition py_setitem :: "'a list \<Rightarrow> int \<Rightarrow> 'a \<Rightarrow> 'a list result" where
  "py_setitem xs i x = res_bind (py_index xs i) (\<lambda>j. Inr (xs[j := x]))"

lemma py_getitem_in [simp]:
  "0 \<le> i \<Longrightarrow> i < int (length xs) \<Longrightarrow> py_getitem xs i = Inr (xs ! nat i)"
  by (simp add: py_getitem_def py_index_def)

lemma py_setitem_in [simp]:
  "0 \<le> i \<Longrightarrow> i < int (length xs) \<Longrightarrow> py_setitem xs i x = Inr (xs[nat i := x])"
  by (simp add: py_setitem_def py_index_def)

lemma py_getitem_out [simp]: "int (length xs) \<le> i \<Longrightarrow> py_getitem xs i = Inl IndexError"
  by (simp add: py_getitem_def py_index_def)

lemma py_setitem_out [simp]: "int (length xs) \<le> i \<Longrightarrow> py_setitem xs i x = Inl IndexError"
  by (simp add: py_setitem_def py_index_def)

lemma py_setitem_length: "py_setitem xs i x = Inr ys \<Longrightarrow> length ys = length xs"
  by (auto simp: py_setitem_def py_index_def Let_def split: if_splits)

section \<open>Masks and shifts\<close>

lemma and_mask_eq_mod: "(x::int) AND (2 ^ n - 1) = x mod 2 ^ n"
  by (simp add: take_bit_eq_mask [symmetric] mask_eq_exp_minus_1 [symmetric] take_bit_eq_mod)

lemma and_masks [bits]:
  "(x::int) AND 4294967295 = x mod 4294967296"
  "x AND 255 = x mod 256"
  "x AND 7 = x mod 8"
  "x AND 3 = x mod 4"
  "x AND 1 = x mod 2"
  using and_mask_eq_mod [of x 32] and_mask_eq_mod [of x 8] and_mask_eq_mod [of x 3]
    and_mask_eq_mod [of x 2] and_mask_eq_mod [of x 1] by simp_all

lemma or_push_bit_add:
  fixes a b :: int
  assumes "0 \<le> a" and "a < 2 ^ n"
  shows "a OR push_bit n b = a + 2 ^ n * b"
proof -
  have "take_bit n a AND push_bit n b = 0"
    by (rule bit_eqI) (simp add: bit_simps)
  then have "a AND push_bit n b = 0"
    using assms by (simp add: take_bit_int_eq_self)
  then have "a OR push_bit n b = a + push_bit n b"
    using plus_and_or [of a "push_bit n b"] by simp
  then show ?thesis by (simp add: push_bit_eq_mult mult.commute)
qed

end
