(* ===== verification/Fifo_Queue.thy ===== *)
theory Fifo_Queue
  imports Dma_Prelude
begin

text \<open>
  The bounded FIFO of \<open>source/fifo_queue.py\<close>. The locale \<open>bounded_queue\<close> is the interface the
  AXI master, the SRAM controller and the descriptor fetcher rely on: what enqueue and dequeue do
  to the queued items, and that a rejected call changes nothing. Its lemmas say what a loop of
  enqueues or of dequeues does; the interpretation \<open>fq\<close> gives them for the code's FIFO.
\<close>

section \<open>The interface\<close>

locale bounded_queue = items: lens items set_items
  for items :: "'q \<Rightarrow> 'a list" and set_items :: "'a list \<Rightarrow> 'q \<Rightarrow> 'q" +
  fixes enq :: "'a \<Rightarrow> ('q, unit) act"
    and deq :: "('q, 'a) act"
    and capacity :: "'q \<Rightarrow> int"
    and full_exn :: "'q \<Rightarrow> exn"
    and empty_exn :: "'q \<Rightarrow> exn"
  assumes capacity_set: "capacity (set_items xs q) = capacity q"
    and full_exn_set: "full_exn (set_items xs q) = full_exn q"
    and empty_exn_set: "empty_exn (set_items xs q) = empty_exn q"
    and enq_room: "int (length (items q)) < capacity q \<Longrightarrow>
      enq x q = (Inr (), set_items (items q @ [x]) q)"
    and enq_full: "int (length (items q)) = capacity q \<Longrightarrow> enq x q = (Inl (full_exn q), q)"
    and deq_some: "items q = x # xs \<Longrightarrow> deq q = (Inr x, set_items xs q)"
    and deq_none: "items q = [] \<Longrightarrow> deq q = (Inl (empty_exn q), q)"
begin

lemma enq_all:
  "int (length (items q)) + int (length xs) \<le> capacity q \<Longrightarrow>
   for_each enq xs q = (Inr (), set_items (items q @ xs) q)"
proof (induction xs arbitrary: q)
  case Nil
  then show ?case by (simp add: act_return_apply items.put_view)
next
  case (Cons x xs)
  let ?q = "set_items (items q @ [x]) q"
  from Cons.prems have step: "enq x q = (Inr (), ?q)" by (intro enq_room) simp
  from Cons.prems have "for_each enq xs ?q = (Inr (), set_items (items ?q @ xs) ?q)"
    by (intro Cons.IH) (simp add: items.view_put capacity_set)
  with step show ?case by (simp add: act_bind_Inr items.view_put items.put_put)
qed

text \<open>A loop of enqueues that does not fit fills the queue and then raises.\<close>

lemma enq_all_overflow:
  assumes "int (length (items q)) + int (length xs) > capacity q"
    and "int (length (items q)) \<le> capacity q"
  shows "for_each enq xs q =
    (Inl (full_exn q), set_items (take (nat (capacity q)) (items q @ xs)) q)"
proof -
  define k where "k = nat (capacity q) - length (items q)"
  from assms have k: "k < length xs" "int (length (items q)) + int k = capacity q"
    by (auto simp: k_def)
  let ?q = "set_items (items q @ take k xs) q"
  have split: "xs = take k xs @ xs ! k # drop (Suc k) xs"
    using k(1) by (simp add: id_take_nth_drop [symmetric])
  have fill: "for_each enq (take k xs) q = (Inr (), ?q)"
    using k by (intro enq_all) simp
  have "enq (xs ! k) ?q = (Inl (full_exn ?q), ?q)"
    using k by (intro enq_full) (simp add: items.view_put capacity_set)
  then have "for_each enq xs q = (Inl (full_exn q), ?q)"
    by (subst split) (simp add: for_each_append act_bind_Inr fill act_bind_Inl full_exn_set)
  with assms(2) show ?thesis by (simp add: k_def take_all)
qed

lemma deq_all:
  "n \<le> length (items q) \<Longrightarrow> length ks = n \<Longrightarrow>
   map_each (\<lambda>_. deq) ks q = (Inr (take n (items q)), set_items (drop n (items q)) q)"
proof (induction ks arbitrary: q n)
  case Nil
  then show ?case by (simp add: act_return_apply items.put_view)
next
  case (Cons k ks)
  then obtain x xs where q: "items q = x # xs" by (cases "items q") auto
  from Cons.prems q have "map_each (\<lambda>_. deq) ks (set_items xs q) =
      (Inr (take (length ks) (items (set_items xs q))),
       set_items (drop (length ks) (items (set_items xs q))) (set_items xs q))"
    by (intro Cons.IH) (auto simp: items.view_put)
  then show ?case
    using Cons.prems q
    by (auto simp: act_bind_def act_return_def deq_some items.view_put items.put_put)
qed

text \<open>First in, first out: what a loop enqueues, a loop of as many dequeues returns in order.\<close>

lemma enq_all_deq_all:
  assumes "items q = []" and "int (length xs) \<le> capacity q" and "length ks = length xs"
  shows "act_bind (for_each enq xs) (\<lambda>_. map_each (\<lambda>_. deq) ks) q = (Inr xs, q)"
proof -
  have "for_each enq xs q = (Inr (), set_items xs q)"
    using assms enq_all [of q xs] by simp
  moreover have "map_each (\<lambda>_. deq) ks (set_items xs q) = (Inr xs, q)"
    using assms deq_all [of "length xs" "set_items xs q" ks]
    by (simp add: items.view_put items.put_put) (metis items.put_view)
  ultimately show ?thesis by (simp add: act_bind_Inr)
qed

end

section \<open>The FIFO of the code\<close>

record fifo =
  fifo_id :: string
  queue_length :: int
  buffer :: "int list"

definition fifo_init :: "string \<Rightarrow> int \<Rightarrow> fifo result" where
  "fifo_init i n =
     (if n \<le> 0 then Inl (ValueError FifoLength)
      else Inr \<lparr>fifo_id = i, queue_length = n, buffer = []\<rparr>)"

definition fifo_is_empty :: "fifo \<Rightarrow> bool" where
  "fifo_is_empty q \<longleftrightarrow> length (buffer q) = 0"

definition fifo_is_full :: "fifo \<Rightarrow> bool" where
  "fifo_is_full q \<longleftrightarrow> int (length (buffer q)) = queue_length q"

definition fifo_enqueue :: "int \<Rightarrow> (fifo, unit) act" where
  "fifo_enqueue v q =
     (if fifo_is_full q then (Inl (RuntimeError (FifoOverflow (fifo_id q))), q)
      else (Inr (), q\<lparr>buffer := buffer q @ [v]\<rparr>))"

definition fifo_dequeue :: "(fifo, int) act" where
  "fifo_dequeue q =
     (if fifo_is_empty q then (Inl (RuntimeError (FifoEmpty (fifo_id q))), q)
      else (Inr (hd (buffer q)), q\<lparr>buffer := tl (buffer q)\<rparr>))"

definition fifo_peek :: "fifo \<Rightarrow> int" where
  "fifo_peek q = (if fifo_is_empty q then 0 else hd (buffer q))"

definition fifo_clear :: "(fifo, unit) act" where
  "fifo_clear = act_modify (\<lambda>q. q\<lparr>buffer := []\<rparr>)"

definition fifo_len :: "fifo \<Rightarrow> int" where
  "fifo_len q = int (length (buffer q))"

abbreviation set_buffer :: "int list \<Rightarrow> fifo \<Rightarrow> fifo" where
  "set_buffer xs q \<equiv> q\<lparr>buffer := xs\<rparr>"

interpretation fq: bounded_queue buffer set_buffer fifo_enqueue fifo_dequeue queue_length
  "\<lambda>q. RuntimeError (FifoOverflow (fifo_id q))" "\<lambda>q. RuntimeError (FifoEmpty (fifo_id q))"
  by unfold_locales
    (auto simp: fifo_enqueue_def fifo_dequeue_def fifo_is_full_def fifo_is_empty_def)

lemmas fifo_defs = fifo_is_empty_def fifo_is_full_def fifo_enqueue_def fifo_dequeue_def
  fifo_peek_def fifo_clear_def fifo_len_def

text \<open>The class invariant: a positive capacity that the buffer never exceeds.\<close>

definition fifo_ok :: "fifo \<Rightarrow> bool" where
  "fifo_ok q \<longleftrightarrow> 0 < queue_length q \<and> int (length (buffer q)) \<le> queue_length q"

lemma fifo_init_ok: "fifo_init i n = Inr q \<Longrightarrow> fifo_ok q \<and> buffer q = []"
  by (auto simp: fifo_init_def fifo_ok_def split: if_splits)

lemma fifo_ok_empty [simp]: "fifo_ok q \<Longrightarrow> fifo_ok (q\<lparr>buffer := []\<rparr>)"
  by (simp add: fifo_ok_def)

lemma fifo_enqueue_preserves [pres]: "preserves fifo_ok (fifo_enqueue v)"
  by (rule preservesI) (auto simp: fifo_ok_def fifo_defs)

lemma fifo_dequeue_preserves [pres]: "preserves fifo_ok fifo_dequeue"
  by (rule preservesI) (auto simp: fifo_ok_def fifo_defs)

lemma fifo_clear_preserves [pres]: "preserves fifo_ok fifo_clear"
  by (rule preservesI) (auto simp: fifo_ok_def fifo_defs act_simps)

section \<open>Properties\<close>

text \<open>
  A FIFO that starts empty returns what a loop of enqueues put in, in the same order, and is
  then empty again, as long as the burst fits its length.
\<close>

theorem fifo_order:
  assumes "buffer q = []" and "int (length xs) \<le> queue_length q"
  shows "act_bind (for_each fifo_enqueue xs)
      (\<lambda>_. map_each (\<lambda>_. fifo_dequeue) (py_range (int (length xs)))) q = (Inr xs, q)"
  using assms by (intro fq.enq_all_deq_all) simp_all

theorem fifo_order_witness:
  "act_bind (for_each fifo_enqueue [7, 8, 9])
      (\<lambda>_. map_each (\<lambda>_. fifo_dequeue) (py_range (int (length [7, 8, 9::int]))))
      \<lparr>fifo_id = ''mid'', queue_length = 4, buffer = []\<rparr>
    = (Inr [7, 8, 9], \<lparr>fifo_id = ''mid'', queue_length = 4, buffer = []\<rparr>)"
  by (rule fifo_order) simp_all

end
