(* ===== verification/Memory_Model.thy ===== *)
theory Memory_Model
  imports Dma_Prelude
begin

text \<open>
  The two backing stores, \<open>source/memory.py\<close> and \<open>source/sram.py\<close>, and the specification of a
  burst: \<open>load_block\<close> and \<open>store_block\<close> say which words a read or a write of consecutive words
  touches. The locale \<open>block_store\<close> states the laws of a burst memory and derives what copying a
  block from one place to another does; both bursts of the code are shown to refine it later.
\<close>

section \<open>The stores\<close>

record sysmem =
  sm_size :: int
  sm_mem :: "int list"

definition system_memory_init :: "int \<Rightarrow> sysmem result" where
  "system_memory_init n =
     (if n \<le> 0 then Inl (ValueError MemorySize)
      else Inr \<lparr>sm_size = n, sm_mem = replicate (nat n) 0\<rparr>)"

definition BRAM_SIZE :: int where
  "BRAM_SIZE = 1024"

record sram =
  sr_size :: int
  sr_mem :: "int list"

text \<open>\<open>None\<close> is Python's default argument.\<close>

definition sram_init :: "int option \<Rightarrow> sram result" where
  "sram_init size_opt =
     (let sz = (case size_opt of None \<Rightarrow> BRAM_SIZE | Some n \<Rightarrow> n)
      in if sz \<le> 0 then Inl (ValueError SramSize)
         else Inr \<lparr>sr_size = sz, sr_mem = replicate (nat sz) 0\<rparr>)"

text \<open>A memory image holds 32-bit words.\<close>

definition u32s :: "int list \<Rightarrow> bool" where
  "u32s ws \<longleftrightarrow> (\<forall>w \<in> set ws. 0 \<le> w \<and> w < 2 ^ 32)"

definition sysmem_ok :: "sysmem \<Rightarrow> bool" where
  "sysmem_ok m \<longleftrightarrow> 0 < sm_size m \<and> int (length (sm_mem m)) = sm_size m \<and> u32s (sm_mem m)"

definition sram_ok :: "sram \<Rightarrow> bool" where
  "sram_ok m \<longleftrightarrow> 0 < sr_size m \<and> int (length (sr_mem m)) = sr_size m \<and> u32s (sr_mem m)"

lemma system_memory_init_ok: "system_memory_init n = Inr m \<Longrightarrow> sysmem_ok m"
  by (auto simp: system_memory_init_def sysmem_ok_def u32s_def split: if_splits)

lemma sram_init_ok: "sram_init n = Inr m \<Longrightarrow> sram_ok m"
  by (auto simp: sram_init_def sram_ok_def u32s_def Let_def split: if_splits)

lemma u32s_append [simp]: "u32s (xs @ ys) \<longleftrightarrow> u32s xs \<and> u32s ys"
  by (auto simp: u32s_def)

lemma u32s_Nil [simp]: "u32s []"
  by (simp add: u32s_def)

lemma u32s_Cons [simp]: "u32s (x # xs) \<longleftrightarrow> 0 \<le> x \<and> x < 2 ^ 32 \<and> u32s xs"
  by (auto simp: u32s_def)

lemma u32s_take [intro]: "u32s xs \<Longrightarrow> u32s (take n xs)"
  by (auto simp: u32s_def dest: in_set_takeD)

lemma u32s_drop [intro]: "u32s xs \<Longrightarrow> u32s (drop n xs)"
  by (auto simp: u32s_def dest: in_set_dropD)

lemma u32s_nth: "u32s xs \<Longrightarrow> i < length xs \<Longrightarrow> 0 \<le> xs ! i \<and> xs ! i < 2 ^ 32"
  by (simp add: u32s_def)

lemma u32s_update [intro]: "u32s xs \<Longrightarrow> 0 \<le> w \<Longrightarrow> w < 2 ^ 32 \<Longrightarrow> u32s (xs[i := w])"
  by (auto simp: u32s_def dest!: set_update_subset_insert [THEN subsetD])

lemma u32s_masked [simp]: "u32s (map (\<lambda>w. w mod 4294967296) ws)"
  by (auto simp: u32s_def)

lemma u32s_map_mod [simp]: "u32s ws \<Longrightarrow> map (\<lambda>w. w mod 4294967296) ws = ws"
  by (auto simp: u32s_def intro: map_idI)

section \<open>Bursts\<close>

definition load_block :: "int list \<Rightarrow> nat \<Rightarrow> nat \<Rightarrow> int list" where
  "load_block mem w n = take n (drop w mem)"

definition store_block :: "int list \<Rightarrow> nat \<Rightarrow> int list \<Rightarrow> int list" where
  "store_block mem w ws = take w mem @ ws @ drop (w + length ws) mem"

locale block_store =
  fixes words :: "'m \<Rightarrow> nat"
    and load :: "'m \<Rightarrow> nat \<Rightarrow> nat \<Rightarrow> int list"
    and store :: "'m \<Rightarrow> nat \<Rightarrow> int list \<Rightarrow> 'm"
  assumes words_store: "w + length ws \<le> words m \<Longrightarrow> words (store m w ws) = words m"
    and length_load: "w + n \<le> words m \<Longrightarrow> length (load m w n) = n"
    and load_store_same: "w + length ws \<le> words m \<Longrightarrow> load (store m w ws) w (length ws) = ws"
    and load_store_apart: "w + length ws \<le> words m \<Longrightarrow> v + n \<le> w \<or> w + length ws \<le> v \<Longrightarrow>
      load (store m w ws) v n = load m v n"
begin

text \<open>Storing a block of one memory into another, and what it leaves alone.\<close>

lemma load_copied:
  assumes "src + n \<le> words m" and "dst + n \<le> words m'"
  shows "load (store m' dst (load m src n)) dst n = load m src n"
  using load_store_same [of dst "load m src n" m'] assms by (simp add: length_load)

lemma load_beside_copy:
  assumes "src + n \<le> words m" and "dst + n \<le> words m'" and "v + k \<le> dst \<or> dst + n \<le> v"
  shows "load (store m' dst (load m src n)) v k = load m' v k"
  using assms by (intro load_store_apart) (simp_all add: length_load)

end

lemma length_load_block [simp]: "w + n \<le> length mem \<Longrightarrow> length (load_block mem w n) = n"
  by (simp add: load_block_def)

lemma length_store_block [simp]:
  "w + length ws \<le> length mem \<Longrightarrow> length (store_block mem w ws) = length mem"
  by (simp add: store_block_def)

lemma load_block_nth: "w + n \<le> length mem \<Longrightarrow> i < n \<Longrightarrow> load_block mem w n ! i = mem ! (w + i)"
  by (simp add: load_block_def)

lemma store_block_nth:
  "w + length ws \<le> length mem \<Longrightarrow> j < length mem \<Longrightarrow>
   store_block mem w ws ! j = (if w \<le> j \<and> j < w + length ws then ws ! (j - w) else mem ! j)"
  by (auto simp: store_block_def nth_append)

lemma load_block_eqI:
  assumes "v + n \<le> length mem" and "v + n \<le> length mem'"
    and "\<And>i. i < n \<Longrightarrow> mem ! (v + i) = mem' ! (v + i)"
  shows "load_block mem v n = load_block mem' v n"
  using assms by (intro nth_equalityI) (simp_all add: load_block_nth)

lemma load_store_block_apart:
  assumes "w + length ws \<le> length mem" and "v + n \<le> w \<or> w + length ws \<le> v"
  shows "load_block (store_block mem w ws) v n = load_block mem v n"
  using assms
  by (cases "v + n \<le> w") (auto simp: load_block_def store_block_def drop_take min_absorb1)

lemma u32s_load_block [intro]: "u32s mem \<Longrightarrow> u32s (load_block mem w n)"
  by (auto simp: load_block_def)

lemma u32s_store_block [intro]: "u32s mem \<Longrightarrow> u32s ws \<Longrightarrow> u32s (store_block mem w ws)"
  by (auto simp: store_block_def)

lemma store_block_empty [simp]: "store_block mem w [] = mem"
  by (simp add: store_block_def)

lemma load_block_0 [simp]: "load_block mem w 0 = []"
  by (simp add: load_block_def)

interpretation blk: block_store length load_block store_block
  by unfold_locales (simp_all add: load_store_block_apart, simp add: load_block_def store_block_def)

text \<open>The code reads and writes word by word; both loops are the block operations.\<close>

lemma map_nth_range:
  assumes "w + n \<le> length mem"
  shows "map (\<lambda>i. f (mem ! nat (int w + i))) (py_range (int n)) = map f (load_block mem w n)"
  using assms by (intro nth_equalityI) (simp_all add: py_range_def load_block_nth nat_add_distrib)

definition write_words :: "int list \<Rightarrow> int \<Rightarrow> int list \<Rightarrow> int list" where
  "write_words mem w0 ws =
     fold (\<lambda>(i, w) m. m[nat (w0 + int i) := w AND 0xFFFFFFFF]) (enumerate 0 ws) mem"

lemma store_block_snoc:
  assumes "w + length ws < length mem"
  shows "store_block mem w (ws @ [x]) = (store_block mem w ws)[w + length ws := x]"
  using assms by (intro nth_equalityI) (auto simp: store_block_nth nth_append nth_list_update)

lemma write_words_block:
  assumes "0 \<le> w0" and "nat w0 + length ws \<le> length mem"
  shows "write_words mem w0 ws = store_block mem (nat w0) (map (\<lambda>w. w mod 4294967296) ws)"
  using assms(2)
proof (induction ws rule: rev_induct)
  case Nil
  then show ?case by (simp add: write_words_def)
next
  case (snoc w ws)
  then have "write_words mem w0 (ws @ [w]) =
      (store_block mem (nat w0) (map (\<lambda>w. w mod 4294967296) ws))
        [nat (w0 + int (length ws)) := w mod 4294967296]"
    by (simp add: write_words_def enumerate_append_eq bits)
  also have "nat (w0 + int (length ws)) = nat w0 + length (map (\<lambda>w. w mod 4294967296) ws)"
    using assms(1) by (simp add: nat_add_distrib)
  finally show ?case
    using snoc.prems by (simp add: store_block_snoc)
qed

end
