(* ===== verification/Csr_Model.thy ===== *)
theory Csr_Model
  imports Dma_Prelude "HOL-Library.AList"
begin

text \<open>
  The control and status registers, \<open>source/csr.py\<close>. The Python dictionary is an association
  list (a dictionary keeps its insertion order), updated in place. The theory proves the register
  invariant over every reachable register file, what each register's access rule lets software do,
  and gives the ring manager its pointer interface, the locale \<open>pointer_regs\<close>.
\<close>

section \<open>Register offsets and bit positions\<close>

definition REG_BASEADDR :: int where "REG_BASEADDR = 0x00"
definition REG_RINGLEN :: int where "REG_RINGLEN = 0x04"
definition REG_HEAD :: int where "REG_HEAD = 0x08"
definition REG_TAIL :: int where "REG_TAIL = 0x0C"
definition REG_CTRL :: int where "REG_CTRL = 0x10"
definition REG_STATUS :: int where "REG_STATUS = 0x14"
definition REG_IRQ_STATUS :: int where "REG_IRQ_STATUS = 0x18"
definition REG_IRQ_CLEAR :: int where "REG_IRQ_CLEAR = 0x2C"

definition ENABLE_BIT :: nat where "ENABLE_BIT = 0"
definition RESET_BIT :: nat where "RESET_BIT = 1"
definition IRQ_EN_BIT :: nat where "IRQ_EN_BIT = 2"
definition BUSY_BIT :: nat where "BUSY_BIT = 0"
definition RING_EMPTY_BIT :: nat where "RING_EMPTY_BIT = 1"
definition ERROR_BIT :: nat where "ERROR_BIT = 2"
definition IRQ_EMPTY_BIT :: nat where "IRQ_EMPTY_BIT = 0"
definition IRQ_ERROR_BIT :: nat where "IRQ_ERROR_BIT = 1"

lemmas reg_offsets = REG_BASEADDR_def REG_RINGLEN_def REG_HEAD_def REG_TAIL_def REG_CTRL_def
  REG_STATUS_def REG_IRQ_STATUS_def REG_IRQ_CLEAR_def

lemmas bit_positions = ENABLE_BIT_def RESET_BIT_def IRQ_EN_BIT_def BUSY_BIT_def
  RING_EMPTY_BIT_def ERROR_BIT_def IRQ_EMPTY_BIT_def IRQ_ERROR_BIT_def

section \<open>The register file\<close>

record csr =
  regs :: "(int \<times> int) list"

text \<open>
  \<open>reg\<close> is both \<open>self._regs.get(k, 0)\<close> and \<open>self._regs[k]\<close>: the code indexes only with the
  eight keys of the constructor, which no operation removes (\<open>csr_ok\<close> below).
\<close>

definition reg :: "csr \<Rightarrow> int \<Rightarrow> int" where
  "reg c k = (case map_of (regs c) k of None \<Rightarrow> 0 | Some v \<Rightarrow> v)"

definition set_reg :: "int \<Rightarrow> int \<Rightarrow> csr \<Rightarrow> csr" where
  "set_reg k v c = c\<lparr>regs := AList.update k v (regs c)\<rparr>"

definition csr_init :: csr where
  "csr_init = \<lparr>regs =
     [(REG_BASEADDR, 0), (REG_RINGLEN, 0), (REG_HEAD, 0), (REG_TAIL, 0),
      (REG_CTRL, 0), (REG_STATUS, 0), (REG_IRQ_STATUS, 0), (REG_IRQ_CLEAR, 0)]\<rparr>"

text \<open>\<open>self._regs[k] &= ~(1 << b)\<close> and \<open>self._regs[k] |= (1 << b)\<close>.\<close>

definition clear_bit :: "int \<Rightarrow> nat \<Rightarrow> csr \<Rightarrow> csr" where
  "clear_bit k b c = set_reg k (reg c k AND NOT (push_bit b 1)) c"

definition raise_bit :: "int \<Rightarrow> nat \<Rightarrow> csr \<Rightarrow> csr" where
  "raise_bit k b c = set_reg k (reg c k OR push_bit b 1) c"

definition csr_write :: "int \<Rightarrow> int \<Rightarrow> csr \<Rightarrow> csr" where
  "csr_write offset data c =
     (if offset = REG_HEAD \<or> offset = REG_STATUS then c
      else if offset = REG_IRQ_CLEAR then
        (let c1 = (if data AND push_bit IRQ_EMPTY_BIT 1 \<noteq> 0
                   then clear_bit REG_IRQ_STATUS IRQ_EMPTY_BIT c else c)
         in if data AND push_bit IRQ_ERROR_BIT 1 \<noteq> 0
            then clear_bit REG_STATUS ERROR_BIT (clear_bit REG_IRQ_STATUS IRQ_ERROR_BIT c1)
            else c1)
      else if offset = REG_CTRL then set_reg REG_CTRL (data AND 0x7) c
      else set_reg offset (data AND 0xFFFFFFFF) c)"

definition csr_read :: "csr \<Rightarrow> int \<Rightarrow> int" where
  "csr_read c offset = reg c offset"

definition hw_set_head :: "int \<Rightarrow> csr \<Rightarrow> csr" where
  "hw_set_head head c = set_reg REG_HEAD (head AND 0xFFFFFFFF) c"

definition hw_set_busy :: "bool \<Rightarrow> csr \<Rightarrow> csr" where
  "hw_set_busy busy c =
     (if busy then raise_bit REG_STATUS BUSY_BIT c else clear_bit REG_STATUS BUSY_BIT c)"

definition hw_set_ring_empty :: "bool \<Rightarrow> csr \<Rightarrow> csr" where
  "hw_set_ring_empty emp c =
     (if emp then raise_bit REG_STATUS RING_EMPTY_BIT c
      else clear_bit REG_STATUS RING_EMPTY_BIT c)"

definition hw_set_error :: "csr \<Rightarrow> csr" where
  "hw_set_error c = raise_bit REG_IRQ_STATUS IRQ_ERROR_BIT (raise_bit REG_STATUS ERROR_BIT c)"

definition hw_set_empty_irq :: "csr \<Rightarrow> csr" where
  "hw_set_empty_irq c = raise_bit REG_IRQ_STATUS IRQ_EMPTY_BIT c"

definition is_enabled :: "csr \<Rightarrow> bool" where
  "is_enabled c \<longleftrightarrow> reg c REG_CTRL AND push_bit ENABLE_BIT 1 \<noteq> 0"

definition is_reset :: "csr \<Rightarrow> bool" where
  "is_reset c \<longleftrightarrow> reg c REG_CTRL AND push_bit RESET_BIT 1 \<noteq> 0"

definition irq_en :: "csr \<Rightarrow> bool" where
  "irq_en c \<longleftrightarrow> reg c REG_CTRL AND push_bit IRQ_EN_BIT 1 \<noteq> 0"

definition csr_baseaddr :: "csr \<Rightarrow> int" where
  "csr_baseaddr c = reg c REG_BASEADDR"

definition csr_ringlen :: "csr \<Rightarrow> int" where
  "csr_ringlen c = reg c REG_RINGLEN"

definition csr_tail :: "csr \<Rightarrow> int" where
  "csr_tail c = reg c REG_TAIL"

lemmas csr_ops = csr_write_def hw_set_head_def hw_set_busy_def hw_set_ring_empty_def
  hw_set_error_def hw_set_empty_irq_def

section \<open>Reading back\<close>

lemma reg_set_reg [simp]: "reg (set_reg k v c) k' = (if k' = k then v else reg c k')"
  by (simp add: reg_def set_reg_def update_conv')

lemma reg_clear_bit [simp]:
  "reg (clear_bit k b c) k' = (if k' = k then unset_bit b (reg c k) else reg c k')"
  by (simp add: clear_bit_def unset_bit_eq_and_not)

lemma reg_raise_bit [simp]:
  "reg (raise_bit k b c) k' = (if k' = k then set_bit b (reg c k) else reg c k')"
  by (simp add: raise_bit_def set_bit_eq_or)

lemma test_bit_eq: "(x::int) AND push_bit n 1 \<noteq> 0 \<longleftrightarrow> bit x n"
  by (simp add: bit_iff_and_push_bit_not_eq_0)

lemma ctrl_bits:
  "is_enabled c \<longleftrightarrow> bit (reg c REG_CTRL) 0"
  "is_reset c \<longleftrightarrow> bit (reg c REG_CTRL) 1"
  "irq_en c \<longleftrightarrow> bit (reg c REG_CTRL) 2"
  by (simp_all only: is_enabled_def is_reset_def irq_en_def bit_positions test_bit_eq)

text \<open>A write, register by register.\<close>

lemma reg_csr_write_plain:
  "offset \<notin> {REG_HEAD, REG_STATUS, REG_IRQ_CLEAR, REG_CTRL} \<Longrightarrow>
   reg (csr_write offset data c) k = (if k = offset then data mod 2 ^ 32 else reg c k)"
  by (simp add: csr_write_def bits)

lemma reg_csr_write_ctrl:
  "reg (csr_write REG_CTRL data c) k = (if k = REG_CTRL then data mod 8 else reg c k)"
  by (simp add: csr_write_def reg_offsets bits)

lemma csr_write_read_only:
  "offset \<in> {REG_HEAD, REG_STATUS} \<Longrightarrow> csr_write offset data c = c"
  by (simp add: csr_write_def)

lemma reg_csr_write_clear:
  "reg (csr_write REG_IRQ_CLEAR data c) k =
     (if k = REG_IRQ_STATUS then
        (if bit data 1 then unset_bit 1 else id) ((if bit data 0 then unset_bit 0 else id)
          (reg c REG_IRQ_STATUS))
      else if k = REG_STATUS \<and> bit data 1 then unset_bit 2 (reg c REG_STATUS)
      else reg c k)"
  unfolding csr_write_def bit_positions test_bit_eq by (simp add: reg_offsets)

section \<open>The register invariant\<close>

text \<open>
  Every key of the constructor is present, every stored value is a 32-bit word, and the reserved
  bits of CTRL and STATUS are zero.
\<close>

definition csr_keys :: "int list" where
  "csr_keys = [REG_BASEADDR, REG_RINGLEN, REG_HEAD, REG_TAIL, REG_CTRL, REG_STATUS,
     REG_IRQ_STATUS, REG_IRQ_CLEAR]"

definition csr_ok :: "csr \<Rightarrow> bool" where
  "csr_ok c \<longleftrightarrow> set csr_keys \<subseteq> fst ` set (regs c) \<and>
     (\<forall>(k, v) \<in> set (regs c). 0 \<le> v \<and> v < 2 ^ 32) \<and>
     reg c REG_CTRL < 8 \<and> reg c REG_STATUS < 8"

lemma set_update_subset: "set (AList.update k v al) \<subseteq> insert (k, v) (set al)"
  by (induction al) auto

lemma set_reg_words:
  assumes "\<forall>(k, v) \<in> set (regs c). 0 \<le> v \<and> v < 2 ^ 32" and "0 \<le> v" and "v < 2 ^ 32"
  shows "\<forall>(k, v) \<in> set (regs (set_reg k v c)). 0 \<le> v \<and> v < 2 ^ 32"
  using assms set_update_subset [of k v "regs c"] by (auto simp: set_reg_def)

lemma reg_csr_init: "reg csr_init k = 0"
  by (simp add: csr_init_def reg_def)

lemma csr_ok_init: "csr_ok csr_init"
  by (simp add: csr_ok_def csr_init_def csr_keys_def reg_def reg_offsets)

lemma csr_ok_reg: "csr_ok c \<Longrightarrow> 0 \<le> reg c k \<and> reg c k < 2 ^ 32"
  by (auto simp: csr_ok_def reg_def split: option.split dest: map_of_SomeD)

lemma csr_ok_set_reg:
  assumes "csr_ok c" and "0 \<le> v" and "v < 2 ^ 32"
    and "k \<in> {REG_CTRL, REG_STATUS} \<Longrightarrow> v < 8"
  shows "csr_ok (set_reg k v c)"
proof -
  have "set csr_keys \<subseteq> fst ` set (regs (set_reg k v c))"
    using assms(1) by (auto simp: csr_ok_def set_reg_def dom_update)
  then show ?thesis
    using assms set_reg_words [of c v k] by (auto simp: csr_ok_def)
qed

lemma unset_bit_range: "0 \<le> x \<Longrightarrow> x < 2 ^ n \<Longrightarrow> 0 \<le> unset_bit b x \<and> unset_bit b x < 2 ^ n"
  for x :: int
  using unset_bit_less_eq [of b x] by (simp add: unset_bit_nonnegative_int_iff)

lemma set_bit_range:
  fixes x :: int
  assumes "0 \<le> x" and "x < 2 ^ n" and "b < n"
  shows "0 \<le> set_bit b x \<and> set_bit b x < 2 ^ n"
proof -
  have "take_bit n (set_bit b x) = set_bit b x"
    using assms by (simp add: take_bit_set_bit_eq take_bit_int_eq_self)
  then show ?thesis by (metis take_bit_int_less_exp take_bit_nonnegative)
qed

lemma csr_ok_small: "csr_ok c \<Longrightarrow> 0 \<le> reg c REG_STATUS \<and> reg c REG_STATUS < 2 ^ 3"
  using csr_ok_reg [of c REG_STATUS] by (simp add: csr_ok_def)

lemma csr_ok_clear_bit:
  assumes "csr_ok c" and "k \<noteq> REG_CTRL"
  shows "csr_ok (clear_bit k b c)"
  unfolding clear_bit_def unset_bit_eq_and_not [symmetric]
  using assms unset_bit_range [of "reg c k" 32 b] unset_bit_range [of "reg c k" 3 b]
    csr_ok_small [of c] csr_ok_reg [of c k]
  by (intro csr_ok_set_reg) auto

lemma csr_ok_raise_bit:
  assumes "csr_ok c" and "k \<noteq> REG_CTRL" and "b < 3"
  shows "csr_ok (raise_bit k b c)"
  unfolding raise_bit_def set_bit_eq_or [symmetric]
  using assms set_bit_range [of "reg c k" 32 b] set_bit_range [of "reg c k" 3 b]
    csr_ok_small [of c] csr_ok_reg [of c k]
  by (intro csr_ok_set_reg) auto

lemma csr_ok_write:
  assumes "csr_ok c"
  shows "csr_ok (csr_write offset data c)"
proof -
  have clear: "csr_ok (csr_write REG_IRQ_CLEAR data c)"
    using assms unfolding csr_write_def Let_def
    by (auto intro!: csr_ok_clear_bit simp: reg_offsets)
  have ctrl: "csr_ok (csr_write REG_CTRL data c)"
    using assms pos_mod_bound [of 8 data] unfolding csr_write_def
    by (auto intro!: csr_ok_set_reg simp: bits reg_offsets)
  have plain: "csr_ok (set_reg offset (data AND 0xFFFFFFFF) c)"
    if "offset \<notin> {REG_STATUS, REG_CTRL}"
    using that assms by (intro csr_ok_set_reg) (auto simp: bits)
  show ?thesis
    using assms clear ctrl plain by (auto simp: csr_write_def split: if_splits)
qed

lemma csr_ok_hw:
  "csr_ok c \<Longrightarrow> csr_ok (hw_set_head h c)"
  "csr_ok c \<Longrightarrow> csr_ok (hw_set_busy f c)"
  "csr_ok c \<Longrightarrow> csr_ok (hw_set_ring_empty f c)"
  "csr_ok c \<Longrightarrow> csr_ok (hw_set_error c)"
  "csr_ok c \<Longrightarrow> csr_ok (hw_set_empty_irq c)"
  unfolding hw_set_head_def hw_set_busy_def hw_set_ring_empty_def hw_set_error_def
    hw_set_empty_irq_def
  by (auto intro!: csr_ok_set_reg csr_ok_clear_bit csr_ok_raise_bit
      simp: bits reg_offsets bit_positions)

section \<open>Steps of the register file\<close>

text \<open>What software (through AXI-Lite) and the hardware hooks can do, in any order.\<close>

inductive csr_step :: "csr \<Rightarrow> csr \<Rightarrow> bool" where
  sw_write: "csr_step c (csr_write offset data c)"
| hw_head: "csr_step c (hw_set_head h c)"
| hw_busy: "csr_step c (hw_set_busy f c)"
| hw_empty: "csr_step c (hw_set_ring_empty f c)"
| hw_error: "csr_step c (hw_set_error c)"
| hw_irq: "csr_step c (hw_set_empty_irq c)"

inductive csr_reachable :: "csr \<Rightarrow> bool" where
  start: "csr_reachable csr_init"
| step: "csr_reachable c \<Longrightarrow> csr_step c c' \<Longrightarrow> csr_reachable c'"

inductive_cases csr_stepE: "csr_step c c'"

inductive_simps csr_step_iff: "csr_step c c'"

lemma csr_step_ok: "csr_step c c' \<Longrightarrow> csr_ok c \<Longrightarrow> csr_ok c'"
  by (erule csr_stepE) (simp_all add: csr_ok_write csr_ok_hw)

lemma csr_reachable_ok: "csr_reachable c \<Longrightarrow> csr_ok c"
  by (induction rule: csr_reachable.induct) (simp_all add: csr_ok_init csr_step_ok)

lemma reg_hw:
  "reg (hw_set_head h c) k = (if k = REG_HEAD then h mod 2 ^ 32 else reg c k)"
  "reg (hw_set_busy f c) k = (if k = REG_STATUS
     then (if f then set_bit 0 else unset_bit 0) (reg c REG_STATUS) else reg c k)"
  "reg (hw_set_ring_empty f c) k = (if k = REG_STATUS
     then (if f then set_bit 1 else unset_bit 1) (reg c REG_STATUS) else reg c k)"
  "reg (hw_set_error c) k = (if k = REG_IRQ_STATUS then set_bit 1 (reg c REG_IRQ_STATUS)
     else if k = REG_STATUS then set_bit 2 (reg c REG_STATUS) else reg c k)"
  "reg (hw_set_empty_irq c) k = (if k = REG_IRQ_STATUS
     then set_bit 0 (reg c REG_IRQ_STATUS) else reg c k)"
  unfolding hw_set_head_def hw_set_busy_def hw_set_ring_empty_def hw_set_error_def
    hw_set_empty_irq_def bit_positions
  by (simp_all add: bits) (simp_all add: reg_offsets)

lemmas reg_csr_write = reg_csr_write_plain reg_csr_write_ctrl reg_csr_write_clear

section \<open>The pointer interface of the ring manager\<close>

text \<open>
  The ring manager sees the register file through the head and tail pointers and the ring length.
  \<open>ring_count\<close> is \<open>(ti - hi) % rlen\<close>, the number of descriptors between the pointers.
\<close>

definition ring_count :: "int \<Rightarrow> int \<Rightarrow> int \<Rightarrow> int" where
  "ring_count rlen h t = (t mod rlen - h mod rlen) mod rlen"

lemma ring_count_bounds: "0 < rlen \<Longrightarrow> 0 \<le> ring_count rlen h t \<and> ring_count rlen h t < rlen"
  by (simp add: ring_count_def)

lemma ring_count_full_iff:
  assumes "0 < rlen"
  shows "(t mod rlen + 1) mod rlen = h mod rlen \<longleftrightarrow> ring_count rlen h t = rlen - 1"
proof -
  have "(t mod rlen + 1) mod rlen = h mod rlen \<longleftrightarrow> (t + 1) mod rlen = h mod rlen"
    by (simp add: mod_simps)
  also have "\<dots> \<longleftrightarrow> rlen dvd (t - h - (-1))"
    by (simp add: mod_eq_dvd_iff algebra_simps)
  also have "\<dots> \<longleftrightarrow> (t - h) mod rlen = (-1) mod rlen"
    by (simp only: mod_eq_dvd_iff)
  also have "\<dots> \<longleftrightarrow> ring_count rlen h t = rlen - 1"
    using assms by (simp add: ring_count_def mod_simps zmod_minus1)
  finally show ?thesis .
qed

lemma ring_count_produce:
  assumes "0 < rlen" and "ring_count rlen h t \<noteq> rlen - 1"
  shows "ring_count rlen h ((t + 1) mod rlen) = ring_count rlen h t + 1"
proof -
  have "ring_count rlen h ((t + 1) mod rlen) = (ring_count rlen h t + 1) mod rlen"
    unfolding ring_count_def by (simp add: mod_simps algebra_simps)
  moreover have "0 \<le> ring_count rlen h t + 1 \<and> ring_count rlen h t + 1 < rlen"
    using assms ring_count_bounds [OF assms(1), of h t] by linarith
  ultimately show ?thesis by simp
qed

lemma ring_count_consume:
  assumes "0 < rlen" and "ring_count rlen h t \<noteq> 0"
  shows "ring_count rlen ((h mod rlen + 1) mod rlen) t = ring_count rlen h t - 1"
proof -
  have "ring_count rlen ((h mod rlen + 1) mod rlen) t = (ring_count rlen h t - 1) mod rlen"
    unfolding ring_count_def by (simp add: mod_simps algebra_simps)
  moreover have "0 \<le> ring_count rlen h t - 1 \<and> ring_count rlen h t - 1 < rlen"
    using assms ring_count_bounds [OF assms(1), of h t] by linarith
  ultimately show ?thesis by simp
qed

lemma ring_count_0_iff:
  assumes "0 \<le> h" "h < rlen" "0 \<le> t" "t < rlen"
  shows "ring_count rlen h t = 0 \<longleftrightarrow> h = t"
  using assms by (simp add: ring_count_def mod_pos_pos_trivial)
    (smt (verit) mod_pos_pos_trivial mod_add_self2 mod_0)

locale pointer_regs =
  fixes head tail len :: "'c \<Rightarrow> int"
    and set_head set_tail :: "int \<Rightarrow> 'c \<Rightarrow> 'c"
    and ok :: "'c \<Rightarrow> bool"
  assumes head_set_head: "0 \<le> v \<Longrightarrow> v < 2 ^ 32 \<Longrightarrow> head (set_head v c) = v"
    and tail_set_tail: "0 \<le> v \<Longrightarrow> v < 2 ^ 32 \<Longrightarrow> tail (set_tail v c) = v"
    and head_set_tail: "head (set_tail v c) = head c"
    and tail_set_head: "tail (set_head v c) = tail c"
    and len_set_head: "len (set_head v c) = len c"
    and len_set_tail: "len (set_tail v c) = len c"
    and len_range: "ok c \<Longrightarrow> 0 \<le> len c \<and> len c < 2 ^ 32"
begin

lemma mod_len: "ok c \<Longrightarrow> len c \<noteq> 0 \<Longrightarrow> 0 \<le> x mod len c \<and> x mod len c < 2 ^ 32"
  using len_range [of c] pos_mod_bound [of "len c" x] pos_mod_sign [of "len c" x] by linarith

lemma produce:
  assumes "ok c" and "len c \<noteq> 0" and "ring_count (len c) (head c) (tail c) \<noteq> len c - 1"
  defines "c' \<equiv> set_tail ((tail c + 1) mod len c) c"
  shows "head c' = head c" and "len c' = len c" and "tail c' = (tail c + 1) mod len c"
    and "ring_count (len c) (head c') (tail c') = ring_count (len c) (head c) (tail c) + 1"
  using assms mod_len [of c "tail c + 1"] len_range [of c]
  by (simp_all add: head_set_tail len_set_tail tail_set_tail ring_count_produce)

lemma consume:
  assumes "ok c" and "len c \<noteq> 0" and "ring_count (len c) (head c) (tail c) \<noteq> 0"
  defines "c' \<equiv> set_head ((head c mod len c + 1) mod len c) c"
  shows "tail c' = tail c" and "len c' = len c" and "head c' = (head c mod len c + 1) mod len c"
    and "ring_count (len c) (head c') (tail c') = ring_count (len c) (head c) (tail c) - 1"
  using assms mod_len [of c "head c mod len c + 1"] len_range [of c]
  by (simp_all add: tail_set_head len_set_head head_set_head ring_count_consume)

end

interpretation ptr: pointer_regs "\<lambda>c. reg c REG_HEAD" "\<lambda>c. reg c REG_TAIL"
  "\<lambda>c. reg c REG_RINGLEN" hw_set_head "csr_write REG_TAIL" csr_ok
  by unfold_locales
    (simp_all add: reg_hw reg_csr_write_plain reg_offsets csr_ok_reg, use csr_ok_reg in auto)

section \<open>Properties\<close>

text \<open>
  C38. Whatever software writes and whatever hooks the hardware calls, in any order, every register
  reads as a 32-bit word, the reserved bits of CTRL and STATUS read as zero, and no register of the
  constructor is ever lost.
\<close>

theorem csr_reachable_invariant:
  assumes "csr_reachable c"
  shows "0 \<le> csr_read c k \<and> csr_read c k < 2 ^ 32 \<and> csr_read c REG_CTRL < 8 \<and>
     csr_read c REG_STATUS < 8 \<and> set csr_keys \<subseteq> fst ` set (regs c)"
  using csr_reachable_ok [OF assms] csr_ok_reg [of c k]
  by (simp add: csr_read_def) (simp add: csr_ok_def)

theorem csr_reachable_invariant_witness:
  "csr_read (hw_set_error (csr_write REG_CTRL 0xFFFFFFFF csr_init)) REG_STATUS = 4 \<and>
   csr_read (hw_set_error (csr_write REG_CTRL 0xFFFFFFFF csr_init)) REG_STATUS < 8"
proof -
  have "csr_reachable (hw_set_error (csr_write REG_CTRL 0xFFFFFFFF csr_init))"
    by (blast intro: csr_reachable.intros csr_step.intros)
  from csr_reachable_invariant [OF this] show ?thesis
    by (simp add: csr_read_def reg_hw reg_csr_write_ctrl)
      (simp add: reg_def csr_init_def reg_offsets set_bit_eq_or)
qed

text \<open>
  The sticky error bit: once STATUS.ERROR is set, the only step that clears it is a write to
  IRQ_CLEAR with bit 1 set.
\<close>

theorem status_error_sticky:
  assumes "csr_step c c'" and "bit (csr_read c REG_STATUS) ERROR_BIT"
    and "\<not> bit (csr_read c' REG_STATUS) ERROR_BIT"
  shows "\<exists>data. c' = csr_write REG_IRQ_CLEAR data c \<and> bit data IRQ_ERROR_BIT"
  using assms(1)
proof cases
  case (sw_write offset data)
  show ?thesis
  proof (cases "offset = REG_IRQ_CLEAR \<and> bit data 1")
    case True
    with sw_write show ?thesis by (auto simp: bit_positions)
  next
    case False
    have "reg c' REG_STATUS = reg c REG_STATUS"
    proof (cases "offset \<in> {REG_HEAD, REG_STATUS, REG_IRQ_CLEAR, REG_CTRL}")
      case True
      with False sw_write show ?thesis
        by (auto simp: reg_csr_write csr_write_read_only) (auto simp: reg_offsets)
    next
      case False
      with sw_write show ?thesis by (auto simp: reg_csr_write_plain)
    qed
    with assms(2,3) show ?thesis by (simp add: csr_read_def)
  qed
qed (use assms(2,3) in \<open>auto simp: csr_read_def reg_hw bit_positions bit_simps reg_offsets split: if_splits\<close>)

theorem status_error_sticky_witness:
  "\<exists>data. csr_write REG_IRQ_CLEAR 2 (hw_set_error csr_init)
     = csr_write REG_IRQ_CLEAR data (hw_set_error csr_init) \<and> bit data IRQ_ERROR_BIT"
  by (rule status_error_sticky [OF csr_step.sw_write])
    (simp_all add: csr_read_def reg_hw reg_csr_write_clear bit_positions bit_simps,
      simp_all add: reg_offsets bit_simps bit_1_iff)

text \<open>
  Write-one-to-clear, exactly: a write to IRQ_CLEAR clears IRQ_STATUS.EMPTY if bit 0 of the data
  is set, IRQ_STATUS.ERROR and STATUS.ERROR if bit 1 is set, and changes no other bit of any
  register.
\<close>

theorem irq_clear_exact:
  "bit (csr_read (csr_write REG_IRQ_CLEAR data c) k) n \<longleftrightarrow>
     bit (csr_read c k) n \<and>
     \<not> (k = REG_IRQ_STATUS \<and> (n = IRQ_EMPTY_BIT \<and> bit data 0 \<or> n = IRQ_ERROR_BIT \<and> bit data 1)) \<and>
     \<not> (k = REG_STATUS \<and> n = ERROR_BIT \<and> bit data 1)"
  by (auto simp: csr_read_def reg_csr_write_clear bit_positions bit_simps)
    (auto simp: reg_offsets)

text \<open>
  HEAD belongs to the hardware: no software write changes it, it moves only by
  \<open>hw_set_head\<close>.
\<close>

theorem head_hardware_only:
  assumes "csr_step c c'" and "csr_read c' REG_HEAD \<noteq> csr_read c REG_HEAD"
  shows "\<exists>h. c' = hw_set_head h c"
  using assms(1)
proof cases
  case (sw_write offset data)
  then have "reg c' REG_HEAD = reg c REG_HEAD"
    by (cases "offset \<in> {REG_HEAD, REG_STATUS, REG_IRQ_CLEAR, REG_CTRL}")
      (auto simp: reg_csr_write csr_write_read_only, auto simp: reg_offsets)
  with assms(2) show ?thesis by (simp add: csr_read_def)
qed (use assms(2) in \<open>auto simp: csr_read_def reg_hw\<close>, auto simp: reg_offsets)

theorem head_hardware_only_witness:
  "\<exists>h. hw_set_head 3 csr_init = hw_set_head h csr_init"
  by (rule head_hardware_only [OF csr_step.hw_head])
    (simp add: csr_read_def reg_hw, simp add: csr_init_def reg_def reg_offsets)

text \<open>
  Every offset without a rule of its own stores the masked data, and reads it back. This covers
  BASEADDR, RINGLEN and TAIL, and also IRQ_STATUS and offsets outside the register map, which the
  RTL and the register specification make read-only or ignored.
\<close>

theorem plain_write_reads_back:
  assumes "offset \<notin> {REG_HEAD, REG_STATUS, REG_IRQ_CLEAR, REG_CTRL}"
  shows "csr_read (csr_write offset data c) k =
    (if k = offset then data mod 2 ^ 32 else csr_read c k)"
  using assms by (simp add: csr_read_def reg_csr_write_plain)

theorem plain_write_reads_back_witness:
  "csr_read (csr_write REG_IRQ_STATUS 3 csr_init) REG_IRQ_STATUS = 3"
  using plain_write_reads_back [of REG_IRQ_STATUS 3 csr_init REG_IRQ_STATUS]
  by (simp add: reg_offsets)

text \<open>
  A write of CTRL stores its three defined bits and touches nothing else; in particular writing
  CTRL.RESET clears no register.
\<close>

theorem ctrl_write_only_ctrl:
  "csr_read (csr_write REG_CTRL data c) k = (if k = REG_CTRL then data mod 8 else csr_read c k)"
  by (simp add: csr_read_def reg_csr_write_ctrl)

end
