(* ===== verification/Irq_Axi_Lite.thy ===== *)
theory Irq_Axi_Lite
  imports Csr_Model
begin

text \<open>
  The two thin clients of the register file: the interrupt logic of \<open>source/irq.py\<close> and the
  AXI-Lite port of \<open>source/axi-lite.py\<close>.
\<close>

section \<open>Interrupts\<close>

definition is_irq_empty :: "csr \<Rightarrow> bool" where
  "is_irq_empty c =
     (let status = csr_read c REG_IRQ_STATUS
      in drop_bit IRQ_EMPTY_BIT status AND 1 \<noteq> 0 \<and> is_enabled c)"

definition is_irq_error :: "csr \<Rightarrow> bool" where
  "is_irq_error c =
     (let status = csr_read c REG_IRQ_STATUS
      in drop_bit IRQ_ERROR_BIT status AND 1 \<noteq> 0 \<and> irq_en c)"

definition any_pending :: "csr \<Rightarrow> bool" where
  "any_pending c \<longleftrightarrow> is_irq_empty c \<or> is_irq_error c"

lemma shifted_bit: "drop_bit n (x::int) AND 1 \<noteq> 0 \<longleftrightarrow> bit x n"
  by (simp add: bit_iff_and_drop_bit_eq_1 and_one_eq mod2_eq_if)

lemma irq_bits:
  "is_irq_empty c \<longleftrightarrow> bit (reg c REG_IRQ_STATUS) 0 \<and> bit (reg c REG_CTRL) 0"
  "is_irq_error c \<longleftrightarrow> bit (reg c REG_IRQ_STATUS) 1 \<and> bit (reg c REG_CTRL) 2"
  by (simp_all only: is_irq_empty_def is_irq_error_def Let_def shifted_bit csr_read_def
      IRQ_EMPTY_BIT_def IRQ_ERROR_BIT_def ctrl_bits)

section \<open>The AXI-Lite port\<close>

record axi_lite =
  al_csr :: csr
  read_transaction_count :: int
  write_transaction_count :: int

definition axi_lite_init :: "csr \<Rightarrow> axi_lite" where
  "axi_lite_init c = \<lparr>al_csr = c, read_transaction_count = 0, write_transaction_count = 0\<rparr>"

definition axi_lite_read :: "int \<Rightarrow> (axi_lite, int) act" where
  "axi_lite_read addr = act_bind
     (act_modify (\<lambda>p. p\<lparr>read_transaction_count := read_transaction_count p + 1\<rparr>))
     (\<lambda>_. act_gets (\<lambda>p. csr_read (al_csr p) addr))"

definition axi_lite_write :: "int \<Rightarrow> int \<Rightarrow> (axi_lite, unit) act" where
  "axi_lite_write addr data = act_bind
     (act_modify (\<lambda>p. p\<lparr>write_transaction_count := write_transaction_count p + 1\<rparr>))
     (\<lambda>_. act_modify (\<lambda>p. p\<lparr>al_csr := csr_write addr data (al_csr p)\<rparr>))"

text \<open>A sequence of bus transactions; a read returns the value, a write nothing.\<close>

datatype bus_op = BusRead int | BusWrite int int

fun bus_run :: "bus_op list \<Rightarrow> (axi_lite, int list) act" where
  "bus_run [] = act_return []"
| "bus_run (BusRead a # ops) =
     act_bind (axi_lite_read a) (\<lambda>v. act_bind (bus_run ops) (\<lambda>vs. act_return (v # vs)))"
| "bus_run (BusWrite a d # ops) = act_bind (axi_lite_write a d) (\<lambda>_. bus_run ops)"

text \<open>The same transactions on the register file itself, without the port.\<close>

fun bus_spec :: "bus_op list \<Rightarrow> csr \<Rightarrow> int list \<times> csr" where
  "bus_spec [] c = ([], c)"
| "bus_spec (BusRead a # ops) c = (case bus_spec ops c of (vs, c') \<Rightarrow> (csr_read c a # vs, c'))"
| "bus_spec (BusWrite a d # ops) c = bus_spec ops (csr_write a d c)"

definition is_read :: "bus_op \<Rightarrow> bool" where
  "is_read x = (case x of BusRead _ \<Rightarrow> True | BusWrite _ _ \<Rightarrow> False)"

lemmas axi_lite_ops = axi_lite_read_def axi_lite_write_def act_bind_def act_simps

lemma bus_run_refines:
  "bus_run ops p =
     (Inr (fst (bus_spec ops (al_csr p))),
      \<lparr>al_csr = snd (bus_spec ops (al_csr p)),
       read_transaction_count = read_transaction_count p + int (length (filter is_read ops)),
       write_transaction_count =
         write_transaction_count p + int (length (filter (\<lambda>x. \<not> is_read x) ops))\<rparr>)"
  by (induction ops arbitrary: p rule: bus_run.induct)
    (auto simp: axi_lite_ops is_read_def split: prod.split)

section \<open>Properties\<close>

text \<open>
  The life cycle of an interrupt: an error event makes the error interrupt pending exactly when
  CTRL.IRQ_EN is set, an empty event makes the empty interrupt pending exactly when CTRL.ENABLE is
  set, and a write of 3 to IRQ_CLEAR leaves nothing pending, whatever the state.
\<close>

theorem irq_lifecycle:
  "is_irq_error (hw_set_error c) = irq_en c \<and>
   is_irq_empty (hw_set_empty_irq c) = is_enabled c \<and>
   \<not> any_pending (csr_write REG_IRQ_CLEAR 3 c)"
  by (simp add: any_pending_def irq_bits ctrl_bits reg_hw reg_csr_write_clear bit_simps)
    (simp add: reg_offsets bit_simps)

text \<open>
  The empty interrupt is gated by CTRL.ENABLE and not by CTRL.IRQ_EN: with IRQ_EN clear and the
  engine enabled, an empty event is still reported as pending.
\<close>

theorem empty_irq_ignores_irq_en:
  "any_pending (hw_set_empty_irq (csr_write REG_CTRL 1 c)) \<and>
   \<not> irq_en (hw_set_empty_irq (csr_write REG_CTRL 1 c))"
  by (simp add: any_pending_def irq_bits ctrl_bits reg_hw reg_csr_write_ctrl bit_simps)
    (simp add: reg_offsets bit_simps bit_1_iff)

text \<open>
  The AXI-Lite port is transparent: a sequence of transactions returns the values and leaves the
  registers that the same accesses on the register file do, and the two counters count the reads
  and the writes.
\<close>

theorem axi_lite_transparent:
  "bus_run ops (axi_lite_init c) =
     (Inr (fst (bus_spec ops c)),
      \<lparr>al_csr = snd (bus_spec ops c),
       read_transaction_count = int (length (filter is_read ops)),
       write_transaction_count = int (length (filter (\<lambda>x. \<not> is_read x) ops))\<rparr>)"
  by (simp add: bus_run_refines axi_lite_init_def)

end
