(* ===== verification/Descriptor_Codec.thy ===== *)
theory Descriptor_Codec
  imports Memory_Model
begin

text \<open>
  The packed words of the design: the 128-bit descriptor of \<open>source/descriptor.py\<close>, the 40-bit
  handle and the 41-bit instruction of \<open>source/axi_4_master.py\<close>. The locale \<open>codec\<close> is the
  contract of an encoding (both round trips, hence a bijection with the integers of its width); the
  three formats interpret it.
\<close>

section \<open>Encodings\<close>

locale codec =
  fixes enc :: "'a \<Rightarrow> int"
    and dec :: "int \<Rightarrow> 'a"
    and valid :: "'a \<Rightarrow> bool"
    and width :: nat
  assumes dec_enc: "valid x \<Longrightarrow> dec (enc x) = x"
    and enc_range: "valid x \<Longrightarrow> 0 \<le> enc x \<and> enc x < 2 ^ width"
    and enc_dec: "0 \<le> p \<Longrightarrow> p < 2 ^ width \<Longrightarrow> enc (dec p) = p"
    and dec_valid: "valid (dec p)"
begin

lemma enc_inject: "valid x \<Longrightarrow> valid y \<Longrightarrow> enc x = enc y \<longleftrightarrow> x = y"
  using dec_enc by metis

lemma enc_bij: "bij_betw enc {x. valid x} {0..<2 ^ width}"
  using dec_enc enc_range enc_dec dec_valid by (intro bij_betw_byWitness [where f' = dec]) auto

lemma dec_enc_all: "\<forall>x \<in> set xs. valid x \<Longrightarrow> map dec (map enc xs) = xs"
  by (induction xs) (simp_all add: dec_enc)

end

text \<open>A field \<open>a\<close> in the low bits and the rest \<open>r\<close> above it; \<open>m\<close> is the first power out.\<close>

definition field :: "int \<Rightarrow> int \<Rightarrow> int \<Rightarrow> int" where
  "field m a r = a + m * r"

lemma field_mod [simp]: "0 \<le> a \<Longrightarrow> a < m \<Longrightarrow> field m a r mod m = a"
  by (simp add: field_def)

lemma field_div [simp]: "0 \<le> a \<Longrightarrow> a < m \<Longrightarrow> field m a r div m = r"
  by (simp add: field_def)

lemma field_split [simp]: "field m (p mod m) (p div m) = p"
  by (simp add: field_def)

lemma field_nonneg: "0 \<le> a \<Longrightarrow> 0 \<le> m \<Longrightarrow> 0 \<le> r \<Longrightarrow> 0 \<le> field m a r"
  by (simp add: field_def)

lemma field_less:
  assumes "a < m" and "0 \<le> m" and "r < n"
  shows "field m a r < m * n"
proof -
  have "m * (r + 1) \<le> m * n" using assms by (intro mult_left_mono) auto
  with assms show ?thesis by (simp add: field_def distrib_left)
qed

lemma or_field:
  "0 \<le> a \<Longrightarrow> a < 2 ^ n \<Longrightarrow> a OR push_bit n r = field (2 ^ n) a r"
  by (simp add: field_def or_push_bit_add)

lemma drop_bit_steps:
  "drop_bit 64 (x::int) = x div 4294967296 div 4294967296"
  "drop_bit 96 (x::int) = x div 4294967296 div 4294967296 div 4294967296"
  "drop_bit 32 (x::int) = x div 4294967296"
  "drop_bit 40 (x::int) = x div 4294967296 div 256"
  by (simp_all add: drop_bit_eq_div zdiv_zmult2_eq [symmetric])

text \<open>Masking first to a wider word does not change a field inside it.\<close>

lemma field_of_masked:
  "k + 32 \<le> n \<Longrightarrow> drop_bit k (p mod 2 ^ n) mod 4294967296 = drop_bit k p mod (4294967296::int)"
proof -
  assume "k + 32 \<le> n"
  then have "take_bit 32 (drop_bit k (take_bit n p)) = take_bit 32 (drop_bit k p)"
    by (intro bit_eqI) (auto simp: bit_simps)
  then show ?thesis by (simp add: take_bit_eq_mod)
qed

section \<open>Descriptors\<close>

record descriptor =
  w0 :: int
  w1 :: int
  w2 :: int
  w3 :: int

definition DESC_WORDS :: int where "DESC_WORDS = 4"
definition DESC_BITS :: nat where "DESC_BITS = nat DESC_WORDS * 32"

definition mk_descriptor :: "int \<Rightarrow> int \<Rightarrow> int \<Rightarrow> int \<Rightarrow> descriptor" where
  "mk_descriptor word0 word1 word2 word3 =
     \<lparr>w0 = word0 AND 0xFFFFFFFF, w1 = word1 AND 0xFFFFFFFF,
      w2 = word2 AND 0xFFFFFFFF, w3 = word3 AND 0xFFFFFFFF\<rparr>"

definition from_packed :: "int \<Rightarrow> descriptor" where
  "from_packed packed =
     (let p = packed AND (push_bit DESC_BITS 1 - 1)
      in mk_descriptor (p AND 0xFFFFFFFF) (drop_bit 32 p AND 0xFFFFFFFF)
           (drop_bit 64 p AND 0xFFFFFFFF) (drop_bit 96 p AND 0xFFFFFFFF))"

definition pack :: "descriptor \<Rightarrow> int" where
  "pack d = (w0 d OR push_bit 32 (w1 d) OR push_bit 64 (w2 d) OR push_bit 96 (w3 d))
     AND (push_bit DESC_BITS 1 - 1)"

definition legacy_descriptor :: "int \<Rightarrow> int \<Rightarrow> int \<Rightarrow> descriptor" where
  "legacy_descriptor start_address burst_length datasize =
     mk_descriptor (start_address AND 0xFFFFFFFF) (burst_length AND 0xFFFFFFFF)
       (datasize AND 0xFFFFFFFF) 0"

definition desc_ok :: "descriptor \<Rightarrow> bool" where
  "desc_ok d \<longleftrightarrow> u32s [w0 d, w1 d, w2 d, w3 d]"

lemma desc_bits_mask: "(x::int) AND (push_bit DESC_BITS 1 - 1) = x mod 2 ^ 128"
  using and_mask_eq_mod [of x 128] by (simp add: DESC_BITS_def DESC_WORDS_def push_bit_eq_mult)

lemma mk_descriptor_ok: "desc_ok (mk_descriptor a b c d)"
  by (simp add: desc_ok_def mk_descriptor_def bits)

lemma mk_descriptor_fields: "desc_ok d \<Longrightarrow> mk_descriptor (w0 d) (w1 d) (w2 d) (w3 d) = d"
  by (simp add: desc_ok_def mk_descriptor_def bits)

text \<open>Packing as arithmetic, lowest word first.\<close>

definition words4 :: "int \<Rightarrow> int \<Rightarrow> int \<Rightarrow> int \<Rightarrow> int" where
  "words4 a b c d = field 4294967296 a (field 4294967296 b (field 4294967296 c d))"

lemma or_words4:
  fixes a b c d :: int
  assumes "u32s [a, b, c, d]"
  shows "a OR push_bit 32 b OR push_bit 64 c OR push_bit 96 d = words4 a b c d"
proof -
  have "a OR push_bit 32 b OR push_bit 64 c OR push_bit 96 d
      = a OR push_bit 32 (b OR push_bit 32 (c OR push_bit 32 d))"
    by (simp add: push_bit_or push_bit_push_bit or.assoc)
  with assms show ?thesis
    using or_field [of c 32 d] or_field [of b 32 "field 4294967296 c d"]
      or_field [of a 32 "field 4294967296 b (field 4294967296 c d)"]
    by (simp add: words4_def)
qed

lemma words4_range:
  assumes "u32s [a, b, c, d]"
  shows "0 \<le> words4 a b c d \<and> words4 a b c d < 2 ^ 128"
proof -
  have "words4 a b c d < 4294967296 * (4294967296 * (4294967296 * 4294967296))"
    unfolding words4_def using assms by (intro field_less) auto
  with assms show ?thesis by (simp add: words4_def field_nonneg)
qed

lemma pack_words4: "desc_ok d \<Longrightarrow> pack d = words4 (w0 d) (w1 d) (w2 d) (w3 d)"
  using words4_range [of "w0 d" "w1 d" "w2 d" "w3 d"]
  unfolding pack_def desc_bits_mask desc_ok_def by (simp add: or_words4)

lemma from_packed_fields:
  "from_packed p = \<lparr>w0 = p mod 4294967296, w1 = p div 4294967296 mod 4294967296,
     w2 = p div 4294967296 div 4294967296 mod 4294967296,
     w3 = p div 4294967296 div 4294967296 div 4294967296 mod 4294967296\<rparr>"
  using field_of_masked [of 0 128 p] field_of_masked [of 32 128 p] field_of_masked [of 64 128 p]
    field_of_masked [of 96 128 p]
  unfolding from_packed_def desc_bits_mask Let_def mk_descriptor_def bits mod_mod_trivial
  by (simp only: drop_bit_steps drop_bit_0 id_apply)

lemma from_packed_ok: "desc_ok (from_packed p)"
  by (simp add: desc_ok_def from_packed_fields)

lemma from_packed_words4:
  "u32s [a, b, c, d] \<Longrightarrow> from_packed (words4 a b c d) = \<lparr>w0 = a, w1 = b, w2 = c, w3 = d\<rparr>"
  by (simp add: from_packed_fields words4_def)

lemma words4_of_fields:
  assumes "0 \<le> p" and "p < 2 ^ 128"
  shows "words4 (p mod 4294967296) (p div 4294967296 mod 4294967296)
    (p div 4294967296 div 4294967296 mod 4294967296)
    (p div 4294967296 div 4294967296 div 4294967296 mod 4294967296) = p"
proof -
  let ?q = "p div 4294967296 div 4294967296 div 4294967296"
  have "?q = p div 2 ^ 96" by (simp add: zdiv_zmult2_eq [symmetric])
  then have "0 \<le> ?q" and "?q < 4294967296"
    using assms by (simp_all add: div_less_iff_less_mult)
  then have "?q = ?q mod 4294967296" by (simp only: mod_pos_pos_trivial)
  then show ?thesis unfolding words4_def by (simp only: field_split)
qed

interpretation dcodec: codec pack from_packed desc_ok 128
proof unfold_locales
  fix d assume "desc_ok d"
  then show "from_packed (pack d) = d" and "0 \<le> pack d \<and> pack d < 2 ^ 128"
    using words4_range [of "w0 d" "w1 d" "w2 d" "w3 d"]
    by (simp_all add: pack_words4 desc_ok_def from_packed_words4)
next
  fix p :: int assume "0 \<le> p" and "p < 2 ^ 128"
  then show "pack (from_packed p) = p"
    unfolding pack_words4 [OF from_packed_ok]
    by (simp only: from_packed_fields descriptor.simps words4_of_fields)
next
  fix p show "desc_ok (from_packed p)" by (rule from_packed_ok)
qed

section \<open>Handles and instructions\<close>

definition LEN_LSB :: nat where "LEN_LSB = 32"
definition INSTR_WIDTH :: nat where "INSTR_WIDTH = 41"
definition RW_BIT :: nat where "RW_BIT = INSTR_WIDTH - 1"

definition pack_handle :: "int \<Rightarrow> int \<Rightarrow> int" where
  "pack_handle addr len_beats =
     (addr AND 0xFFFFFFFF) OR push_bit 32 (len_beats AND 0xFF)"

definition pack_instruction :: "int \<Rightarrow> int \<Rightarrow> bool \<Rightarrow> int" where
  "pack_instruction addr len_beats is_write =
     (let rw = (if is_write then 1 else 0)
      in (addr AND 0xFFFFFFFF) OR push_bit 32 (len_beats AND 0xFF) OR push_bit 40 rw)"

text \<open>The decoding of both formats, as the AXI master and the SRAM controller write it.\<close>

definition word_addr :: "int \<Rightarrow> int" where
  "word_addr x = x AND 0xFFFFFFFF"

definition word_beats :: "int \<Rightarrow> int" where
  "word_beats x = drop_bit LEN_LSB x AND 0xFF"

definition word_is_write :: "int \<Rightarrow> bool" where
  "word_is_write x \<longleftrightarrow> drop_bit RW_BIT x AND 1 \<noteq> 0"

lemma word_fields:
  "word_addr x = x mod 4294967296"
  "word_beats x = x div 4294967296 mod 256"
  "word_is_write x \<longleftrightarrow> x div 4294967296 div 256 mod 2 = 1"
  unfolding word_addr_def word_beats_def word_is_write_def LEN_LSB_def RW_BIT_def INSTR_WIDTH_def
    bits
  by (simp_all add: drop_bit_steps bits mod2_eq_if)

lemma pack_handle_field:
  "pack_handle addr n = field 4294967296 (addr mod 4294967296) (n mod 256)"
  unfolding pack_handle_def bits using or_field [of "addr mod 4294967296" 32] by simp

lemma pack_instruction_field:
  "pack_instruction addr n wr
    = field 4294967296 (addr mod 4294967296) (field 256 (n mod 256) (of_bool wr))"
proof -
  have "push_bit 32 (n mod 256) OR push_bit 40 b = push_bit 32 (n mod 256 OR push_bit 8 b)"
    for b :: int
    by (simp add: push_bit_or push_bit_push_bit)
  then show ?thesis
    unfolding pack_instruction_def Let_def bits or.assoc
    using or_field [of "addr mod 4294967296" 32] or_field [of "n mod 256" 8] by simp
qed

lemma handle_fields [simp]:
  "word_addr (pack_handle addr n) = addr mod 4294967296"
  "word_beats (pack_handle addr n) = n mod 256"
  by (simp_all add: word_fields pack_handle_field)

lemma instruction_fields [simp]:
  "word_addr (pack_instruction addr n wr) = addr mod 4294967296"
  "word_beats (pack_instruction addr n wr) = n mod 256"
  "word_is_write (pack_instruction addr n wr) = wr"
  by (simp_all add: word_fields pack_instruction_field)

text \<open>The instruction codec over its three fields.\<close>

definition instr_ok :: "int \<times> int \<times> bool \<Rightarrow> bool" where
  "instr_ok x = (case x of (a, n, wr) \<Rightarrow> 0 \<le> a \<and> a < 2 ^ 32 \<and> 0 \<le> n \<and> n < 256)"

interpretation icodec: codec "\<lambda>(a, n, wr). pack_instruction a n wr"
  "\<lambda>x. (word_addr x, word_beats x, word_is_write x)" instr_ok 41
proof unfold_locales
  fix x assume "instr_ok x"
  moreover obtain a n wr where x: "x = (a, n, wr)" by (cases x)
  moreover have "field 4294967296 (a mod 4294967296) (field 256 (n mod 256) (of_bool wr))
      < 4294967296 * (256 * 2)"
    by (intro field_less) auto
  ultimately show "(case case x of (a, n, wr) \<Rightarrow> pack_instruction a n wr of
        x \<Rightarrow> (word_addr x, word_beats x, word_is_write x)) = x"
    and "0 \<le> (case x of (a, n, wr) \<Rightarrow> pack_instruction a n wr) \<and>
      (case x of (a, n, wr) \<Rightarrow> pack_instruction a n wr) < 2 ^ 41"
    by (simp_all add: instr_ok_def pack_instruction_field field_nonneg) (simp add: word_fields)
next
  fix p :: int assume p: "0 \<le> p" "p < 2 ^ 41"
  then have "p div 4294967296 div 256 \<in> {0, 1}"
    by (auto simp: zdiv_zmult2_eq [symmetric])
  then have "of_bool (word_is_write p) = p div 4294967296 div 256"
    by (auto simp: word_fields)
  then show "(case (word_addr p, word_beats p, word_is_write p) of
      (a, n, wr) \<Rightarrow> pack_instruction a n wr) = p"
    by (simp add: pack_instruction_field word_fields)
next
  fix p show "instr_ok (word_addr p, word_beats p, word_is_write p)"
    by (simp add: instr_ok_def word_fields)
qed

section \<open>Properties\<close>

lemma pack_from_packed: "pack (from_packed p) = p mod 2 ^ 128"
proof -
  have "from_packed (p mod 2 ^ 128) = from_packed p"
    unfolding from_packed_def desc_bits_mask by simp
  then show ?thesis using dcodec.enc_dec [of "p mod 2 ^ 128"] by (metis pos_mod_bound pos_mod_sign
      zero_less_numeral zero_less_power)
qed

text \<open>
  Descriptor round trips, for every input: unpacking what a constructed descriptor packs to
  gives the descriptor back, and packing what any integer unpacks to gives its low 128 bits.
\<close>

theorem descriptor_roundtrip:
  "from_packed (pack (mk_descriptor a b c d)) = mk_descriptor a b c d \<and>
   pack (from_packed p) = p mod 2 ^ 128"
  using pack_from_packed dcodec.dec_enc [OF mk_descriptor_ok] by blast

text \<open>
  The instruction word keeps its three fields apart: decoding returns the address and the beat
  count reduced to their 32 and 8 bits, and the direction, whatever was packed; and two instruction
  words with equal fields in range are equal.
\<close>

theorem instruction_roundtrip:
  "word_addr (pack_instruction addr n wr) = addr mod 2 ^ 32 \<and>
   word_beats (pack_instruction addr n wr) = n mod 2 ^ 8 \<and>
   word_is_write (pack_instruction addr n wr) = wr \<and>
   bij_betw (\<lambda>(a, n, wr). pack_instruction a n wr) {x. instr_ok x} {0..<2 ^ 41}"
  using icodec.enc_bij by simp

end
