(* ===== verification/Dm_Endpoint.thy ===== *)
theory Dm_Endpoint
  imports Fifo_Queue Descriptor_Codec
begin

text \<open>
  The contract shared by the two consumers of data-mover instructions, the AXI master and the SRAM
  controller: a read instruction appends a block of the consumer's memory to MID, a write
  instruction moves words from MID into it. The locale \<open>dm_endpoint\<close> states it; what draining a
  consumer's queue does follows once for both. \<open>drain\<close> is the loop that
  \<open>_drain_axi_dm\<close> and \<open>_drain_sram_dm\<close> of \<open>sim/run_golden.py\<close> share.
\<close>

section \<open>Instructions against a memory\<close>

definition block_start :: "int \<Rightarrow> nat" where
  "block_start i = nat (word_addr i div 4)"

definition block_len :: "int \<Rightarrow> nat" where
  "block_len i = nat (word_beats i)"

text \<open>The instruction addresses whole words that all exist.\<close>

definition block_ok :: "int \<Rightarrow> int list \<Rightarrow> bool" where
  "block_ok i mem \<longleftrightarrow> word_addr i mod 4 = 0 \<and> block_start i + block_len i \<le> length mem"

lemma word_addr_nonneg [simp]: "0 \<le> word_addr i"
  by (simp add: word_fields)

lemma word_beats_range [simp]: "0 \<le> word_beats i" "word_beats i < 256"
  by (simp_all add: word_fields)

lemma int_block_start [simp]: "int (block_start i) = word_addr i div 4"
  by (simp add: block_start_def)

lemma int_block_len [simp]: "int (block_len i) = word_beats i"
  by (simp add: block_len_def)

lemma block_ok_bound: "block_ok i mem \<Longrightarrow> word_addr i div 4 + word_beats i \<le> int (length mem)"
  using int_block_start [of i] int_block_len [of i] unfolding block_ok_def by linarith

section \<open>The draining loop\<close>

function drain ::
  "('s \<Rightarrow> bool) \<Rightarrow> ('s, bool) act \<Rightarrow> exn \<Rightarrow> int \<Rightarrow> int \<Rightarrow> ('s, unit) act" where
  "drain idle step stalled max_steps steps s =
     (if idle s then (Inr (), s)
      else (case step s of
              (Inl e, t) \<Rightarrow> (Inl e, t)
            | (Inr busy, t) \<Rightarrow>
                if \<not> busy then (Inr (), t)
                else if steps + 1 > max_steps then (Inl stalled, t)
                else drain idle step stalled max_steps (steps + 1) t))"
  by pat_completeness auto
termination
  by (relation "measure (\<lambda>(idle, step, stalled, max_steps, steps, s). nat (max_steps - steps))") auto

declare drain.simps [simp del]

lemma drain_idle: "idle s \<Longrightarrow> drain idle step stalled m k s = (Inr (), s)"
  by (simp add: drain.simps)

lemma drain_step:
  "\<not> idle s \<Longrightarrow> step s = (Inr True, t) \<Longrightarrow> k < m \<Longrightarrow>
   drain idle step stalled m k s = drain idle step stalled m (k + 1) t"
  by (subst drain.simps) simp

lemma drain_error:
  "\<not> idle s \<Longrightarrow> step s = (Inl e, t) \<Longrightarrow> drain idle step stalled m k s = (Inl e, t)"
  by (subst drain.simps) simp

text \<open>
  With a budget of as many steps as there are pending jobs, the loop never reports a stall: it ends
  idle, or with the exception of one of its steps.
\<close>

lemma drain_total:
  assumes "\<And>s r t. \<not> idle s \<Longrightarrow> step s = (r, t) \<Longrightarrow> r \<noteq> Inr False \<and> pending t + 1 = pending s"
    and "\<And>s. pending s = 0 \<Longrightarrow> idle s"
    and "int (pending s) + k \<le> m" and "drain idle step stalled m k s = (r, t)"
  shows "r = Inr () \<and> idle t \<or> (\<exists>u e. \<not> idle u \<and> step u = (Inl e, t) \<and> r = Inl e)"
  using assms(3,4)
proof (induction "pending s" arbitrary: s k)
  case 0
  then show ?case using assms(2) by (simp add: drain_idle)
next
  case (Suc n)
  show ?case
  proof (cases "idle s")
    case True
    with Suc.prems show ?thesis by (simp add: drain_idle)
  next
    case False
    obtain q u where step: "step s = (q, u)" by (cases "step s")
    with assms(1) [OF False] Suc.hyps(2) have q: "q \<noteq> Inr False" and n: "n = pending u" by auto
    show ?thesis
    proof (cases q)
      case (Inl e)
      with False step Suc.prems show ?thesis by (auto simp: drain_error)
    next
      case (Inr b)
      with q have "q = Inr True" by auto
      with False step Suc.prems Suc.hyps(2) have "drain idle step stalled m (k + 1) u = (r, t)"
        by (simp add: drain_step)
      then show ?thesis using Suc.prems(1) Suc.hyps(2) n by (intro Suc.hyps(1)) auto
    qed
  qed
qed

section \<open>The contract\<close>

locale dm_endpoint =
  fixes idle :: "'s \<Rightarrow> bool"
    and step :: "('s, bool) act"
    and ready :: "'s \<Rightarrow> bool"
    and fits :: "int \<Rightarrow> int list \<Rightarrow> bool"
    and mem :: "'s \<Rightarrow> int list"
    and queue :: "'s \<Rightarrow> fifo"
    and mid :: "'s \<Rightarrow> fifo"
    and update :: "int list \<Rightarrow> fifo \<Rightarrow> fifo \<Rightarrow> 's \<Rightarrow> 's"
  assumes idle_iff: "ready s \<Longrightarrow> idle s \<longleftrightarrow> buffer (queue s) = []"
    and ready_mem: "ready s \<Longrightarrow> u32s (mem s)"
    and ready_update: "ready s \<Longrightarrow> u32s m \<Longrightarrow> ready (update m q d s)"
    and queue_update: "queue (update m q d s) = q"
    and read_step: "ready s \<Longrightarrow> buffer (queue s) = [i] \<Longrightarrow> \<not> word_is_write i \<Longrightarrow>
      fits i (mem s) \<Longrightarrow> fifo_len (mid s) + word_beats i \<le> queue_length (mid s) \<Longrightarrow>
      step s = (Inr True, update (mem s) (set_buffer [] (queue s))
        (set_buffer (buffer (mid s) @ load_block (mem s) (block_start i) (block_len i)) (mid s)) s)"
    and write_step: "ready s \<Longrightarrow> buffer (queue s) = [i] \<Longrightarrow> word_is_write i \<Longrightarrow>
      fits i (mem s) \<Longrightarrow> buffer (mid s) = ws @ rest \<Longrightarrow> length ws = block_len i \<Longrightarrow>
      u32s ws \<Longrightarrow>
      step s = (Inr True, update (store_block (mem s) (block_start i) ws)
        (set_buffer [] (queue s)) (set_buffer rest (mid s)) s)"
begin

lemma drain_read:
  assumes "ready s" and "buffer (queue s) = [i]" and "\<not> word_is_write i"
    and "fits i (mem s)" and "fifo_len (mid s) + word_beats i \<le> queue_length (mid s)"
    and "1 \<le> max_steps"
  shows "drain idle step stalled max_steps 0 s =
    (Inr (), update (mem s) (set_buffer [] (queue s))
      (set_buffer (buffer (mid s) @ load_block (mem s) (block_start i) (block_len i)) (mid s)) s)"
    (is "_ = (_, ?t)")
proof -
  have "step s = (Inr True, ?t)" by (rule read_step [OF assms(1-5)])
  moreover have "\<not> idle s" using assms by (simp add: idle_iff)
  moreover have "idle ?t" using assms by (simp add: idle_iff ready_update ready_mem queue_update)
  ultimately show ?thesis using assms(6) by (simp add: drain_step drain_idle)
qed

lemma drain_write:
  assumes "ready s" and "buffer (queue s) = [i]" and "word_is_write i"
    and "fits i (mem s)" and "buffer (mid s) = ws @ rest" and "length ws = block_len i"
    and "u32s ws" and "1 \<le> max_steps"
  shows "drain idle step stalled max_steps 0 s =
    (Inr (), update (store_block (mem s) (block_start i) ws) (set_buffer [] (queue s))
      (set_buffer rest (mid s)) s)"
    (is "_ = (_, ?t)")
proof -
  have "step s = (Inr True, ?t)" by (rule write_step [OF assms(1-7)])
  moreover have "\<not> idle s" using assms by (simp add: idle_iff)
  moreover have "idle ?t"
    using assms by (simp add: idle_iff ready_update ready_mem queue_update u32s_store_block)
  ultimately show ?thesis using assms(8) by (simp add: drain_step drain_idle)
qed

lemma drain_nothing: "ready s \<Longrightarrow> buffer (queue s) = [] \<Longrightarrow>
   drain idle step stalled max_steps k s = (Inr (), s)"
  by (simp add: drain_idle idle_iff)

end

end
