(* ===== verification/Axi_Master.thy ===== *)
theory Axi_Master
  imports Dm_Endpoint
begin

text \<open>
  The AXI4 master of \<open>source/axi_4_master.py\<close>: one call of \<open>process_one\<close> completes one descriptor
  fetch or one payload instruction. Its state holds the objects the Python class refers to: the
  system memory, the two FIFOs of the descriptor fetcher, the instruction FIFO and MID.
\<close>

section \<open>State\<close>

record axi =
  am_memory :: sysmem
  am_df_in :: fifo
  am_df_out :: fifo
  am_dm_in :: fifo
  am_mid :: fifo

definition on_df_in :: "(fifo, 'a) act \<Rightarrow> (axi, 'a) act" where
  "on_df_in = zoom am_df_in (\<lambda>q a. a\<lparr>am_df_in := q\<rparr>)"

definition on_df_out :: "(fifo, 'a) act \<Rightarrow> (axi, 'a) act" where
  "on_df_out = zoom am_df_out (\<lambda>q a. a\<lparr>am_df_out := q\<rparr>)"

definition on_dm_in :: "(fifo, 'a) act \<Rightarrow> (axi, 'a) act" where
  "on_dm_in = zoom am_dm_in (\<lambda>q a. a\<lparr>am_dm_in := q\<rparr>)"

definition on_mid :: "(fifo, 'a) act \<Rightarrow> (axi, 'a) act" where
  "on_mid = zoom am_mid (\<lambda>q a. a\<lparr>am_mid := q\<rparr>)"

lemmas on_fifo_defs = on_df_in_def on_df_out_def on_dm_in_def on_mid_def

interpretation amid: lens am_mid "\<lambda>q a. a\<lparr>am_mid := q\<rparr>"
  by unfold_locales simp_all

interpretation adm: lens am_dm_in "\<lambda>q a. a\<lparr>am_dm_in := q\<rparr>"
  by unfold_locales simp_all

interpretation adfi: lens am_df_in "\<lambda>q a. a\<lparr>am_df_in := q\<rparr>"
  by unfold_locales simp_all

interpretation adfo: lens am_df_out "\<lambda>q a. a\<lparr>am_df_out := q\<rparr>"
  by unfold_locales simp_all

section \<open>Operations\<close>

definition word_index :: "int \<Rightarrow> int result" where
  "word_index byte_addr =
     (if byte_addr AND 0x3 \<noteq> 0 then Inl (ValueError (AxiUnaligned byte_addr))
      else Inr (drop_bit 2 byte_addr AND 0xFFFFFFFF))"

text \<open>\<open>take\<close> is the loop's break at DESC_WORDS.\<close>

definition pack_descriptor_words :: "int list \<Rightarrow> int" where
  "pack_descriptor_words words =
     fold (\<lambda>(i, w) p. p OR push_bit (32 * i) (w AND 0xFFFFFFFF))
       (enumerate 0 (take (nat DESC_WORDS) words)) 0
     AND (push_bit DESC_BITS 1 - 1)"

definition axi_idle :: "axi \<Rightarrow> bool" where
  "axi_idle a \<longleftrightarrow> fifo_is_empty (am_df_in a) \<and> fifo_is_empty (am_dm_in a)"

definition mem_read_words :: "int \<Rightarrow> int \<Rightarrow> (axi, int list) act" where
  "mem_read_words byte_addr num_beats = act_read (\<lambda>a.
     res_bind (word_index byte_addr) (\<lambda>i0.
       let mem = sm_mem (am_memory a)
       in if num_beats = 0 then Inr []
          else if i0 + num_beats > int (length mem) then Inl (ValueError ReadBounds)
          else Inr (map (\<lambda>i. mem ! nat (i0 + i) AND 0xFFFFFFFF) (py_range num_beats))))"

definition mem_write_words :: "int \<Rightarrow> int list \<Rightarrow> (axi, unit) act" where
  "mem_write_words byte_addr words = act_bind (act_read (\<lambda>_. word_index byte_addr)) (\<lambda>i0.
     act_bind (act_gets (\<lambda>a. length (sm_mem (am_memory a)))) (\<lambda>n.
       if i0 + int (length words) > int n then act_raise (ValueError WriteBounds)
       else act_modify (\<lambda>a. a\<lparr>am_memory := (am_memory a)
              \<lparr>sm_mem := write_words (sm_mem (am_memory a)) i0 words\<rparr>\<rparr>)))"

definition do_descriptor_fetch :: "(axi, unit) act" where
  "do_descriptor_fetch = act_bind (on_df_in fifo_dequeue) (\<lambda>handle.
     let byte_addr = word_addr handle; num_beats = word_beats handle
     in if num_beats > DESC_WORDS then act_raise (ValueError (FetchLength num_beats))
        else act_bind (mem_read_words byte_addr num_beats) (\<lambda>words.
          let packed = pack_descriptor_words words
          in act_bind (act_gets (\<lambda>a. fifo_is_full (am_df_out a))) (\<lambda>full.
               if full then act_raise (RuntimeError DfOutFull)
               else on_df_out (fifo_enqueue packed))))"

definition do_instruction :: "(axi, unit) act" where
  "do_instruction = act_bind (on_dm_in fifo_dequeue) (\<lambda>instr.
     let byte_addr = word_addr instr; num_beats = word_beats instr; is_write = word_is_write instr
     in if num_beats = 0 then act_return ()
        else if is_write then
          act_bind (act_gets (\<lambda>a. fifo_len (am_mid a))) (\<lambda>n.
            if n < num_beats then act_raise (ValueError (MidShort num_beats n))
            else act_bind (map_each (\<lambda>_. on_mid fifo_dequeue) (py_range num_beats)) (\<lambda>ws.
              mem_write_words byte_addr (map (\<lambda>w. w AND 0xFFFFFFFF) ws)))
        else
          act_bind (act_gets (\<lambda>a. queue_length (am_mid a) - fifo_len (am_mid a))) (\<lambda>free.
            if free < num_beats then act_raise (RuntimeError (MidFull num_beats free))
            else act_bind (mem_read_words byte_addr num_beats) (\<lambda>words.
              for_each (\<lambda>w. on_mid (fifo_enqueue w)) words)))"

definition process_one :: "(axi, bool) act" where
  "process_one a =
     (if \<not> fifo_is_empty (am_df_in a) then act_bind do_descriptor_fetch (\<lambda>_. act_return True) a
      else if \<not> fifo_is_empty (am_dm_in a) then act_bind do_instruction (\<lambda>_. act_return True) a
      else (Inr False, a))"

text \<open>\<open>reset\<close> does nothing: the FIFOs belong to others.\<close>

definition axi_reset :: "(axi, unit) act" where
  "axi_reset = act_return ()"

section \<open>The invariant\<close>

definition axi_ok :: "axi \<Rightarrow> bool" where
  "axi_ok a \<longleftrightarrow> sysmem_ok (am_memory a) \<and> fifo_ok (am_df_in a) \<and> fifo_ok (am_df_out a) \<and>
     fifo_ok (am_dm_in a) \<and> fifo_ok (am_mid a)"

lemma word_index_range: "word_index x = Inr i \<Longrightarrow> 0 \<le> i"
  by (auto simp: word_index_def bits split: if_splits)

lemma mem_read_words_state [simp]: "snd (mem_read_words x n a) = a"
  by (simp add: mem_read_words_def act_read_def)

lemma axi_fifo_preserves [pres]:
  assumes "preserves fifo_ok m"
  shows "preserves axi_ok (on_df_in m)" and "preserves axi_ok (on_df_out m)"
    and "preserves axi_ok (on_dm_in m)" and "preserves axi_ok (on_mid m)"
  unfolding on_fifo_defs
  by (rule adfi.zoom_preserves [OF assms] adfo.zoom_preserves [OF assms]
      adm.zoom_preserves [OF assms] amid.zoom_preserves [OF assms]; simp add: axi_ok_def)+

lemma mem_read_words_preserves [pres]: "preserves I (mem_read_words x n)"
  by (rule preservesI) simp

lemma sysmem_write_ok:
  assumes "sysmem_ok m" and "0 \<le> i" and "i + int (length ws) \<le> int (length (sm_mem m))"
  shows "sysmem_ok (m\<lparr>sm_mem := write_words (sm_mem m) i ws\<rparr>)"
proof -
  have "nat i + length ws \<le> length (sm_mem m)" using assms by linarith
  with assms show ?thesis
    by (simp add: sysmem_ok_def write_words_block u32s_store_block)
qed

lemma mem_write_words_preserves [pres]: "preserves axi_ok (mem_write_words x ws)"
proof (rule preservesI)
  fix a assume "axi_ok a"
  then show "axi_ok (snd (mem_write_words x ws a))"
    using sysmem_write_ok [of "am_memory a" _ ws]
    by (cases "word_index x")
      (auto simp: mem_write_words_def act_simps act_bind_def axi_ok_def dest: word_index_range)
qed

lemma do_descriptor_fetch_preserves [pres]: "preserves axi_ok do_descriptor_fetch"
  unfolding do_descriptor_fetch_def Let_def by (intro pres)

lemma do_instruction_preserves [pres]: "preserves axi_ok do_instruction"
  unfolding do_instruction_def Let_def by (intro pres)

lemma process_one_preserves [pres]: "preserves axi_ok process_one"
proof (rule preservesI)
  fix a assume a: "axi_ok a"
  have "preserves axi_ok (act_bind do_descriptor_fetch (\<lambda>_. act_return True))"
    and "preserves axi_ok (act_bind do_instruction (\<lambda>_. act_return True))"
    by (intro pres)+
  with a show "axi_ok (snd (process_one a))"
    by (auto simp: process_one_def dest: preservesD)
qed

section \<open>What a transaction does\<close>

lemma enqueue_all_mid:
  assumes "fifo_len (am_mid a) + int (length ws) \<le> queue_length (am_mid a)"
  shows "for_each (\<lambda>w. on_mid (fifo_enqueue w)) ws a =
    (Inr (), a\<lparr>am_mid := set_buffer (buffer (am_mid a) @ ws) (am_mid a)\<rparr>)"
  using assms fq.enq_all [of "am_mid a" ws]
  by (simp add: on_mid_def amid.zoom_for_each [symmetric] zoom_apply fifo_len_def)

lemma dequeue_all_mid:
  assumes "n \<le> length (buffer (am_mid a))" and "length ks = n"
  shows "map_each (\<lambda>_. on_mid fifo_dequeue) ks a =
    (Inr (take n (buffer (am_mid a))),
     a\<lparr>am_mid := set_buffer (drop n (buffer (am_mid a))) (am_mid a)\<rparr>)"
  using assms fq.deq_all [of n "am_mid a" ks]
  by (simp add: on_mid_def amid.zoom_map_each [symmetric] zoom_apply)

lemma pop_instruction:
  "buffer (am_dm_in a) = i # is \<Longrightarrow>
   on_dm_in fifo_dequeue a = (Inr i, a\<lparr>am_dm_in := set_buffer is (am_dm_in a)\<rparr>)"
  by (simp add: on_dm_in_def zoom_apply fq.deq_some)

lemma pop_handle:
  "buffer (am_df_in a) = h # hs \<Longrightarrow>
   on_df_in fifo_dequeue a = (Inr h, a\<lparr>am_df_in := set_buffer hs (am_df_in a)\<rparr>)"
  by (simp add: on_df_in_def zoom_apply fq.deq_some)

lemma word_index_aligned:
  "0 \<le> x \<Longrightarrow> x < 2 ^ 32 \<Longrightarrow> x mod 4 = 0 \<Longrightarrow> word_index x = Inr (x div 4)"
  by (simp add: word_index_def bits drop_bit_eq_div)

lemma word_index_unaligned: "x mod 4 \<noteq> 0 \<Longrightarrow> word_index x = Inl (ValueError (AxiUnaligned x))"
  by (simp add: word_index_def bits)

lemma word_index_instr: "word_addr i mod 4 = 0 \<Longrightarrow> word_index (word_addr i) = Inr (word_addr i div 4)"
  by (rule word_index_aligned) (simp_all add: word_fields)

lemma mem_read_block:
  assumes "block_ok i (sm_mem (am_memory a))" and "u32s (sm_mem (am_memory a))"
  shows "mem_read_words (word_addr i) (word_beats i) a =
    (Inr (load_block (sm_mem (am_memory a)) (block_start i) (block_len i)), a)"
proof -
  let ?mem = "sm_mem (am_memory a)"
  have len: "block_start i + block_len i \<le> length ?mem" using assms by (simp add: block_ok_def)
  have "map (\<lambda>j. ?mem ! nat (word_addr i div 4 + j) AND 0xFFFFFFFF) (py_range (word_beats i))
      = map (\<lambda>w. w mod 4294967296) (load_block ?mem (block_start i) (block_len i))"
    using map_nth_range [OF len, of "\<lambda>w. w mod 4294967296"] by (simp add: bits)
  also have "\<dots> = load_block ?mem (block_start i) (block_len i)"
    using assms(2) by (simp add: u32s_load_block)
  finally show ?thesis
    using assms block_ok_bound [OF assms(1)]
    by (cases "word_beats i = 0")
      (simp_all add: mem_read_words_def act_read_def block_ok_def word_index_instr Let_def block_len_def)
qed

lemma mem_write_block:
  assumes "block_ok i (sm_mem (am_memory a))" and "length ws = block_len i" and "u32s ws"
  shows "mem_write_words (word_addr i) ws a =
    (Inr (), a\<lparr>am_memory := (am_memory a)
      \<lparr>sm_mem := store_block (sm_mem (am_memory a)) (block_start i) ws\<rparr>\<rparr>)"
proof -
  have "write_words (sm_mem (am_memory a)) (int (block_start i)) ws
      = store_block (sm_mem (am_memory a)) (block_start i) ws"
    using assms by (subst write_words_block) (simp_all add: block_ok_def del: int_block_start)
  then show ?thesis
    using assms block_ok_bound [OF assms(1)]
    by (simp add: mem_write_words_def act_simps act_bind_def block_ok_def word_index_instr)
qed

lemma masked_words: "u32s ws \<Longrightarrow> map (\<lambda>w. w AND 0xFFFFFFFF) ws = ws"
  by (simp add: bits)

text \<open>A read instruction: the block of system memory goes to the end of MID.\<close>

lemma process_read:
  assumes "buffer (am_df_in a) = []" and "buffer (am_dm_in a) = i # is" and "\<not> word_is_write i"
    and "block_ok i (sm_mem (am_memory a))" and "u32s (sm_mem (am_memory a))"
    and "fifo_len (am_mid a) + word_beats i \<le> queue_length (am_mid a)"
  shows "process_one a = (Inr True, a\<lparr>am_dm_in := set_buffer is (am_dm_in a),
    am_mid := set_buffer (buffer (am_mid a)
      @ load_block (sm_mem (am_memory a)) (block_start i) (block_len i)) (am_mid a)\<rparr>)"
proof -
  have "length (load_block (sm_mem (am_memory a)) (block_start i) (block_len i)) = block_len i"
    using assms(4) by (simp add: block_ok_def)
  then show ?thesis
    using assms mem_read_block [of i "a\<lparr>am_dm_in := set_buffer is (am_dm_in a)\<rparr>"]
    by (cases "word_beats i = 0")
      (simp_all add: process_one_def fifo_is_empty_def do_instruction_def Let_def act_simps act_bind_assoc
        pop_instruction enqueue_all_mid block_len_def)
qed

text \<open>A write instruction: the first words of MID go to the block.\<close>

lemma process_write:
  assumes "buffer (am_df_in a) = []" and "buffer (am_dm_in a) = i # is" and "word_is_write i"
    and "block_ok i (sm_mem (am_memory a))"
    and "buffer (am_mid a) = ws @ rs" and "length ws = block_len i" and "u32s ws"
  shows "process_one a = (Inr True, a\<lparr>am_dm_in := set_buffer is (am_dm_in a),
    am_mid := set_buffer rs (am_mid a),
    am_memory := (am_memory a)
      \<lparr>sm_mem := store_block (sm_mem (am_memory a)) (block_start i) ws\<rparr>\<rparr>)"
proof (cases "word_beats i = 0")
  case True
  with assms show ?thesis
    by (simp add: process_one_def fifo_is_empty_def do_instruction_def Let_def act_simps act_bind_assoc
        pop_instruction block_len_def)
next
  case False
  let ?a1 = "a\<lparr>am_dm_in := set_buffer is (am_dm_in a)\<rparr>"
  have pop: "map_each (\<lambda>_. on_mid fifo_dequeue) (py_range (word_beats i)) ?a1
      = (Inr ws, ?a1\<lparr>am_mid := set_buffer rs (am_mid a)\<rparr>)"
    using dequeue_all_mid [of "block_len i" ?a1 "py_range (word_beats i)"] assms
    by (simp add: block_len_def)
  have wrote: "mem_write_words (word_addr i) ws (?a1\<lparr>am_mid := set_buffer rs (am_mid a)\<rparr>)
      = (Inr (), (?a1\<lparr>am_mid := set_buffer rs (am_mid a)\<rparr>)\<lparr>am_memory := (am_memory a)
          \<lparr>sm_mem := store_block (sm_mem (am_memory a)) (block_start i) ws\<rparr>\<rparr>)"
    using assms mem_write_block [of i "?a1\<lparr>am_mid := set_buffer rs (am_mid a)\<rparr>" ws] by simp
  have "\<not> fifo_len (am_mid a) < word_beats i"
    using assms by (simp add: fifo_len_def flip: int_block_len)
  with assms False pop wrote show ?thesis
    by (simp add: process_one_def fifo_is_empty_def do_instruction_def Let_def act_simps act_bind_assoc
        pop_instruction masked_words)
qed

interpretation axi_end: dm_endpoint axi_idle process_one
  "\<lambda>a. buffer (am_df_in a) = [] \<and> u32s (sm_mem (am_memory a))" block_ok
  "\<lambda>a. sm_mem (am_memory a)" am_dm_in am_mid
  "\<lambda>m q d a. a\<lparr>am_memory := (am_memory a)\<lparr>sm_mem := m\<rparr>, am_dm_in := q, am_mid := d\<rparr>"
  by unfold_locales
    (auto simp: axi_idle_def fifo_is_empty_def process_read process_write)

section \<open>A descriptor fetch\<close>

lemma pack_four_words:
  assumes "u32s [a, b, c, d]"
  shows "pack_descriptor_words [a, b, c, d] = words4 a b c d"
proof -
  have "pack_descriptor_words [a, b, c, d]
      = (a OR push_bit 32 b OR push_bit 64 c OR push_bit 96 d) mod 2 ^ 128"
    using assms unfolding pack_descriptor_words_def desc_bits_mask
    by (simp add: DESC_WORDS_def bits or.assoc)
  with assms show ?thesis using words4_range [OF assms] by (simp add: or_words4)
qed

lemma fetch_unpacks:
  assumes "u32s ws" and "length ws = 4"
  shows "from_packed (pack_descriptor_words ws)
    = \<lparr>w0 = ws ! 0, w1 = ws ! 1, w2 = ws ! 2, w3 = ws ! 3\<rparr>"
proof -
  obtain a b c d where "ws = [a, b, c, d]"
    using assms(2) by (auto simp: eval_nat_numeral length_Suc_conv)
  with assms(1) show ?thesis
    by (simp add: pack_four_words from_packed_words4 eval_nat_numeral)
qed

lemma process_fetch:
  assumes "buffer (am_df_in a) = h # hs" and "word_beats h \<le> DESC_WORDS"
    and "block_ok h (sm_mem (am_memory a))" and "u32s (sm_mem (am_memory a))"
    and "\<not> fifo_is_full (am_df_out a)"
  shows "process_one a = (Inr True, a\<lparr>am_df_in := set_buffer hs (am_df_in a),
    am_df_out := set_buffer (buffer (am_df_out a) @ [pack_descriptor_words
      (load_block (sm_mem (am_memory a)) (block_start h) (block_len h))]) (am_df_out a)\<rparr>)"
  using assms mem_read_block [of h "a\<lparr>am_df_in := set_buffer hs (am_df_in a)\<rparr>"]
  by (simp add: process_one_def fifo_is_empty_def do_descriptor_fetch_def Let_def act_simps
      act_bind_assoc pop_handle on_df_out_def zoom_apply fifo_enqueue_def)

section \<open>Frames\<close>

lemma on_fifo_frames [pres]:
  "(\<And>a q. I a \<Longrightarrow> I (a\<lparr>am_df_in := q\<rparr>)) \<Longrightarrow> preserves I (on_df_in m)"
  "(\<And>a q. I a \<Longrightarrow> I (a\<lparr>am_df_out := q\<rparr>)) \<Longrightarrow> preserves I (on_df_out m)"
  "(\<And>a q. I a \<Longrightarrow> I (a\<lparr>am_dm_in := q\<rparr>)) \<Longrightarrow> preserves I (on_dm_in m)"
  "(\<And>a q. I a \<Longrightarrow> I (a\<lparr>am_mid := q\<rparr>)) \<Longrightarrow> preserves I (on_mid m)"
  by (auto intro!: preservesI simp: on_fifo_defs zoom_def split: prod.split)

lemma mem_write_words_frame:
  "(\<And>a m. I a \<Longrightarrow> I (a\<lparr>am_memory := m\<rparr>)) \<Longrightarrow> preserves I (mem_write_words x ws)"
  unfolding mem_write_words_def by (intro pres) (auto intro!: preservesI simp: act_simps)

lemma mem_write_words_error: "mem_write_words x ws a = (Inl e, b) \<Longrightarrow> b = a"
  by (auto simp: mem_write_words_def act_simps split: if_splits sum.splits)

lemma mem_write_words_err_keeps: "err_keeps I (mem_write_words x ws)"
  by (auto simp: err_keeps_def dest: mem_write_words_error)

definition axi_pending :: "axi \<Rightarrow> nat" where
  "axi_pending a = length (buffer (am_df_in a)) + length (buffer (am_dm_in a))"

lemma axi_pending_idle: "axi_pending a = 0 \<longleftrightarrow> axi_idle a"
  by (auto simp: axi_pending_def axi_idle_def fifo_is_empty_def)

lemma process_cases:
  assumes "\<not> axi_idle a"
  obtains (fetch) h hs where "buffer (am_df_in a) = h # hs"
      and "process_one a = act_bind do_descriptor_fetch (\<lambda>_. act_return True) a"
    | (instr) i js where "buffer (am_df_in a) = []" and "buffer (am_dm_in a) = i # js"
      and "process_one a = act_bind do_instruction (\<lambda>_. act_return True) a"
  using assms
  by (cases "buffer (am_df_in a)"; cases "buffer (am_dm_in a)")
    (auto simp: axi_idle_def fifo_is_empty_def process_one_def)

lemma process_one_pending:
  assumes "\<not> axi_idle a"
  shows "axi_pending (snd (process_one a)) + 1 = axi_pending a"
  using assms
proof (cases rule: process_cases)
  case (fetch h hs)
  have "axi_pending (snd (act_bind do_descriptor_fetch (\<lambda>_. act_return True) a)) = axi_pending a - 1"
    unfolding do_descriptor_fetch_def act_bind_assoc Let_def
    by (rule preserves_after [where I = "\<lambda>s. axi_pending s = axi_pending a - 1", OF _ pop_handle])
      (intro pres, simp_all add: fetch axi_pending_def)
  with fetch show ?thesis by (simp add: axi_pending_def)
next
  case (instr i js)
  have "axi_pending (snd (act_bind do_instruction (\<lambda>_. act_return True) a)) = axi_pending a - 1"
    unfolding do_instruction_def act_bind_assoc Let_def
    by (rule preserves_after [where I = "\<lambda>s. axi_pending s = axi_pending a - 1", OF _ pop_instruction])
      (intro pres mem_write_words_frame, simp_all add: instr axi_pending_def)
  with instr show ?thesis by (simp add: axi_pending_def)
qed

lemma process_one_True:
  assumes "\<not> axi_idle a" and "process_one a = (Inr b, t)"
  shows "b = True"
  using assms
  by (auto simp: process_one_def axi_idle_def act_bind_eq_Inr act_simps split: if_splits)

lemma process_one_step:
  "\<not> axi_idle a \<Longrightarrow> process_one a = (r, t) \<Longrightarrow> r \<noteq> Inr False \<and> axi_pending t + 1 = axi_pending a"
  using process_one_pending [of a] process_one_True [of a] by auto

lemma process_one_memory_error:
  assumes "process_one a = (Inl e, b)"
  shows "am_memory b = am_memory a"
proof -
  let ?I = "\<lambda>s. am_memory s = am_memory a"
  have "err_keeps ?I do_descriptor_fetch"
    unfolding do_descriptor_fetch_def Let_def by (intro err_keeps_preserves pres) simp_all
  moreover have "err_keeps ?I do_instruction"
    unfolding do_instruction_def Let_def
    by (intro err_keeps_bind err_keeps_if err_keeps_leaf mem_write_words_err_keeps pres) simp_all
  moreover have "do_descriptor_fetch a = (Inl e, b) \<or> do_instruction a = (Inl e, b)"
    using assms by (auto simp: process_one_def act_bind_eq_Inl act_simps split: if_splits)
  ultimately show ?thesis unfolding err_keeps_def by blast
qed

section \<open>A small master\<close>

text \<open>Eight words, one handle for the first four of them and one read instruction.\<close>

definition small_axi :: axi where
  "small_axi = \<lparr>am_memory = \<lparr>sm_size = 8, sm_mem = [1, 2, 3, 4, 5, 6, 7, 8]\<rparr>,
     am_df_in = \<lparr>fifo_id = ''df_in'', queue_length = 2, buffer = [pack_handle 0 4]\<rparr>,
     am_df_out = \<lparr>fifo_id = ''df_out'', queue_length = 2, buffer = []\<rparr>,
     am_dm_in = \<lparr>fifo_id = ''dm_axi'', queue_length = 2, buffer = [pack_instruction 4 2 False]\<rparr>,
     am_mid = \<lparr>fifo_id = ''mid'', queue_length = 4, buffer = []\<rparr>\<rparr>"

lemma small_axi_ok: "axi_ok small_axi"
  by (simp add: small_axi_def axi_ok_def sysmem_ok_def fifo_ok_def u32s_def)

section \<open>Properties\<close>

text \<open>
  The handle wins: while a handle is pending, a call of \<open>process_one\<close> leaves the instruction
  queue, MID and the system memory exactly as they are, whether it succeeds or raises.
\<close>

theorem handle_has_priority:
  assumes "\<not> fifo_is_empty (am_df_in a)"
  shows "am_dm_in (snd (process_one a)) = am_dm_in a \<and> am_mid (snd (process_one a)) = am_mid a \<and>
    am_memory (snd (process_one a)) = am_memory a"
proof -
  let ?I = "\<lambda>s. am_dm_in s = am_dm_in a \<and> am_mid s = am_mid a \<and> am_memory s = am_memory a"
  have "preserves ?I (act_bind do_descriptor_fetch (\<lambda>_. act_return True))"
    unfolding do_descriptor_fetch_def Let_def by (intro pres) simp_all
  with assms show ?thesis by (auto simp: process_one_def dest: preservesD)
qed

theorem handle_has_priority_witness:
  "am_dm_in (snd (process_one small_axi)) = am_dm_in small_axi"
  using handle_has_priority [of small_axi] by (simp add: small_axi_def fifo_is_empty_def)

text \<open>
  A descriptor fetch delivers the descriptor: for a handle of four beats on an existing, aligned
  block, the word pushed to the callback FIFO unpacks to the four memory words in order, the handle
  is consumed, and nothing else changes.
\<close>

theorem fetch_delivers_descriptor:
  assumes "buffer (am_df_in a) = h # hs" and "word_beats h = 4"
    and "block_ok h (sm_mem (am_memory a))" and "u32s (sm_mem (am_memory a))"
    and "\<not> fifo_is_full (am_df_out a)"
  shows "\<exists>p. process_one a = (Inr True, a\<lparr>am_df_in := set_buffer hs (am_df_in a),
      am_df_out := set_buffer (buffer (am_df_out a) @ [p]) (am_df_out a)\<rparr>) \<and>
    from_packed p = \<lparr>w0 = sm_mem (am_memory a) ! block_start h,
      w1 = sm_mem (am_memory a) ! (block_start h + 1),
      w2 = sm_mem (am_memory a) ! (block_start h + 2),
      w3 = sm_mem (am_memory a) ! (block_start h + 3)\<rparr>"
proof -
  let ?ws = "load_block (sm_mem (am_memory a)) (block_start h) (block_len h)"
  have n: "block_len h = 4" using assms(2) by (simp add: block_len_def)
  with assms(3) have r: "block_start h + 4 \<le> length (sm_mem (am_memory a))"
    by (simp add: block_ok_def)
  have "process_one a = (Inr True, a\<lparr>am_df_in := set_buffer hs (am_df_in a),
      am_df_out := set_buffer (buffer (am_df_out a) @ [pack_descriptor_words ?ws]) (am_df_out a)\<rparr>)"
    using assms by (intro process_fetch) (simp_all add: DESC_WORDS_def)
  moreover have "from_packed (pack_descriptor_words ?ws)
      = \<lparr>w0 = ?ws ! 0, w1 = ?ws ! 1, w2 = ?ws ! 2, w3 = ?ws ! 3\<rparr>"
    using assms(4) r n by (intro fetch_unpacks) (simp_all add: u32s_load_block)
  ultimately show ?thesis using r n by (auto simp: load_block_nth)
qed

theorem fetch_delivers_descriptor_witness:
  "\<exists>p a'. process_one small_axi = (Inr True, a') \<and> buffer (am_df_out a') = [p] \<and>
    from_packed p = \<lparr>w0 = 1, w1 = 2, w2 = 3, w3 = 4\<rparr>"
  using fetch_delivers_descriptor [of small_axi "pack_handle 0 4" "[]"] small_axi_ok
  by (auto simp: axi_ok_def sysmem_ok_def)
    (auto simp: small_axi_def fifo_is_full_def block_ok_def block_start_def block_len_def)

text \<open>
  A transaction that raises leaves the system memory untouched, and has consumed exactly the
  one handle or instruction it was working on.
\<close>

theorem failed_transaction:
  assumes "process_one a = (Inl e, b)"
  shows "am_memory b = am_memory a \<and>
    length (buffer (am_df_in b)) + length (buffer (am_dm_in b)) + 1
      = length (buffer (am_df_in a)) + length (buffer (am_dm_in a))"
proof -
  have "\<not> axi_idle a"
    using assms by (auto simp: process_one_def axi_idle_def split: if_splits)
  from process_one_step [OF this assms] process_one_memory_error [OF assms] show ?thesis
    by (simp add: axi_pending_def)
qed

theorem failed_transaction_witness:
  "am_memory (snd (process_one (small_axi\<lparr>am_df_in := set_buffer [pack_handle 2 4] (am_df_in small_axi)\<rparr>)))
    = am_memory small_axi"
proof -
  let ?a = "small_axi\<lparr>am_df_in := set_buffer [pack_handle 2 4] (am_df_in small_axi)\<rparr>"
  have "process_one ?a = (Inl (ValueError (AxiUnaligned 2)),
      ?a\<lparr>am_df_in := set_buffer [] (am_df_in ?a)\<rparr>)"
    using word_index_unaligned [of 2]
    by (simp add: process_one_def fifo_is_empty_def do_descriptor_fetch_def act_bind_assoc act_simps
        Let_def pop_handle DESC_WORDS_def mem_read_words_def)
  from failed_transaction [OF this] this show ?thesis by simp
qed

text \<open>
  Every transaction keeps the invariant of the master: the memory keeps its size and holds
  32-bit words only, and no FIFO exceeds its length, also when the transaction raises.
\<close>

theorem process_one_invariant:
  assumes "axi_ok a"
  shows "axi_ok (snd (process_one a))"
  using assms process_one_preserves by (rule preservesD [rotated])

theorem process_one_invariant_witness: "axi_ok (snd (process_one small_axi))"
  using process_one_invariant [OF small_axi_ok] .

end
