(* ===== verification/Sram_Controller.thy ===== *)
theory Sram_Controller
  imports Dm_Endpoint
begin

text \<open>
  The SRAM controller of \<open>source/sram_controller.py\<close>: the other consumer of data-mover
  instructions. It works word by word and checks nothing beforehand, so an instruction that fails
  leaves the words it already moved.
\<close>

section \<open>State and operation\<close>

record sram_ctrl =
  sc_sram :: "int list"
  sc_dm_in :: fifo
  sc_mid :: fifo

definition on_sc_dm_in :: "(fifo, 'a) act \<Rightarrow> (sram_ctrl, 'a) act" where
  "on_sc_dm_in = zoom sc_dm_in (\<lambda>q s. s\<lparr>sc_dm_in := q\<rparr>)"

definition on_sc_mid :: "(fifo, 'a) act \<Rightarrow> (sram_ctrl, 'a) act" where
  "on_sc_mid = zoom sc_mid (\<lambda>q s. s\<lparr>sc_mid := q\<rparr>)"

definition sram_get :: "int \<Rightarrow> (sram_ctrl, int) act" where
  "sram_get i = act_read (\<lambda>s. py_getitem (sc_sram s) i)"

definition sram_set :: "int \<Rightarrow> int \<Rightarrow> (sram_ctrl, unit) act" where
  "sram_set i w s =
     (case py_setitem (sc_sram s) i w of Inl e \<Rightarrow> (Inl e, s) | Inr m \<Rightarrow> (Inr (), s\<lparr>sc_sram := m\<rparr>))"

definition sram_write_beat :: "int \<Rightarrow> int \<Rightarrow> (sram_ctrl, unit) act" where
  "sram_write_beat word_idx i =
     act_bind (on_sc_mid fifo_dequeue) (\<lambda>data. sram_set (word_idx + i) (data AND 0xFFFFFFFF))"

definition sram_read_beat :: "int \<Rightarrow> int \<Rightarrow> (sram_ctrl, unit) act" where
  "sram_read_beat word_idx i =
     act_bind (sram_get (word_idx + i)) (\<lambda>w. on_sc_mid (fifo_enqueue (w AND 0xFFFFFFFF)))"

definition sram_process_one :: "(sram_ctrl, bool) act" where
  "sram_process_one s =
     (if fifo_is_empty (sc_dm_in s) then (Inr False, s)
      else act_bind (on_sc_dm_in fifo_dequeue) (\<lambda>instr.
        let byte_addr = word_addr instr; num_beats = word_beats instr;
            is_write = word_is_write instr; word_idx = drop_bit 2 byte_addr
        in act_bind
             (if is_write then for_each (sram_write_beat word_idx) (py_range num_beats)
              else for_each (sram_read_beat word_idx) (py_range num_beats))
             (\<lambda>_. act_return True)) s)"

definition sram_idle :: "sram_ctrl \<Rightarrow> bool" where
  "sram_idle s \<longleftrightarrow> fifo_is_empty (sc_dm_in s)"

interpretation smid: lens sc_mid "\<lambda>q s. s\<lparr>sc_mid := q\<rparr>"
  by unfold_locales simp_all

interpretation sdm: lens sc_dm_in "\<lambda>q s. s\<lparr>sc_dm_in := q\<rparr>"
  by unfold_locales simp_all

section \<open>The invariant\<close>

definition sram_ctrl_ok :: "int \<Rightarrow> sram_ctrl \<Rightarrow> bool" where
  "sram_ctrl_ok n s \<longleftrightarrow> int (length (sc_sram s)) = n \<and> u32s (sc_sram s) \<and>
     fifo_ok (sc_dm_in s) \<and> fifo_ok (sc_mid s)"

lemma sram_fifo_preserves [pres]:
  assumes "preserves fifo_ok m"
  shows "preserves (sram_ctrl_ok n) (on_sc_dm_in m)" and "preserves (sram_ctrl_ok n) (on_sc_mid m)"
  unfolding on_sc_dm_in_def on_sc_mid_def
  by (rule sdm.zoom_preserves [OF assms] smid.zoom_preserves [OF assms]; simp add: sram_ctrl_ok_def)+

lemma py_setitem_u32s:
  "py_setitem xs i x = Inr ys \<Longrightarrow> u32s xs \<Longrightarrow> 0 \<le> x \<Longrightarrow> x < 2 ^ 32 \<Longrightarrow> u32s ys"
  by (auto simp: py_setitem_def py_index_def Let_def u32s_update split: if_splits)

lemma sram_set_preserves [pres]:
  "preserves (sram_ctrl_ok n) (sram_set i (w AND 0xFFFFFFFF))"
proof (rule preservesI)
  fix s assume "sram_ctrl_ok n s"
  then show "sram_ctrl_ok n (snd (sram_set i (w AND 0xFFFFFFFF) s))"
    by (cases "py_setitem (sc_sram s) i (w AND 0xFFFFFFFF)")
      (auto simp: sram_set_def sram_ctrl_ok_def bits dest: py_setitem_u32s py_setitem_length)
qed

lemma sram_process_one_preserves [pres]: "preserves (sram_ctrl_ok n) sram_process_one"
proof (rule preservesI)
  fix s assume s: "sram_ctrl_ok n s"
  have "preserves (sram_ctrl_ok n) (act_bind (on_sc_dm_in fifo_dequeue) (\<lambda>instr.
        let byte_addr = word_addr instr; num_beats = word_beats instr;
            is_write = word_is_write instr; word_idx = drop_bit 2 byte_addr
        in act_bind
             (if is_write then for_each (sram_write_beat word_idx) (py_range num_beats)
              else for_each (sram_read_beat word_idx) (py_range num_beats))
             (\<lambda>_. act_return True)))"
    unfolding Let_def sram_write_beat_def sram_read_beat_def sram_get_def by (intro pres)
  with s show "sram_ctrl_ok n (snd (sram_process_one s))"
    by (auto simp: sram_process_one_def dest: preservesD)
qed

section \<open>The beat loops\<close>

lemma py_range_Suc: "map int [0..<Suc k] = map int [0..<k] @ [int k]"
  by simp

lemma write_beats:
  assumes "w + k \<le> length (sc_sram s)" and "buffer (sc_mid s) = ws @ rs" and "length ws = k"
    and "u32s ws"
  shows "for_each (sram_write_beat (int w)) (map int [0..<k]) s =
    (Inr (), s\<lparr>sc_sram := store_block (sc_sram s) w ws, sc_mid := set_buffer rs (sc_mid s)\<rparr>)"
  using assms
proof (induction k arbitrary: ws rs)
  case 0
  then show ?case by (simp add: act_simps)
next
  case (Suc k)
  from Suc.prems(3) obtain us u where ws: "ws = us @ [u]" by (cases ws rule: rev_cases) auto
  have "for_each (sram_write_beat (int w)) (map int [0..<k]) s =
      (Inr (), s\<lparr>sc_sram := store_block (sc_sram s) w us, sc_mid := set_buffer (u # rs) (sc_mid s)\<rparr>)"
    using Suc.prems ws by (intro Suc.IH) auto
  moreover have "sram_write_beat (int w) (int k)
      (s\<lparr>sc_sram := store_block (sc_sram s) w us, sc_mid := set_buffer (u # rs) (sc_mid s)\<rparr>)
    = (Inr (), s\<lparr>sc_sram := store_block (sc_sram s) w ws, sc_mid := set_buffer rs (sc_mid s)\<rparr>)"
    using Suc.prems ws
    by (simp add: sram_write_beat_def on_sc_mid_def zoom_apply act_simps fq.deq_some bits sram_set_def
        store_block_snoc nat_add_distrib)
  ultimately show ?case by (simp add: for_each_append act_simps del: upt_Suc add: upt_Suc_append)
qed

lemma read_beats:
  assumes "w + k \<le> length (sc_sram s)" and "u32s (sc_sram s)"
    and "fifo_len (sc_mid s) + int k \<le> queue_length (sc_mid s)"
  shows "for_each (sram_read_beat (int w)) (map int [0..<k]) s =
    (Inr (), s\<lparr>sc_mid := set_buffer (buffer (sc_mid s) @ load_block (sc_sram s) w k) (sc_mid s)\<rparr>)"
  using assms
proof (induction k)
  case 0
  then show ?case by (simp add: act_simps)
next
  case (Suc k)
  let ?s = "s\<lparr>sc_mid := set_buffer (buffer (sc_mid s) @ load_block (sc_sram s) w k) (sc_mid s)\<rparr>"
  have "for_each (sram_read_beat (int w)) (map int [0..<k]) s = (Inr (), ?s)"
    using Suc.prems by (intro Suc.IH) auto
  moreover have "load_block (sc_sram s) w (Suc k) = load_block (sc_sram s) w k @ [sc_sram s ! (w + k)]"
    using Suc.prems by (simp add: load_block_def take_Suc_conv_app_nth)
  moreover have "sram_read_beat (int w) (int k) ?s
    = (Inr (), s\<lparr>sc_mid := set_buffer (buffer (sc_mid s) @ load_block (sc_sram s) w k
        @ [sc_sram s ! (w + k)]) (sc_mid s)\<rparr>)"
    using Suc.prems u32s_nth [of "sc_sram s" "w + k"]
    by (simp add: sram_read_beat_def sram_get_def on_sc_mid_def zoom_apply act_simps fq.enq_room bits
        nat_add_distrib fifo_len_def)
  ultimately show ?case by (simp add: for_each_append act_simps del: upt_Suc add: upt_Suc_append)
qed

section \<open>What an instruction does\<close>

lemma pop_sram_instruction:
  "buffer (sc_dm_in s) = i # is \<Longrightarrow>
   on_sc_dm_in fifo_dequeue s = (Inr i, s\<lparr>sc_dm_in := set_buffer is (sc_dm_in s)\<rparr>)"
  by (simp add: on_sc_dm_in_def zoom_apply fq.deq_some)

lemma sram_word_idx: "drop_bit 2 (word_addr i) = int (block_start i)"
  by (simp add: drop_bit_eq_div)

lemma beats_range: "py_range (word_beats i) = map int [0..<block_len i]"
  by (simp add: py_range_def block_len_def)

lemma sram_process_read:
  assumes "buffer (sc_dm_in s) = i # is" and "\<not> word_is_write i"
    and "block_start i + block_len i \<le> length (sc_sram s)" and "u32s (sc_sram s)"
    and "fifo_len (sc_mid s) + word_beats i \<le> queue_length (sc_mid s)"
  shows "sram_process_one s = (Inr True, s\<lparr>sc_dm_in := set_buffer is (sc_dm_in s),
    sc_mid := set_buffer (buffer (sc_mid s)
      @ load_block (sc_sram s) (block_start i) (block_len i)) (sc_mid s)\<rparr>)"
  using assms read_beats [of "block_start i" "block_len i" "s\<lparr>sc_dm_in := set_buffer is (sc_dm_in s)\<rparr>"]
  by (simp add: sram_process_one_def fifo_is_empty_def act_simps Let_def pop_sram_instruction
      sram_word_idx beats_range del: int_block_start)

lemma sram_process_write:
  assumes "buffer (sc_dm_in s) = i # is" and "word_is_write i"
    and "block_start i + block_len i \<le> length (sc_sram s)"
    and "buffer (sc_mid s) = ws @ rs" and "length ws = block_len i" and "u32s ws"
  shows "sram_process_one s = (Inr True, s\<lparr>sc_dm_in := set_buffer is (sc_dm_in s),
    sc_mid := set_buffer rs (sc_mid s),
    sc_sram := store_block (sc_sram s) (block_start i) ws\<rparr>)"
  using assms write_beats [of "block_start i" "block_len i" "s\<lparr>sc_dm_in := set_buffer is (sc_dm_in s)\<rparr>" ws rs]
  by (simp add: sram_process_one_def fifo_is_empty_def act_simps Let_def pop_sram_instruction
      sram_word_idx beats_range del: int_block_start)

interpretation sram_end: dm_endpoint sram_idle sram_process_one
  "\<lambda>s. u32s (sc_sram s)" "\<lambda>i m. block_start i + block_len i \<le> length m" sc_sram sc_dm_in sc_mid
  "\<lambda>m q d s. s\<lparr>sc_sram := m, sc_dm_in := q, sc_mid := d\<rparr>"
  by unfold_locales
    (auto simp: sram_idle_def fifo_is_empty_def block_ok_def sram_process_read sram_process_write)

section \<open>Consumption\<close>

lemma sram_fifo_frames [pres]:
  "(\<And>a q. I a \<Longrightarrow> I (a\<lparr>sc_dm_in := q\<rparr>)) \<Longrightarrow> preserves I (on_sc_dm_in m)"
  "(\<And>a q. I a \<Longrightarrow> I (a\<lparr>sc_mid := q\<rparr>)) \<Longrightarrow> preserves I (on_sc_mid m)"
  by (auto intro!: preservesI simp: on_sc_dm_in_def on_sc_mid_def zoom_def split: prod.split)

lemma sram_set_frame:
  "(\<And>a m. I a \<Longrightarrow> I (a\<lparr>sc_sram := m\<rparr>)) \<Longrightarrow> preserves I (sram_set i w)"
  by (auto intro!: preservesI simp: sram_set_def split: sum.split)

lemma sram_process_pending:
  assumes "\<not> sram_idle s"
  shows "length (buffer (sc_dm_in (snd (sram_process_one s)))) + 1 = length (buffer (sc_dm_in s))"
proof -
  obtain i js where q: "buffer (sc_dm_in s) = i # js"
    using assms by (cases "buffer (sc_dm_in s)") (auto simp: sram_idle_def fifo_is_empty_def)
  have "length (buffer (sc_dm_in (snd (sram_process_one s)))) = length js"
    using q unfolding sram_process_one_def fifo_is_empty_def Let_def
    by simp (rule preserves_after [where I = "\<lambda>s. length (buffer (sc_dm_in s)) = length js",
          OF _ pop_sram_instruction],
        unfold sram_write_beat_def sram_read_beat_def sram_get_def,
        intro pres sram_set_frame, simp_all)
  with q show ?thesis by simp
qed

lemma sram_process_step:
  assumes "\<not> sram_idle s" and "sram_process_one s = (r, t)"
  shows "r \<noteq> Inr False \<and> length (buffer (sc_dm_in t)) + 1 = length (buffer (sc_dm_in s))"
  using sram_process_pending [OF assms(1)] assms
  by (auto simp: sram_process_one_def sram_idle_def act_bind_eq_Inr act_simps Let_def split: if_splits)

section \<open>Properties\<close>

lemma for_each_stops:
  "for_each f xs s = (Inr (), t) \<Longrightarrow> f x t = (Inl e, u) \<Longrightarrow> for_each f (xs @ x # ys) s = (Inl e, u)"
  by (simp add: for_each_append act_simps)

text \<open>
  A write past the end of the SRAM is not undone: the words that still fit are written, the next
  MID word is consumed and lost, and the controller raises IndexError with the instruction gone.
\<close>

theorem sram_write_overrun:
  assumes "buffer (sc_dm_in s) = i # js" and "word_is_write i"
    and "block_start i \<le> length (sc_sram s)"
    and "block_start i + block_len i > length (sc_sram s)"
    and "buffer (sc_mid s) = ws @ x # rs" and "length ws = length (sc_sram s) - block_start i"
    and "u32s ws"
  shows "sram_process_one s = (Inl IndexError, s\<lparr>sc_dm_in := set_buffer js (sc_dm_in s),
    sc_mid := set_buffer rs (sc_mid s),
    sc_sram := store_block (sc_sram s) (block_start i) ws\<rparr>)"
proof -
  let ?k = "length ws" and ?w = "block_start i"
  let ?s1 = "s\<lparr>sc_dm_in := set_buffer js (sc_dm_in s)\<rparr>"
  let ?s2 = "?s1\<lparr>sc_sram := store_block (sc_sram s) ?w ws, sc_mid := set_buffer (x # rs) (sc_mid s)\<rparr>"
  have fit: "?w + ?k = length (sc_sram s)" using assms by simp
  have "for_each (sram_write_beat (int ?w)) (map int [0..<?k]) ?s1 = (Inr (), ?s2)"
    using assms fit write_beats [of ?w ?k ?s1 ws "x # rs"] by simp
  moreover have "sram_write_beat (int ?w) (int ?k) ?s2
      = (Inl IndexError, ?s2\<lparr>sc_mid := set_buffer rs (sc_mid s)\<rparr>)"
    using fit by (simp add: sram_write_beat_def on_sc_mid_def zoom_apply act_simps fq.deq_some
        sram_set_def py_setitem_out del: int_block_start flip: of_nat_add)
  moreover have "map int [0..<block_len i]
      = map int [0..<?k] @ int ?k # map int [Suc ?k..<block_len i]"
    using assms(4) fit upt_add_eq_append [of 0 ?k "block_len i - ?k"] by (simp add: upt_conv_Cons)
  ultimately have "for_each (sram_write_beat (int ?w)) (map int [0..<block_len i]) ?s1
      = (Inl IndexError, ?s2\<lparr>sc_mid := set_buffer rs (sc_mid s)\<rparr>)"
    by (simp only: for_each_stops)
  with assms show ?thesis
    by (simp add: sram_process_one_def fifo_is_empty_def act_simps Let_def pop_sram_instruction
        sram_word_idx beats_range del: int_block_start)
qed

text \<open>Four words, and a write of three beats from the third word on.\<close>

definition small_ctrl :: sram_ctrl where
  "small_ctrl = \<lparr>sc_sram = [1, 2, 3, 4],
     sc_dm_in = \<lparr>fifo_id = ''dm_sram'', queue_length = 2, buffer = [pack_instruction 8 3 True]\<rparr>,
     sc_mid = \<lparr>fifo_id = ''mid'', queue_length = 4, buffer = [7, 8, 9]\<rparr>\<rparr>"

theorem sram_write_overrun_witness:
  "fst (sram_process_one small_ctrl) = Inl IndexError \<and>
   sc_sram (snd (sram_process_one small_ctrl)) = [1, 2, 7, 8]"
  using sram_write_overrun [of small_ctrl "pack_instruction 8 3 True" "[]" "[7, 8]" 9 "[]"]
  by (simp add: small_ctrl_def block_start_def block_len_def store_block_def)

text \<open>
  The SRAM controller keeps its invariant on every outcome: the SRAM keeps its size and holds
  32-bit words only, and neither FIFO exceeds its length.
\<close>

theorem sram_process_one_invariant:
  assumes "sram_ctrl_ok n s"
  shows "sram_ctrl_ok n (snd (sram_process_one s))"
  using sram_process_one_preserves assms by (rule preservesD)

theorem sram_process_one_invariant_witness:
  "sram_ctrl_ok 4 (snd (sram_process_one small_ctrl))"
  by (rule sram_process_one_invariant) (simp add: small_ctrl_def sram_ctrl_ok_def fifo_ok_def u32s_def)

end
