(* ===== verification/Fetcher_Mover.thy ===== *)
theory Fetcher_Mover
  imports Axi_Master
begin

text \<open>
  The two front ends of the AXI master: the descriptor fetcher (\<open>source/descriptor_fetcher.py\<close>),
  which submits handles and takes descriptors, and the data mover (\<open>source/data_mover.py\<close>), which
  submits instructions and preloads MID. Both hold references to FIFOs of the master; the two lenses
  say which.
\<close>

section \<open>The descriptor fetcher\<close>

record fetcher =
  fifo_handle_to_axi :: fifo
  fifo_desc_from_axi :: fifo

definition on_handle_fifo :: "(fifo, 'a) act \<Rightarrow> (fetcher, 'a) act" where
  "on_handle_fifo = zoom fifo_handle_to_axi (\<lambda>q f. f\<lparr>fifo_handle_to_axi := q\<rparr>)"

definition on_desc_fifo :: "(fifo, 'a) act \<Rightarrow> (fetcher, 'a) act" where
  "on_desc_fifo = zoom fifo_desc_from_axi (\<lambda>q f. f\<lparr>fifo_desc_from_axi := q\<rparr>)"

definition submit_handle :: "int \<Rightarrow> int \<Rightarrow> (fetcher, unit) act" where
  "submit_handle byte_addr len_beats =
     on_handle_fifo (fifo_enqueue (pack_handle byte_addr len_beats))"

definition has_descriptor :: "fetcher \<Rightarrow> bool" where
  "has_descriptor f \<longleftrightarrow> \<not> fifo_is_empty (fifo_desc_from_axi f)"

definition take_descriptor :: "(fetcher, descriptor) act" where
  "take_descriptor =
     act_bind (on_desc_fifo fifo_dequeue) (\<lambda>packed. act_return (from_packed packed))"

section \<open>The data mover\<close>

record data_mover =
  fifo_instr_to_axi :: fifo
  fifo_mid :: fifo

definition on_instr_fifo :: "(fifo, 'a) act \<Rightarrow> (data_mover, 'a) act" where
  "on_instr_fifo = zoom fifo_instr_to_axi (\<lambda>q m. m\<lparr>fifo_instr_to_axi := q\<rparr>)"

definition on_fifo_mid :: "(fifo, 'a) act \<Rightarrow> (data_mover, 'a) act" where
  "on_fifo_mid = zoom fifo_mid (\<lambda>q m. m\<lparr>fifo_mid := q\<rparr>)"

definition submit_read :: "int \<Rightarrow> int \<Rightarrow> (data_mover, unit) act" where
  "submit_read byte_addr len_beats =
     on_instr_fifo (fifo_enqueue (pack_instruction byte_addr len_beats False))"

definition submit_write :: "int \<Rightarrow> int \<Rightarrow> (data_mover, unit) act" where
  "submit_write byte_addr len_beats =
     on_instr_fifo (fifo_enqueue (pack_instruction byte_addr len_beats True))"

definition preload_write_data :: "int list \<Rightarrow> (data_mover, unit) act" where
  "preload_write_data words =
     for_each (\<lambda>w. on_fifo_mid (fifo_enqueue (w AND 0xFFFFFFFF))) words"

section \<open>Wiring\<close>

text \<open>The FIFOs of the fetcher are \<open>df_in\<close> and \<open>df_out\<close> of the master, those of the mover
  \<open>dm_in\<close> and \<open>mid\<close>.\<close>

definition fetcher_of :: "axi \<Rightarrow> fetcher" where
  "fetcher_of a = \<lparr>fifo_handle_to_axi = am_df_in a, fifo_desc_from_axi = am_df_out a\<rparr>"

definition put_fetcher :: "fetcher \<Rightarrow> axi \<Rightarrow> axi" where
  "put_fetcher f a = a\<lparr>am_df_in := fifo_handle_to_axi f, am_df_out := fifo_desc_from_axi f\<rparr>"

definition mover_of :: "axi \<Rightarrow> data_mover" where
  "mover_of a = \<lparr>fifo_instr_to_axi = am_dm_in a, fifo_mid = am_mid a\<rparr>"

definition put_mover :: "data_mover \<Rightarrow> axi \<Rightarrow> axi" where
  "put_mover m a = a\<lparr>am_dm_in := fifo_instr_to_axi m, am_mid := fifo_mid m\<rparr>"

interpretation df_view: lens fetcher_of put_fetcher
  by unfold_locales (simp_all add: fetcher_of_def put_fetcher_def)

interpretation dm_view: lens mover_of put_mover
  by unfold_locales (simp_all add: mover_of_def put_mover_def)

definition on_fetcher :: "(fetcher, 'a) act \<Rightarrow> (axi, 'a) act" where
  "on_fetcher = zoom fetcher_of put_fetcher"

definition on_mover :: "(data_mover, 'a) act \<Rightarrow> (axi, 'a) act" where
  "on_mover = zoom mover_of put_mover"

interpretation mmid: lens fifo_mid "\<lambda>q m. m\<lparr>fifo_mid := q\<rparr>"
  by unfold_locales simp_all

lemma submit_handle_axi:
  "\<not> fifo_is_full (am_df_in a) \<Longrightarrow>
   on_fetcher (submit_handle x n) a =
     (Inr (), a\<lparr>am_df_in := set_buffer (buffer (am_df_in a) @ [pack_handle x n]) (am_df_in a)\<rparr>)"
  by (simp add: on_fetcher_def submit_handle_def on_handle_fifo_def zoom_def fetcher_of_def
      put_fetcher_def fifo_enqueue_def)

lemma take_descriptor_axi:
  "buffer (am_df_out a) = p # ps \<Longrightarrow>
   on_fetcher take_descriptor a = (Inr (from_packed p), a\<lparr>am_df_out := set_buffer ps (am_df_out a)\<rparr>)"
  by (simp add: on_fetcher_def take_descriptor_def on_desc_fifo_def zoom_def fetcher_of_def
      put_fetcher_def fq.deq_some act_simps)

lemma submit_write_axi:
  "\<not> fifo_is_full (am_dm_in a) \<Longrightarrow>
   on_mover (submit_write x n) a = (Inr (), a\<lparr>am_dm_in :=
     set_buffer (buffer (am_dm_in a) @ [pack_instruction x n True]) (am_dm_in a)\<rparr>)"
  by (simp add: on_mover_def submit_write_def on_instr_fifo_def zoom_def mover_of_def
      put_mover_def fifo_enqueue_def)

lemma submit_read_axi:
  "\<not> fifo_is_full (am_dm_in a) \<Longrightarrow>
   on_mover (submit_read x n) a = (Inr (), a\<lparr>am_dm_in :=
     set_buffer (buffer (am_dm_in a) @ [pack_instruction x n False]) (am_dm_in a)\<rparr>)"
  by (simp add: on_mover_def submit_read_def on_instr_fifo_def zoom_def mover_of_def
      put_mover_def fifo_enqueue_def)

lemma for_each_map: "for_each (\<lambda>x. f (g x)) xs = for_each f (map g xs)"
  by (induction xs) simp_all

lemma preload_axi:
  assumes "fifo_len (am_mid a) + int (length ws) \<le> queue_length (am_mid a)"
  shows "on_mover (preload_write_data ws) a = (Inr (), a\<lparr>am_mid :=
    set_buffer (buffer (am_mid a) @ map (\<lambda>w. w mod 4294967296) ws) (am_mid a)\<rparr>)"
proof -
  have "preload_write_data ws
      = on_fifo_mid (for_each fifo_enqueue (map (\<lambda>w. w mod 4294967296) ws))"
    unfolding preload_write_data_def on_fifo_mid_def mmid.zoom_for_each bits
    by (rule for_each_map)
  with assms fq.enq_all [of "am_mid a" "map (\<lambda>w. w mod 4294967296) ws"] show ?thesis
    by (simp add: on_mover_def on_fifo_mid_def zoom_def mover_of_def put_mover_def fifo_len_def)
qed

section \<open>Properties\<close>

text \<open>
  The write path of the data mover: preloading words into an empty MID, submitting a write of
  as many beats and running the master once stores exactly those words (reduced to 32 bits) at the
  addressed block of system memory and leaves both FIFOs as they were.
\<close>

theorem mover_write_stores:
  assumes "buffer (am_df_in a) = []" and "buffer (am_dm_in a) = []" and "buffer (am_mid a) = []"
    and "0 < queue_length (am_dm_in a)" and "int (length ws) \<le> queue_length (am_mid a)"
    and "length ws < 256" and "0 \<le> x" and "x < 2 ^ 32" and "x mod 4 = 0"
    and "nat (x div 4) + length ws \<le> length (sm_mem (am_memory a))"
  shows "act_bind (on_mover (preload_write_data ws)) (\<lambda>_.
      act_bind (on_mover (submit_write x (int (length ws)))) (\<lambda>_. process_one)) a =
    (Inr True, a\<lparr>am_memory := (am_memory a)\<lparr>sm_mem :=
      store_block (sm_mem (am_memory a)) (nat (x div 4)) (map (\<lambda>w. w mod 4294967296) ws)\<rparr>\<rparr>)"
proof -
  let ?ws = "map (\<lambda>w. w mod 4294967296) ws" and ?i = "pack_instruction x (int (length ws)) True"
  let ?a1 = "a\<lparr>am_mid := set_buffer ?ws (am_mid a)\<rparr>"
  let ?a2 = "?a1\<lparr>am_dm_in := set_buffer [?i] (am_dm_in a)\<rparr>"
  have pre: "on_mover (preload_write_data ws) a = (Inr (), ?a1)"
    using assms by (simp add: preload_axi fifo_len_def)
  have sub: "on_mover (submit_write x (int (length ws))) ?a1 = (Inr (), ?a2)"
    using assms by (simp add: submit_write_axi fifo_is_full_def)
  have start: "block_start ?i = nat (x div 4)" and len: "block_len ?i = length ws"
    using assms by (simp_all add: block_start_def block_len_def)
  have "process_one ?a2 = (Inr True, ?a2\<lparr>am_dm_in := set_buffer [] (am_dm_in ?a2),
      am_mid := set_buffer [] (am_mid ?a2), am_memory := (am_memory ?a2)
      \<lparr>sm_mem := store_block (sm_mem (am_memory ?a2)) (block_start ?i) ?ws\<rparr>\<rparr>)"
    using assms start len by (intro process_write) (simp_all add: block_ok_def)
  then show ?thesis
    using pre sub start assms(2,3) by (simp add: act_simps)
qed

theorem mover_write_stores_witness:
  "sm_mem (am_memory (snd (act_bind (on_mover (preload_write_data [9, 10])) (\<lambda>_.
      act_bind (on_mover (submit_write 8 2)) (\<lambda>_. process_one))
    (small_axi\<lparr>am_df_in := set_buffer [] (am_df_in small_axi),
       am_dm_in := set_buffer [] (am_dm_in small_axi)\<rparr>)))) = [1, 2, 9, 10, 5, 6, 7, 8]"
  using mover_write_stores [of "small_axi\<lparr>am_df_in := set_buffer [] (am_df_in small_axi),
      am_dm_in := set_buffer [] (am_dm_in small_axi)\<rparr>" "[9, 10]" 8]
  by (simp add: small_axi_def store_block_def)

end
