(* ===== verification/Ring_Manager.thy ===== *)
theory Ring_Manager
  imports Csr_Model Fetcher_Mover
begin

text \<open>
  The ring manager of \<open>source/ringManager.py\<close>: the producer side that writes descriptors into
  system memory and advances TAIL, and the consumer side that fetches through the descriptor fetcher
  and the AXI master and advances HEAD. Its objects are the register file and the master; the
  descriptor fetcher it holds is wired to the master's FIFOs (\<open>on_fetcher\<close>) and its memory is the
  master's memory, as the module requires. The ring is shown to refine a bounded queue of
  descriptors.
\<close>

section \<open>State\<close>

record ring =
  rm_csr :: csr
  rm_axi :: axi

definition on_axi :: "(axi, 'a) act \<Rightarrow> (ring, 'a) act" where
  "on_axi = zoom rm_axi (\<lambda>a r. r\<lparr>rm_axi := a\<rparr>)"

interpretation raxi: lens rm_axi "\<lambda>a r. r\<lparr>rm_axi := a\<rparr>"
  by unfold_locales simp_all

section \<open>Operations\<close>

definition DESCRIPTOR_SIZE_BYTES :: int where "DESCRIPTOR_SIZE_BYTES = 16"

definition ring_ringlen :: "ring \<Rightarrow> int result" where
  "ring_ringlen r =
     (let n = csr_ringlen (rm_csr r) AND 0xFFFFFFFF
      in if n = 0 then Inl (ValueError RinglenZero) else Inr n)"

definition ring_base :: "ring \<Rightarrow> int" where
  "ring_base r = csr_baseaddr (rm_csr r) AND 0xFFFFFFFF"

definition slot_byte_addr :: "ring \<Rightarrow> int \<Rightarrow> int result" where
  "slot_byte_addr r slot_index =
     res_bind (ring_ringlen r) (\<lambda>rlen.
       Inr (ring_base r + (slot_index mod rlen) * DESCRIPTOR_SIZE_BYTES))"

definition ring_head :: "ring \<Rightarrow> int" where
  "ring_head r = csr_read (rm_csr r) REG_HEAD AND 0xFFFFFFFF"

definition ring_tail :: "ring \<Rightarrow> int" where
  "ring_tail r = csr_read (rm_csr r) REG_TAIL AND 0xFFFFFFFF"

definition mem_set :: "int \<Rightarrow> int \<Rightarrow> (ring, unit) act" where
  "mem_set i w r =
     (case py_setitem (sm_mem (am_memory (rm_axi r))) i w of
        Inl e \<Rightarrow> (Inl e, r)
      | Inr m \<Rightarrow> (Inr (), r\<lparr>rm_axi := (rm_axi r)
          \<lparr>am_memory := (am_memory (rm_axi r))\<lparr>sm_mem := m\<rparr>\<rparr>\<rparr>))"

definition write_desc_to_mem :: "int \<Rightarrow> descriptor \<Rightarrow> (ring, unit) act" where
  "write_desc_to_mem byte_addr desc =
     (let i0 = drop_bit 2 byte_addr AND 0xFFFFFFFF
      in act_bind (act_gets (\<lambda>r. sm_size (am_memory (rm_axi r)))) (\<lambda>n.
           if i0 + DESC_WORDS > n then act_raise (ValueError DescBounds)
           else act_bind (mem_set (i0 + 0) (w0 desc)) (\<lambda>_.
                act_bind (mem_set (i0 + 1) (w1 desc)) (\<lambda>_.
                act_bind (mem_set (i0 + 2) (w2 desc)) (\<lambda>_.
                mem_set (i0 + 3) (w3 desc))))))"

definition ring_is_empty :: "ring \<Rightarrow> bool" where
  "ring_is_empty r \<longleftrightarrow> ring_head r = ring_tail r"

definition ring_is_full :: "ring \<Rightarrow> bool result" where
  "ring_is_full r =
     res_bind (ring_ringlen r) (\<lambda>rlen.
       let hi = ring_head r mod rlen; ti = ring_tail r mod rlen
       in Inr ((ti + 1) mod rlen = hi))"

definition pending_count :: "ring \<Rightarrow> int result" where
  "pending_count r =
     res_bind (ring_ringlen r) (\<lambda>rlen.
       let hi = ring_head r mod rlen; ti = ring_tail r mod rlen
       in Inr ((ti - hi) mod rlen))"

definition next_fetch_byte_addr :: "ring \<Rightarrow> int option result" where
  "next_fetch_byte_addr r =
     (if ring_is_empty r then Inr None
      else res_bind (ring_ringlen r) (\<lambda>rlen.
             res_bind (slot_byte_addr r (ring_head r mod rlen)) (\<lambda>a. Inr (Some a))))"

definition set_tail_reg :: "int \<Rightarrow> (ring, unit) act" where
  "set_tail_reg v = act_modify (\<lambda>r. r\<lparr>rm_csr := csr_write REG_TAIL v (rm_csr r)\<rparr>)"

definition set_head_reg :: "int \<Rightarrow> (ring, unit) act" where
  "set_head_reg v = act_modify (\<lambda>r. r\<lparr>rm_csr := hw_set_head v (rm_csr r)\<rparr>)"

definition ring_enqueue :: "descriptor \<Rightarrow> (ring, descriptor) act" where
  "ring_enqueue desc =
     act_bind (act_read ring_ringlen) (\<lambda>rlen.
     act_bind (act_read ring_is_full) (\<lambda>full.
       if full then act_raise (OverflowError RingFull)
       else act_bind (act_gets ring_tail) (\<lambda>tail.
            let ti = tail mod rlen
            in act_bind (act_read (\<lambda>r. slot_byte_addr r ti)) (\<lambda>a.
               act_bind (write_desc_to_mem a desc) (\<lambda>_.
               let new_tail = (tail + 1) mod rlen
               in act_bind (set_tail_reg new_tail) (\<lambda>_. act_return desc))))))"

text \<open>The fetch loop of the consumer: run the master until a descriptor has arrived.\<close>

function fetch_loop :: "int \<Rightarrow> int \<Rightarrow> (axi, unit) act" where
  "fetch_loop max_steps steps a =
     (if has_descriptor (fetcher_of a) then (Inr (), a)
      else (case process_one a of
              (Inl e, b) \<Rightarrow> (Inl e, b)
            | (Inr busy, b) \<Rightarrow>
                if \<not> busy then (Inl (RuntimeError NoProgress), b)
                else if steps + 1 > max_steps then (Inl (RuntimeError MaxSteps), b)
                else fetch_loop max_steps (steps + 1) b))"
  by pat_completeness auto
termination
  by (relation "measure (\<lambda>(max_steps, steps, a). nat (max_steps - steps))") auto

declare fetch_loop.simps [simp del]

definition fetch_next_descriptor :: "int \<Rightarrow> (ring, descriptor option) act" where
  "fetch_next_descriptor max_steps =
     act_bind (act_gets ring_is_empty) (\<lambda>emp.
       if emp then act_return None
       else act_bind (act_gets ring_head) (\<lambda>head.
            act_bind (act_read ring_ringlen) (\<lambda>rlen.
            let ti = head mod rlen
            in act_bind (act_read (\<lambda>r. slot_byte_addr r ti)) (\<lambda>byte_addr.
               act_bind (on_axi (on_fetcher (submit_handle byte_addr DESC_WORDS))) (\<lambda>_.
               act_bind (on_axi (fetch_loop max_steps 0)) (\<lambda>_.
               act_bind (on_axi (on_fetcher take_descriptor)) (\<lambda>d. act_return (Some d))))))))"

definition ring_complete :: "(ring, unit) act" where
  "ring_complete =
     act_bind (act_gets ring_is_empty) (\<lambda>emp.
       if emp then act_raise (RuntimeError NothingPending)
       else act_bind (act_gets ring_head) (\<lambda>head.
            act_bind (act_read ring_ringlen) (\<lambda>rlen.
            let hi = head mod rlen; new_head = (hi + 1) mod rlen
            in set_head_reg new_head)))"

section \<open>The invariant and the pending descriptors\<close>

abbreviation ring_mem :: "ring \<Rightarrow> int list" where
  "ring_mem r \<equiv> sm_mem (am_memory (rm_axi r))"

abbreviation rlen_of :: "ring \<Rightarrow> int" where
  "rlen_of r \<equiv> reg (rm_csr r) REG_RINGLEN"

abbreviation head_of :: "ring \<Rightarrow> int" where
  "head_of r \<equiv> reg (rm_csr r) REG_HEAD"

abbreviation tail_of :: "ring \<Rightarrow> int" where
  "tail_of r \<equiv> reg (rm_csr r) REG_TAIL"

abbreviation base_of :: "ring \<Rightarrow> int" where
  "base_of r \<equiv> reg (rm_csr r) REG_BASEADDR"

text \<open>
  A configured ring: a non-zero length, pointers inside it, an aligned base, and the whole ring
  inside a memory of at most 4 GiB.
\<close>

definition ring_ok :: "ring \<Rightarrow> bool" where
  "ring_ok r \<longleftrightarrow> csr_ok (rm_csr r) \<and> axi_ok (rm_axi r) \<and> 0 < rlen_of r \<and>
     head_of r < rlen_of r \<and> tail_of r < rlen_of r \<and> base_of r mod 4 = 0 \<and>
     base_of r div 4 + 4 * rlen_of r \<le> sm_size (am_memory (rm_axi r)) \<and>
     sm_size (am_memory (rm_axi r)) \<le> 2 ^ 30"

text \<open>Nothing is in flight between the fetcher and the master.\<close>

definition quiescent :: "axi \<Rightarrow> bool" where
  "quiescent a \<longleftrightarrow> buffer (am_df_in a) = [] \<and> buffer (am_df_out a) = []"

text \<open>The word index of a slot and the descriptor it holds.\<close>

definition slot_word :: "int \<Rightarrow> int \<Rightarrow> nat" where
  "slot_word base i = nat (base div 4 + 4 * i)"

definition desc_at :: "int list \<Rightarrow> nat \<Rightarrow> descriptor" where
  "desc_at mem w = \<lparr>w0 = mem ! w, w1 = mem ! (w + 1), w2 = mem ! (w + 2), w3 = mem ! (w + 3)\<rparr>"

definition slots :: "int \<Rightarrow> int \<Rightarrow> nat \<Rightarrow> int list" where
  "slots rlen head n = map (\<lambda>k. (head + int k) mod rlen) [0..<n]"

definition pending :: "ring \<Rightarrow> descriptor list" where
  "pending r = map (\<lambda>i. desc_at (ring_mem r) (slot_word (base_of r) i))
     (slots (rlen_of r) (head_of r) (nat (ring_count (rlen_of r) (head_of r) (tail_of r))))"

section \<open>Reading a configured ring\<close>

lemma ring_ok_regs:
  assumes "ring_ok r"
  shows "0 \<le> reg (rm_csr r) k \<and> reg (rm_csr r) k < 2 ^ 32"
  using assms csr_ok_reg [of "rm_csr r" k] by (simp add: ring_ok_def)

lemma ring_reads:
  assumes "ring_ok r"
  shows "ring_ringlen r = Inr (rlen_of r)" and "ring_head r = head_of r"
    and "ring_tail r = tail_of r" and "ring_base r = base_of r"
  using assms ring_ok_regs [OF assms]
  by (simp_all add: ring_ringlen_def ring_head_def ring_tail_def ring_base_def csr_ringlen_def
      csr_baseaddr_def csr_read_def bits Let_def ring_ok_def)

lemma ring_ok_mem:
  assumes "ring_ok r"
  shows "int (length (ring_mem r)) = sm_size (am_memory (rm_axi r))" and "u32s (ring_mem r)"
  using assms by (simp_all add: ring_ok_def axi_ok_def sysmem_ok_def)

text \<open>A slot of a configured ring: its byte address, its word index, and that it fits.\<close>

lemma slot_facts:
  assumes "ring_ok r" and "0 \<le> i" and "i < rlen_of r"
  defines "x \<equiv> base_of r + i * 16"
  shows "slot_byte_addr r i = Inr x" and "0 \<le> x" and "x < 2 ^ 32" and "x mod 4 = 0"
    and "x div 4 = base_of r div 4 + 4 * i" and "int (slot_word (base_of r) i) = x div 4"
    and "slot_word (base_of r) i + 4 \<le> length (ring_mem r)"
proof -
  have b: "0 \<le> base_of r" and m: "base_of r mod 4 = 0"
    using assms ring_ok_regs [OF assms(1)] by (simp_all add: ring_ok_def)
  have fit: "base_of r div 4 + 4 * rlen_of r \<le> int (length (ring_mem r))"
    "int (length (ring_mem r)) \<le> 2 ^ 30"
    using assms ring_ok_mem [OF assms(1)] by (simp_all add: ring_ok_def)
  show "slot_byte_addr r i = Inr x"
    using assms by (simp add: slot_byte_addr_def ring_reads x_def DESCRIPTOR_SIZE_BYTES_def)
  show x: "x div 4 = base_of r div 4 + 4 * i" and "x mod 4 = 0"
    using m by (simp_all add: x_def) presburger+
  show "0 \<le> x" using b assms(2) by (simp add: x_def)
  show "x < 2 ^ 32" using x fit assms(3) by simp
  have "0 \<le> base_of r div 4 + 4 * i" using b assms(2) by simp
  then show w: "int (slot_word (base_of r) i) = x div 4"
    unfolding x by (simp add: slot_word_def)
  show "slot_word (base_of r) i + 4 \<le> length (ring_mem r)"
    using w x fit assms(3) by linarith
qed

lemma csr_pending_count:
  "ring_ok r \<Longrightarrow> pending_count r = Inr (ring_count (rlen_of r) (head_of r) (tail_of r))"
  by (simp add: pending_count_def ring_reads Let_def ring_count_def)

lemma count_range:
  "ring_ok r \<Longrightarrow> 0 \<le> ring_count (rlen_of r) (head_of r) (tail_of r) \<and>
     ring_count (rlen_of r) (head_of r) (tail_of r) < rlen_of r"
  by (rule ring_count_bounds) (simp add: ring_ok_def)

lemma length_pending:
  "ring_ok r \<Longrightarrow> int (length (pending r)) = ring_count (rlen_of r) (head_of r) (tail_of r)"
  using count_range [of r] by (simp add: pending_def slots_def)

lemma ring_is_full_iff:
  "ring_ok r \<Longrightarrow> ring_is_full r = Inr (int (length (pending r)) = rlen_of r - 1)"
  by (simp add: ring_is_full_def ring_reads Let_def length_pending ring_count_full_iff ring_ok_def)

lemma ring_is_empty_iff:
  assumes "ring_ok r"
  shows "ring_is_empty r \<longleftrightarrow> pending r = []"
proof -
  have "ring_is_empty r \<longleftrightarrow> head_of r = tail_of r"
    using assms by (simp add: ring_is_empty_def ring_reads)
  also have "\<dots> \<longleftrightarrow> ring_count (rlen_of r) (head_of r) (tail_of r) = 0"
    using assms ring_ok_regs [OF assms, of REG_HEAD] ring_ok_regs [OF assms, of REG_TAIL]
    by (subst ring_count_0_iff) (simp_all add: ring_ok_def)
  also have "\<dots> \<longleftrightarrow> pending r = []"
    unfolding length_pending [OF assms, symmetric] by simp
  finally show ?thesis .
qed

section \<open>Slots\<close>

lemma slots_Suc: "slots rlen head (Suc n) = slots rlen head n @ [(head + int n) mod rlen]"
  by (simp add: slots_def)

lemma slots_Cons:
  "slots rlen head (Suc n) = head mod rlen # slots rlen ((head mod rlen + 1) mod rlen) n"
proof -
  have "(head + int (Suc k)) mod rlen = ((head mod rlen + 1) mod rlen + int k) mod rlen" for k
    by (simp add: mod_simps ac_simps)
  then show ?thesis by (simp add: slots_def upt_conv_Cons map_Suc_upt [symmetric] del: upt_Suc)
qed

lemma slots_range: "0 < rlen \<Longrightarrow> i \<in> set (slots rlen head n) \<Longrightarrow> 0 \<le> i \<and> i < rlen"
  by (auto simp: slots_def)

lemma slots_fresh:
  assumes "0 < rlen" and "int n < rlen" and "i \<in> set (slots rlen head n)"
  shows "i \<noteq> (head + int n) mod rlen"
proof
  assume eq: "i = (head + int n) mod rlen"
  obtain k where k: "k < n" "i = (head + int k) mod rlen" using assms(3) by (auto simp: slots_def)
  with eq have "(head + int n) mod rlen = (head + int k) mod rlen" by simp
  then have "rlen dvd (head + int n) - (head + int k)" by (simp only: mod_eq_dvd_iff)
  then have "rlen dvd int n - int k" by simp
  with k(1) have "rlen \<le> int n - int k" by (intro zdvd_imp_le) auto
  with assms(2) show False by simp
qed

lemma head_plus_count:
  assumes "0 \<le> t" and "t < rlen"
  shows "(h + ring_count rlen h t) mod rlen = t"
  using assms by (simp add: ring_count_def mod_simps mod_pos_pos_trivial)

lemma desc_at_stored:
  "w + 4 \<le> length mem \<Longrightarrow> desc_at (store_block mem w [w0 d, w1 d, w2 d, w3 d]) w = d"
  by (simp add: desc_at_def store_block_nth eval_nat_numeral)

lemma desc_at_apart:
  assumes "w + length ws \<le> length mem" and "v + 4 \<le> length mem" and "v + 4 \<le> w \<or> w + length ws \<le> v"
  shows "desc_at (store_block mem w ws) v = desc_at mem v"
  using assms by (auto simp: desc_at_def store_block_nth)

lemma desc_at_ok: "u32s mem \<Longrightarrow> w + 4 \<le> length mem \<Longrightarrow> desc_ok (desc_at mem w)"
  using u32s_nth [of mem w] u32s_nth [of mem "w + 1"] u32s_nth [of mem "w + 2"]
    u32s_nth [of mem "w + 3"]
  by (simp add: desc_ok_def desc_at_def)

lemma slot_words_apart:
  assumes "0 \<le> base" and "0 \<le> i" and "0 \<le> j" and "i \<noteq> j"
  shows "slot_word base i + 4 \<le> slot_word base j \<or> slot_word base j + 4 \<le> slot_word base i"
proof -
  have "0 \<le> base div 4" using assms(1) by simp
  with assms show ?thesis
    unfolding slot_word_def by (cases "i < j") (auto simp: nat_le_eq_zle le_nat_iff)
qed

section \<open>The producer\<close>

lemma four_updates:
  assumes "w + 4 \<le> length mem"
  shows "mem[w := a, w + 1 := b, w + 2 := c, w + 3 := d] = store_block mem w [a, b, c, d]"
  using assms store_block_snoc [of w "[]" mem a] store_block_snoc [of w "[a]" mem b]
    store_block_snoc [of w "[a, b]" mem c] store_block_snoc [of w "[a, b, c]" mem d]
  by (simp add: eval_nat_numeral)

abbreviation set_ring_mem :: "int list \<Rightarrow> ring \<Rightarrow> ring" where
  "set_ring_mem m r \<equiv>
     r\<lparr>rm_axi := (rm_axi r)\<lparr>am_memory := (am_memory (rm_axi r))\<lparr>sm_mem := m\<rparr>\<rparr>\<rparr>"

lemma mem_set_in:
  "w + k < length (ring_mem r) \<Longrightarrow>
   mem_set (int w + int k) v r = (Inr (), set_ring_mem ((ring_mem r)[w + k := v]) r)"
  using py_setitem_in [of "int (w + k)" "ring_mem r" v] by (simp add: mem_set_def nat_int_add)

lemma write_desc_block:
  assumes "ring_ok r" and "0 \<le> i" and "i < rlen_of r"
  shows "write_desc_to_mem (base_of r + i * 16) d r =
    (Inr (), set_ring_mem (store_block (ring_mem r) (slot_word (base_of r) i)
      [w0 d, w1 d, w2 d, w3 d]) r)"
proof -
  note slot = slot_facts [OF assms]
  let ?w = "slot_word (base_of r) i"
  have i0: "drop_bit 2 (base_of r + i * 16) AND 0xFFFFFFFF = int ?w"
    using slot by (simp add: drop_bit_eq_div bits)
  have fits: "\<not> int ?w + DESC_WORDS > sm_size (am_memory (rm_axi r))"
    using slot(7) ring_ok_mem(1) [OF assms(1)] by (simp add: DESC_WORDS_def)
  have step: "mem_set (int ?w) v q = (Inr (), set_ring_mem ((ring_mem q)[?w := v]) q)"
    "mem_set (int ?w + 1) v q = (Inr (), set_ring_mem ((ring_mem q)[?w + 1 := v]) q)"
    "mem_set (int ?w + 2) v q = (Inr (), set_ring_mem ((ring_mem q)[?w + 2 := v]) q)"
    "mem_set (int ?w + 3) v q = (Inr (), set_ring_mem ((ring_mem q)[?w + 3 := v]) q)"
    if "length (ring_mem q) = length (ring_mem r)" for v q
    using that slot(7) mem_set_in [of ?w 0 q v] mem_set_in [of ?w 1 q v] mem_set_in [of ?w 2 q v]
      mem_set_in [of ?w 3 q v] by simp_all
  show ?thesis
    unfolding write_desc_to_mem_def i0 Let_def
    using fits slot(7) four_updates [OF slot(7), of "w0 d" "w1 d" "w2 d" "w3 d"]
    by (simp add: act_simps step)
qed

lemma tail_write_regs:
  assumes "0 \<le> v" and "v < 2 ^ 32"
  shows "reg (csr_write REG_TAIL v c) k = (if k = REG_TAIL then v else reg c k)"
  using assms by (subst reg_csr_write_plain) (simp_all add: reg_offsets)

abbreviation enqueued :: "descriptor \<Rightarrow> ring \<Rightarrow> ring" where
  "enqueued d r \<equiv> (set_ring_mem (store_block (ring_mem r) (slot_word (base_of r) (tail_of r))
     [w0 d, w1 d, w2 d, w3 d]) r)
     \<lparr>rm_csr := csr_write REG_TAIL ((tail_of r + 1) mod rlen_of r) (rm_csr r)\<rparr>"

lemma tail_range: "ring_ok r \<Longrightarrow> 0 \<le> tail_of r \<and> tail_of r < rlen_of r"
  using ring_ok_regs [of r REG_TAIL] by (simp add: ring_ok_def)

lemma head_range: "ring_ok r \<Longrightarrow> 0 \<le> head_of r \<and> head_of r < rlen_of r"
  using ring_ok_regs [of r REG_HEAD] by (simp add: ring_ok_def)

lemma wrap_range:
  assumes "ring_ok r"
  shows "0 \<le> x mod rlen_of r \<and> x mod rlen_of r < 2 ^ 32"
proof -
  have l: "0 < rlen_of r" using assms by (simp add: ring_ok_def)
  then have "x mod rlen_of r < rlen_of r" by simp
  moreover have "0 \<le> x mod rlen_of r" using l by simp
  ultimately show ?thesis using ring_ok_regs [OF assms, of REG_RINGLEN] by linarith
qed

lemma enqueue_room:
  assumes "ring_ok r" and "int (length (pending r)) < rlen_of r - 1"
  shows "ring_enqueue d r = (Inr d, enqueued d r)"
proof -
  note t = tail_range [OF assms(1)]
  have addr: "slot_byte_addr r (tail_of r mod rlen_of r) = Inr (base_of r + tail_of r * 16)"
    using slot_facts(1) [OF assms(1), of "tail_of r"] t by simp
  have "ring_is_full r = Inr False" using assms by (simp add: ring_is_full_iff)
  then show ?thesis
    using assms t addr
    by (simp add: ring_enqueue_def act_simps ring_reads Let_def write_desc_block set_tail_reg_def)
qed

lemma enqueue_full:
  assumes "ring_ok r" and "int (length (pending r)) = rlen_of r - 1"
  shows "ring_enqueue d r = (Inl (OverflowError RingFull), r)"
  using assms by (simp add: ring_enqueue_def act_simps ring_reads ring_is_full_iff)

lemma enqueued_regs:
  assumes "ring_ok r"
  shows "reg (rm_csr (enqueued d r)) k
    = (if k = REG_TAIL then (tail_of r + 1) mod rlen_of r else reg (rm_csr r) k)"
  using wrap_range [OF assms] by (simp add: tail_write_regs)

lemma enqueued_ok:
  assumes "ring_ok r" and "desc_ok d"
  shows "ring_ok (enqueued d r)"
proof -
  have fit: "slot_word (base_of r) (tail_of r) + 4 \<le> length (ring_mem r)"
    using slot_facts(7) [OF assms(1)] tail_range [OF assms(1)] by blast
  then have "axi_ok (rm_axi (enqueued d r))"
    using assms by (auto simp: ring_ok_def axi_ok_def sysmem_ok_def desc_ok_def
        intro!: u32s_store_block)
  moreover have "csr_ok (rm_csr (enqueued d r))"
    using assms by (simp add: ring_ok_def csr_ok_write)
  ultimately show ?thesis
    using assms(1) unfolding ring_ok_def enqueued_regs [OF assms(1)]
    by (simp add: reg_offsets)
qed

lemma pending_enqueued:
  assumes "ring_ok r" and "int (length (pending r)) < rlen_of r - 1"
  shows "pending (enqueued d r) = pending r @ [d]"
proof -
  define n where "n = length (pending r)"
  let ?b = "base_of r" and ?l = "rlen_of r"
  let ?w = "slot_word ?b (tail_of r)" and ?ws = "[w0 d, w1 d, w2 d, w3 d]"
  note t = tail_range [OF assms(1)] and count = length_pending [OF assms(1), folded n_def]
  have l: "0 < ?l" using assms(1) by (simp add: ring_ok_def)
  have last: "(head_of r + int n) mod ?l = tail_of r"
    using t head_plus_count by (simp add: count)
  have n': "nat (ring_count ?l (head_of r) ((tail_of r + 1) mod ?l)) = Suc n"
    using ring_count_produce [OF l, of "head_of r" "tail_of r"] assms(2) count n_def by simp
  have fit: "slot_word ?b i + 4 \<le> length (ring_mem r)" if "0 \<le> i" "i < ?l" for i
    using slot_facts(7) [OF assms(1) that] .
  have old: "desc_at (store_block (ring_mem r) ?w ?ws) (slot_word ?b i)
      = desc_at (ring_mem r) (slot_word ?b i)" if i: "i \<in> set (slots ?l (head_of r) n)" for i
  proof -
    have i': "0 \<le> i" "i < ?l" using slots_range [OF l i] by auto
    have "i \<noteq> tail_of r" using slots_fresh [OF l _ i] assms(2) last n_def by simp
    with i' t have "slot_word ?b i + 4 \<le> ?w \<or> ?w + 4 \<le> slot_word ?b i"
      using slot_words_apart [of ?b i "tail_of r"] ring_ok_regs [OF assms(1)] by blast
    with fit [OF i'] fit [of "tail_of r"] t show ?thesis by (intro desc_at_apart) auto
  qed
  have "pending (enqueued d r) = map (\<lambda>i. desc_at (store_block (ring_mem r) ?w ?ws) (slot_word ?b i))
      (slots ?l (head_of r) (Suc n))"
    unfolding pending_def [of "enqueued d r"] enqueued_regs [OF assms(1)]
    by (simp add: reg_offsets n' [unfolded reg_offsets])
  also have "\<dots> = map (\<lambda>i. desc_at (ring_mem r) (slot_word ?b i)) (slots ?l (head_of r) n) @ [d]"
    using old fit [of "tail_of r"] t by (simp add: slots_Suc last desc_at_stored)
  also have "map (\<lambda>i. desc_at (ring_mem r) (slot_word ?b i)) (slots ?l (head_of r) n) = pending r"
    by (simp add: pending_def [of r] count [symmetric])
  finally show ?thesis .
qed

section \<open>The consumer\<close>

lemma pending_Cons:
  assumes "ring_ok r" and "pending r = d # ds"
  shows "d = desc_at (ring_mem r) (slot_word (base_of r) (head_of r))"
    and "ds = map (\<lambda>i. desc_at (ring_mem r) (slot_word (base_of r) i))
      (slots (rlen_of r) ((head_of r + 1) mod rlen_of r) (length ds))"
proof -
  have "nat (ring_count (rlen_of r) (head_of r) (tail_of r)) = Suc (length ds)"
    using length_pending [OF assms(1)] assms(2) by simp
  then have "pending r = map (\<lambda>i. desc_at (ring_mem r) (slot_word (base_of r) i))
      (head_of r # slots (rlen_of r) ((head_of r + 1) mod rlen_of r) (length ds))"
    using head_range [OF assms(1)] by (simp add: pending_def slots_Cons)
  with assms(2) show "d = desc_at (ring_mem r) (slot_word (base_of r) (head_of r))"
    and "ds = map (\<lambda>i. desc_at (ring_mem r) (slot_word (base_of r) i))
      (slots (rlen_of r) ((head_of r + 1) mod rlen_of r) (length ds))" by auto
qed

lemma has_descriptor_axi: "has_descriptor (fetcher_of a) \<longleftrightarrow> buffer (am_df_out a) \<noteq> []"
  by (simp add: has_descriptor_def fetcher_of_def fifo_is_empty_def)

lemma set_same_buffer: "buffer q = xs \<Longrightarrow> set_buffer xs q = q"
  by auto

text \<open>One handle, one call of the master, one descriptor: the fetch loop on a quiescent master.\<close>

lemma fetch_roundtrip:
  assumes "quiescent a" and "axi_ok a" and "1 \<le> max_steps" and "0 \<le> x" and "x < 2 ^ 32"
    and "x mod 4 = 0" and "nat (x div 4) + 4 \<le> length (sm_mem (am_memory a))"
  shows "act_bind (on_fetcher (submit_handle x DESC_WORDS))
      (\<lambda>_. act_bind (fetch_loop max_steps 0) (\<lambda>_. on_fetcher take_descriptor)) a =
    (Inr (desc_at (sm_mem (am_memory a)) (nat (x div 4))), a)"
proof -
  let ?h = "pack_handle x DESC_WORDS" and ?mem = "sm_mem (am_memory a)"
  let ?p = "pack_descriptor_words (load_block ?mem (block_start ?h) (block_len ?h))"
  let ?a1 = "a\<lparr>am_df_in := set_buffer [?h] (am_df_in a)\<rparr>"
  let ?a2 = "a\<lparr>am_df_out := set_buffer [?p] (am_df_out a)\<rparr>"
  have empty: "buffer (am_df_in a) = []" "buffer (am_df_out a) = []"
    using assms(1) by (simp_all add: quiescent_def)
  have caps: "0 < queue_length (am_df_in a)" "0 < queue_length (am_df_out a)"
    and mem: "u32s ?mem"
    using assms(2) by (simp_all add: axi_ok_def fifo_ok_def sysmem_ok_def)
  have h: "block_start ?h = nat (x div 4)" "block_len ?h = 4" "word_beats ?h = 4"
    using assms(4,5) by (simp_all add: block_start_def block_len_def DESC_WORDS_def)
  have ok: "block_ok ?h ?mem" using h assms by (simp add: block_ok_def)
  have sub: "on_fetcher (submit_handle x DESC_WORDS) a = (Inr (), ?a1)"
    using submit_handle_axi [of a x DESC_WORDS] empty caps by (simp add: fifo_is_full_def)
  have one: "process_one ?a1 = (Inr True, ?a2)"
    using process_fetch [of ?a1 ?h "[]"] empty caps mem ok h
    by (simp add: fifo_is_full_def DESC_WORDS_def set_same_buffer)
  have loop: "fetch_loop max_steps 0 ?a1 = (Inr (), ?a2)"
    using one empty assms(3)
    by (simp add: fetch_loop.simps [of max_steps 0] fetch_loop.simps [of max_steps 1]
        has_descriptor_axi)
  have "from_packed ?p = desc_at ?mem (nat (x div 4))"
    using h assms(7) mem
    by (subst fetch_unpacks) (simp_all add: load_block_nth desc_at_def u32s_load_block)
  then have "on_fetcher take_descriptor ?a2 = (Inr (desc_at ?mem (nat (x div 4))), a)"
    using take_descriptor_axi [of ?a2 ?p "[]"] empty by (simp add: set_same_buffer)
  with sub loop show ?thesis by (simp add: act_simps)
qed

lemma on_axi_bind: "on_axi (act_bind m f) = act_bind (on_axi m) (\<lambda>x. on_axi (f x))"
  unfolding on_axi_def by (rule raxi.zoom_bind)

lemma fetch_pending:
  assumes "ring_ok r" and "quiescent (rm_axi r)" and "pending r = d # ds" and "1 \<le> max_steps"
  shows "fetch_next_descriptor max_steps r = (Inr (Some d), r)"
proof -
  let ?x = "base_of r + head_of r * 16"
  note h = head_range [OF assms(1)]
  note slot = slot_facts [OF assms(1) conjunct1 [OF h] conjunct2 [OF h]]
  have w: "nat (?x div 4) = slot_word (base_of r) (head_of r)"
    using slot(6) by linarith
  have "act_bind (on_fetcher (submit_handle ?x DESC_WORDS))
      (\<lambda>_. act_bind (fetch_loop max_steps 0) (\<lambda>_. on_fetcher take_descriptor)) (rm_axi r) =
    (Inr (desc_at (ring_mem r) (nat (?x div 4))), rm_axi r)"
    using assms slot w by (intro fetch_roundtrip) (simp_all add: ring_ok_def)
  then have "on_axi (act_bind (on_fetcher (submit_handle ?x DESC_WORDS))
      (\<lambda>_. act_bind (fetch_loop max_steps 0) (\<lambda>_. on_fetcher take_descriptor))) r = (Inr d, r)"
    unfolding on_axi_def w by (simp add: zoom_apply pending_Cons(1) [OF assms(1,3)])
  then have "act_bind (on_axi (on_fetcher (submit_handle ?x DESC_WORDS)))
      (\<lambda>_. act_bind (on_axi (fetch_loop max_steps 0)) (\<lambda>_. act_bind (on_axi (on_fetcher
        take_descriptor)) (\<lambda>d. act_return (Some d)))) r = (Inr (Some d), r)"
    unfolding on_axi_bind act_bind_assoc [symmetric]
    by (simp add: act_bind_Inr act_return_apply)
  moreover have "\<not> ring_is_empty r" using assms by (simp add: ring_is_empty_iff)
  ultimately show ?thesis
    using assms(1) slot(1) h by (simp add: fetch_next_descriptor_def act_simps ring_reads Let_def)
qed

lemma fetch_empty:
  assumes "ring_ok r" and "pending r = []"
  shows "fetch_next_descriptor max_steps r = (Inr None, r)"
  using assms by (simp add: fetch_next_descriptor_def act_simps ring_is_empty_iff)

abbreviation completed :: "ring \<Rightarrow> ring" where
  "completed r \<equiv> r\<lparr>rm_csr := hw_set_head ((head_of r + 1) mod rlen_of r) (rm_csr r)\<rparr>"

lemma complete_pending:
  assumes "ring_ok r" and "pending r \<noteq> []"
  shows "ring_complete r = (Inr (), completed r)"
  using assms head_range [OF assms(1)]
  by (simp add: ring_complete_def act_simps ring_is_empty_iff ring_reads Let_def set_head_reg_def)

lemma complete_empty:
  assumes "ring_ok r" and "pending r = []"
  shows "ring_complete r = (Inl (RuntimeError NothingPending), r)"
  using assms by (simp add: ring_complete_def act_simps ring_is_empty_iff)

lemma completed_regs:
  assumes "ring_ok r"
  shows "reg (rm_csr (completed r)) k
    = (if k = REG_HEAD then (head_of r + 1) mod rlen_of r else reg (rm_csr r) k)"
  using wrap_range [OF assms, of "head_of r + 1"] by (simp add: reg_hw)

lemma completed_ok:
  assumes "ring_ok r"
  shows "ring_ok (completed r)"
  using assms unfolding ring_ok_def completed_regs [OF assms]
  by (simp add: reg_offsets csr_ok_hw)

lemma pending_completed:
  assumes "ring_ok r" and "pending r = d # ds"
  shows "pending (completed r) = ds"
proof -
  let ?l = "rlen_of r"
  have l: "0 < ?l" using assms(1) by (simp add: ring_ok_def)
  have "ring_count ?l ((head_of r + 1) mod ?l) (tail_of r) = int (length ds)"
    using ring_count_consume [OF l, of "head_of r" "tail_of r"] head_range [OF assms(1)]
      length_pending [OF assms(1)] assms(2) by simp
  then have "pending (completed r) = map (\<lambda>i. desc_at (ring_mem r) (slot_word (base_of r) i))
      (slots ?l ((head_of r + 1) mod ?l) (length ds))"
    unfolding pending_def [of "completed r"] completed_regs [OF assms(1)] by (simp add: reg_offsets)
  also have "\<dots> = ds" by (rule pending_Cons(2) [OF assms, symmetric])
  finally show ?thesis .
qed

section \<open>The ring as a bounded queue\<close>

text \<open>
  The calls of the producer and of the consumer on the ring, and the abstract specification: a
  queue of descriptors that holds one less than the ring has slots. A fetch looks at the oldest
  descriptor, a completion removes it.
\<close>

datatype ring_call = Enqueue descriptor | Fetch int | Complete

definition ring_do :: "ring_call \<Rightarrow> (ring, descriptor option) act" where
  "ring_do c = (case c of
     Enqueue d \<Rightarrow> act_bind (ring_enqueue d) (\<lambda>d. act_return (Some d))
   | Fetch n \<Rightarrow> fetch_next_descriptor n
   | Complete \<Rightarrow> act_bind ring_complete (\<lambda>_. act_return None))"

definition queue_do ::
  "int \<Rightarrow> ring_call \<Rightarrow> descriptor list \<Rightarrow> descriptor option result \<times> descriptor list" where
  "queue_do cap c ds = (case c of
     Enqueue d \<Rightarrow> if int (length ds) < cap then (Inr (Some d), ds @ [d])
                 else (Inl (OverflowError RingFull), ds)
   | Fetch n \<Rightarrow> (Inr (case ds of [] \<Rightarrow> None | d # _ \<Rightarrow> Some d), ds)
   | Complete \<Rightarrow> (case ds of [] \<Rightarrow> (Inl (RuntimeError NothingPending), [])
                  | d # rest \<Rightarrow> (Inr None, rest)))"

definition call_ok :: "ring_call \<Rightarrow> bool" where
  "call_ok c = (case c of Enqueue d \<Rightarrow> desc_ok d | Fetch n \<Rightarrow> 1 \<le> n | Complete \<Rightarrow> True)"

definition ring_rel :: "int \<Rightarrow> ring \<Rightarrow> descriptor list \<Rightarrow> bool" where
  "ring_rel cap r ds \<longleftrightarrow> ring_ok r \<and> quiescent (rm_axi r) \<and> rlen_of r - 1 = cap \<and> pending r = ds"

lemma pending_below: "ring_ok r \<Longrightarrow> int (length (pending r)) \<le> rlen_of r - 1"
  using count_range [of r] length_pending [of r] by simp

lemma ring_do_enqueue:
  assumes "ring_rel cap r ds" and "desc_ok d"
  shows "fst (ring_do (Enqueue d) r) = fst (queue_do cap (Enqueue d) ds) \<and>
    ring_rel cap (snd (ring_do (Enqueue d) r)) (snd (queue_do cap (Enqueue d) ds))"
proof (cases "int (length (pending r)) < rlen_of r - 1")
  case True
  then have "ring_rel cap (enqueued d r) (ds @ [d])"
    using assms enqueued_ok [of r d] pending_enqueued [of r d] enqueued_regs [of r d REG_RINGLEN]
    by (simp add: ring_rel_def quiescent_def) (simp add: reg_offsets)
  with True assms show ?thesis
    by (simp add: ring_do_def queue_do_def act_bind_def act_return_def enqueue_room ring_rel_def)
next
  case False
  then have "int (length (pending r)) = rlen_of r - 1"
    using assms(1) pending_below [of r] by (simp add: ring_rel_def)
  with assms show ?thesis
    by (simp add: ring_do_def queue_do_def act_bind_def enqueue_full ring_rel_def)
qed

lemma ring_do_complete:
  assumes "ring_rel cap r ds"
  shows "fst (ring_do Complete r) = fst (queue_do cap Complete ds) \<and>
    ring_rel cap (snd (ring_do Complete r)) (snd (queue_do cap Complete ds))"
proof (cases ds)
  case Nil
  with assms show ?thesis
    by (simp add: ring_do_def queue_do_def act_bind_def complete_empty ring_rel_def)
next
  case (Cons d rest)
  have "ring_rel cap (completed r) rest"
    using assms Cons completed_ok [of r] pending_completed [of r d rest]
      completed_regs [of r REG_RINGLEN]
    by (simp add: ring_rel_def) (simp add: reg_offsets)
  with Cons assms show ?thesis
    by (simp add: ring_do_def queue_do_def act_bind_def act_return_def complete_pending
        ring_rel_def)
qed

lemma ring_do_fetch:
  assumes "ring_rel cap r ds" and "1 \<le> n"
  shows "fst (ring_do (Fetch n) r) = fst (queue_do cap (Fetch n) ds) \<and>
    ring_rel cap (snd (ring_do (Fetch n) r)) (snd (queue_do cap (Fetch n) ds))"
  using assms fetch_pending [of r] fetch_empty [of r]
  by (cases ds) (simp_all add: ring_do_def queue_do_def ring_rel_def)

interpretation rq: simulation ring_do "queue_do cap" "ring_rel cap" call_ok
proof unfold_locales
  fix r ds c assume "ring_rel cap r ds" and "call_ok c"
  then have "fst (ring_do c r) = fst (queue_do cap c ds) \<and>
      ring_rel cap (snd (ring_do c r)) (snd (queue_do cap c ds))"
    using ring_do_enqueue ring_do_complete ring_do_fetch by (cases c) (simp_all add: call_ok_def)
  then show "fst (ring_do c r) = fst (queue_do cap c ds)"
    and "ring_rel cap (snd (ring_do c r)) (snd (queue_do cap c ds))" by simp_all
qed

lemma sixteen_mod: "(b + k * 16) mod 4 = b mod (4::int)"
  by presburger

section \<open>A small ring\<close>

text \<open>Four slots at the bottom of a memory of sixteen words, for evaluations.\<close>

definition small_ring :: ring where
  "small_ring = \<lparr>rm_csr = csr_write REG_RINGLEN 4 csr_init,
     rm_axi = \<lparr>am_memory = \<lparr>sm_size = 16, sm_mem = replicate 16 0\<rparr>,
       am_df_in = \<lparr>fifo_id = ''df_in'', queue_length = 2, buffer = []\<rparr>,
       am_df_out = \<lparr>fifo_id = ''df_out'', queue_length = 2, buffer = []\<rparr>,
       am_dm_in = \<lparr>fifo_id = ''dm_axi'', queue_length = 2, buffer = []\<rparr>,
       am_mid = \<lparr>fifo_id = ''mid'', queue_length = 8, buffer = []\<rparr>\<rparr>\<rparr>"

lemma small_ring_regs:
  "reg (rm_csr small_ring) k = (if k = REG_RINGLEN then 4 else 0)"
  by (simp add: small_ring_def reg_csr_write_plain reg_offsets) (simp add: csr_init_def reg_def reg_offsets)

lemma small_ring_rel: "ring_rel 3 small_ring []"
proof -
  have "csr_ok (rm_csr small_ring)"
    by (simp add: small_ring_def csr_ok_write csr_ok_init)
  moreover have "axi_ok (rm_axi small_ring)"
    by (simp add: small_ring_def axi_ok_def sysmem_ok_def fifo_ok_def u32s_def)
  ultimately have "ring_ok small_ring"
    unfolding ring_ok_def small_ring_regs by (simp add: reg_offsets) (simp add: small_ring_def)
  moreover have "pending small_ring = []"
    unfolding pending_def small_ring_regs by (simp add: reg_offsets ring_count_def slots_def)
  moreover have "quiescent (rm_axi small_ring)"
    by (simp add: small_ring_def quiescent_def)
  ultimately show ?thesis unfolding ring_rel_def small_ring_regs by simp
qed

lemmas small_ring_ok = small_ring_rel [unfolded ring_rel_def, THEN conjunct1]

section \<open>Properties\<close>

text \<open>
  C10. The ring in memory is a bounded queue: for every sequence of enqueues, fetches and
  completions, the outcomes (results and exceptions) are those of a queue of descriptors that holds
  one less than RINGLEN, the descriptors pending in memory are its contents, and the ring stays
  well-formed.
\<close>

theorem ring_refines_queue:
  assumes "ring_ok r" and "quiescent (rm_axi r)" and "\<forall>c \<in> set cs. call_ok c"
  shows "fst (run_calls ring_do cs r)
      = fst (run_calls (queue_do (csr_read (rm_csr r) REG_RINGLEN - 1)) cs (pending r)) \<and>
    pending (snd (run_calls ring_do cs r))
      = snd (run_calls (queue_do (csr_read (rm_csr r) REG_RINGLEN - 1)) cs (pending r)) \<and>
    ring_ok (snd (run_calls ring_do cs r))"
  using rq.run_simulates [of "rlen_of r - 1" r "pending r" cs] assms
  by (simp add: ring_rel_def csr_read_def)

theorem ring_refines_queue_witness:
  "fst (run_calls ring_do [Enqueue (mk_descriptor 1 2 3 4), Enqueue (mk_descriptor 5 6 7 8),
      Fetch 1, Complete, Fetch 1, Complete, Complete] small_ring) =
    [Inr (Some (mk_descriptor 1 2 3 4)), Inr (Some (mk_descriptor 5 6 7 8)),
     Inr (Some (mk_descriptor 1 2 3 4)), Inr None, Inr (Some (mk_descriptor 5 6 7 8)), Inr None,
     Inl (RuntimeError NothingPending)]"
  using ring_refines_queue [of small_ring "[Enqueue (mk_descriptor 1 2 3 4),
      Enqueue (mk_descriptor 5 6 7 8), Fetch 1, Complete, Fetch 1, Complete, Complete]"]
    small_ring_rel
  by (simp add: ring_rel_def call_ok_def mk_descriptor_ok queue_do_def csr_read_def small_ring_regs)

text \<open>
  C19. A fetch returns the oldest pending descriptor and leaves everything exactly as it was: memory,
  registers and every FIFO. One step of the master is enough.
\<close>

theorem fetch_returns_oldest:
  assumes "ring_ok r" and "quiescent (rm_axi r)" and "pending r \<noteq> []" and "1 \<le> max_steps"
  shows "fetch_next_descriptor max_steps r = (Inr (Some (hd (pending r))), r)"
  using assms fetch_pending [of r "hd (pending r)" "tl (pending r)"] by simp

lemma small_ring_enqueued:
  "ring_rel 3 (snd (ring_do (Enqueue (mk_descriptor 1 2 3 4)) small_ring)) [mk_descriptor 1 2 3 4]"
  using rq.step_rel [OF small_ring_rel, of "Enqueue (mk_descriptor 1 2 3 4)"]
  by (simp add: call_ok_def mk_descriptor_ok queue_do_def)

theorem fetch_returns_oldest_witness:
  "fetch_next_descriptor 1 (snd (ring_do (Enqueue (mk_descriptor 1 2 3 4)) small_ring)) =
    (Inr (Some (mk_descriptor 1 2 3 4)),
     snd (ring_do (Enqueue (mk_descriptor 1 2 3 4)) small_ring))"
  using small_ring_enqueued
    fetch_returns_oldest [of "snd (ring_do (Enqueue (mk_descriptor 1 2 3 4)) small_ring)" 1]
  by (simp add: ring_rel_def)

text \<open>The memory writes of an enqueue either all happen or none.\<close>

lemma mem_set_length: "mem_set i v r = (Inr (), q) \<Longrightarrow> length (ring_mem q) = length (ring_mem r)"
  by (auto simp: mem_set_def dest: py_setitem_length split: sum.splits)

lemma mem_set_ok:
  assumes "0 \<le> i" and "i < int (length (ring_mem r))"
  shows "mem_set i v r = (Inr (), set_ring_mem ((ring_mem r)[nat i := v]) r)"
  using assms by (simp add: mem_set_def)

lemma write_desc_atomic:
  assumes "int (length (ring_mem r)) = sm_size (am_memory (rm_axi r))"
    and "write_desc_to_mem x d r = (Inl e, r')"
  shows "r' = r"
proof (rule ccontr)
  let ?i = "drop_bit 2 x AND 0xFFFFFFFF"
  assume "r' \<noteq> r"
  with assms have fits: "?i + 4 \<le> int (length (ring_mem r))" and "0 \<le> ?i"
    by (auto simp: write_desc_to_mem_def Let_def act_simps DESC_WORDS_def split: if_splits)
  then have "fst (write_desc_to_mem x d r) = Inr ()"
    using assms(1) by (simp add: write_desc_to_mem_def Let_def act_simps DESC_WORDS_def mem_set_ok)
  with assms(2) show False by simp
qed

text \<open>
  An enqueue that raises (full ring, zero RINGLEN, slot outside the memory) has changed neither
  the memory nor a register.
\<close>

theorem enqueue_atomic:
  assumes "int (length (ring_mem r)) = sm_size (am_memory (rm_axi r))"
    and "ring_enqueue d r = (Inl e, r')"
  shows "r' = r"
  using assms
  by (auto simp: ring_enqueue_def act_simps act_bind_eq_Inl Let_def set_tail_reg_def
      split: sum.splits if_splits dest: write_desc_atomic)

theorem enqueue_atomic_witness:
  "snd (ring_enqueue (mk_descriptor 1 2 3 4) (small_ring\<lparr>rm_csr := csr_init\<rparr>))
    = small_ring\<lparr>rm_csr := csr_init\<rparr>"
proof (rule enqueue_atomic)
  show "ring_enqueue (mk_descriptor 1 2 3 4) (small_ring\<lparr>rm_csr := csr_init\<rparr>) =
      (Inl (ValueError RinglenZero),
       snd (ring_enqueue (mk_descriptor 1 2 3 4) (small_ring\<lparr>rm_csr := csr_init\<rparr>)))"
    by (simp add: ring_enqueue_def act_simps ring_ringlen_def csr_ringlen_def reg_def csr_init_def
        reg_offsets)
qed (simp add: small_ring_def)

text \<open>
  A completion moves HEAD and nothing else: memory, FIFOs and every other register (STATUS and
  IRQ_STATUS included) keep their values, so draining the ring raises no empty interrupt.
\<close>

theorem complete_only_head:
  "rm_axi (snd (ring_complete r)) = rm_axi r \<and>
   csr_read (rm_csr (snd (ring_complete r))) k =
     (if k = REG_HEAD then csr_read (rm_csr (snd (ring_complete r))) REG_HEAD
      else csr_read (rm_csr r) k)"
  by (auto simp: ring_complete_def act_simps Let_def set_head_reg_def csr_read_def reg_hw
      split: sum.split)

text \<open>
  The status queries of a well-formed ring describe the queue: the pending count is its length,
  it is empty when the pointers are equal, full one short of RINGLEN, and the next fetch address is
  the head slot's.
\<close>

theorem ring_status_reads:
  assumes "ring_ok r"
  shows "pending_count r = Inr (int (length (pending r))) \<and>
    (ring_is_empty r \<longleftrightarrow> pending r = []) \<and>
    ring_is_full r = Inr (int (length (pending r)) = csr_read (rm_csr r) REG_RINGLEN - 1) \<and>
    next_fetch_byte_addr r = Inr (if pending r = [] then None
      else Some (csr_baseaddr (rm_csr r) + csr_read (rm_csr r) REG_HEAD * DESCRIPTOR_SIZE_BYTES))"
  using assms slot_facts(1) [OF assms] head_range [OF assms]
  by (simp add: csr_pending_count length_pending ring_is_empty_iff ring_is_full_iff csr_read_def
      next_fetch_byte_addr_def ring_reads csr_baseaddr_def DESCRIPTOR_SIZE_BYTES_def)

theorem ring_status_reads_witness:
  "ring_is_empty small_ring \<and> pending_count small_ring = Inr 0 \<and> ring_is_full small_ring = Inr False"
  using ring_status_reads [OF small_ring_ok] small_ring_rel
  by (simp add: ring_rel_def csr_read_def small_ring_regs)

text \<open>
  A zero RINGLEN: enqueueing raises ValueError, fetching and completing raise it when the
  pointers differ and report an empty ring when they do not; nothing changes in any case.
\<close>

theorem ring_unconfigured:
  assumes "csr_read (rm_csr r) REG_RINGLEN = 0"
  shows "ring_enqueue d r = (Inl (ValueError RinglenZero), r) \<and>
    fetch_next_descriptor n r =
      (if ring_head r = ring_tail r then Inr None else Inl (ValueError RinglenZero), r) \<and>
    ring_complete r = (Inl (if ring_head r = ring_tail r then RuntimeError NothingPending
      else ValueError RinglenZero), r)"
proof -
  have "ring_ringlen r = Inl (ValueError RinglenZero)"
    using assms by (simp add: ring_ringlen_def csr_ringlen_def csr_read_def)
  then show ?thesis
    by (simp add: ring_enqueue_def fetch_next_descriptor_def ring_complete_def act_simps
        ring_is_empty_def)
qed

theorem ring_unconfigured_witness:
  "ring_enqueue (mk_descriptor 1 2 3 4) (small_ring\<lparr>rm_csr := csr_init\<rparr>)
    = (Inl (ValueError RinglenZero), small_ring\<lparr>rm_csr := csr_init\<rparr>)"
  using ring_unconfigured [of "small_ring\<lparr>rm_csr := csr_init\<rparr>"]
  by (simp add: csr_read_def reg_def csr_init_def reg_offsets)

text \<open>
  Software that stores an unreduced TAIL, one whole RINGLEN past HEAD, makes the two status
  queries disagree: the ring is not empty for \<open>is_empty\<close>, yet \<open>pending_count\<close> is zero.
\<close>

theorem unreduced_tail:
  assumes "ring_ok r" and "csr_read (rm_csr r) REG_HEAD + csr_read (rm_csr r) REG_RINGLEN < 2 ^ 32"
  shows "let r' = r\<lparr>rm_csr := csr_write REG_TAIL
      (csr_read (rm_csr r) REG_HEAD + csr_read (rm_csr r) REG_RINGLEN) (rm_csr r)\<rparr>
    in \<not> ring_is_empty r' \<and> pending_count r' = Inr 0"
proof -
  let ?t = "head_of r + rlen_of r"
  let ?c = "csr_write REG_TAIL ?t (rm_csr r)"
  have h: "0 \<le> head_of r" "0 < rlen_of r" and t: "?t < 2 ^ 32" "head_of r < 2 ^ 32"
    "rlen_of r < 2 ^ 32"
    using assms head_range [OF assms(1)] by (simp_all add: csr_read_def ring_ok_def)
  have regs: "reg ?c REG_TAIL = ?t" "reg ?c REG_HEAD = head_of r" "reg ?c REG_RINGLEN = rlen_of r"
    using h t by (simp_all add: tail_write_regs) (simp_all add: reg_offsets)
  have "ring_head (r\<lparr>rm_csr := ?c\<rparr>) = head_of r" and "ring_tail (r\<lparr>rm_csr := ?c\<rparr>) = ?t"
    and "ring_ringlen (r\<lparr>rm_csr := ?c\<rparr>) = Inr (rlen_of r)"
    using h t by (simp_all add: ring_head_def ring_tail_def ring_ringlen_def csr_read_def
        csr_ringlen_def regs bits)
  then show ?thesis
    using h by (simp add: ring_is_empty_def pending_count_def csr_read_def)
qed

theorem unreduced_tail_witness:
  "\<not> ring_is_empty (small_ring\<lparr>rm_csr := csr_write REG_TAIL 4 (rm_csr small_ring)\<rparr>) \<and>
   pending_count (small_ring\<lparr>rm_csr := csr_write REG_TAIL 4 (rm_csr small_ring)\<rparr>) = Inr 0"
  using unreduced_tail [OF small_ring_ok]
  by (simp add: csr_read_def small_ring_regs Let_def) (simp add: reg_offsets)

text \<open>
  A ring whose BASEADDR is not word aligned cannot be consumed: while something is pending, a
  fetch raises the alignment error of the master and leaves the state as it was (\<open>enqueue\<close> accepts
  such a base, so the ring fills and is never drained).
\<close>

theorem misaligned_base_fetch:
  assumes "quiescent (rm_axi r)" and "axi_ok (rm_axi r)" and "\<not> ring_is_empty r"
    and "ring_ringlen r = Inr n" and "csr_baseaddr (rm_csr r) mod 4 \<noteq> 0"
  shows "fetch_next_descriptor max_steps r = (Inl (ValueError (AxiUnaligned
    ((ring_base r + ring_head r mod n * DESCRIPTOR_SIZE_BYTES) mod 2 ^ 32))), r)"
proof -
  let ?x = "ring_base r + ring_head r mod n * DESCRIPTOR_SIZE_BYTES"
  let ?h = "pack_handle ?x DESC_WORDS" and ?a = "rm_axi r"
  let ?e = "ValueError (AxiUnaligned (?x mod 2 ^ 32))"
  let ?a1 = "?a\<lparr>am_df_in := set_buffer [?h] (am_df_in ?a)\<rparr>"
  have empty: "buffer (am_df_in ?a) = []" "buffer (am_df_out ?a) = []"
    and cap: "0 < queue_length (am_df_in ?a)"
    using assms(1,2) by (simp_all add: quiescent_def axi_ok_def fifo_ok_def)
  have "?x mod 2 ^ 32 mod 4 = ?x mod 4" by (rule mod_mod_cancel) simp
  also have "\<dots> = ring_base r mod 4"
    unfolding DESCRIPTOR_SIZE_BYTES_def by (rule sixteen_mod)
  also have "\<dots> = csr_baseaddr (rm_csr r) mod 4"
    by (simp add: ring_base_def bits mod_mod_cancel)
  finally have word: "word_index (?x mod 4294967296) = Inl ?e"
    using assms(5) by (subst word_index_unaligned) simp_all
  have sub: "on_fetcher (submit_handle ?x DESC_WORDS) ?a = (Inr (), ?a1)"
    using submit_handle_axi [of ?a ?x DESC_WORDS] empty cap by (simp add: fifo_is_full_def)
  have "process_one ?a1 = (Inl ?e, ?a)"
    using empty pop_handle [of ?a1 ?h "[]"] word
    by (simp add: process_one_def fifo_is_empty_def do_descriptor_fetch_def act_simps Let_def
        act_bind_assoc DESC_WORDS_def mem_read_words_def set_same_buffer)
  then have "fetch_loop max_steps 0 ?a1 = (Inl ?e, ?a)"
    using empty by (simp add: fetch_loop.simps has_descriptor_axi)
  with sub show ?thesis
    using assms(3,4)
    by (simp add: fetch_next_descriptor_def act_simps Let_def slot_byte_addr_def on_axi_def
        zoom_def act_bind_def)
qed

theorem misaligned_base_fetch_witness:
  "let r = small_ring\<lparr>rm_csr := csr_write REG_TAIL 1 (csr_write REG_BASEADDR 2 (rm_csr small_ring))\<rparr>
   in fetch_next_descriptor 256 r = (Inl (ValueError (AxiUnaligned 2)), r)"
proof -
  let ?c = "csr_write REG_TAIL 1 (csr_write REG_BASEADDR 2 (rm_csr small_ring))"
  let ?r = "small_ring\<lparr>rm_csr := ?c\<rparr>"
  have regs: "reg ?c REG_TAIL = 1" "reg ?c REG_BASEADDR = 2" "reg ?c REG_HEAD = 0"
    "reg ?c REG_RINGLEN = 4"
    by (simp_all add: reg_csr_write_plain reg_offsets small_ring_regs)
  have "\<not> ring_is_empty ?r" and n: "ring_ringlen ?r = Inr 4" and "ring_base ?r = 2"
    and "ring_head ?r = 0" and "csr_baseaddr ?c = 2"
    by (simp_all add: ring_is_empty_def ring_head_def ring_tail_def ring_ringlen_def ring_base_def
        csr_ringlen_def csr_baseaddr_def csr_read_def regs bits)
  then show ?thesis
    using misaligned_base_fetch [of ?r 4 256] small_ring_rel by (simp add: ring_rel_def ring_ok_def)
qed

end
