(* ===== verification/Movement.thy ===== *)
theory Movement
  imports Ring_Manager Sram_Controller
begin

text \<open>
  The hardware phase of \<open>sim/run_golden.py\<close>: a descriptor becomes a pair of instructions, one for
  the AXI master and one for the SRAM controller; both queues are drained in the order that fills
  MID before it is emptied; the event loop does this for every pending descriptor. Its
  specification is a block copy between the two memories.
\<close>

section \<open>Instruction words\<close>

definition SMEM_WORDS :: int where "SMEM_WORDS = 1024"
definition FIFO_DEPTH :: int where "FIFO_DEPTH = 64"
definition DM_DEPTH :: int where "DM_DEPTH = 16"
definition MID_DEPTH :: int where "MID_DEPTH = 128"
definition GOLDEN_LEN_LSB :: nat where "GOLDEN_LEN_LSB = 32"
definition GOLDEN_RW_BIT :: nat where "GOLDEN_RW_BIT = 40"
definition MAX_ITERS :: nat where "MAX_ITERS = 1000"

definition build_65 :: "int \<Rightarrow> int \<Rightarrow> int \<Rightarrow> int" where
  "build_65 addr len32 rw =
     (addr AND 0xFFFFFFFF) OR push_bit 32 (len32 AND 0xFFFFFFFF) OR push_bit 64 (rw AND 1)"

definition narrow65_to_41 :: "int \<Rightarrow> int" where
  "narrow65_to_41 w65 =
     (w65 AND 0xFFFFFFFF) OR push_bit GOLDEN_LEN_LSB (drop_bit 32 w65 AND 0xFF)
       OR push_bit GOLDEN_RW_BIT (drop_bit 64 w65 AND 1)"

definition desc_to_instr_pair :: "descriptor \<Rightarrow> int \<times> int" where
  "desc_to_instr_pair desc =
     (let src = w0 desc AND 0xFFFFFFFF; dst = w1 desc AND 0xFFFFFFFF;
          len32 = w2 desc AND 0xFFFFFFFF; dir_bit = w3 desc AND 1;
          (axi65, sram65) =
            (if dir_bit \<noteq> 0 then (build_65 src len32 0, build_65 dst len32 1)
             else (build_65 dst len32 1, build_65 src len32 0))
      in (narrow65_to_41 axi65, narrow65_to_41 sram65))"

lemma or_field_32:
  "x mod 4294967296 OR push_bit 32 r = field 4294967296 (x mod 4294967296) r"
  using or_field [of "x mod 4294967296" 32 r] by simp

lemma build_65_field:
  "build_65 addr n rw
    = field 4294967296 (addr mod 4294967296) (field 4294967296 (n mod 4294967296) (rw mod 2))"
proof -
  have "push_bit 64 b = push_bit 32 (push_bit 32 b)" for b :: int
    by (simp add: push_bit_push_bit)
  then show ?thesis
    unfolding build_65_def bits or.assoc by (simp only: push_bit_or [symmetric] or_field_32)
qed

lemma field_mod_256: "field 4294967296 b c mod 256 = b mod 256"
proof -
  have "field 4294967296 b c = b + 256 * (16777216 * c)" by (simp add: field_def)
  then show ?thesis by (simp only: mod_mult_self2)
qed

lemma narrow_build: "narrow65_to_41 (build_65 addr n rw) = pack_instruction addr n (odd rw)"
proof -
  let ?w = "build_65 addr n rw"
  have low: "?w mod 4294967296 = addr mod 4294967296"
    and rest: "?w div 4294967296 = field 4294967296 (n mod 4294967296) (rw mod 2)"
    unfolding build_65_field by simp_all
  have len: "?w div 4294967296 mod 256 = n mod 256"
    unfolding rest field_mod_256 by (rule mod_mod_cancel) simp
  have rw: "?w div 4294967296 div 4294967296 mod 2 = of_bool (odd rw)"
    unfolding rest by (simp add: mod2_eq_if)
  show ?thesis
    unfolding narrow65_to_41_def pack_instruction_def Let_def bits drop_bit_steps
      GOLDEN_LEN_LSB_def GOLDEN_RW_BIT_def low len rw
    by simp
qed

lemma instr_pair:
  "desc_to_instr_pair d =
    (if odd (w3 d) then (pack_instruction (w0 d) (w2 d) False, pack_instruction (w1 d) (w2 d) True)
     else (pack_instruction (w1 d) (w2 d) True, pack_instruction (w0 d) (w2 d) False))"
proof -
  have masked: "pack_instruction (x mod 4294967296) (n mod 4294967296) wr = pack_instruction x n wr"
    for x n wr
  proof -
    have "n mod 4294967296 mod 256 = n mod 256" by (rule mod_mod_cancel) simp
    then show ?thesis by (simp add: pack_instruction_field)
  qed
  show ?thesis
    by (simp add: desc_to_instr_pair_def Let_def narrow_build bits masked odd_iff_mod_2_eq_one)
qed

section \<open>The model objects\<close>

record golden =
  gd_ring :: ring
  gd_sram :: sram
  gd_dm_sram :: fifo
  gd_stim :: "string list"

definition on_ring :: "(ring, 'a) act \<Rightarrow> (golden, 'a) act" where
  "on_ring = zoom gd_ring (\<lambda>r g. g\<lparr>gd_ring := r\<rparr>)"

definition on_master :: "(axi, 'a) act \<Rightarrow> (golden, 'a) act" where
  "on_master m = on_ring (on_axi m)"

definition on_dm_sram :: "(fifo, 'a) act \<Rightarrow> (golden, 'a) act" where
  "on_dm_sram = zoom gd_dm_sram (\<lambda>q g. g\<lparr>gd_dm_sram := q\<rparr>)"

text \<open>The SRAM controller works on the words of the SRAM, its own queue and the shared MID.\<close>

definition sram_ctrl_of :: "golden \<Rightarrow> sram_ctrl" where
  "sram_ctrl_of g = \<lparr>sc_sram = sr_mem (gd_sram g), sc_dm_in = gd_dm_sram g,
     sc_mid = am_mid (rm_axi (gd_ring g))\<rparr>"

definition put_sram_ctrl :: "sram_ctrl \<Rightarrow> golden \<Rightarrow> golden" where
  "put_sram_ctrl s g = g\<lparr>gd_sram := (gd_sram g)\<lparr>sr_mem := sc_sram s\<rparr>, gd_dm_sram := sc_dm_in s,
     gd_ring := (gd_ring g)\<lparr>rm_axi := (rm_axi (gd_ring g))\<lparr>am_mid := sc_mid s\<rparr>\<rparr>\<rparr>"

definition on_sram_ctrl :: "(sram_ctrl, 'a) act \<Rightarrow> (golden, 'a) act" where
  "on_sram_ctrl = zoom sram_ctrl_of put_sram_ctrl"

interpretation gring: lens gd_ring "\<lambda>r g. g\<lparr>gd_ring := r\<rparr>"
  by unfold_locales simp_all

interpretation gctrl: lens sram_ctrl_of put_sram_ctrl
  by unfold_locales (simp_all add: sram_ctrl_of_def put_sram_ctrl_def)

section \<open>Draining and the event loop\<close>

definition drain_axi_dm :: "int \<Rightarrow> int \<Rightarrow> (axi, unit) act" where
  "drain_axi_dm instr_axi max_steps =
     drain axi_idle process_one (RuntimeError (AxiStalled instr_axi)) max_steps 0"

definition drain_sram_dm :: "int \<Rightarrow> int \<Rightarrow> (sram_ctrl, unit) act" where
  "drain_sram_dm instr_sram max_steps =
     drain sram_idle sram_process_one (RuntimeError (SramStalled instr_sram)) max_steps 0"

text \<open>Steps 2 to 4 of the event loop, on one descriptor.\<close>

definition move_descriptor :: "descriptor \<Rightarrow> (golden, unit) act" where
  "move_descriptor desc =
     (let (instr_axi, instr_sram) = desc_to_instr_pair desc
      in act_bind (on_master (on_dm_in (fifo_enqueue instr_axi))) (\<lambda>_.
         act_bind (on_dm_sram (fifo_enqueue instr_sram)) (\<lambda>_.
           let dir_bit = w3 desc AND 1
           in if dir_bit \<noteq> 0
              then act_bind (on_master (drain_axi_dm instr_axi 512))
                     (\<lambda>_. on_sram_ctrl (drain_sram_dm instr_sram 512))
              else act_bind (on_sram_ctrl (drain_sram_dm instr_sram 512))
                     (\<lambda>_. on_master (drain_axi_dm instr_axi 512)))))"

text \<open>
  \<open>for _ in range(n): ... else: raise\<close>: the counter is the number of iterations left, and running
  out of them raises even when the last one emptied the ring.
\<close>

fun event_loop :: "nat \<Rightarrow> int list \<Rightarrow> (golden, int list) act" where
  "event_loop 0 descs = act_raise (RuntimeError MaxIters)"
| "event_loop (Suc n) descs =
     act_bind (act_gets (\<lambda>g. ring_is_empty (gd_ring g))) (\<lambda>emp.
       if emp then act_return descs
       else act_bind (on_ring (fetch_next_descriptor 256)) (\<lambda>opt.
            case opt of
              None \<Rightarrow> act_return descs
            | Some desc \<Rightarrow>
                act_bind (move_descriptor desc) (\<lambda>_.
                act_bind (on_ring ring_complete) (\<lambda>_.
                event_loop n (descs @ [pack desc])))))"

definition hardware_phase :: "(golden, int list) act" where
  "hardware_phase =
     act_bind (act_gets (\<lambda>g. is_enabled (rm_csr (gd_ring g)))) (\<lambda>en.
       if \<not> en then act_return [] else event_loop MAX_ITERS [])"

section \<open>The four legs\<close>

lemma axi_read_leg:
  assumes "buffer (am_df_in a) = []" and "buffer (am_dm_in a) = []" and "buffer (am_mid a) = []"
    and "u32s (sm_mem (am_memory a))" and "block_ok i (sm_mem (am_memory a))"
    and "\<not> word_is_write i" and "word_beats i \<le> queue_length (am_mid a)"
  shows "drain_axi_dm i 512 (a\<lparr>am_dm_in := set_buffer [i] (am_dm_in a)\<rparr>) = (Inr (), a\<lparr>am_mid :=
    set_buffer (load_block (sm_mem (am_memory a)) (block_start i) (block_len i)) (am_mid a)\<rparr>)"
  using assms axi_end.drain_read [of "a\<lparr>am_dm_in := set_buffer [i] (am_dm_in a)\<rparr>" i 512]
  by (simp add: drain_axi_dm_def fifo_len_def set_same_buffer)

lemma axi_write_leg:
  assumes "buffer (am_df_in a) = []" and "buffer (am_dm_in a) = []" and "buffer (am_mid a) = []"
    and "u32s (sm_mem (am_memory a))" and "block_ok i (sm_mem (am_memory a))"
    and "word_is_write i" and "length ws = block_len i" and "u32s ws"
  shows "drain_axi_dm i 512 (a\<lparr>am_dm_in := set_buffer [i] (am_dm_in a),
      am_mid := set_buffer ws (am_mid a)\<rparr>) = (Inr (), a\<lparr>am_memory := (am_memory a)
        \<lparr>sm_mem := store_block (sm_mem (am_memory a)) (block_start i) ws\<rparr>\<rparr>)"
  using assms axi_end.drain_write [of "a\<lparr>am_dm_in := set_buffer [i] (am_dm_in a),
      am_mid := set_buffer ws (am_mid a)\<rparr>" i ws "[]" 512]
  by (simp add: drain_axi_dm_def set_same_buffer)

lemma sram_read_leg:
  assumes "buffer (sc_dm_in s) = []" and "buffer (sc_mid s) = []" and "u32s (sc_sram s)"
    and "block_start i + block_len i \<le> length (sc_sram s)"
    and "\<not> word_is_write i" and "word_beats i \<le> queue_length (sc_mid s)"
  shows "drain_sram_dm i 512 (s\<lparr>sc_dm_in := set_buffer [i] (sc_dm_in s)\<rparr>) = (Inr (), s\<lparr>sc_mid :=
    set_buffer (load_block (sc_sram s) (block_start i) (block_len i)) (sc_mid s)\<rparr>)"
  using assms sram_end.drain_read [of "s\<lparr>sc_dm_in := set_buffer [i] (sc_dm_in s)\<rparr>" i 512]
  by (simp add: drain_sram_dm_def fifo_len_def set_same_buffer)

lemma sram_write_leg:
  assumes "buffer (sc_dm_in s) = []" and "buffer (sc_mid s) = []" and "u32s (sc_sram s)"
    and "block_start i + block_len i \<le> length (sc_sram s)"
    and "word_is_write i" and "length ws = block_len i" and "u32s ws"
  shows "drain_sram_dm i 512 (s\<lparr>sc_dm_in := set_buffer [i] (sc_dm_in s),
      sc_mid := set_buffer ws (sc_mid s)\<rparr>) =
    (Inr (), s\<lparr>sc_sram := store_block (sc_sram s) (block_start i) ws\<rparr>)"
  using assms sram_end.drain_write [of "s\<lparr>sc_dm_in := set_buffer [i] (sc_dm_in s),
      sc_mid := set_buffer ws (sc_mid s)\<rparr>" i ws "[]" 512]
  by (simp add: drain_sram_dm_def set_same_buffer)

section \<open>The specification of a transfer\<close>

abbreviation g_axi :: "golden \<Rightarrow> axi" where
  "g_axi g \<equiv> rm_axi (gd_ring g)"

abbreviation smem :: "golden \<Rightarrow> int list" where
  "smem g \<equiv> sm_mem (am_memory (g_axi g))"

abbreviation bram :: "golden \<Rightarrow> int list" where
  "bram g \<equiv> sr_mem (gd_sram g)"

definition dma_beats :: "descriptor \<Rightarrow> nat" where
  "dma_beats d = nat (w2 d mod 256)"

definition dma_move :: "descriptor \<Rightarrow> int list \<times> int list \<Rightarrow> int list \<times> int list" where
  "dma_move d m = (case m of (sys, ram) \<Rightarrow>
     let n = dma_beats d; src = nat (w0 d div 4); dst = nat (w1 d div 4)
     in if odd (w3 d) then (sys, store_block ram dst (load_block sys src n))
        else (store_block sys dst (load_block ram src n), ram))"

text \<open>
  A transfer fits: its system-memory address is word aligned (the SRAM address need not be), both
  blocks exist, and the burst fits MID.
\<close>

definition dma_fits :: "int \<Rightarrow> descriptor \<Rightarrow> int list \<times> int list \<Rightarrow> bool" where
  "dma_fits mid_depth d m \<longleftrightarrow> (case m of (sys, ram) \<Rightarrow>
     let n = dma_beats d; (x, y) = (if odd (w3 d) then (w0 d, w1 d) else (w1 d, w0 d))
     in x mod 4 = 0 \<and> nat (x div 4) + n \<le> length sys \<and> nat (y div 4) + n \<le> length ram \<and>
        int n \<le> mid_depth)"

definition with_mems :: "int list \<times> int list \<Rightarrow> golden \<Rightarrow> golden" where
  "with_mems m g = g\<lparr>gd_ring := (gd_ring g)\<lparr>rm_axi := (g_axi g)\<lparr>am_memory :=
       (am_memory (g_axi g))\<lparr>sm_mem := fst m\<rparr>\<rparr>\<rparr>, gd_sram := (gd_sram g)\<lparr>sr_mem := snd m\<rparr>\<rparr>"

text \<open>Between two descriptors: a well-formed ring and SRAM, and every FIFO empty.\<close>

definition golden_ok :: "golden \<Rightarrow> bool" where
  "golden_ok g \<longleftrightarrow> ring_ok (gd_ring g) \<and> quiescent (g_axi g) \<and> sram_ok (gd_sram g) \<and>
     fifo_ok (gd_dm_sram g) \<and> buffer (gd_dm_sram g) = [] \<and> buffer (am_dm_in (g_axi g)) = [] \<and>
     buffer (am_mid (g_axi g)) = []"

lemma golden_okD:
  assumes "golden_ok g"
  shows "buffer (am_df_in (g_axi g)) = []" and "buffer (am_dm_in (g_axi g)) = []"
    and "buffer (am_mid (g_axi g)) = []" and "buffer (gd_dm_sram g) = []"
    and "\<not> fifo_is_full (am_dm_in (g_axi g))" and "\<not> fifo_is_full (gd_dm_sram g)"
    and "u32s (smem g)" and "u32s (bram g)"
  using assms
  by (auto simp: golden_ok_def quiescent_def ring_ok_def axi_ok_def fifo_ok_def sram_ok_def
      sysmem_ok_def fifo_is_full_def)

lemma instr_block [simp]:
  assumes "0 \<le> x" and "x < 2 ^ 32"
  shows "block_start (pack_instruction x n wr) = nat (x div 4)"
    and "block_len (pack_instruction x n wr) = nat (n mod 256)"
  using assms by (simp_all add: block_start_def block_len_def)

lemma desc_okD:
  "desc_ok d \<Longrightarrow> 0 \<le> w0 d \<and> w0 d < 2 ^ 32 \<and> 0 \<le> w1 d \<and> w1 d < 2 ^ 32"
  by (simp add: desc_ok_def)

lemma on_master_apply:
  "m (g_axi g) = (x, a) \<Longrightarrow> on_master m g = (x, g\<lparr>gd_ring := (gd_ring g)\<lparr>rm_axi := a\<rparr>\<rparr>)"
  by (simp add: on_master_def on_ring_def on_axi_def zoom_def)

lemma on_dm_in_enqueue:
  "\<not> fifo_is_full (am_dm_in a) \<Longrightarrow> on_dm_in (fifo_enqueue i) a =
    (Inr (), a\<lparr>am_dm_in := set_buffer (buffer (am_dm_in a) @ [i]) (am_dm_in a)\<rparr>)"
  by (simp add: on_dm_in_def zoom_def fifo_enqueue_def)

lemma on_dm_sram_enqueue:
  "\<not> fifo_is_full (gd_dm_sram g) \<Longrightarrow> on_dm_sram (fifo_enqueue i) g =
    (Inr (), g\<lparr>gd_dm_sram := set_buffer (buffer (gd_dm_sram g) @ [i]) (gd_dm_sram g)\<rparr>)"
  by (simp add: on_dm_sram_def zoom_def fifo_enqueue_def)

lemma on_sram_ctrl_apply:
  "m (sram_ctrl_of g) = (x, s) \<Longrightarrow> on_sram_ctrl m g = (x, put_sram_ctrl s g)"
  by (simp add: on_sram_ctrl_def zoom_def)

section \<open>One descriptor\<close>

abbreviation issued :: "int \<Rightarrow> int \<Rightarrow> golden \<Rightarrow> golden" where
  "issued ia ir g \<equiv> g\<lparr>gd_ring := (gd_ring g)\<lparr>rm_axi := (g_axi g)
     \<lparr>am_dm_in := set_buffer [ia] (am_dm_in (g_axi g))\<rparr>\<rparr>,
     gd_dm_sram := set_buffer [ir] (gd_dm_sram g)\<rparr>"

lemma move_issues:
  assumes "golden_ok g" and "desc_to_instr_pair d = (ia, ir)"
  shows "move_descriptor d g =
    (if odd (w3 d) then act_bind (on_master (drain_axi_dm ia 512))
           (\<lambda>_. on_sram_ctrl (drain_sram_dm ir 512)) (issued ia ir g)
     else act_bind (on_sram_ctrl (drain_sram_dm ir 512))
           (\<lambda>_. on_master (drain_axi_dm ia 512)) (issued ia ir g))"
proof -
  note ok = golden_okD [OF assms(1)]
  let ?g1 = "g\<lparr>gd_ring := (gd_ring g)\<lparr>rm_axi := (g_axi g)
     \<lparr>am_dm_in := set_buffer [ia] (am_dm_in (g_axi g))\<rparr>\<rparr>\<rparr>"
  have "on_master (on_dm_in (fifo_enqueue ia)) g = (Inr (), ?g1)"
    using on_master_apply [of "on_dm_in (fifo_enqueue ia)" g] on_dm_in_enqueue [OF ok(5), of ia] ok(2)
    by simp
  moreover have "on_dm_sram (fifo_enqueue ir) ?g1 = (Inr (), issued ia ir g)"
    using on_dm_sram_enqueue [of ?g1 ir] ok(4,6) by simp
  ultimately show ?thesis
    using assms(2) by (simp add: move_descriptor_def act_simps Let_def bits odd_iff_mod_2_eq_one)
qed

lemma move_to_sram:
  assumes "golden_ok g" and "desc_ok d" and "odd (w3 d)"
    and "dma_fits (queue_length (am_mid (g_axi g))) d (smem g, bram g)"
  shows "move_descriptor d g = (Inr (), with_mems (dma_move d (smem g, bram g)) g)"
proof -
  note ok = golden_okD [OF assms(1)] and d = desc_okD [OF assms(2)]
  let ?ia = "pack_instruction (w0 d) (w2 d) False" and ?ir = "pack_instruction (w1 d) (w2 d) True"
  let ?ws = "load_block (smem g) (nat (w0 d div 4)) (dma_beats d)"
  have pair: "desc_to_instr_pair d = (?ia, ?ir)" using assms(3) by (simp add: instr_pair)
  have fits: "block_ok ?ia (smem g)" "nat (w1 d div 4) + dma_beats d \<le> length (bram g)"
    "word_beats ?ia \<le> queue_length (am_mid (g_axi g))" "length ?ws = dma_beats d"
    using assms(3,4) d by (auto simp: dma_fits_def Let_def block_ok_def dma_beats_def)
  let ?g2 = "g\<lparr>gd_ring := (gd_ring g)\<lparr>rm_axi := (g_axi g)
     \<lparr>am_mid := set_buffer ?ws (am_mid (g_axi g))\<rparr>\<rparr>, gd_dm_sram := set_buffer [?ir] (gd_dm_sram g)\<rparr>"
  have "load_block (smem g) (block_start ?ia) (block_len ?ia) = ?ws"
    using d by (simp add: dma_beats_def)
  with axi_read_leg [OF ok(1,2,3,7) fits(1) _ fits(3)]
  have "drain_axi_dm ?ia 512 ((g_axi g)\<lparr>am_dm_in := set_buffer [?ia] (am_dm_in (g_axi g))\<rparr>)
      = (Inr (), (g_axi g)\<lparr>am_mid := set_buffer ?ws (am_mid (g_axi g))\<rparr>)"
    by (simp only: instruction_fields simp_thms)
  then have axi: "on_master (drain_axi_dm ?ia 512) (issued ?ia ?ir g) = (Inr (), ?g2)"
    by (simp add: on_master_apply)
  have ir: "block_start ?ir = nat (w1 d div 4)" "block_len ?ir = dma_beats d"
    using d by (simp_all add: dma_beats_def)
  have "drain_sram_dm ?ir 512 ((sram_ctrl_of g)\<lparr>sc_dm_in := set_buffer [?ir] (gd_dm_sram g),
        sc_mid := set_buffer ?ws (am_mid (g_axi g))\<rparr>) =
      (Inr (), (sram_ctrl_of g)\<lparr>sc_sram := store_block (bram g) (nat (w1 d div 4)) ?ws\<rparr>)"
    using sram_write_leg [of "sram_ctrl_of g" ?ir ?ws] ok(3,4,8) fits(2,4) u32s_load_block [OF ok(7)]
    unfolding ir by (simp add: sram_ctrl_of_def)
  then have "drain_sram_dm ?ir 512 (sram_ctrl_of ?g2) =
      (Inr (), (sram_ctrl_of g)\<lparr>sc_sram := store_block (bram g) (nat (w1 d div 4)) ?ws\<rparr>)"
    by (simp add: sram_ctrl_of_def)
  then have "on_sram_ctrl (drain_sram_dm ?ir 512) ?g2 =
      (Inr (), with_mems (smem g, store_block (bram g) (nat (w1 d div 4)) ?ws) g)"
    by (simp add: on_sram_ctrl_apply put_sram_ctrl_def sram_ctrl_of_def with_mems_def)
  with axi show ?thesis
    using move_issues [OF assms(1) pair] assms(3) by (simp add: act_simps dma_move_def Let_def)
qed

lemma move_to_system:
  assumes "golden_ok g" and "desc_ok d" and "even (w3 d)"
    and "dma_fits (queue_length (am_mid (g_axi g))) d (smem g, bram g)"
  shows "move_descriptor d g = (Inr (), with_mems (dma_move d (smem g, bram g)) g)"
proof -
  note ok = golden_okD [OF assms(1)] and d = desc_okD [OF assms(2)]
  let ?ia = "pack_instruction (w1 d) (w2 d) True" and ?ir = "pack_instruction (w0 d) (w2 d) False"
  let ?ws = "load_block (bram g) (nat (w0 d div 4)) (dma_beats d)"
  have pair: "desc_to_instr_pair d = (?ia, ?ir)" using assms(3) by (simp add: instr_pair)
  have fits: "block_ok ?ia (smem g)" "nat (w0 d div 4) + dma_beats d \<le> length (bram g)"
    "word_beats ?ir \<le> queue_length (am_mid (g_axi g))" "length ?ws = dma_beats d"
    using assms(3,4) d by (auto simp: dma_fits_def Let_def block_ok_def dma_beats_def)
  let ?g2 = "g\<lparr>gd_ring := (gd_ring g)\<lparr>rm_axi := (g_axi g)
     \<lparr>am_dm_in := set_buffer [?ia] (am_dm_in (g_axi g)), am_mid := set_buffer ?ws (am_mid (g_axi g))\<rparr>\<rparr>\<rparr>"
  have ia: "block_start ?ia = nat (w1 d div 4)" "block_len ?ia = dma_beats d"
    and ir: "block_start ?ir = nat (w0 d div 4)" "block_len ?ir = dma_beats d"
    using d by (simp_all add: dma_beats_def)
  have "drain_sram_dm ?ir 512 (sram_ctrl_of (issued ?ia ?ir g)) =
      (Inr (), (sram_ctrl_of g)\<lparr>sc_mid := set_buffer ?ws (am_mid (g_axi g))\<rparr>)"
    using sram_read_leg [of "sram_ctrl_of g" ?ir] ok(3,4,8) fits(2,3)
    unfolding ir by (simp add: sram_ctrl_of_def)
  then have sram: "on_sram_ctrl (drain_sram_dm ?ir 512) (issued ?ia ?ir g) = (Inr (), ?g2)"
    by (simp add: on_sram_ctrl_apply put_sram_ctrl_def sram_ctrl_of_def)
  have "drain_axi_dm ?ia 512 (g_axi ?g2) = (Inr (), (g_axi g)\<lparr>am_memory := (am_memory (g_axi g))
      \<lparr>sm_mem := store_block (smem g) (nat (w1 d div 4)) ?ws\<rparr>\<rparr>)"
    using axi_write_leg [OF ok(1,2,3,7) fits(1) _ _ u32s_load_block [OF ok(8)]] fits(4)
    unfolding ia by simp
  then have "on_master (drain_axi_dm ?ia 512) ?g2 =
      (Inr (), with_mems (store_block (smem g) (nat (w1 d div 4)) ?ws, bram g) g)"
    by (simp add: on_master_apply with_mems_def)
  with sram show ?thesis
    using move_issues [OF assms(1) pair] assms(3) by (simp add: act_simps dma_move_def Let_def)
qed

lemma move_fits:
  assumes "golden_ok g" and "desc_ok d"
    and "dma_fits (queue_length (am_mid (g_axi g))) d (smem g, bram g)"
  shows "move_descriptor d g = (Inr (), with_mems (dma_move d (smem g, bram g)) g)"
  using assms move_to_sram move_to_system by (cases "odd (w3 d)") blast+

section \<open>The event loop\<close>

text \<open>
  The specification of the loop: the descriptors are taken from the ring in memory as it is when
  each one's turn comes, so a transfer that overwrites a later slot is accounted for. \<open>None\<close> means
  that some transfer does not fit.
\<close>

fun dma_run :: "int \<Rightarrow> nat \<Rightarrow> int \<Rightarrow> int \<Rightarrow> int \<Rightarrow> int list \<times> int list \<Rightarrow>
    (descriptor list \<times> int list \<times> int list) option" where
  "dma_run mid_depth 0 base rlen h m = Some ([], m)"
| "dma_run mid_depth (Suc n) base rlen h m =
     (let d = desc_at (fst m) (slot_word base h)
      in if dma_fits mid_depth d m
         then (case dma_run mid_depth n base rlen ((h + 1) mod rlen) (dma_move d m) of
                 None \<Rightarrow> None
               | Some (ds, m') \<Rightarrow> Some (d # ds, m'))
         else None)"

lemma dma_move_keeps:
  assumes "dma_fits k d m" and "u32s (fst m)" and "u32s (snd m)"
  shows "length (fst (dma_move d m)) = length (fst m)"
    and "length (snd (dma_move d m)) = length (snd m)"
    and "u32s (fst (dma_move d m))" and "u32s (snd (dma_move d m))"
  using assms
  by (auto simp: dma_fits_def dma_move_def Let_def split: prod.splits if_splits
      intro!: u32s_store_block)

lemma with_mems_simps [simp]:
  "smem (with_mems m g) = fst m" "bram (with_mems m g) = snd m"
  "rm_csr (gd_ring (with_mems m g)) = rm_csr (gd_ring g)"
  "queue_length (am_mid (g_axi (with_mems m g))) = queue_length (am_mid (g_axi g))"
  "gd_stim (with_mems m g) = gd_stim g"
  by (simp_all add: with_mems_def)

lemma golden_ok_with_mems:
  assumes "golden_ok g" and "length (fst m) = length (smem g)" and "u32s (fst m)"
    and "length (snd m) = length (bram g)" and "u32s (snd m)"
  shows "golden_ok (with_mems m g)"
  using assms
  by (simp add: golden_ok_def with_mems_def ring_ok_def axi_ok_def sysmem_ok_def sram_ok_def
      quiescent_def)

lemma on_ring_apply: "m (gd_ring g) = (x, r) \<Longrightarrow> on_ring m g = (x, g\<lparr>gd_ring := r\<rparr>)"
  by (simp add: on_ring_def zoom_def)

text \<open>What an iteration keeps.\<close>

definition same_setup :: "golden \<Rightarrow> golden \<Rightarrow> bool" where
  "same_setup g g' \<longleftrightarrow> gd_stim g' = gd_stim g \<and>
     queue_length (am_mid (g_axi g')) = queue_length (am_mid (g_axi g)) \<and>
     (\<forall>k. k \<noteq> REG_HEAD \<longrightarrow> reg (rm_csr (gd_ring g')) k = reg (rm_csr (gd_ring g)) k)"

lemma same_setup_refl [simp]: "same_setup g g"
  by (simp add: same_setup_def)

lemma same_setup_trans [trans]: "same_setup f g \<Longrightarrow> same_setup g h \<Longrightarrow> same_setup f h"
  by (simp add: same_setup_def)

abbreviation next_golden :: "descriptor \<Rightarrow> golden \<Rightarrow> golden" where
  "next_golden d g \<equiv> (with_mems (dma_move d (smem g, bram g)) g)
     \<lparr>gd_ring := completed (gd_ring (with_mems (dma_move d (smem g, bram g)) g))\<rparr>"

lemma pending_length_with_mems:
  assumes "golden_ok g" and "golden_ok (with_mems m g)"
  shows "length (pending (gd_ring (with_mems m g))) = length (pending (gd_ring g))"
  using length_pending [of "gd_ring g"] length_pending [of "gd_ring (with_mems m g)"] assms
  by (simp add: golden_ok_def)

lemma head_slot:
  assumes "golden_ok g" and "pending (gd_ring g) \<noteq> []"
  defines "d \<equiv> desc_at (smem g) (slot_word (base_of (gd_ring g)) (head_of (gd_ring g)))"
  shows "hd (pending (gd_ring g)) = d" and "desc_ok d"
proof -
  have r: "ring_ok (gd_ring g)" using assms(1) by (simp add: golden_ok_def)
  obtain e es where p: "pending (gd_ring g) = e # es"
    using assms(2) by (cases "pending (gd_ring g)") auto
  then show "hd (pending (gd_ring g)) = d" using pending_Cons(1) [OF r p] by (simp add: d_def)
  show "desc_ok d"
    using slot_facts(7) [OF r] head_range [OF r] golden_okD(7) [OF assms(1)]
    unfolding d_def by (intro desc_at_ok) auto
qed

lemma event_step:
  assumes "golden_ok g" and "pending (gd_ring g) \<noteq> []"
    and "dma_fits (queue_length (am_mid (g_axi g))) (hd (pending (gd_ring g))) (smem g, bram g)"
  defines "d \<equiv> hd (pending (gd_ring g))"
  shows "event_loop (Suc n) acc g = event_loop n (acc @ [pack d]) (next_golden d g)"
    and "golden_ok (next_golden d g)" and "same_setup g (next_golden d g)"
    and "length (pending (gd_ring (next_golden d g))) = length (pending (gd_ring g)) - 1"
    and "head_of (gd_ring (next_golden d g))
      = (head_of (gd_ring g) + 1) mod rlen_of (gd_ring g)"
proof -
  let ?m = "dma_move d (smem g, bram g)"
  let ?g = "with_mems ?m g"
  note ok = golden_okD [OF assms(1)]
  have r: "ring_ok (gd_ring g)" "quiescent (g_axi g)" using assms(1) by (simp_all add: golden_ok_def)
  have d: "desc_ok d" using head_slot [OF assms(1,2)] by (simp add: d_def)
  have fits: "dma_fits (queue_length (am_mid (g_axi g))) d (smem g, bram g)"
    using assms(3) by (simp add: d_def)
  have g: "golden_ok ?g"
    using dma_move_keeps [OF fits] ok by (intro golden_ok_with_mems [OF assms(1)]) simp_all
  have rg: "ring_ok (gd_ring ?g)" using g by (simp add: golden_ok_def)
  have len: "length (pending (gd_ring ?g)) = length (pending (gd_ring g))"
    by (rule pending_length_with_mems [OF assms(1) g])
  then have ne: "pending (gd_ring ?g) \<noteq> []" using assms(2) by auto
  obtain es where p: "pending (gd_ring g) = d # es"
    using assms(2) d_def by (cases "pending (gd_ring g)") auto
  have fetch: "on_ring (fetch_next_descriptor 256) g = (Inr (Some d), g)"
    using on_ring_apply [of "fetch_next_descriptor 256" g] fetch_pending [OF r p, of 256] by simp
  have move: "move_descriptor d g = (Inr (), ?g)" by (rule move_fits [OF assms(1) d fits])
  have fin: "on_ring ring_complete ?g = (Inr (), next_golden d g)"
    using on_ring_apply [of ring_complete ?g] complete_pending [OF rg ne] by simp
  show "event_loop (Suc n) acc g = event_loop n (acc @ [pack d]) (next_golden d g)"
    using assms(2) fetch move fin r(1) by (simp add: act_simps ring_is_empty_iff)
  show "golden_ok (next_golden d g)"
    using g completed_ok [OF rg] by (simp add: golden_ok_def)
  show "same_setup g (next_golden d g)"
    using completed_regs [OF rg] by (simp add: same_setup_def)
  obtain e fs where q: "pending (gd_ring ?g) = e # fs"
    using ne by (cases "pending (gd_ring ?g)") auto
  show "length (pending (gd_ring (next_golden d g))) = length (pending (gd_ring g)) - 1"
    using pending_completed [OF rg q] q len by simp
  show "head_of (gd_ring (next_golden d g)) = (head_of (gd_ring g) + 1) mod rlen_of (gd_ring g)"
    using completed_regs [OF rg, of REG_HEAD] by simp
qed

lemma event_prefix:
  assumes "golden_ok g" and "n \<le> length (pending (gd_ring g))"
    and "dma_run (queue_length (am_mid (g_axi g))) n (base_of (gd_ring g)) (rlen_of (gd_ring g))
      (head_of (gd_ring g)) (smem g, bram g) = Some (ds, m')"
  shows "\<exists>g'. (\<forall>k. event_loop (n + k) acc g = event_loop k (acc @ map pack ds) g') \<and> golden_ok g' \<and>
    smem g' = fst m' \<and> bram g' = snd m' \<and> same_setup g g' \<and>
    length (pending (gd_ring g')) = length (pending (gd_ring g)) - n"
  using assms
proof (induction n arbitrary: g acc ds)
  case 0
  then show ?case by (intro exI [of _ g]) auto
next
  case (Suc n)
  then have ne: "pending (gd_ring g) \<noteq> []" by auto
  let ?d = "hd (pending (gd_ring g))"
  let ?g = "next_golden ?d g"
  from Suc.prems(3) head_slot(1) [OF Suc.prems(1) ne] obtain es where
    fits: "dma_fits (queue_length (am_mid (g_axi g))) ?d (smem g, bram g)" and ds: "ds = ?d # es" and
    rest: "dma_run (queue_length (am_mid (g_axi g))) n (base_of (gd_ring g)) (rlen_of (gd_ring g))
      ((head_of (gd_ring g) + 1) mod rlen_of (gd_ring g)) (dma_move ?d (smem g, bram g)) = Some (es, m')"
    by (auto simp: Let_def split: if_splits option.splits)
  define gn where "gn = next_golden ?d g"
  note st = event_step [OF Suc.prems(1) ne fits, folded gn_def]
  have same: "base_of (gd_ring gn) = base_of (gd_ring g)" "rlen_of (gd_ring gn) = rlen_of (gd_ring g)"
    "queue_length (am_mid (g_axi gn)) = queue_length (am_mid (g_axi g))"
    using st(3) by (simp_all add: same_setup_def reg_offsets)
  have mems: "(smem gn, bram gn) = dma_move ?d (smem g, bram g)" by (simp add: gn_def)
  have n: "n \<le> length (pending (gd_ring gn))" using Suc.prems(2) st(4) by simp
  from Suc.IH [OF st(2) n, of es "acc @ [pack ?d]"] rest obtain g' where
    g': "\<forall>k. event_loop (n + k) (acc @ [pack ?d]) gn
        = event_loop k ((acc @ [pack ?d]) @ map pack es) g'" "golden_ok g'"
      "smem g' = fst m'" "bram g' = snd m'" "same_setup gn g'"
      "length (pending (gd_ring g')) = length (pending (gd_ring gn)) - n"
    unfolding same mems st(5) by blast
  from same_setup_trans [OF st(3) g'(5)] have "same_setup g g'" .
  with g' st(1) st(4) ds show ?case by (intro exI [of _ g']) simp
qed

lemma event_done: "ring_is_empty (gd_ring g) \<Longrightarrow> event_loop (Suc n) acc g = (Inr acc, g)"
  by (simp add: act_simps)

declare event_loop.simps [simp del]

lemma hardware_enabled:
  "is_enabled (rm_csr (gd_ring g)) \<Longrightarrow> hardware_phase g = event_loop MAX_ITERS [] g"
  by (simp add: hardware_phase_def act_simps)

lemma hardware_drains:
  assumes "golden_ok g" and "is_enabled (rm_csr (gd_ring g))"
    and "length (pending (gd_ring g)) < MAX_ITERS"
    and "dma_run (queue_length (am_mid (g_axi g))) (length (pending (gd_ring g)))
      (base_of (gd_ring g)) (rlen_of (gd_ring g)) (head_of (gd_ring g)) (smem g, bram g)
      = Some (ds, m')"
  shows "\<exists>g'. hardware_phase g = (Inr (map pack ds), g') \<and> (smem g', bram g') = m' \<and>
    pending (gd_ring g') = [] \<and> golden_ok g' \<and> same_setup g g'"
proof -
  let ?n = "length (pending (gd_ring g))"
  obtain g' where g': "\<forall>k. event_loop (?n + k) [] g = event_loop k ([] @ map pack ds) g'"
    "golden_ok g'" "smem g' = fst m'" "bram g' = snd m'" "same_setup g g'"
    "length (pending (gd_ring g')) = ?n - ?n"
    using event_prefix [OF assms(1) order_refl assms(4), of "[]"] by blast
  obtain j where j: "MAX_ITERS = ?n + Suc j"
    using assms(3) less_imp_Suc_add [of ?n MAX_ITERS] by auto
  have "ring_is_empty (gd_ring g')"
    using g'(2,6) by (simp add: ring_is_empty_iff golden_ok_def)
  then have "hardware_phase g = (Inr (map pack ds), g')"
    using g'(1) assms(2) by (simp only: hardware_enabled j event_done append_Nil)
  with g' show ?thesis by (intro exI [of _ g']) simp
qed

section \<open>Transfers that leave the ring alone\<close>

text \<open>The destination of a transfer to system memory lies outside the descriptor ring.\<close>

definition spares_ring :: "int \<Rightarrow> int \<Rightarrow> descriptor \<Rightarrow> bool" where
  "spares_ring base rlen d \<longleftrightarrow> odd (w3 d) \<or>
     nat (w1 d div 4) + dma_beats d \<le> nat (base div 4) \<or>
     nat (base div 4 + 4 * rlen) \<le> nat (w1 d div 4)"

lemma dma_fits_cong:
  "length (fst m) = length (fst m') \<Longrightarrow> length (snd m) = length (snd m') \<Longrightarrow>
   dma_fits k d m \<longleftrightarrow> dma_fits k d m'"
  by (cases m; cases m') (simp add: dma_fits_def Let_def)

lemma slot_word_bounds:
  assumes "0 \<le> base" and "0 \<le> i" and "i < rlen"
  shows "nat (base div 4) \<le> slot_word base i"
    and "slot_word base i + 4 \<le> nat (base div 4 + 4 * rlen)"
proof -
  have b: "0 \<le> base div 4" using assms(1) by simp
  then show "nat (base div 4) \<le> slot_word base i"
    using assms(2) unfolding slot_word_def by (intro nat_mono) simp
  have "nat (base div 4 + 4 * i) + 4 = nat (base div 4 + 4 * i + 4)"
    using b assms(2) by (simp add: nat_add_distrib)
  then show "slot_word base i + 4 \<le> nat (base div 4 + 4 * rlen)"
    using assms(3) unfolding slot_word_def by (simp add: nat_mono)
qed

lemma spared_slot:
  assumes "spares_ring base rlen d" and "dma_fits k d m" and "0 \<le> base" and "0 \<le> i" and "i < rlen"
    and "nat (base div 4 + 4 * rlen) \<le> length (fst m)"
  shows "desc_at (fst (dma_move d m)) (slot_word base i) = desc_at (fst m) (slot_word base i)"
proof (cases "odd (w3 d)")
  case True
  then show ?thesis by (simp add: dma_move_def Let_def split: prod.split)
next
  case False
  obtain S B where m: "m = (S, B)" by (cases m)
  note b = slot_word_bounds [OF assms(3-5)]
  from False assms(2) m have len: "length (load_block B (nat (w0 d div 4)) (dma_beats d)) = dma_beats d"
    and room: "nat (w1 d div 4) + dma_beats d \<le> length S"
    by (simp_all add: dma_fits_def Let_def)
  have "slot_word base i + 4 \<le> nat (w1 d div 4) \<or> nat (w1 d div 4) + dma_beats d \<le> slot_word base i"
    using False assms(1) b by (auto simp: spares_ring_def)
  with False m len room b(2) assms(6) show ?thesis
    by (simp add: dma_move_def Let_def desc_at_apart)
qed

lemma dma_run_spared:
  assumes "0 \<le> base" and "0 < rlen" and "0 \<le> h" and "h < rlen" and "u32s (fst m)" and "u32s (snd m)"
    and "nat (base div 4 + 4 * rlen) \<le> length (fst m)"
    and "\<forall>i \<in> set (slots rlen h n). let d = desc_at (fst m) (slot_word base i)
      in dma_fits k d m \<and> spares_ring base rlen d"
  shows "dma_run k n base rlen h m = (let ds = map (\<lambda>i. desc_at (fst m) (slot_word base i))
    (slots rlen h n) in Some (ds, fold dma_move ds m))"
  using assms(3-8)
proof (induction n arbitrary: h m)
  case 0
  then show ?case by (simp add: slots_def)
next
  case (Suc n)
  let ?d = "desc_at (fst m) (slot_word base h)"
  let ?m = "dma_move ?d m" and ?h = "(h + 1) mod rlen"
  have slots: "slots rlen h (Suc n) = h # slots rlen ?h n"
    using Suc.prems(1,2) by (simp add: slots_Cons)
  have d: "dma_fits k ?d m" "spares_ring base rlen ?d"
    using Suc.prems(6) slots by (simp_all add: Let_def)
  note keeps = dma_move_keeps [OF d(1) Suc.prems(3,4)]
  have h: "0 \<le> ?h" "?h < rlen" using assms(2) by simp_all
  have same: "desc_at (fst ?m) (slot_word base i) = desc_at (fst m) (slot_word base i)"
    if "i \<in> set (slots rlen ?h n)" for i
    using spared_slot [OF d(2,1) assms(1) _ _ Suc.prems(5)] slots_range [OF assms(2) that] by blast
  have "dma_run k n base rlen ?h ?m = (let ds = map (\<lambda>i. desc_at (fst ?m) (slot_word base i))
      (slots rlen ?h n) in Some (ds, fold dma_move ds ?m))"
    using Suc.prems(5,6) keeps same slots
    by (intro Suc.IH [OF h]) (auto simp: Let_def dma_fits_cong [OF keeps(1,2)])
  also have "map (\<lambda>i. desc_at (fst ?m) (slot_word base i)) (slots rlen ?h n)
      = map (\<lambda>i. desc_at (fst m) (slot_word base i)) (slots rlen ?h n)"
    using same by simp
  finally show ?case using d(1) by (simp add: slots Let_def)
qed

lemma pending_run:
  assumes "golden_ok g"
    and "\<forall>d \<in> set (pending (gd_ring g)). dma_fits k d (smem g, bram g) \<and>
      spares_ring (base_of (gd_ring g)) (rlen_of (gd_ring g)) d"
  shows "dma_run k (length (pending (gd_ring g))) (base_of (gd_ring g)) (rlen_of (gd_ring g))
      (head_of (gd_ring g)) (smem g, bram g)
    = Some (pending (gd_ring g), fold dma_move (pending (gd_ring g)) (smem g, bram g))"
proof -
  have r: "ring_ok (gd_ring g)" using assms(1) by (simp add: golden_ok_def)
  define n where "n = length (pending (gd_ring g))"
  have p: "map (\<lambda>i. desc_at (smem g) (slot_word (base_of (gd_ring g)) i))
      (slots (rlen_of (gd_ring g)) (head_of (gd_ring g)) n) = pending (gd_ring g)"
    by (simp add: pending_def length_pending [OF r, folded n_def, symmetric])
  have base: "0 \<le> base_of (gd_ring g)" using ring_ok_regs [OF r] by simp
  have len: "0 < rlen_of (gd_ring g)" using r by (simp add: ring_ok_def)
  have room: "nat (base_of (gd_ring g) div 4 + 4 * rlen_of (gd_ring g)) \<le> length (smem g)"
    using r unfolding ring_ok_def ring_ok_mem(1) [OF r, symmetric] by linarith
  have "\<forall>i \<in> set (slots (rlen_of (gd_ring g)) (head_of (gd_ring g)) n).
      let d = desc_at (smem g) (slot_word (base_of (gd_ring g)) i)
      in dma_fits k d (smem g, bram g) \<and> spares_ring (base_of (gd_ring g)) (rlen_of (gd_ring g)) d"
    using assms(2) unfolding p [symmetric] by (simp add: Let_def)
  then show ?thesis
    using dma_run_spared [OF base len, of "head_of (gd_ring g)" "(smem g, bram g)" n k]
      head_range [OF r] golden_okD(7,8) [OF assms(1)] room
    unfolding n_def [symmetric] by (simp add: p Let_def)
qed

section \<open>Long transfers\<close>

lemma axi_read_too_long:
  assumes "buffer (am_df_in a) = []" and "buffer (am_mid a) = []" and "\<not> word_is_write i"
    and "queue_length (am_mid a) < word_beats i" and "0 \<le> queue_length (am_mid a)"
    and "buffer (am_dm_in a) = []"
  shows "drain_axi_dm i 512 (a\<lparr>am_dm_in := set_buffer [i] (am_dm_in a)\<rparr>) =
    (Inl (RuntimeError (MidFull (word_beats i) (queue_length (am_mid a)))), a)"
proof -
  let ?a = "a\<lparr>am_dm_in := set_buffer [i] (am_dm_in a)\<rparr>"
  have "process_one ?a = (Inl (RuntimeError (MidFull (word_beats i) (queue_length (am_mid a)))), a)"
    using assms pop_instruction [of ?a i "[]"]
    by (simp add: process_one_def fifo_is_empty_def do_instruction_def act_bind_assoc act_simps
        Let_def fifo_len_def set_same_buffer)
  moreover have "\<not> axi_idle ?a" by (simp add: axi_idle_def fifo_is_empty_def)
  ultimately show ?thesis by (simp add: drain_axi_dm_def drain_error)
qed

section \<open>Properties\<close>

text \<open>
  One descriptor moves one block: when every FIFO is empty and the transfer fits, the move
  succeeds, the two memories become what the block copy of the specification says, and nothing else
  changes.
\<close>

theorem move_is_block_copy:
  assumes "golden_ok g" and "desc_ok d"
    and "dma_fits (queue_length (am_mid (g_axi g))) d (smem g, bram g)"
  shows "move_descriptor d g = (Inr (), with_mems (dma_move d (smem g, bram g)) g)"
  using assms by (rule move_fits)

text \<open>
  C8. The hardware phase drains the ring: with fewer than MAX_ITERS descriptors pending and every
  transfer fitting when its turn comes, it returns the packed descriptors in the order the ring held
  them, the memories are those of the specification's run, the ring is empty afterwards, every FIFO
  is empty again, and no register but HEAD has changed.
\<close>

theorem hardware_phase_drains:
  assumes "golden_ok g" and "is_enabled (rm_csr (gd_ring g))"
    and "length (pending (gd_ring g)) < MAX_ITERS"
    and "dma_run (queue_length (am_mid (g_axi g))) (length (pending (gd_ring g)))
      (csr_baseaddr (rm_csr (gd_ring g))) (csr_ringlen (rm_csr (gd_ring g)))
      (csr_read (rm_csr (gd_ring g)) REG_HEAD) (smem g, bram g) = Some (ds, sys, ram)"
  shows "\<exists>g'. hardware_phase g = (Inr (map pack ds), g') \<and> smem g' = sys \<and> bram g' = ram \<and>
    pending (gd_ring g') = [] \<and> golden_ok g' \<and> same_setup g g'"
  using hardware_drains [OF assms(1-3), of ds "(sys, ram)"] assms(4)
  by (auto simp: csr_baseaddr_def csr_ringlen_def csr_read_def)

text \<open>
  C11. With the engine enabled and fewer than MAX_ITERS descriptors pending, each of which fits (its block
  lies inside both memories, its system address is aligned, its beats fit MID) and none of which
  overwrites the descriptor ring, the hardware phase returns the descriptors that were pending at the
  start, in ring order, leaves the memories as the sequence of their block copies does, and the ring is
  empty.
\<close>

theorem hardware_phase_batch:
  assumes "golden_ok g" and "is_enabled (rm_csr (gd_ring g))"
    and "length (pending (gd_ring g)) < MAX_ITERS"
    and "\<forall>d \<in> set (pending (gd_ring g)).
      dma_fits (queue_length (am_mid (g_axi g))) d (smem g, bram g) \<and>
      spares_ring (csr_baseaddr (rm_csr (gd_ring g))) (csr_ringlen (rm_csr (gd_ring g))) d"
  shows "\<exists>g'. hardware_phase g = (Inr (map pack (pending (gd_ring g))), g') \<and>
    (smem g', bram g') = fold dma_move (pending (gd_ring g)) (smem g, bram g) \<and>
    pending (gd_ring g') = []"
  using hardware_drains [OF assms(1-3) pending_run [OF assms(1)]] assms(4)
  unfolding csr_baseaddr_def csr_ringlen_def by blast

end
