(* ===== verification/Transfers.thy ===== *)
theory Transfers
  imports Movement
begin

text \<open>
  More about the hardware phase of \<open>sim/run_golden.py\<close>: what a failed transfer leaves, the limits
  (MID depth, MAX_ITERS, the step budget of the drains), the loop back through the SRAM, and a small
  machine on which the properties of this theory and of \<open>Movement\<close> are evaluated.
\<close>

section \<open>Frames\<close>

lemma on_ring_preserves [pres]:
  "(\<And>g r. I g \<Longrightarrow> I (g\<lparr>gd_ring := (gd_ring g)\<lparr>rm_axi := r\<rparr>\<rparr>)) \<Longrightarrow> preserves I (on_master m)"
  by (auto intro!: preservesI simp: on_master_def on_ring_def on_axi_def zoom_def split: prod.split)

lemma on_dm_sram_preserves [pres]:
  "(\<And>g q. I g \<Longrightarrow> I (g\<lparr>gd_dm_sram := q\<rparr>)) \<Longrightarrow> preserves I (on_dm_sram m)"
  by (auto intro!: preservesI simp: on_dm_sram_def zoom_def split: prod.split)

lemma on_sram_ctrl_preserves [pres]:
  "(\<And>g s. I g \<Longrightarrow> I (put_sram_ctrl s g)) \<Longrightarrow> preserves I (on_sram_ctrl m)"
  by (auto intro!: preservesI simp: on_sram_ctrl_def zoom_def split: prod.split)

lemma move_csr: "rm_csr (gd_ring (snd (move_descriptor d g))) = rm_csr (gd_ring g)"
proof -
  obtain ia ir where pair: "desc_to_instr_pair d = (ia, ir)" by fastforce
  have "preserves (\<lambda>h. rm_csr (gd_ring h) = rm_csr (gd_ring g)) (move_descriptor d)"
    unfolding move_descriptor_def pair Let_def prod.case
    by (intro pres) (simp_all add: put_sram_ctrl_def)
  then show ?thesis by (simp add: preserves_def)
qed

section \<open>A small machine\<close>

text \<open>
  A ring of four slots at address 0 with two descriptors in it: one copies two words from system
  memory to the SRAM, the other copies them back to another place.
\<close>

definition small_words :: "int list" where
  "small_words = [64, 0, 2, 1] @ [0, 80, 2, 0] @ replicate 8 0 @ [11, 22] @ replicate 14 0"

definition small_golden :: golden where
  "small_golden = \<lparr>gd_ring = \<lparr>
       rm_csr = csr_write REG_CTRL 5 (csr_write REG_TAIL 2 (csr_write REG_RINGLEN 4 csr_init)),
       rm_axi = \<lparr>am_memory = \<lparr>sm_size = 32, sm_mem = small_words\<rparr>,
         am_df_in = \<lparr>fifo_id = ''df_in'', queue_length = 64, buffer = []\<rparr>,
         am_df_out = \<lparr>fifo_id = ''df_out'', queue_length = 64, buffer = []\<rparr>,
         am_dm_in = \<lparr>fifo_id = ''dm_axi'', queue_length = 16, buffer = []\<rparr>,
         am_mid = \<lparr>fifo_id = ''mid'', queue_length = 128, buffer = []\<rparr>\<rparr>\<rparr>,
     gd_sram = \<lparr>sr_size = 8, sr_mem = replicate 8 0\<rparr>,
     gd_dm_sram = \<lparr>fifo_id = ''dm_sram'', queue_length = 16, buffer = []\<rparr>, gd_stim = []\<rparr>"

lemma small_golden_regs:
  "reg (rm_csr (gd_ring small_golden)) k =
    (if k = REG_CTRL then 5 else if k = REG_TAIL then 2 else if k = REG_RINGLEN then 4 else 0)"
  by (simp add: small_golden_def reg_csr_write_plain [unfolded reg_offsets]
      reg_csr_write_ctrl [unfolded reg_offsets] reg_csr_init reg_offsets)

lemma small_golden_parts:
  "smem small_golden = small_words" "bram small_golden = replicate 8 0"
  "queue_length (am_mid (g_axi small_golden)) = 128"
  by (simp_all add: small_golden_def)

lemma small_golden_ok: "golden_ok small_golden"
proof -
  have "csr_ok (rm_csr (gd_ring small_golden))"
    by (simp add: small_golden_def csr_ok_write csr_ok_init)
  moreover have "axi_ok (g_axi small_golden)"
    by (simp add: small_golden_def axi_ok_def sysmem_ok_def fifo_ok_def u32s_def small_words_def)
  ultimately have "ring_ok (gd_ring small_golden)"
    unfolding ring_ok_def small_golden_regs by (simp add: reg_offsets) (simp add: small_golden_def)
  then show ?thesis
    by (simp add: golden_ok_def) (simp add: small_golden_def quiescent_def sram_ok_def fifo_ok_def
        u32s_def)
qed

abbreviation small_d1 :: descriptor where "small_d1 \<equiv> \<lparr>w0 = 64, w1 = 0, w2 = 2, w3 = 1\<rparr>"
abbreviation small_d2 :: descriptor where "small_d2 \<equiv> \<lparr>w0 = 0, w1 = 80, w2 = 2, w3 = 0\<rparr>"

lemma small_pending: "pending (gd_ring small_golden) = [small_d1, small_d2]"
  unfolding pending_def small_golden_regs small_golden_parts
  by (simp add: reg_offsets ring_count_def slots_def desc_at_def slot_word_def small_words_def
      upt_rec)

lemma small_enabled: "is_enabled (rm_csr (gd_ring small_golden))"
  by (simp add: ctrl_bits small_golden_regs)

definition small_result :: "int list \<times> int list" where
  "small_result = ([64, 0, 2, 1] @ [0, 80, 2, 0] @ replicate 8 0 @ [11, 22, 0, 0, 11, 22]
     @ replicate 10 0, [11, 22, 0, 0, 0, 0, 0, 0])"

lemma small_fits:
  "dma_fits 128 small_d1 (small_words, replicate 8 0)"
  "dma_fits 128 small_d2 (small_words, replicate 8 0)"
  by (simp_all add: dma_fits_def dma_beats_def small_words_def Let_def)

lemma small_moves: "fold dma_move [small_d1, small_d2] (small_words, replicate 8 0) = small_result"
  by (simp add: dma_move_def dma_beats_def small_words_def small_result_def Let_def load_block_def
      store_block_def eval_nat_numeral)

lemma small_run:
  "dma_run 128 2 0 4 0 (small_words, replicate 8 0)
    = Some ([small_d1, small_d2], small_result)"
  using pending_run [OF small_golden_ok, of 128]
  unfolding small_pending small_golden_regs small_golden_parts small_moves
  by (simp add: small_fits spares_ring_def dma_beats_def reg_offsets numeral_2_eq_2
      del: dma_run.simps fold_simps)

theorem move_is_block_copy_witness:
  "fst (move_descriptor small_d1 small_golden) = Inr () \<and>
   bram (snd (move_descriptor small_d1 small_golden)) = [11, 22, 0, 0, 0, 0, 0, 0]"
  using move_is_block_copy [OF small_golden_ok, of small_d1] small_fits(1)
  by (simp add: small_golden_parts desc_ok_def)
    (simp add: dma_move_def dma_beats_def small_words_def Let_def load_block_def store_block_def
      eval_nat_numeral)

theorem hardware_phase_drains_witness:
  "\<exists>g'. hardware_phase small_golden = (Inr [pack small_d1, pack small_d2], g') \<and>
    smem g' = fst small_result \<and> bram g' = snd small_result"
  using hardware_phase_drains [OF small_golden_ok small_enabled,
      of "[small_d1, small_d2]" "fst small_result" "snd small_result"] small_run
  unfolding small_pending small_golden_parts csr_baseaddr_def csr_ringlen_def csr_read_def
    small_golden_regs
  by (simp add: MAX_ITERS_def reg_offsets numeral_2_eq_2) blast

theorem hardware_phase_batch_witness:
  "\<exists>g'. hardware_phase small_golden = (Inr [pack small_d1, pack small_d2], g') \<and>
    (smem g', bram g') = small_result"
  using hardware_phase_batch [OF small_golden_ok small_enabled] small_moves small_fits
  unfolding small_pending small_golden_parts csr_baseaddr_def csr_ringlen_def csr_read_def
    small_golden_regs
  by (simp add: MAX_ITERS_def reg_offsets spares_ring_def dma_beats_def) blast

section \<open>Limits\<close>

lemma long_move:
  assumes "golden_ok g" and "odd (w3 d)"
    and "int (dma_beats d) > queue_length (am_mid (g_axi g))"
  shows "move_descriptor d g =
    (Inl (RuntimeError (MidFull (int (dma_beats d)) (queue_length (am_mid (g_axi g))))),
     g\<lparr>gd_dm_sram := set_buffer [pack_instruction (w1 d) (w2 d) True] (gd_dm_sram g)\<rparr>)"
proof -
  note ok = golden_okD [OF assms(1)]
  let ?ia = "pack_instruction (w0 d) (w2 d) False" and ?ir = "pack_instruction (w1 d) (w2 d) True"
  have pair: "desc_to_instr_pair d = (?ia, ?ir)" using assms(2) by (simp add: instr_pair)
  have "0 \<le> queue_length (am_mid (g_axi g))"
    using assms(1) by (simp add: golden_ok_def ring_ok_def axi_ok_def fifo_ok_def)
  then have "on_master (drain_axi_dm ?ia 512) (issued ?ia ?ir g) =
    (Inl (RuntimeError (MidFull (int (dma_beats d)) (queue_length (am_mid (g_axi g))))),
     g\<lparr>gd_dm_sram := set_buffer [?ir] (gd_dm_sram g)\<rparr>)"
    using on_master_apply [of "drain_axi_dm ?ia 512" "issued ?ia ?ir g"]
      axi_read_too_long [OF ok(1,3), of ?ia] ok(2) assms(3)
    by (simp add: dma_beats_def)
  then show ?thesis
    using move_issues [OF assms(1) pair] assms(2) by (simp add: act_simps)
qed

text \<open>In the other direction the SRAM controller fills MID before it fails.\<close>

lemma sram_read_overflow:
  assumes "buffer (sc_dm_in s) = [i]" and "\<not> word_is_write i" and "block_start i + block_len i \<le> length (sc_sram s)"
    and "u32s (sc_sram s)" and "buffer (sc_mid s) = []" and "queue_length (sc_mid s) < word_beats i" and "0 \<le> queue_length (sc_mid s)"
  shows "drain_sram_dm i 512 s = (Inl (RuntimeError (FifoOverflow (fifo_id (sc_mid s)))), s\<lparr>sc_dm_in := set_buffer [] (sc_dm_in s),
    sc_mid := set_buffer (load_block (sc_sram s) (block_start i) (nat (queue_length (sc_mid s)))) (sc_mid s)\<rparr>)"
proof -
  define k where "k = nat (queue_length (sc_mid s))"
  let ?w = "block_start i"
  let ?s1 = "s\<lparr>sc_dm_in := set_buffer [] (sc_dm_in s)\<rparr>"
  let ?ws = "load_block (sc_sram s) ?w k"
  let ?s2 = "?s1\<lparr>sc_mid := set_buffer ?ws (sc_mid s)\<rparr>"
  have k: "k < block_len i" "int k = queue_length (sc_mid s)" using assms(6,7) by (simp_all add: k_def block_len_def nat_less_iff)
  have full: "length ?ws = k" using k(1) assms(3) by (simp add: load_block_def)
  have "for_each (sram_read_beat (int ?w)) (map int [0..<k]) ?s1 = (Inr (), ?s2)"
    using assms k read_beats [of ?w k ?s1] by (simp add: fifo_len_def)
  moreover have "sram_read_beat (int ?w) (int k) ?s2 = (Inl (RuntimeError (FifoOverflow (fifo_id (sc_mid s)))), ?s2)"
  proof -
    have get: "py_getitem (sc_sram s) (int ?w + int k) = Inr (sc_sram s ! (?w + k))"
      using k(1) assms(3) by (simp add: nat_add_distrib del: int_block_start)
    have "fifo_enqueue x (set_buffer ?ws (sc_mid s)) = (Inl (RuntimeError (FifoOverflow (fifo_id (sc_mid s)))), set_buffer ?ws (sc_mid s))"
      for x using full k(2) by (simp add: fifo_enqueue_def fifo_is_full_def)
    then show ?thesis
      unfolding sram_read_beat_def sram_get_def on_sc_mid_def act_bind_def act_read_def
      by (simp add: get zoom_def del: int_block_start)
  qed
  moreover have "map int [0..<block_len i] = map int [0..<k] @ int k # map int [Suc k..<block_len i]"
    using k(1) upt_add_eq_append [of 0 k "block_len i - k"] by (simp add: upt_conv_Cons)
  ultimately have "for_each (sram_read_beat (int ?w)) (map int [0..<block_len i]) ?s1
      = (Inl (RuntimeError (FifoOverflow (fifo_id (sc_mid s)))), ?s2)"
    by (simp only: for_each_stops)
  with assms have "sram_process_one s = (Inl (RuntimeError (FifoOverflow (fifo_id (sc_mid s)))), ?s2)"
    by (simp add: sram_process_one_def fifo_is_empty_def act_simps Let_def pop_sram_instruction
        sram_word_idx beats_range del: int_block_start)
  moreover have "\<not> sram_idle s" using assms(1) by (simp add: sram_idle_def fifo_is_empty_def)
  ultimately show ?thesis by (simp add: drain_sram_dm_def drain_error k_def)
qed

lemma long_move_out:
  assumes "golden_ok g" and "even (w3 d)" and "desc_ok d" and "nat (w0 d div 4) + dma_beats d \<le> length (bram g)"
    and "int (dma_beats d) > queue_length (am_mid (g_axi g))"
  shows "move_descriptor d g =
    (Inl (RuntimeError (FifoOverflow (fifo_id (am_mid (g_axi g))))),
     g\<lparr>gd_ring := (gd_ring g)\<lparr>rm_axi := (g_axi g)
       \<lparr>am_dm_in := set_buffer [pack_instruction (w1 d) (w2 d) True] (am_dm_in (g_axi g)),
        am_mid := set_buffer (load_block (bram g) (nat (w0 d div 4)) (nat (queue_length (am_mid (g_axi g))))) (am_mid (g_axi g))\<rparr>\<rparr>\<rparr>)"
proof -
  note ok = golden_okD [OF assms(1)] and d = desc_okD [OF assms(3)]
  let ?ia = "pack_instruction (w1 d) (w2 d) True" and ?ir = "pack_instruction (w0 d) (w2 d) False"
  have pair: "desc_to_instr_pair d = (?ia, ?ir)" using assms(2) by (simp add: instr_pair)
  have ir: "block_start ?ir = nat (w0 d div 4)" "block_len ?ir = dma_beats d" "word_beats ?ir = int (dma_beats d)"
    using d by (simp_all add: dma_beats_def)
  have "0 \<le> queue_length (am_mid (g_axi g))"
    using assms(1) by (simp add: golden_ok_def ring_ok_def axi_ok_def fifo_ok_def)
  then have "drain_sram_dm ?ir 512 (sram_ctrl_of (issued ?ia ?ir g)) =
      (Inl (RuntimeError (FifoOverflow (fifo_id (am_mid (g_axi g))))), (sram_ctrl_of g)
        \<lparr>sc_mid := set_buffer (load_block (bram g) (nat (w0 d div 4)) (nat (queue_length (am_mid (g_axi g))))) (am_mid (g_axi g))\<rparr>)"
    using sram_read_overflow [of "sram_ctrl_of (issued ?ia ?ir g)" ?ir] ok(3,4,8) assms(4,5)
    unfolding ir by (simp add: sram_ctrl_of_def set_same_buffer)
  then have "on_sram_ctrl (drain_sram_dm ?ir 512) (issued ?ia ?ir g) = (Inl (RuntimeError (FifoOverflow (fifo_id (am_mid (g_axi g))))),
     g\<lparr>gd_ring := (gd_ring g)\<lparr>rm_axi := (g_axi g)
       \<lparr>am_dm_in := set_buffer [?ia] (am_dm_in (g_axi g)),
        am_mid := set_buffer (load_block (bram g) (nat (w0 d div 4)) (nat (queue_length (am_mid (g_axi g))))) (am_mid (g_axi g))\<rparr>\<rparr>\<rparr>)"
    by (simp add: on_sram_ctrl_apply put_sram_ctrl_def sram_ctrl_of_def)
  then show ?thesis using move_issues [OF assms(1) pair] assms(2) by (simp add: act_simps)
qed

text \<open>A machine whose oldest descriptor is one beat too long.\<close>

definition long_words :: "int list" where
  "long_words = [64, 0, 129, 1] @ drop 4 small_words"

abbreviation long_golden :: golden where
  "long_golden \<equiv> with_mems (long_words, replicate 8 0) small_golden"

abbreviation long_d :: descriptor where "long_d \<equiv> \<lparr>w0 = 64, w1 = 0, w2 = 129, w3 = 1\<rparr>"

lemma long_golden_ok: "golden_ok long_golden"
  by (rule golden_ok_with_mems [OF small_golden_ok])
    (simp_all add: small_golden_parts long_words_def small_words_def u32s_def)

lemma long_pending: "pending (gd_ring long_golden) = [long_d, small_d2]"
  unfolding pending_def with_mems_simps small_golden_regs
  by (simp add: reg_offsets ring_count_def slots_def desc_at_def slot_word_def long_words_def
      small_words_def upt_rec)

text \<open>A full ring of 1001 slots whose descriptors are all zero: a thousand empty transfers.\<close>

definition zero_words :: "int list" where
  "zero_words = replicate (4 * 1001) 0"

lemma zero_words: "length zero_words = 4004" "i < 4004 \<Longrightarrow> zero_words ! i = 0" "u32s zero_words"
  by (simp_all add: zero_words_def u32s_def)

definition full_golden :: golden where
  "full_golden = \<lparr>gd_ring = \<lparr>
       rm_csr = csr_write REG_CTRL 5 (csr_write REG_TAIL 1000 (csr_write REG_RINGLEN 1001 csr_init)),
       rm_axi = \<lparr>am_memory = \<lparr>sm_size = 4004, sm_mem = zero_words\<rparr>,
         am_df_in = \<lparr>fifo_id = ''df_in'', queue_length = 64, buffer = []\<rparr>,
         am_df_out = \<lparr>fifo_id = ''df_out'', queue_length = 64, buffer = []\<rparr>,
         am_dm_in = \<lparr>fifo_id = ''dm_axi'', queue_length = 16, buffer = []\<rparr>,
         am_mid = \<lparr>fifo_id = ''mid'', queue_length = 128, buffer = []\<rparr>\<rparr>\<rparr>,
     gd_sram = \<lparr>sr_size = 1, sr_mem = [0]\<rparr>,
     gd_dm_sram = \<lparr>fifo_id = ''dm_sram'', queue_length = 16, buffer = []\<rparr>, gd_stim = []\<rparr>"

lemma full_golden_regs:
  "reg (rm_csr (gd_ring full_golden)) k = (if k = REG_CTRL then 5 else if k = REG_TAIL then 1000
    else if k = REG_RINGLEN then 1001 else 0)"
  by (simp add: full_golden_def reg_csr_write_plain [unfolded reg_offsets]
      reg_csr_write_ctrl [unfolded reg_offsets] reg_csr_init reg_offsets)

lemma full_golden_parts:
  "smem full_golden = zero_words" "bram full_golden = [0]"
  "queue_length (am_mid (g_axi full_golden)) = 128"
  by (simp_all add: full_golden_def)

lemma full_golden_ok: "golden_ok full_golden"
proof -
  have "csr_ok (rm_csr (gd_ring full_golden))"
    by (simp add: full_golden_def csr_ok_write csr_ok_init)
  moreover have "axi_ok (g_axi full_golden)"
    by (simp add: full_golden_def axi_ok_def sysmem_ok_def fifo_ok_def zero_words)
  ultimately have "ring_ok (gd_ring full_golden)"
    unfolding ring_ok_def full_golden_regs by (simp add: reg_offsets) (simp add: full_golden_def)
  then show ?thesis
    by (simp add: golden_ok_def) (simp add: full_golden_def quiescent_def sram_ok_def fifo_ok_def)
qed

lemma full_enabled: "is_enabled (rm_csr (gd_ring full_golden))"
  by (simp add: ctrl_bits full_golden_regs)

lemma full_pending: "length (pending (gd_ring full_golden)) = MAX_ITERS"
  using length_pending [of "gd_ring full_golden"] full_golden_ok
  unfolding full_golden_regs
  by (simp add: golden_ok_def reg_offsets ring_count_def MAX_ITERS_def)

lemma full_run:
  assumes "0 \<le> h" and "h < 1001"
  shows "dma_run 128 n 0 1001 h (zero_words, ram)
    = Some (replicate n \<lparr>w0 = 0, w1 = 0, w2 = 0, w3 = 0\<rparr>, zero_words, ram)"
  using assms
proof (induction n arbitrary: h)
  case 0
  then show ?case by simp
next
  case (Suc n)
  let ?d = "\<lparr>w0 = 0, w1 = 0, w2 = 0, w3 = 0\<rparr> :: descriptor"
  have "slot_word 0 h + 4 \<le> 4004" using Suc.prems by (simp add: slot_word_def)
  then have "desc_at zero_words (slot_word 0 h) = ?d" by (simp add: desc_at_def zero_words)
  moreover have "dma_fits 128 ?d (zero_words, ram)" and "dma_move ?d (zero_words, ram) = (zero_words, ram)"
    by (simp_all add: dma_fits_def dma_move_def dma_beats_def Let_def)
  ultimately show ?case using Suc.IH [of "(h + 1) mod 1001"] by (simp add: Let_def)
qed

section \<open>Properties\<close>

text \<open>
  The instruction pair carries the fields of the descriptor: the master's word has the system
  memory address, the controller's the SRAM address, both the low eight bits of LEN, and one of them
  reads while the other writes, as FLAGS.DIR says.
\<close>

theorem instr_pair_fields:
  "let (ia, ir) = desc_to_instr_pair d
   in word_addr ia = (if odd (w3 d) then w0 d else w1 d) mod 2 ^ 32 \<and>
      word_addr ir = (if odd (w3 d) then w1 d else w0 d) mod 2 ^ 32 \<and>
      word_beats ia = w2 d mod 256 \<and> word_beats ir = w2 d mod 256 \<and>
      word_is_write ia = even (w3 d) \<and> word_is_write ir = odd (w3 d)"
  by (simp add: instr_pair)

text \<open>
  Building the 65-bit data-mover word and narrowing it gives the 41-bit instruction of the
  master's own packing function, whatever the operands.
\<close>

theorem narrow_is_pack:
  "narrow65_to_41 (build_65 addr len32 rw) = pack_instruction addr len32 (odd rw)"
  by (rule narrow_build)

text \<open>
  C35. A transfer longer than MID fails in either direction and moves no word to its destination: both
  memories and all registers keep their contents. From system memory to SRAM the master raises its MID
  error at once, and what is left behind is the SRAM controller's instruction. From SRAM, when the block
  lies inside it, the controller first fills MID with the beginning of the block, then the FIFO raises its
  overflow, and what is left behind are these words and the master's instruction.
\<close>

theorem long_transfer_fails:
  assumes "golden_ok g" and "int (dma_beats d) > queue_length (am_mid (g_axi g))"
    and "even (w3 d) \<longrightarrow> desc_ok d \<and> nat (w0 d div 4) + dma_beats d \<le> length (bram g)"
  shows "\<exists>e g'. move_descriptor d g = (Inl (RuntimeError e), g') \<and>
    smem g' = smem g \<and> bram g' = bram g \<and> rm_csr (gd_ring g') = rm_csr (gd_ring g) \<and>
    (if odd (w3 d)
     then e = MidFull (int (dma_beats d)) (queue_length (am_mid (g_axi g))) \<and>
       g' = g\<lparr>gd_dm_sram := set_buffer [pack_instruction (w1 d) (w2 d) True] (gd_dm_sram g)\<rparr>
     else e = FifoOverflow (fifo_id (am_mid (g_axi g))) \<and>
       buffer (am_dm_in (g_axi g')) = [pack_instruction (w1 d) (w2 d) True] \<and> buffer (gd_dm_sram g') = [] \<and>
       buffer (am_mid (g_axi g')) = load_block (bram g) (nat (w0 d div 4)) (nat (queue_length (am_mid (g_axi g)))))"
proof (cases "odd (w3 d)")
  case True
  then show ?thesis using long_move [OF assms(1) True assms(2)] by simp
next
  case False
  then show ?thesis
    using long_move_out [OF assms(1) _ _ _ assms(2)] assms(3) golden_okD(4) [OF assms(1)] by simp
qed

theorem long_transfer_fails_witness:
  "fst (move_descriptor \<lparr>w0 = 64, w1 = 0, w2 = 129, w3 = 1\<rparr> small_golden)
    = Inl (RuntimeError (MidFull 129 128))"
  using long_transfer_fails [OF small_golden_ok, of "\<lparr>w0 = 64, w1 = 0, w2 = 129, w3 = 1\<rparr>"]
  by (auto simp: small_golden_parts dma_beats_def desc_ok_def)

text \<open>
  C34. A descriptor whose transfer fails is not completed: the event loop stops with the transfer's
  exception and every register, HEAD included, is as it was, so the descriptor is still the oldest
  one of the ring as long as its words are. (The documents say that HEAD advances after a descriptor
  completes, with success or error: the golden model has no such error completion.)
\<close>

theorem failed_transfer_keeps_head:
  assumes "golden_ok g" and "pending (gd_ring g) = d # ds" and "move_descriptor d g = (Inl e, g')"
  shows "event_loop (Suc n) acc g = (Inl e, g') \<and> rm_csr (gd_ring g') = rm_csr (gd_ring g)"
proof -
  have r: "ring_ok (gd_ring g)" "quiescent (g_axi g)" using assms(1) by (simp_all add: golden_ok_def)
  have "on_ring (fetch_next_descriptor 256) g = (Inr (Some d), g)"
    using on_ring_apply [of "fetch_next_descriptor 256" g] fetch_pending [OF r assms(2), of 256]
    by simp
  with assms(2,3) r(1) have "event_loop (Suc n) acc g = (Inl e, g')"
    by (simp add: event_loop.simps act_simps ring_is_empty_iff)
  with move_csr [of d g] assms(3) show ?thesis by simp
qed

theorem failed_transfer_keeps_head_witness:
  "fst (event_loop (Suc 0) [] long_golden) = Inl (RuntimeError (MidFull 129 128))"
proof -
  have "move_descriptor long_d long_golden = (Inl (RuntimeError (MidFull 129 128)),
      long_golden\<lparr>gd_dm_sram := set_buffer [pack_instruction 0 129 True] (gd_dm_sram long_golden)\<rparr>)"
    using long_move [OF long_golden_ok, of long_d] by (simp add: small_golden_parts dma_beats_def)
  from failed_transfer_keeps_head [OF long_golden_ok long_pending this] show ?thesis by simp
qed

text \<open>
  C37. The step budget of the drains is never what stops them: from any state whose queues hold at
  most 512 jobs, the master is idle afterwards or one of its transactions raised.
\<close>

theorem axi_drain_never_stalls:
  assumes "length (buffer (am_df_in a)) + length (buffer (am_dm_in a)) \<le> 512"
    and "drain_axi_dm instr 512 a = (r, t)"
  shows "r = Inr () \<and> axi_idle t \<or> (\<exists>u e. \<not> axi_idle u \<and> process_one u = (Inl e, t) \<and> r = Inl e)"
  using drain_total [where pending = axi_pending, OF process_one_step _ _
      assms(2) [unfolded drain_axi_dm_def]] assms(1)
  by (auto simp: axi_pending_def axi_idle_def fifo_is_empty_def)

theorem sram_drain_never_stalls:
  assumes "length (buffer (sc_dm_in s)) \<le> 512" and "drain_sram_dm instr 512 s = (r, t)"
  shows "r = Inr () \<and> sram_idle t \<or>
    (\<exists>u e. \<not> sram_idle u \<and> sram_process_one u = (Inl e, t) \<and> r = Inl e)"
  using drain_total [where pending = "\<lambda>s. length (buffer (sc_dm_in s))", OF sram_process_step _ _
      assms(2) [unfolded drain_sram_dm_def]] assms(1)
  by (auto simp: sram_idle_def fifo_is_empty_def)

theorem axi_drain_never_stalls_witness:
  "axi_idle (snd (drain_axi_dm (pack_instruction 64 2 False) 512
    ((g_axi small_golden)\<lparr>am_dm_in :=
      set_buffer [pack_instruction 64 2 False] (am_dm_in (g_axi small_golden))\<rparr>)))"
proof -
  let ?i = "pack_instruction 64 2 False"
  have "drain_axi_dm ?i 512 ((g_axi small_golden)
      \<lparr>am_dm_in := set_buffer [?i] (am_dm_in (g_axi small_golden))\<rparr>) =
    (Inr (), (g_axi small_golden)\<lparr>am_mid := set_buffer (load_block small_words (block_start ?i)
      (block_len ?i)) (am_mid (g_axi small_golden))\<rparr>)"
    using golden_okD [OF small_golden_ok] axi_read_leg [of "g_axi small_golden" ?i]
    by (simp add: small_golden_parts block_ok_def) (simp add: small_words_def)
  from axi_drain_never_stalls [OF _ this] this show ?thesis
    using golden_okD(1) [OF small_golden_ok] by simp
qed

theorem sram_drain_never_stalls_witness:
  "sram_idle (snd (drain_sram_dm 0 512 (sram_ctrl_of small_golden)))"
proof -
  have "drain_sram_dm 0 512 (sram_ctrl_of small_golden) = (Inr (), sram_ctrl_of small_golden)"
    using golden_okD(4,8) [OF small_golden_ok]
    by (simp add: drain_sram_dm_def sram_end.drain_nothing sram_ctrl_of_def)
  from sram_drain_never_stalls [OF _ this] this show ?thesis
    using golden_okD(4) [OF small_golden_ok] by (simp add: sram_ctrl_of_def)
qed

text \<open>
  MAX_ITERS is checked one iteration late: with exactly MAX_ITERS descriptors pending, all of
  them are moved and completed and the ring is empty, and the loop still raises "exceeded
  MAX_ITERS". With more of them pending, the first MAX_ITERS are gone when it raises.
\<close>

theorem max_iters_raises:
  assumes "golden_ok g" and "is_enabled (rm_csr (gd_ring g))"
    and "MAX_ITERS \<le> length (pending (gd_ring g))"
    and "dma_run (queue_length (am_mid (g_axi g))) MAX_ITERS
      (csr_baseaddr (rm_csr (gd_ring g))) (csr_ringlen (rm_csr (gd_ring g)))
      (csr_read (rm_csr (gd_ring g)) REG_HEAD) (smem g, bram g) = Some (ds, sys, ram)"
  shows "\<exists>g'. hardware_phase g = (Inl (RuntimeError MaxIters), g') \<and> smem g' = sys \<and>
    bram g' = ram \<and> length (pending (gd_ring g')) = length (pending (gd_ring g)) - MAX_ITERS"
proof -
  obtain g' where g': "\<forall>k. event_loop (MAX_ITERS + k) [] g = event_loop k ([] @ map pack ds) g'"
    "smem g' = sys" "bram g' = ram"
    "length (pending (gd_ring g')) = length (pending (gd_ring g)) - MAX_ITERS"
    using event_prefix [OF assms(1,3), of ds "(sys, ram)" "[]"] assms(4)
    by (auto simp: csr_baseaddr_def csr_ringlen_def csr_read_def)
  have "event_loop MAX_ITERS [] g = (Inl (RuntimeError MaxIters), g')"
    using spec [OF g'(1), of 0] by (simp add: event_loop.simps(1) act_raise_apply)
  with g' assms(2) show ?thesis by (auto simp: hardware_enabled)
qed

theorem max_iters_raises_witness:
  "\<exists>g'. hardware_phase full_golden = (Inl (RuntimeError MaxIters), g') \<and> pending (gd_ring g') = []"
  using max_iters_raises [OF full_golden_ok full_enabled]
    full_run [of 0 MAX_ITERS "[0]"]
  unfolding full_pending csr_baseaddr_def csr_ringlen_def csr_read_def full_golden_regs
    full_golden_parts
  by (simp add: reg_offsets) blast

text \<open>
  Loop back: a block moved from system memory to the SRAM and from there to another place in
  system memory arrives unchanged, and no other word of system memory changes.
\<close>

theorem loopback_copies:
  assumes "golden_ok g" and "desc_ok d" and "desc_ok e" and "odd (w3 d)" and "even (w3 e)"
    and "w0 e = w1 d" and "dma_beats e = dma_beats d"
    and "dma_fits (queue_length (am_mid (g_axi g))) d (smem g, bram g)"
    and "dma_fits (queue_length (am_mid (g_axi g))) e (smem g, bram g)"
  shows "\<exists>g'. act_bind (move_descriptor d) (\<lambda>_. move_descriptor e) g = (Inr (), g') \<and>
    smem g' = store_block (smem g) (nat (w1 e div 4))
      (load_block (smem g) (nat (w0 d div 4)) (dma_beats d))"
proof -
  let ?m = "dma_move d (smem g, bram g)"
  let ?g = "with_mems ?m g"
  note keeps = dma_move_keeps [OF assms(8)] and ok = golden_okD [OF assms(1)]
  have g: "golden_ok ?g" using keeps ok by (intro golden_ok_with_mems [OF assms(1)]) simp_all
  have one: "move_descriptor d g = (Inr (), ?g)" by (rule move_fits [OF assms(1,2,8)])
  have "dma_fits (queue_length (am_mid (g_axi ?g))) e (smem ?g, bram ?g)"
    using assms(9) keeps ok dma_fits_cong [of ?m "(smem g, bram g)"] by simp
  then have two: "move_descriptor e ?g = (Inr (), with_mems (dma_move e ?m) ?g)"
    using move_fits [OF g assms(3)] by simp
  have "fst (dma_move e ?m) = store_block (smem g) (nat (w1 e div 4))
      (load_block (smem g) (nat (w0 d div 4)) (dma_beats d))"
    using assms(4-8) blk.load_copied [of "nat (w0 d div 4)" "dma_beats d" "smem g" "nat (w1 d div 4)"
        "bram g"]
    by (simp add: dma_move_def dma_fits_def Let_def)
  with one two show ?thesis by (intro exI [of _ "with_mems (dma_move e ?m) ?g"]) (simp add: act_simps)
qed

theorem loopback_copies_witness:
  "\<exists>g'. act_bind (move_descriptor small_d1) (\<lambda>_. move_descriptor small_d2) small_golden
      = (Inr (), g') \<and>
    smem g' = store_block small_words 20 [11, 22]"
  using loopback_copies [OF small_golden_ok, of small_d1 small_d2] small_fits
  by (simp add: small_golden_parts desc_ok_def dma_beats_def)
    (simp add: small_words_def load_block_def eval_nat_numeral)

end
