(* ===== verification/Py_Text.thy ===== *)
theory Py_Text
  imports Dma_Prelude
begin

text \<open>
  What the scripts use of Python's strings, over Latin-1 text (a \<open>char\<close> is its code point):
  \<open>strip\<close>, \<open>lower\<close>, \<open>split\<close>, \<open>int(s, base)\<close>, and the formats \<open>%d\<close> and \<open>%0<n>x\<close>. The locale
  \<open>numeral_text\<close> is the contract between a format and the parser that reads it back.
\<close>

section \<open>Characters\<close>

abbreviation code :: "char \<Rightarrow> int" where
  "code c \<equiv> of_char c"

definition is_space :: "char \<Rightarrow> bool" where
  "is_space c = (let n = code c in 9 \<le> n \<and> n \<le> 13 \<or> 28 \<le> n \<and> n \<le> 32 \<or> n = 133 \<or> n = 160)"

definition lower_char :: "char \<Rightarrow> char" where
  "lower_char c = (let n = code c
     in if 65 \<le> n \<and> n \<le> 90 \<or> 192 \<le> n \<and> n \<le> 222 \<and> n \<noteq> 215 then char_of (n + 32) else c)"

definition py_strip :: "string \<Rightarrow> string" where
  "py_strip s = rev (dropWhile is_space (rev (dropWhile is_space s)))"

definition py_lower :: "string \<Rightarrow> string" where
  "py_lower = map lower_char"

text \<open>\<open>s.split()\<close>: the maximal runs of non-space characters.\<close>

function py_split :: "string \<Rightarrow> string list" where
  "py_split s =
     (case dropWhile is_space s of
        [] \<Rightarrow> []
      | c # cs \<Rightarrow> (c # takeWhile (\<lambda>x. \<not> is_space x) cs)
                 # py_split (dropWhile (\<lambda>x. \<not> is_space x) cs))"
  by pat_completeness auto
termination
proof (relation "measure length")
  show "wf (measure length)" by simp
  fix s :: string and c cs
  assume "dropWhile is_space s = c # cs"
  then have "Suc (length cs) \<le> length s" by (metis length_Cons length_dropWhile_le)
  moreover have "length (dropWhile (\<lambda>x. \<not> is_space x) cs) \<le> length cs" by (rule length_dropWhile_le)
  ultimately show "(dropWhile (\<lambda>x. \<not> is_space x) cs, s) \<in> measure length" by simp
qed

declare py_split.simps [simp del]

section \<open>Numbers to text\<close>

definition digit_char :: "int \<Rightarrow> char" where
  "digit_char d = char_of (if d < 10 then d + 48 else d + 87)"

function digits_of :: "int \<Rightarrow> int \<Rightarrow> int list" where
  "digits_of b n = (if b < 2 \<or> n < b then [n] else digits_of b (n div b) @ [n mod b])"
  by pat_completeness auto
termination
proof (relation "measure (\<lambda>(b, n). nat n)")
  fix b n :: int
  assume "\<not> (b < 2 \<or> n < b)"
  then have "n div b < n" and "0 < n" by (simp_all add: int_div_less_self)
  then show "((b, n div b), b, n) \<in> measure (\<lambda>(b, n). nat n)" by simp
qed simp

declare digits_of.simps [simp del]

text \<open>\<open>%d\<close> and \<open>%0<w>x\<close>; Python puts the sign first and pads the digits.\<close>

definition signed :: "int \<Rightarrow> nat \<Rightarrow> int \<Rightarrow> string" where
  "signed n w b =
     (let ds = digits_of b \<bar>n\<bar>; sign = (if n < 0 then ''-'' else []);
          pad = w - length sign - length ds
      in sign @ map digit_char (replicate pad 0 @ ds))"

definition fmt_dec :: "int \<Rightarrow> string" where
  "fmt_dec n = signed n 0 10"

definition fmt_hex :: "nat \<Rightarrow> int \<Rightarrow> string" where
  "fmt_hex w n = signed n w 16"

section \<open>Text to numbers\<close>

definition digit_val :: "char \<Rightarrow> int option" where
  "digit_val c = (let n = of_char c in
     if 48 \<le> n \<and> n \<le> 57 then Some (n - 48)
     else if 97 \<le> n \<and> n \<le> 122 then Some (n - 87)
     else if 65 \<le> n \<and> n \<le> 90 then Some (n - 55)
     else None)"

text \<open>Digits of a base, single underscores allowed between two of them.\<close>

fun digits_value :: "int \<Rightarrow> int \<Rightarrow> bool \<Rightarrow> string \<Rightarrow> int option" where
  "digits_value b acc prev [] = (if prev then Some acc else None)"
| "digits_value b acc prev (c # cs) =
     (if c = CHR ''_'' then (if prev then digits_value b acc False cs else None)
      else (case digit_val c of
              None \<Rightarrow> None
            | Some d \<Rightarrow> if d < b then digits_value b (acc * b + d) True cs else None))"

text \<open>A base prefix: the letter after a leading zero, and what follows it (one underscore is
  allowed there).\<close>

definition prefix_base :: "string \<Rightarrow> int option" where
  "prefix_base s = (case s of
     z # x # _ \<Rightarrow> if z \<noteq> CHR ''0'' then None
       else if x \<in> {CHR ''x'', CHR ''X''} then Some 16
       else if x \<in> {CHR ''o'', CHR ''O''} then Some 8
       else if x \<in> {CHR ''b'', CHR ''B''} then Some 2 else None
   | _ \<Rightarrow> None)"

definition after_prefix :: "string \<Rightarrow> string" where
  "after_prefix s = (case drop 2 s of c # cs \<Rightarrow> if c = CHR ''_'' then cs else c # cs | [] \<Rightarrow> [])"

definition unsigned_value :: "int \<Rightarrow> string \<Rightarrow> int option" where
  "unsigned_value base s =
     (if base = 0 then
        (case prefix_base s of
           Some b \<Rightarrow> digits_value b 0 False (after_prefix s)
         | None \<Rightarrow> (case digits_value 10 0 False s of
                     None \<Rightarrow> None
                   | Some v \<Rightarrow> if s \<noteq> [] \<and> hd s = CHR ''0'' \<and> v \<noteq> 0 then None else Some v))
      else if prefix_base s = Some base then digits_value base 0 False (after_prefix s)
      else digits_value base 0 False s)"

text \<open>
  \<open>int(s, base)\<close>; \<open>None\<close> is ValueError. Every caller passes a stripped or split field, so the
  white space that \<open>int\<close> itself would skip does not occur.
\<close>

definition py_int :: "int \<Rightarrow> string \<Rightarrow> int option" where
  "py_int base s = (case s of
     [] \<Rightarrow> None
   | c # cs \<Rightarrow>
       if c = CHR ''-'' then map_option (\<lambda>v. - v) (unsigned_value base cs)
       else if c = CHR ''+'' then unsigned_value base cs
       else unsigned_value base s)"

section \<open>Reading back what was printed\<close>

lemma code_digit_char:
  "0 \<le> d \<Longrightarrow> d < 36 \<Longrightarrow> code (digit_char d) = (if d < 10 then d + 48 else d + 87)"
  by (simp add: digit_char_def)

lemma digit_val_char [simp]: "0 \<le> d \<Longrightarrow> d < 36 \<Longrightarrow> digit_val (digit_char d) = Some d"
  by (simp add: digit_val_def code_digit_char Let_def)

lemma digit_char_neq:
  assumes "0 \<le> d" and "d < 36"
    and "code c < 48 \<or> code c = 95 \<or> 123 \<le> code c"
  shows "digit_char d \<noteq> c"
  using code_digit_char [OF assms(1,2)] assms by (auto split: if_splits)

lemma digit_char_specials [simp]:
  assumes "0 \<le> d" and "d < 36"
  shows "digit_char d \<noteq> CHR ''_''" and "digit_char d \<noteq> CHR ''-''" and "digit_char d \<noteq> CHR ''+''"
    and "digit_char d \<noteq> CHR ''#''" and "digit_char d \<noteq> CHR '' ''"
  using assms by (intro digit_char_neq; simp)+

definition digits :: "int \<Rightarrow> int list \<Rightarrow> bool" where
  "digits b ds \<longleftrightarrow> (\<forall>d \<in> set ds. 0 \<le> d \<and> d < b)"

definition horner :: "int \<Rightarrow> int list \<Rightarrow> int" where
  "horner b = foldl (\<lambda>a d. a * b + d) 0"

lemma digits_value_map:
  assumes "digits b ds" and "b \<le> 36" and "ds \<noteq> [] \<or> prev"
  shows "digits_value b acc prev (map digit_char ds) = Some (foldl (\<lambda>a d. a * b + d) acc ds)"
  using assms
proof (induction ds arbitrary: acc prev)
  case Nil
  then show ?case by simp
next
  case (Cons d ds)
  then have "0 \<le> d" and "d < 36" and "d < b" by (auto simp: digits_def)
  with Cons show ?case by (simp add: digits_def)
qed

lemma digits_of_digits: "2 \<le> b \<Longrightarrow> 0 \<le> n \<Longrightarrow> digits b (digits_of b n)"
proof (induction b n rule: digits_of.induct)
  case (1 b n)
  then show ?case
    by (subst digits_of.simps) (auto simp: digits_def pos_imp_zdiv_nonneg_iff)
qed

lemma digits_of_nonempty [simp]: "digits_of b n \<noteq> []"
  by (subst digits_of.simps) simp

lemma horner_digits_of: "2 \<le> b \<Longrightarrow> 0 \<le> n \<Longrightarrow> horner b (digits_of b n) = n"
proof (induction b n rule: digits_of.induct)
  case (1 b n)
  then show ?case
    by (subst digits_of.simps) (auto simp: horner_def pos_imp_zdiv_nonneg_iff)
qed

lemma digits_pad [simp]: "2 \<le> b \<Longrightarrow> digits b (replicate k 0 @ ds) \<longleftrightarrow> digits b ds"
  by (auto simp: digits_def)

lemma horner_pad [simp]: "horner b (replicate k 0 @ ds) = horner b ds"
  by (induction k) (simp_all add: horner_def)

text \<open>No digit string of the two formats has the prefix of its own base.\<close>

lemma prefix_base_digits:
  assumes "digits 16 ds" and "b = 10 \<or> b = 16"
  shows "prefix_base (map digit_char ds) \<noteq> Some b"
proof (cases "length ds < 2")
  case True
  then show ?thesis by (cases ds; cases "tl ds") (auto simp: prefix_base_def)
next
  case False
  then obtain d e es where ds: "ds = d # e # es" by (cases ds; cases "tl ds") auto
  with assms have "digit_char e \<noteq> CHR ''x''" "digit_char e \<noteq> CHR ''X''"
    using code_digit_char [of e] by (auto simp: digits_def split: if_splits)
  with assms(2) show ?thesis by (auto simp: ds prefix_base_def)
qed

lemma unsigned_digits:
  assumes "digits b ds" and "ds \<noteq> []" and "b = 10 \<or> b = 16"
  shows "unsigned_value b (map digit_char ds) = Some (horner b ds)"
proof -
  have "prefix_base (map digit_char ds) \<noteq> Some b"
    using assms by (intro prefix_base_digits) (auto simp: digits_def)
  moreover have "digits_value b 0 False (map digit_char ds) = Some (horner b ds)"
    using assms digits_value_map [of b ds False 0] by (auto simp: horner_def)
  ultimately show ?thesis using assms(3) by (auto simp: unsigned_value_def)
qed

lemma py_int_digits:
  assumes "digits b ds" and "ds \<noteq> []" and "b = 10 \<or> b = 16"
  shows "py_int b (map digit_char ds) = Some (horner b ds)"
    and "py_int b (''-'' @ map digit_char ds) = Some (- horner b ds)"
proof -
  obtain d es where ds: "ds = d # es" using assms(2) by (cases ds) auto
  then have "0 \<le> d" and "d < 36" using assms by (auto simp: digits_def)
  with unsigned_digits [OF assms] show "py_int b (map digit_char ds) = Some (horner b ds)"
    and "py_int b (''-'' @ map digit_char ds) = Some (- horner b ds)"
    by (simp_all add: py_int_def ds)
qed

lemma py_int_signed:
  assumes "b = 10 \<or> b = 16"
  shows "py_int b (signed n w b) = Some n"
proof -
  have b: "2 \<le> b" using assms by auto
  let ?ds = "\<lambda>k. replicate k 0 @ digits_of b \<bar>n\<bar>"
  have d: "digits b (?ds k)" for k using digits_of_digits [OF b, of "\<bar>n\<bar>"] b by simp
  have h: "horner b (?ds k) = \<bar>n\<bar>" for k using horner_digits_of [OF b] by simp
  show ?thesis
    using py_int_digits [OF d _ assms] unfolding h
    by (cases "n < 0") (simp_all add: signed_def Let_def del: map_append map_replicate)
qed

section \<open>Fields of a line\<close>

lemma split_space: "is_space c \<Longrightarrow> py_split (c # s) = py_split s"
  by (subst (1 2) py_split.simps) simp

lemma split_word:
  assumes "w \<noteq> []" and "\<forall>c \<in> set w. \<not> is_space c"
  shows "py_split (w @ CHR '' '' # s) = w # py_split s"
proof -
  obtain c cs where w: "w = c # cs" using assms(1) by (cases w) auto
  have sp: "is_space (CHR '' '')" by (simp add: is_space_def)
  with w assms(2) show ?thesis
    by (subst py_split.simps) (simp add: takeWhile_append2 dropWhile_append2 split_space)
qed

lemma split_last:
  assumes "w \<noteq> []" and "\<forall>c \<in> set w. \<not> is_space c"
  shows "py_split w = [w]"
proof -
  obtain c cs where w: "w = c # cs" using assms(1) by (cases w) auto
  have "py_split [] = []" by (subst py_split.simps) simp
  with w assms(2) show ?thesis
    by (subst py_split.simps) (simp add: takeWhile_eq_all_conv [THEN iffD2]
        dropWhile_eq_Nil_conv [THEN iffD2])
qed

lemma strip_trimmed:
  assumes "s \<noteq> []" and "\<not> is_space (hd s)" and "\<not> is_space (last s)"
  shows "py_strip s = s"
proof -
  have "dropWhile is_space s = s" using assms by (cases s) auto
  moreover have "dropWhile is_space (rev s) = rev s"
    using assms by (cases s rule: rev_cases) auto
  ultimately show ?thesis by (simp add: py_strip_def)
qed

section \<open>Lines of a text file\<close>

abbreviation newline :: string where
  "newline \<equiv> [CHR 0x0A]"

text \<open>Reading in text mode turns every line ending into a newline.\<close>

fun universal_newlines :: "string \<Rightarrow> string" where
  "universal_newlines [] = []"
| "universal_newlines (c # cs) =
     (if c = CHR 0x0D
      then CHR 0x0A # universal_newlines (if take 1 cs = newline then tl cs else cs)
      else c # universal_newlines cs)"

text \<open>Iterating over a file; the line ending is dropped, as every caller strips the line.\<close>

function file_lines :: "string \<Rightarrow> string list" where
  "file_lines s = (if s = [] then []
     else takeWhile (\<lambda>c. c \<noteq> CHR 0x0A) s # file_lines (tl (dropWhile (\<lambda>c. c \<noteq> CHR 0x0A) s)))"
  by pat_completeness auto
termination
proof (relation "measure length")
  fix s :: string
  assume "s \<noteq> []"
  then show "(tl (dropWhile (\<lambda>c. c \<noteq> CHR 0x0A) s), s) \<in> measure length"
    using length_dropWhile_le [of "\<lambda>c. c \<noteq> CHR 0x0A" s] by (cases s) auto
qed simp

declare file_lines.simps [simp del]

definition plain :: "string \<Rightarrow> bool" where
  "plain s \<longleftrightarrow> CHR 0x0A \<notin> set s \<and> CHR 0x0D \<notin> set s"

lemma universal_plain: "plain s \<Longrightarrow> universal_newlines (s @ newline @ t) = s @ newline @ universal_newlines t"
  by (induction s) (auto simp: plain_def)

lemma file_lines_Cons: "plain s \<Longrightarrow> file_lines (s @ newline @ t) = s # file_lines t"
proof -
  assume "plain s"
  then have "takeWhile (\<lambda>c. c \<noteq> CHR 0x0A) (s @ newline @ t) = s"
    and "dropWhile (\<lambda>c. c \<noteq> CHR 0x0A) (s @ newline @ t) = newline @ t"
    by (induction s) (auto simp: plain_def)
  then show ?thesis by (subst file_lines.simps) simp
qed

lemma file_lines_concat:
  assumes "\<forall>s \<in> set ls. plain s"
  shows "file_lines (universal_newlines (concat (map (\<lambda>s. s @ newline) ls))) = ls"
  using assms
proof (induction ls)
  case Nil
  then show ?case by (simp add: file_lines.simps)
next
  case (Cons s ls)
  then show ?case using universal_plain [of s] file_lines_Cons [of s] by simp
qed

section \<open>The contract of a number format\<close>

locale numeral_text =
  fixes print :: "int \<Rightarrow> string"
    and parse :: "string \<Rightarrow> int option"
  assumes parse_print: "parse (print n) = Some n"
    and print_nonempty: "print n \<noteq> []"
    and print_chars: "c \<in> set (print n) \<Longrightarrow> \<not> is_space c"
begin

lemma print_inject: "print m = print n \<longleftrightarrow> m = n"
  using parse_print by (metis option.inject)

text \<open>A printed number is one field of a line that is split at white space.\<close>

lemma print_word: "print n \<noteq> [] \<and> (\<forall>c \<in> set (print n). \<not> is_space c)"
  using print_nonempty print_chars by blast

lemma split_print_rest: "py_split (print n @ CHR '' '' # s) = print n # py_split s"
  using print_word by (intro split_word) auto

lemma split_print_end: "py_split (print n) = [print n]"
  using print_word by (intro split_last) auto

end

lemma not_space_digit:
  assumes "0 \<le> d" and "d < 36"
  shows "\<not> is_space (digit_char d)"
proof -
  show ?thesis
    using code_digit_char [OF assms] assms by (auto simp: is_space_def Let_def split: if_splits)
qed

lemma signed_chars:
  assumes "2 \<le> b" and "b \<le> 36" and "c \<in> set (signed n w b)"
  shows "\<not> is_space c"
proof -
  let ?ds = "\<lambda>k. replicate k 0 @ digits_of b \<bar>n\<bar>"
  have d: "\<forall>d \<in> set (?ds k). 0 \<le> d \<and> d < 36" for k
    using digits_of_digits [OF assms(1), of "\<bar>n\<bar>"] assms(2) by (auto simp: digits_def)
  obtain k where "c \<in> set (''-'' @ map digit_char (?ds k))"
    using assms(3) by (simp add: signed_def Let_def split: if_splits del: map_append map_replicate)
      (meson UnCI image_eqI)+
  with d [of k] show ?thesis by (auto simp: not_space_digit simp del: map_append map_replicate)
      (simp add: is_space_def)
qed

interpretation hex: numeral_text "fmt_hex w" "py_int 16"
  by unfold_locales
    (simp_all add: fmt_hex_def py_int_signed signed_chars [of 16], simp add: signed_def Let_def)

interpretation dec: numeral_text fmt_dec "py_int 10"
  by unfold_locales
    (simp_all add: fmt_dec_def py_int_signed signed_chars [of 10], simp add: signed_def Let_def)

end
