(* ===== verification/Scenario.thy ===== *)
theory Scenario
  imports Py_Text Transfers
begin

text \<open>
  The rest of \<open>sim/run_golden.py\<close>: parsing the rows of a scenario, the software setup they perform
  on the model objects, the stimulus lines emitted on the way, and the artifacts written after the
  hardware phase.
\<close>

section \<open>Rows\<close>

definition parse_row :: "string list \<Rightarrow> (string \<times> string list) option" where
  "parse_row row = (case row of
     [] \<Rightarrow> None
   | first # cells \<Rightarrow>
       if first = [] then None
       else (let raw = py_strip first
             in if raw = [] \<or> take 1 raw = ''#'' \<or> py_lower raw = ''op'' then None
                else Some (py_lower raw, map py_strip cells)))"

text \<open>\<open>args[i]\<close> and \<open>int(args[i], base)\<close>.\<close>

definition arg :: "string list \<Rightarrow> nat \<Rightarrow> string result" where
  "arg args i = (if i < length args then Inr (args ! i) else Inl IndexError)"

definition int_arg :: "int \<Rightarrow> string list \<Rightarrow> nat \<Rightarrow> int result" where
  "int_arg base args i = res_bind (arg args i) (\<lambda>s.
     case py_int base s of None \<Rightarrow> Inl (ValueError (BadLiteral s base)) | Some n \<Rightarrow> Inr n)"

definition emit :: "string \<Rightarrow> (golden, unit) act" where
  "emit line = act_modify (\<lambda>g. g\<lparr>gd_stim := gd_stim g @ [line]\<rparr>)"

definition sysmem_line :: "int \<Rightarrow> int \<Rightarrow> string" where
  "sysmem_line addr data = ''sysmem_write '' @ fmt_hex 8 addr @ '' '' @ fmt_hex 8 data"

definition sram_line :: "int \<Rightarrow> int \<Rightarrow> string" where
  "sram_line addr data = ''sram_write '' @ fmt_hex 8 addr @ '' '' @ fmt_hex 8 data"

definition csr_line :: "int \<Rightarrow> int \<Rightarrow> string" where
  "csr_line offset data = ''csr_write '' @ fmt_hex 2 offset @ '' '' @ fmt_hex 8 data"

definition bram_set :: "int \<Rightarrow> int \<Rightarrow> (golden, unit) act" where
  "bram_set i w g =
     (case py_setitem (bram g) i w of
        Inl e \<Rightarrow> (Inl e, g)
      | Inr m \<Rightarrow> (Inr (), g\<lparr>gd_sram := (gd_sram g)\<lparr>sr_mem := m\<rparr>\<rparr>))"

definition set_csr :: "int \<Rightarrow> int \<Rightarrow> (golden, unit) act" where
  "set_csr offset data =
     on_ring (act_modify (\<lambda>r. r\<lparr>rm_csr := csr_write offset data (rm_csr r)\<rparr>))"

abbreviation g_csr :: "golden \<Rightarrow> csr" where
  "g_csr g \<equiv> rm_csr (gd_ring g)"

section \<open>The setup operations\<close>

definition op_smem :: "int \<Rightarrow> string list \<Rightarrow> (golden, unit) act" where
  "op_smem smem_words args =
     act_bind (act_read (\<lambda>_. int_arg 10 args 0)) (\<lambda>wi.
     act_bind (act_read (\<lambda>_. int_arg 16 args 1)) (\<lambda>v.
       let data = v AND 0xFFFFFFFF
       in if wi \<ge> smem_words then act_raise (ValueError (SmemIndex wi smem_words))
          else act_bind (on_ring (mem_set wi data)) (\<lambda>_. emit (sysmem_line (wi * 4) data))))"

definition op_sram :: "int \<Rightarrow> string list \<Rightarrow> (golden, unit) act" where
  "op_sram sram_words args =
     act_bind (act_read (\<lambda>_. int_arg 10 args 0)) (\<lambda>wi.
     act_bind (act_read (\<lambda>_. int_arg 16 args 1)) (\<lambda>v.
       let data = v AND 0xFFFFFFFF
       in if wi \<ge> sram_words then act_raise (ValueError (SramIndex wi sram_words))
          else act_bind (bram_set wi data) (\<lambda>_. emit (sram_line (wi * 4) data))))"

definition op_baseaddr :: "string list \<Rightarrow> (golden, unit) act" where
  "op_baseaddr args =
     act_bind (act_read (\<lambda>_. int_arg 16 args 0)) (\<lambda>v.
       let addr = v AND 0xFFFFFFFF
       in act_bind (set_csr REG_BASEADDR addr) (\<lambda>_. emit (csr_line REG_BASEADDR addr)))"

definition op_ringlen :: "string list \<Rightarrow> (golden, unit) act" where
  "op_ringlen args =
     act_bind (act_read (\<lambda>_. int_arg 0 args 0)) (\<lambda>rlen.
     act_bind (set_csr REG_RINGLEN rlen) (\<lambda>_. emit (csr_line REG_RINGLEN rlen)))"

text \<open>
  \<open>csr.read(csr.REG_TAIL) % rlen\<close> is evaluated before the ring manager is asked, so a zero RINGLEN
  ends in ZeroDivisionError here.
\<close>

definition op_desc :: "string list \<Rightarrow> (golden, unit) act" where
  "op_desc args =
     act_bind (act_read (\<lambda>_. int_arg 16 args 0)) (\<lambda>v0.
     act_bind (act_read (\<lambda>_. int_arg 16 args 1)) (\<lambda>v1.
     act_bind (act_read (\<lambda>_. int_arg 16 args 2)) (\<lambda>v2.
     act_bind (act_read (\<lambda>_. int_arg 16 args 3)) (\<lambda>v3.
       let x0 = v0 AND 0xFFFFFFFF; x1 = v1 AND 0xFFFFFFFF;
           x2 = v2 AND 0xFFFFFFFF; x3 = v3 AND 0xFFFFFFFF;
           desc = mk_descriptor x0 x1 x2 x3
       in act_bind (act_gets g_csr) (\<lambda>c.
          let rlen = csr_ringlen c AND 0xFFFFFFFF; base = csr_baseaddr c AND 0xFFFFFFFF
          in if rlen = 0 then act_raise ZeroDivisionError
             else
               let ti = csr_read c REG_TAIL mod rlen; slot = base + ti * 16
               in act_bind (on_ring (ring_enqueue desc)) (\<lambda>_.
                  act_bind (emit (sysmem_line (slot + 0) x0)) (\<lambda>_.
                  act_bind (emit (sysmem_line (slot + 4) x1)) (\<lambda>_.
                  act_bind (emit (sysmem_line (slot + 8) x2)) (\<lambda>_.
                  act_bind (emit (sysmem_line (slot + 12) x3)) (\<lambda>_.
                  act_bind (act_gets (\<lambda>g. csr_read (g_csr g) REG_TAIL)) (\<lambda>tail.
                  emit (csr_line REG_TAIL tail)))))))))))) "

definition op_enable :: "(golden, unit) act" where
  "op_enable =
     act_bind (act_gets (\<lambda>g. csr_read (g_csr g) REG_CTRL OR push_bit ENABLE_BIT 1
         OR push_bit IRQ_EN_BIT 1)) (\<lambda>ctrl. set_csr REG_CTRL ctrl)"

definition run_row :: "int \<Rightarrow> int \<Rightarrow> string list \<Rightarrow> (golden, unit) act" where
  "run_row smem_words sram_words row = (case parse_row row of
     None \<Rightarrow> act_return ()
   | Some (op, args) \<Rightarrow>
       if op = ''smem'' then op_smem smem_words args
       else if op = ''sram'' then op_sram sram_words args
       else if op = ''csr_baseaddr'' then op_baseaddr args
       else if op = ''csr_ringlen'' then op_ringlen args
       else if op = ''desc'' then op_desc args
       else if op = ''enable'' then op_enable
       else act_raise (ValueError (UnknownOp op)))"

section \<open>A whole scenario\<close>

definition golden_init :: "int \<Rightarrow> int \<Rightarrow> golden result" where
  "golden_init smem_words sram_words =
     res_bind (system_memory_init smem_words) (\<lambda>sysmem.
     res_bind (sram_init (Some sram_words)) (\<lambda>sram.
     res_bind (fifo_init ''df_in'' FIFO_DEPTH) (\<lambda>df_in.
     res_bind (fifo_init ''df_out'' FIFO_DEPTH) (\<lambda>df_out.
     res_bind (fifo_init ''dm_axi'' DM_DEPTH) (\<lambda>dm_axi.
     res_bind (fifo_init ''dm_sram'' DM_DEPTH) (\<lambda>dm_sram.
     res_bind (fifo_init ''mid'' MID_DEPTH) (\<lambda>mid.
       Inr \<lparr>gd_ring = \<lparr>rm_csr = csr_init, rm_axi = \<lparr>am_memory = sysmem, am_df_in = df_in,
              am_df_out = df_out, am_dm_in = dm_axi, am_mid = mid\<rparr>\<rparr>,
            gd_sram = sram, gd_dm_sram = dm_sram, gd_stim = []\<rparr>)))))))"

record artifacts =
  stim_lines :: "string list"
  initial_smem :: "int list"
  final_smem :: "int list"
  initial_sram :: "int list"
  final_sram :: "int list"
  descs_fetched :: "int list"

definition scenario_body :: "string list list \<Rightarrow> int \<Rightarrow> int \<Rightarrow> (golden, artifacts) act" where
  "scenario_body rows smem_words sram_words =
     act_bind (for_each (run_row smem_words sram_words) rows) (\<lambda>_.
     act_bind (act_gets smem) (\<lambda>smem0.
     act_bind (act_gets bram) (\<lambda>sram0.
     act_bind hardware_phase (\<lambda>descs.
     act_gets (\<lambda>g. \<lparr>stim_lines = gd_stim g, initial_smem = smem0, final_smem = smem g,
       initial_sram = sram0, final_sram = bram g, descs_fetched = descs\<rparr>)))))"

definition run_scenario :: "string list list \<Rightarrow> int \<Rightarrow> int \<Rightarrow> artifacts result" where
  "run_scenario rows smem_words sram_words =
     res_bind (golden_init smem_words sram_words) (\<lambda>g.
       fst (scenario_body rows smem_words sram_words g))"

section \<open>Artifacts\<close>

definition hex32_file :: "int list \<Rightarrow> string" where
  "hex32_file words = concat (map (\<lambda>w. fmt_hex 8 (w AND 0xFFFFFFFF) @ newline) words)"

definition descs_file :: "int list \<Rightarrow> string" where
  "descs_file descs = concat (map (\<lambda>p. fmt_hex 32 (p AND (push_bit 128 1 - 1)) @ newline) descs)"

definition stim_file :: "string \<Rightarrow> string list \<Rightarrow> string" where
  "stim_file csv_name stim =
     ''# generated from '' @ csv_name @ newline @ concat (map (\<lambda>line. line @ newline) stim)"

definition summary_file :: "int list \<Rightarrow> string list \<Rightarrow> string" where
  "summary_file descs stim =
     ''descriptors_fetched='' @ fmt_dec (int (length descs)) @ newline @
     ''stim_lines='' @ fmt_dec (int (length stim)) @ newline"

section \<open>What the setup keeps\<close>

text \<open>
  Whatever the rows say and wherever they fail: the registers and both memories are well-formed,
  every FIFO is empty and MID has its depth. Only the ring's configuration is up to the rows.
\<close>

definition setup_ok :: "golden \<Rightarrow> bool" where
  "setup_ok g \<longleftrightarrow> csr_ok (g_csr g) \<and> axi_ok (g_axi g) \<and> quiescent (g_axi g) \<and>
     buffer (am_dm_in (g_axi g)) = [] \<and> buffer (am_mid (g_axi g)) = [] \<and>
     sram_ok (gd_sram g) \<and> fifo_ok (gd_dm_sram g) \<and> buffer (gd_dm_sram g) = [] \<and>
     queue_length (am_mid (g_axi g)) = MID_DEPTH"

lemma fifo_init_eq: "0 < n \<Longrightarrow> fifo_init i n = Inr \<lparr>fifo_id = i, queue_length = n, buffer = []\<rparr>"
  by (simp add: fifo_init_def)

lemma golden_init_ok: "golden_init sw bw = Inr g \<Longrightarrow> setup_ok g"
  by (auto simp: golden_init_def system_memory_init_def sram_init_def fifo_init_eq FIFO_DEPTH_def
      DM_DEPTH_def MID_DEPTH_def setup_ok_def csr_ok_init axi_ok_def sysmem_ok_def quiescent_def
      fifo_ok_def sram_ok_def u32s_def split: if_splits)

lemma emit_preserves [pres]: "(\<And>g xs. I g \<Longrightarrow> I (g\<lparr>gd_stim := xs\<rparr>)) \<Longrightarrow> preserves I (emit line)"
  by (rule preservesI) (simp add: emit_def act_simps)

lemma set_csr_preserves [pres]:
  "(\<And>g. I g \<Longrightarrow> I (g\<lparr>gd_ring := (gd_ring g)\<lparr>rm_csr := csr_write k v (g_csr g)\<rparr>\<rparr>)) \<Longrightarrow>
   preserves I (set_csr k v)"
  by (rule preservesI) (simp add: set_csr_def on_ring_def zoom_def act_simps)

lemma setup_ok_frames:
  "setup_ok (g\<lparr>gd_stim := xs\<rparr>) = setup_ok g"
  "setup_ok g \<Longrightarrow> setup_ok (g\<lparr>gd_ring := (gd_ring g)\<lparr>rm_csr := csr_write k v (g_csr g)\<rparr>\<rparr>)"
  by (simp_all add: setup_ok_def csr_ok_write)

lemma py_setitem_ok:
  assumes "u32s xs" and "py_setitem xs i w = Inr ys" and "0 \<le> w" and "w < 2 ^ 32"
  shows "u32s ys \<and> length ys = length xs"
  using py_setitem_u32s [OF assms(2,1,3,4)] py_setitem_length [OF assms(2)] by simp

text \<open>The view of the ring: what \<open>setup_ok\<close> says of it alone.\<close>

definition setup_ring_ok :: "ring \<Rightarrow> bool" where
  "setup_ring_ok r \<longleftrightarrow> csr_ok (rm_csr r) \<and> axi_ok (rm_axi r) \<and> quiescent (rm_axi r) \<and>
     buffer (am_dm_in (rm_axi r)) = [] \<and> buffer (am_mid (rm_axi r)) = [] \<and>
     queue_length (am_mid (rm_axi r)) = MID_DEPTH"

lemma mem_set_preserves [pres]:
  assumes "0 \<le> w" and "w < 2 ^ 32"
  shows "preserves setup_ring_ok (mem_set i w)"
proof (rule preservesI)
  fix r assume "setup_ring_ok r"
  with assms show "setup_ring_ok (snd (mem_set i w r))"
    using py_setitem_ok [of "ring_mem r" i w]
    by (cases "py_setitem (ring_mem r) i w")
      (auto simp: mem_set_def setup_ring_ok_def axi_ok_def sysmem_ok_def quiescent_def)
qed

lemma write_desc_preserves [pres]:
  assumes "desc_ok d"
  shows "preserves setup_ring_ok (write_desc_to_mem x d)"
  using assms unfolding write_desc_to_mem_def Let_def desc_ok_def by (intro pres) auto

lemma ring_enqueue_preserves:
  assumes "desc_ok d"
  shows "preserves setup_ring_ok (ring_enqueue d)"
proof -
  have "preserves setup_ring_ok (set_tail_reg v)" for v
    by (rule preservesI) (simp add: set_tail_reg_def act_simps setup_ring_ok_def csr_ok_write)
  then show ?thesis unfolding ring_enqueue_def Let_def by (intro pres assms) auto
qed

lemma on_ring_setup [pres]: "preserves setup_ring_ok m \<Longrightarrow> preserves setup_ok (on_ring m)"
  unfolding on_ring_def
  by (rule gring.zoom_preserves [where J = setup_ring_ok])
    (auto simp: setup_ok_def setup_ring_ok_def)

lemma bram_set_preserves [pres]:
  assumes "0 \<le> w" and "w < 2 ^ 32"
  shows "preserves setup_ok (bram_set i w)"
proof (rule preservesI)
  fix g assume "setup_ok g"
  with assms show "setup_ok (snd (bram_set i w g))"
    using py_setitem_ok [of "bram g" i w]
    by (cases "py_setitem (bram g) i w") (auto simp: bram_set_def setup_ok_def sram_ok_def)
qed

lemma op_desc_preserves [pres]: "preserves setup_ok (op_desc args)"
  unfolding op_desc_def Let_def
  by (intro pres ring_enqueue_preserves mk_descriptor_ok) (simp_all add: setup_ok_frames)

lemma run_row_preserves [pres]: "preserves setup_ok (run_row sw bw row)"
proof -
  have ops: "preserves setup_ok (op_smem sw args)" "preserves setup_ok (op_sram bw args)"
    "preserves setup_ok (op_baseaddr args)" "preserves setup_ok (op_ringlen args)"
    "preserves setup_ok op_enable" for args
    unfolding op_smem_def op_sram_def op_baseaddr_def op_ringlen_def op_enable_def Let_def
    by (intro pres; simp add: setup_ok_frames bits)+
  show ?thesis
    unfolding run_row_def by (cases "parse_row row") (auto intro!: pres ops)
qed

lemma setup_run_ok: "setup_ok g \<Longrightarrow> setup_ok (snd (for_each (run_row sw bw) rows g))"
  by (rule preservesD [OF preserves_for_each]) (rule run_row_preserves)

lemma setup_golden_ok: "setup_ok g \<Longrightarrow> ring_ok (gd_ring g) \<Longrightarrow> golden_ok g"
  by (simp add: setup_ok_def golden_ok_def)

section \<open>A scenario that runs\<close>

lemma scenario_setup:
  assumes "for_each (run_row sw bw) rows g0 = (Inr (), g)"
  shows "fst (scenario_body rows sw bw g0) = (case hardware_phase g of
    (Inl e, _) \<Rightarrow> Inl e
  | (Inr descs, h) \<Rightarrow> Inr \<lparr>stim_lines = gd_stim h, initial_smem = smem g, final_smem = smem h,
      initial_sram = bram g, final_sram = bram h, descs_fetched = descs\<rparr>)"
  using assms
  by (simp add: scenario_body_def act_simps)
    (simp add: act_bind_def act_gets_apply split: prod.split sum.split)

lemma scenario_setup_fails:
  "for_each (run_row sw bw) rows g0 = (Inl e, g) \<Longrightarrow>
   fst (scenario_body rows sw bw g0) = Inl e"
  by (simp add: scenario_body_def act_simps)

section \<open>Scenarios without an enable row\<close>

definition ctrl_zero :: "golden \<Rightarrow> bool" where
  "ctrl_zero g \<longleftrightarrow> reg (g_csr g) REG_CTRL = 0"

lemma on_ring_ctrl [pres]:
  "preserves (\<lambda>r. reg (rm_csr r) REG_CTRL = 0) m \<Longrightarrow> preserves ctrl_zero (on_ring m)"
  unfolding on_ring_def
  by (rule gring.zoom_preserves [where J = "\<lambda>r. reg (rm_csr r) REG_CTRL = 0"])
    (auto simp: ctrl_zero_def)

lemma ring_ctrl [pres]:
  "preserves (\<lambda>r. reg (rm_csr r) REG_CTRL = 0) (mem_set i w)"
  "preserves (\<lambda>r. reg (rm_csr r) REG_CTRL = 0) (set_tail_reg v)"
  by (auto intro!: preservesI simp: mem_set_def set_tail_reg_def act_simps reg_csr_write_plain
      split: sum.split) (simp_all add: reg_csr_write_plain reg_offsets)

lemma set_csr_ctrl: "k \<noteq> REG_CTRL \<Longrightarrow> preserves ctrl_zero (set_csr k v)"
  by (rule preservesI)
    (auto simp: set_csr_def on_ring_def zoom_def act_simps ctrl_zero_def csr_write_def Let_def)

lemma run_row_ctrl:
  assumes "\<forall>args. parse_row row \<noteq> Some (''enable'', args)"
  shows "preserves ctrl_zero (run_row sw bw row)"
proof -
  have emit: "preserves ctrl_zero (emit line)" for line
    by (rule emit_preserves) (simp add: ctrl_zero_def)
  have bram: "preserves ctrl_zero (bram_set i w)" for i w
    by (auto intro!: preservesI simp: bram_set_def ctrl_zero_def split: sum.split)
  have set: "preserves ctrl_zero (set_csr REG_BASEADDR v)" "preserves ctrl_zero (set_csr REG_RINGLEN v)"
    for v by (rule set_csr_ctrl; simp add: reg_offsets)+
  note steps = preserves_basic preserves_bind preserves_if on_ring_ctrl ring_ctrl emit bram set
  have "preserves ctrl_zero (op_smem sw args)" for args
    unfolding op_smem_def Let_def by (intro steps)
  moreover have "preserves ctrl_zero (op_sram bw args)" for args
    unfolding op_sram_def Let_def by (intro steps)
  moreover have "preserves ctrl_zero (op_baseaddr args)" for args
    unfolding op_baseaddr_def Let_def by (intro steps)
  moreover have "preserves ctrl_zero (op_ringlen args)" for args
    unfolding op_ringlen_def Let_def by (intro steps)
  moreover have "preserves ctrl_zero (op_desc args)" for args
    unfolding op_desc_def Let_def ring_enqueue_def write_desc_to_mem_def by (intro steps)
  ultimately show ?thesis
    unfolding run_row_def using assms
    by (cases "parse_row row") (auto simp: preserves_basic)
qed

text \<open>A scenario that runs, from its rows to its artifacts.\<close>

lemma scenario_result:
  assumes "golden_init sw bw = Inr g0" and "for_each (run_row sw bw) rows g0 = (Inr (), g)"
    and "ring_ok (gd_ring g)" and "is_enabled (g_csr g)"
    and "length (pending (gd_ring g)) < MAX_ITERS"
    and "\<forall>d \<in> set (pending (gd_ring g)). dma_fits MID_DEPTH d (smem g, bram g) \<and>
      spares_ring (csr_baseaddr (g_csr g)) (csr_ringlen (g_csr g)) d"
  shows "run_scenario rows sw bw = Inr \<lparr>stim_lines = gd_stim g,
    initial_smem = smem g, final_smem = fst (fold dma_move (pending (gd_ring g)) (smem g, bram g)),
    initial_sram = bram g, final_sram = snd (fold dma_move (pending (gd_ring g)) (smem g, bram g)),
    descs_fetched = map pack (pending (gd_ring g))\<rparr>"
proof -
  have prep: "setup_ok g" using setup_run_ok [OF golden_init_ok [OF assms(1)], of sw bw rows] assms(2)
    by simp
  then have ok: "golden_ok g" and mid: "queue_length (am_mid (g_axi g)) = MID_DEPTH"
    using assms(3) by (simp_all add: setup_golden_ok setup_ok_def)
  obtain h where "hardware_phase g = (Inr (map pack (pending (gd_ring g))), h)"
    and "(smem h, bram h) = fold dma_move (pending (gd_ring g)) (smem g, bram g)"
    and "same_setup g h"
    using hardware_drains [OF ok assms(4,5) pending_run [OF ok, of "queue_length (am_mid (g_axi g))"]]
      assms(6) mid by (auto simp: csr_baseaddr_def csr_ringlen_def)
  then show ?thesis
    using assms(1) scenario_setup [OF assms(2)]
    by (simp add: run_scenario_def same_setup_def) (metis fst_conv snd_conv)
qed

section \<open>An example\<close>

text \<open>An example scenario: the two-descriptor chain of \<open>small_golden\<close>, as rows.\<close>

definition demo_rows :: "string list list" where
  "demo_rows = [[''op'', ''arg1''], [''smem'', ''16'', ''b''], [''smem'', ''17'', ''0x16''],
     [''csr_ringlen'', ''4''], [''desc'', ''40'', ''0'', ''2'', ''1''],
     [''desc'', ''0'', ''50'', ''2'', ''0''], [''enable'']]"

definition demo_stim :: "string list" where
  "demo_stim = [''sysmem_write 00000040 0000000b'', ''sysmem_write 00000044 00000016'',
     ''csr_write 04 00000004'', ''sysmem_write 00000000 00000040'',
     ''sysmem_write 00000004 00000000'', ''sysmem_write 00000008 00000002'',
     ''sysmem_write 0000000c 00000001'', ''csr_write 0c 00000001'',
     ''sysmem_write 00000010 00000000'', ''sysmem_write 00000014 00000050'',
     ''sysmem_write 00000018 00000002'', ''sysmem_write 0000001c 00000000'',
     ''csr_write 0c 00000002'']"

definition demo_init :: golden where
  "demo_init = (case golden_init 32 8 of Inr g \<Rightarrow> g | Inl _ \<Rightarrow> small_golden)"

definition demo_golden :: golden where
  "demo_golden = small_golden\<lparr>gd_stim := demo_stim\<rparr>"

lemma demo_init_ok: "golden_init 32 8 = Inr demo_init"
  by (simp add: demo_init_def golden_init_def system_memory_init_def sram_init_def fifo_init_def
      FIFO_DEPTH_def DM_DEPTH_def MID_DEPTH_def)

lemma demo_setup: "for_each (run_row 32 8) demo_rows demo_init = (Inr (), demo_golden)"
  by code_simp

lemma demo_parts [simp]:
  "gd_ring demo_golden = gd_ring small_golden" "gd_sram demo_golden = gd_sram small_golden"
  by (simp_all add: demo_golden_def)

text \<open>No row changes the size of a memory.\<close>

definition sized :: "nat \<Rightarrow> nat \<Rightarrow> golden \<Rightarrow> bool" where
  "sized ns nr g \<longleftrightarrow> length (smem g) = ns \<and> length (bram g) = nr"

lemma on_ring_sized:
  assumes "preserves (\<lambda>r. length (ring_mem r) = ns) m"
  shows "preserves (sized ns nr) (on_ring m)"
proof (rule preservesI)
  fix g assume "sized ns nr g"
  then show "sized ns nr (snd (on_ring m g))"
    using preservesD [OF assms, of "gd_ring g"]
    by (auto simp: sized_def on_ring_def zoom_def split: prod.split)
qed

lemma run_row_sized: "preserves (sized ns nr) (run_row sw bw row)"
proof -
  have emit: "preserves (sized ns nr) (emit line)" for line
    by (rule emit_preserves) (simp add: sized_def)
  have bram: "preserves (sized ns nr) (bram_set i w)" for i w
    by (auto intro!: preservesI simp: bram_set_def sized_def py_setitem_length split: sum.split)
  have set: "preserves (sized ns nr) (set_csr k v)" for k v
    by (rule set_csr_preserves) (simp add: sized_def)
  have ring: "preserves (\<lambda>r. length (ring_mem r) = ns) (mem_set i w)"
    "preserves (\<lambda>r. length (ring_mem r) = ns) (set_tail_reg v)" for i w v
    by (auto intro!: preservesI simp: mem_set_def set_tail_reg_def act_simps py_setitem_length
        split: sum.split)
  note steps = preserves_basic preserves_bind preserves_if on_ring_sized ring emit bram set
  have "preserves (sized ns nr) (op_smem sw args)" for args
    unfolding op_smem_def Let_def by (intro steps)
  moreover have "preserves (sized ns nr) (op_sram bw args)" for args
    unfolding op_sram_def Let_def by (intro steps)
  moreover have "preserves (sized ns nr) (op_baseaddr args)" for args
    unfolding op_baseaddr_def Let_def by (intro steps)
  moreover have "preserves (sized ns nr) (op_ringlen args)" for args
    unfolding op_ringlen_def Let_def by (intro steps)
  moreover have "preserves (sized ns nr) (op_desc args)" for args
    unfolding op_desc_def Let_def ring_enqueue_def write_desc_to_mem_def by (intro steps)
  moreover have "preserves (sized ns nr) op_enable"
    unfolding op_enable_def Let_def by (intro steps)
  ultimately show ?thesis
    unfolding run_row_def by (cases "parse_row row") (auto simp: preserves_basic)
qed

lemma setup_sized:
  assumes "golden_init sw bw = Inr g0"
  shows "sized (nat sw) (nat bw) (snd (for_each (run_row sw bw) rows g0))"
proof -
  have "sized (nat sw) (nat bw) g0"
    using assms by (auto simp: golden_init_def system_memory_init_def sram_init_def res_bind_def
        sized_def split: sum.splits if_splits)
  moreover have "preserves (sized (nat sw) (nat bw)) (for_each (run_row sw bw) rows)"
    by (rule preserves_for_each) (rule run_row_sized)
  ultimately show ?thesis by (rule preservesD [rotated])
qed
section \<open>Properties\<close>

text \<open>
  C36. Setup safety: after any list of rows, whether they all succeed or one of them raises, the
  registers are 32-bit words with their reserved bits zero, both memories keep their sizes and hold
  32-bit words, and every FIFO is empty.
\<close>

theorem setup_invariant:
  assumes "golden_init smem_words sram_words = Inr g0"
  shows "setup_ok (snd (for_each (run_row smem_words sram_words) rows g0)) \<and>
    length (smem (snd (for_each (run_row smem_words sram_words) rows g0))) = nat smem_words \<and>
    length (bram (snd (for_each (run_row smem_words sram_words) rows g0))) = nat sram_words"
  using setup_run_ok [OF golden_init_ok [OF assms]] setup_sized [OF assms] by (simp add: sized_def)

theorem setup_invariant_witness:
  "length (smem (snd (for_each (run_row 32 8) [[''smem'', ''99'', ''1'']]
    (case golden_init 32 8 of Inr g0 \<Rightarrow> g0 | Inl _ \<Rightarrow> small_golden)))) = 32"
  using setup_invariant [of 32 8 "case golden_init 32 8 of Inr g0 \<Rightarrow> g0 | Inl _ \<Rightarrow> small_golden" "[[''smem'', ''99'', ''1'']]"]
  by (simp add: golden_init_def system_memory_init_def sram_init_def fifo_init_def FIFO_DEPTH_def
      DM_DEPTH_def MID_DEPTH_def)

text \<open>
  C9. End to end: a scenario whose rows leave a well-formed, enabled ring, and whose transfers fit
  and leave the ring alone, produces as artifacts the two memories after setup, the two memories
  after the block copies of its descriptors in ring order, and the packed descriptors.
\<close>

theorem scenario_end_to_end:
  assumes "golden_init sw bw = Inr g0" and "for_each (run_row sw bw) rows g0 = (Inr (), g)"
    and "ring_ok (gd_ring g)" and "is_enabled (g_csr g)"
    and "length (pending (gd_ring g)) < MAX_ITERS"
    and "\<forall>d \<in> set (pending (gd_ring g)). dma_fits MID_DEPTH d (smem g, bram g) \<and>
      spares_ring (csr_baseaddr (g_csr g)) (csr_ringlen (g_csr g)) d"
  shows "run_scenario rows sw bw = Inr \<lparr>stim_lines = gd_stim g,
    initial_smem = smem g, final_smem = fst (fold dma_move (pending (gd_ring g)) (smem g, bram g)),
    initial_sram = bram g, final_sram = snd (fold dma_move (pending (gd_ring g)) (smem g, bram g)),
    descs_fetched = map pack (pending (gd_ring g))\<rparr>"
  by (rule scenario_result [OF assms])

theorem scenario_end_to_end_witness:
  "run_scenario demo_rows 32 8 = Inr \<lparr>stim_lines = demo_stim, initial_smem = small_words,
     final_smem = fst small_result, initial_sram = replicate 8 0, final_sram = snd small_result,
     descs_fetched = [pack small_d1, pack small_d2]\<rparr>"
  using scenario_end_to_end [OF demo_init_ok demo_setup]
    small_golden_ok small_enabled small_fits small_moves
  by (simp add: small_pending small_golden_parts golden_ok_def MAX_ITERS_def MID_DEPTH_def
      spares_ring_def dma_beats_def csr_ringlen_def csr_baseaddr_def small_golden_regs reg_offsets
      demo_golden_def)

text \<open>
  A scenario that never enables the engine moves nothing: if it succeeds, the final memories are
  the initial ones and no descriptor is fetched, however many were enqueued.
\<close>

theorem disabled_scenario_moves_nothing:
  assumes "\<forall>row \<in> set rows. \<forall>args. parse_row row \<noteq> Some (''enable'', args)"
    and "run_scenario rows sw bw = Inr out"
  shows "final_smem out = initial_smem out \<and> final_sram out = initial_sram out \<and>
    descs_fetched out = []"
proof -
  obtain g0 where init: "golden_init sw bw = Inr g0"
    using assms(2) by (cases "golden_init sw bw") (auto simp: run_scenario_def)
  obtain r g where run: "for_each (run_row sw bw) rows g0 = (r, g)" by fastforce
  have "preserves ctrl_zero (for_each (run_row sw bw) rows)"
    using assms(1) by (induction rows) (auto intro!: pres run_row_ctrl)
  moreover have "ctrl_zero g0"
    using init by (auto simp: golden_init_def ctrl_zero_def reg_csr_init res_bind_def split: sum.splits)
  ultimately have "ctrl_zero g" using run by (force dest: preservesD)
  then have "\<not> is_enabled (g_csr g)" by (simp add: ctrl_bits ctrl_zero_def)
  then have hw: "hardware_phase g = (Inr [], g)" by (simp add: hardware_phase_def act_simps)
  show ?thesis
  proof (cases r)
    case (Inl e)
    with run scenario_setup_fails assms(2) init show ?thesis by (simp add: run_scenario_def)
  next
    case (Inr u)
    with run have "for_each (run_row sw bw) rows g0 = (Inr (), g)" by simp
    from scenario_setup [OF this] assms(2) init hw show ?thesis by (auto simp: run_scenario_def)
  qed
qed

theorem disabled_scenario_moves_nothing_witness:
  "\<exists>out. run_scenario (butlast demo_rows) 32 8 = Inr out \<and>
     final_smem out = initial_smem out \<and> final_sram out = initial_sram out \<and> descs_fetched out = []"
proof -
  have "\<forall>row \<in> set (butlast demo_rows). \<forall>args. parse_row row \<noteq> Some (''enable'', args)"
    by (simp add: demo_rows_def parse_row_def py_strip_def py_lower_def lower_char_def is_space_def)
  moreover have "\<exists>out. run_scenario (butlast demo_rows) 32 8 = Inr out" 
  proof -
    have "\<not> isl (run_scenario (butlast demo_rows) 32 8)" by code_simp
    then show ?thesis by (cases "run_scenario (butlast demo_rows) 32 8") auto
  qed
  ultimately show ?thesis using disabled_scenario_moves_nothing [of "butlast demo_rows" 32 8] by blast
qed
end
