(* ===== verification/Serial_Link.thy ===== *)
theory Serial_Link
  imports Descriptor_Codec "HOL-Library.Sublist"
begin

text \<open>
  The binary protocol of the two host scripts, \<open>firmware&local/host_runner.py\<close> and
  \<open>firmware&local/serial_host.py\<close>: little-endian words (\<open>struct\<close>), packets, the serial port, and
  the search for the sync word in front of an acknowledgement. What answers at the other end of the
  port is the parameter \<open>fw\<close>: the bytes the firmware sends in reaction to a packet, and its next
  state. A read returns what has arrived, and fewer bytes than asked for when the port times out.
\<close>

section \<open>Bytes\<close>

type_synonym bytes = "int list"

definition byte_list :: "bytes \<Rightarrow> bool" where
  "byte_list bs \<longleftrightarrow> (\<forall>b \<in> set bs. 0 \<le> b \<and> b < 256)"

text \<open>\<open>struct.pack("<I", v)\<close>, which raises \<open>struct.error\<close> outside 32 bits, and \<open>unpack\<close>.\<close>

definition le32 :: "int \<Rightarrow> bytes" where
  "le32 v = [v mod 256, v div 256 mod 256, v div 256 div 256 mod 256,
     v div 256 div 256 div 256 mod 256]"

definition pack_u32 :: "int \<Rightarrow> bytes result" where
  "pack_u32 v = (if 0 \<le> v \<and> v < 2 ^ 32 then Inr (le32 v) else Inl StructError)"

definition unpack_u32 :: "bytes \<Rightarrow> int" where
  "unpack_u32 bs = bs ! 0 + 256 * (bs ! 1) + 256 * 256 * (bs ! 2) + 256 * 256 * 256 * (bs ! 3)"

text \<open>\<open>struct.pack("<nI", *words)\<close>.\<close>

fun pack_words :: "int list \<Rightarrow> bytes result" where
  "pack_words [] = Inr []"
| "pack_words (w # ws) =
     res_bind (pack_u32 w) (\<lambda>b. res_bind (pack_words ws) (\<lambda>bs. Inr (b @ bs)))"

section \<open>Packets\<close>

definition PACKET_SYNC_WORD :: int where "PACKET_SYNC_WORD = 0xDEADBEEF"
definition CMD_WRITE_SRAM :: int where "CMD_WRITE_SRAM = 0x01"
definition CMD_WRITE_SYSMEM :: int where "CMD_WRITE_SYSMEM = 0x02"
definition CMD_WRITE_CSR :: int where "CMD_WRITE_CSR = 0x03"
definition CMD_RUN_DMA :: int where "CMD_RUN_DMA = 0x04"
definition CMD_READ_SRAM :: int where "CMD_READ_SRAM = 0x06"
definition CMD_READ_SYSMEM :: int where "CMD_READ_SYSMEM = 0x07"
definition CMD_CRC_SRAM :: int where "CMD_CRC_SRAM = 0x08"
definition CMD_CRC_SYSMEM :: int where "CMD_CRC_SYSMEM = 0x09"
definition CMD_READ_CSR :: int where "CMD_READ_CSR = 0x0A"
definition CMD_ACK :: int where "CMD_ACK = 0xAA"
definition HEADER_SIZE :: nat where "HEADER_SIZE = 13"

definition pack_u8 :: "int \<Rightarrow> bytes result" where
  "pack_u8 v = (if 0 \<le> v \<and> v < 256 then Inr [v] else Inl StructError)"

definition build_packet :: "int \<Rightarrow> int \<Rightarrow> bytes \<Rightarrow> bytes result" where
  "build_packet opcode address payload =
     res_bind (pack_u32 PACKET_SYNC_WORD) (\<lambda>s.
     res_bind (pack_u8 opcode) (\<lambda>c.
     res_bind (pack_u32 address) (\<lambda>a.
     res_bind (pack_u32 (int (length payload))) (\<lambda>n.
       Inr ((s @ c @ a @ n) @ payload)))))"

section \<open>The port\<close>

record 'd serial =
  rx :: bytes
  tx :: bytes
  device :: 'd

type_synonym 'd firmware = "bytes \<Rightarrow> 'd \<Rightarrow> bytes \<times> 'd"

definition ser_write :: "'d firmware \<Rightarrow> bytes \<Rightarrow> ('d serial, unit) act" where
  "ser_write fw bs s = (case fw bs (device s) of
     (reply, d) \<Rightarrow> (Inr (), s\<lparr>rx := rx s @ reply, tx := tx s @ bs, device := d\<rparr>))"

definition ser_read :: "nat \<Rightarrow> ('d serial, bytes) act" where
  "ser_read n s = (Inr (take n (rx s)), s\<lparr>rx := drop n (rx s)\<rparr>)"

section \<open>Waiting for an acknowledgement\<close>

text \<open>The shift register of the last four bytes, newest on top.\<close>

definition shift_in :: "int \<Rightarrow> int \<Rightarrow> int" where
  "shift_in sync_val b = (drop_bit 8 sync_val OR push_bit 24 b) AND 0xFFFFFFFF"

text \<open>
  \<open>wait_for_ack\<close> of \<open>host_runner.py\<close>: false on a timeout while scanning and on anything but ACK;
  \<open>ser.read(1)[0]\<close> raises IndexError when the byte after the sync word does not arrive.
\<close>

fun ack_scan :: "int \<Rightarrow> bytes \<Rightarrow> bool result \<times> bytes" where
  "ack_scan sync_val [] = (Inr False, [])"
| "ack_scan sync_val (b # bs) =
     (let sync_val = shift_in sync_val b
      in if sync_val = PACKET_SYNC_WORD
         then (case bs of [] \<Rightarrow> (Inl IndexError, []) | ack # rest \<Rightarrow> (Inr (ack = CMD_ACK), rest))
         else ack_scan sync_val bs)"

definition wait_for_ack :: "('d serial, bool) act" where
  "wait_for_ack s = (case ack_scan 0 (rx s) of (r, rest) \<Rightarrow> (r, s\<lparr>rx := rest\<rparr>))"

text \<open>
  \<open>_wait_for_ack\<close> of \<open>serial_host.py\<close>: it raises unless an ACK arrives. \<open>polls\<close> is the number of
  times the loop runs before the clock passes the deadline; an empty read is a poll as well.
\<close>

fun ack_poll :: "nat \<Rightarrow> int \<Rightarrow> bytes \<Rightarrow> unit result \<times> bytes" where
  "ack_poll 0 sync_val bs = (Inl (TimeoutError NoAck), bs)"
| "ack_poll (Suc polls) sync_val [] = ack_poll polls sync_val []"
| "ack_poll (Suc polls) sync_val (b # bs) =
     (let sync_val = shift_in sync_val b
      in if sync_val = PACKET_SYNC_WORD
         then (case bs of
                 [] \<Rightarrow> (Inl (TimeoutError AckByteTimeout), [])
               | resp # rest \<Rightarrow>
                   (if resp = CMD_ACK then Inr () else Inl (RuntimeError (FirmwareNack resp)), rest))
         else ack_poll polls sync_val bs)"

definition host_wait_for_ack :: "nat \<Rightarrow> ('d serial, unit) act" where
  "host_wait_for_ack polls s =
     (case ack_poll polls 0 (rx s) of (r, rest) \<Rightarrow> (r, s\<lparr>rx := rest\<rparr>))"

section \<open>Round trips\<close>

lemma le32_bytes: "byte_list (le32 v)"
  by (simp add: byte_list_def le32_def)

lemma length_le32 [simp]: "length (le32 v) = 4"
  by (simp add: le32_def)

lemma four_digits:
  fixes v :: int
  shows "v mod 256 + 256 * (v div 256 mod 256) + 256 * 256 * (v div 256 div 256 mod 256)
    + 256 * 256 * 256 * (v div 256 div 256 div 256) = v"
proof -
  have "v = v mod 256 + 256 * (v div 256)" by simp
  moreover have "v div 256 = v div 256 mod 256 + 256 * (v div 256 div 256)" by simp
  moreover have "v div 256 div 256 = v div 256 div 256 mod 256 + 256 * (v div 256 div 256 div 256)"
    by simp
  ultimately show ?thesis by linarith
qed

lemma unpack_le32:
  assumes "0 \<le> v" and "v < 2 ^ 32"
  shows "unpack_u32 (le32 v) = v"
proof -
  have "0 \<le> v div 256 div 256 div 256" and "v div 256 div 256 div 256 < 256"
    using assms by (simp_all add: zdiv_zmult2_eq [symmetric] div_less_iff_less_mult)
  then show ?thesis using four_digits [of v] by (simp add: unpack_u32_def le32_def)
qed

lemma u32_of_four:
  assumes "byte_list [a, b, c, d]"
  shows "0 \<le> unpack_u32 [a, b, c, d]" and "unpack_u32 [a, b, c, d] < 2 ^ 32"
    and "le32 (unpack_u32 [a, b, c, d]) = [a, b, c, d]"
proof -
  let ?v = "unpack_u32 [a, b, c, d]"
  have v: "?v = field 256 a (field 256 b (field 256 c d))"
    by (simp add: unpack_u32_def field_def)
  have r: "0 \<le> a" "a < 256" "0 \<le> b" "b < 256" "0 \<le> c" "c < 256" "0 \<le> d" "d < 256"
    using assms by (simp_all add: byte_list_def)
  then show "0 \<le> ?v" unfolding v by (simp add: field_nonneg)
  have "?v < 256 * (256 * (256 * 256))"
    unfolding v using r by (intro field_less) simp_all
  then show "?v < 2 ^ 32" by simp
  show "le32 ?v = [a, b, c, d]"
    using r unfolding le32_def v by (simp only: field_mod field_div mod_pos_pos_trivial)
qed

lemma unpack_inject:
  assumes "byte_list xs" and "byte_list ys" and "length xs = 4" and "length ys = 4"
  shows "unpack_u32 xs = unpack_u32 ys \<longleftrightarrow> xs = ys"
proof -
  obtain a b c d where x: "xs = [a, b, c, d]"
    using assms(3) by (auto simp: eval_nat_numeral length_Suc_conv)
  obtain e f g h where y: "ys = [e, f, g, h]"
    using assms(4) by (auto simp: eval_nat_numeral length_Suc_conv)
  show ?thesis
    using u32_of_four(3) [of a b c d] u32_of_four(3) [of e f g h] assms x y by metis
qed

lemma pack_words_ok: "u32s ws \<Longrightarrow> pack_words ws = Inr (concat (map le32 ws))"
  by (induction ws) (simp_all add: pack_u32_def)

lemma pack_words_error: "\<not> u32s ws \<Longrightarrow> pack_words ws = Inl StructError"
  by (induction ws) (auto simp: pack_u32_def pack_words_ok)

section \<open>The shift register as a window of four bytes\<close>

lemma shift_window:
  assumes "byte_list [a, b, c, d, x]"
  shows "shift_in (unpack_u32 [a, b, c, d]) x = unpack_u32 [b, c, d, x]"
proof -
  have r: "0 \<le> a" "a < 256" "0 \<le> b" "b < 256" "0 \<le> c" "c < 256" "0 \<le> d" "d < 256" "0 \<le> x" "x < 256"
    using assms by (simp_all add: byte_list_def)
  let ?h = "field 256 b (field 256 c d)"
  have h: "0 \<le> ?h" "?h < 2 ^ 24"
    using r field_less [of b 256 "field 256 c d" 65536] field_less [of c 256 d 256]
    by (simp_all add: field_nonneg)
  have "unpack_u32 [a, b, c, d] = field 256 a ?h"
    by (simp add: unpack_u32_def field_def)
  then have "drop_bit 8 (unpack_u32 [a, b, c, d]) = ?h"
    using r by (simp add: drop_bit_eq_div)
  then have "shift_in (unpack_u32 [a, b, c, d]) x = field (2 ^ 24) ?h x mod 2 ^ 32"
    using or_field [OF h, of x] by (simp add: shift_in_def bits)
  moreover have "field (2 ^ 24) ?h x < 2 ^ 24 * 256" using h r by (intro field_less) simp_all
  moreover have "0 \<le> field (2 ^ 24) ?h x" using h r by (intro field_nonneg) simp_all
  moreover have "field (2 ^ 24) ?h x = unpack_u32 [b, c, d, x]"
    by (simp add: unpack_u32_def field_def)
  ultimately show ?thesis by simp
qed

definition sync_bytes :: bytes where
  "sync_bytes = le32 PACKET_SYNC_WORD"

lemma sync_bytes_eq: "sync_bytes = [0xEF, 0xBE, 0xAD, 0xDE]"
  by (simp add: sync_bytes_def le32_def PACKET_SYNC_WORD_def)

lemma window_is_sync:
  assumes "byte_list [a, b, c, d]"
  shows "unpack_u32 [a, b, c, d] = PACKET_SYNC_WORD \<longleftrightarrow> [a, b, c, d] = sync_bytes"
proof -
  have "unpack_u32 sync_bytes = PACKET_SYNC_WORD"
    unfolding sync_bytes_def by (rule unpack_le32) (simp_all add: PACKET_SYNC_WORD_def)
  then show ?thesis
    using unpack_inject [OF assms, of sync_bytes] le32_bytes by (simp add: sync_bytes_def)
qed

text \<open>Bytes in front of the sync word that do not contain it are skipped.\<close>

lemma sublist_ConsI: "sublist xs ys \<Longrightarrow> sublist xs (y # ys)"
  by (simp add: sublist_Cons_right)

lemma scan_skips:
  assumes "byte_list ([a, b, c, d] @ pre)" and "\<not> sublist sync_bytes ([a, b, c, d] @ pre)"
  shows "\<exists>e f g h. byte_list [e, f, g, h] \<and>
    (\<forall>bs. ack_scan (unpack_u32 [a, b, c, d]) (pre @ bs) = ack_scan (unpack_u32 [e, f, g, h]) bs)"
  using assms
proof (induction pre arbitrary: a b c d)
  case Nil
  then show ?case by (intro exI [of _ a] exI [of _ b] exI [of _ c] exI [of _ d]) simp
next
  case (Cons x pre)
  have bytes: "byte_list [a, b, c, d, x]" "byte_list [b, c, d, x]" "byte_list ([b, c, d, x] @ pre)"
    using Cons.prems(1) by (simp_all add: byte_list_def)
  have no: "\<not> sublist sync_bytes ([b, c, d, x] @ pre)"
    using Cons.prems(2) sublist_ConsI [of sync_bytes "[b, c, d, x] @ pre" a] by auto
  then have "[b, c, d, x] \<noteq> sync_bytes" by (metis sublist_append_rightI)
  then have "ack_scan (unpack_u32 [a, b, c, d]) ((x # pre) @ bs)
      = ack_scan (unpack_u32 [b, c, d, x]) (pre @ bs)" for bs
    using shift_window [OF bytes(1)] window_is_sync [OF bytes(2)] by simp
  with Cons.IH [OF bytes(3) no] show ?case by simp
qed

lemma scan_sync:
  assumes "byte_list [e, f, g, h]"
  shows "ack_scan (unpack_u32 [e, f, g, h]) (sync_bytes @ a # rest) = (Inr (a = CMD_ACK), rest)"
proof -
  have w: "byte_list [e, f, g, h, 239]" "byte_list [f, g, h, 239, 190]"
    "byte_list [g, h, 239, 190, 173]" "byte_list [h, 239, 190, 173, 222]"
    "byte_list [f, g, h, 239]" "byte_list [g, h, 239, 190]" "byte_list [h, 239, 190, 173]"
    "byte_list [239, 190, 173, 222]"
    using assms by (simp_all add: byte_list_def)
  show ?thesis
    by (simp add: sync_bytes_eq shift_window [OF w(1)] shift_window [OF w(2)] shift_window [OF w(3)]
        shift_window [OF w(4)] window_is_sync [OF w(5)] window_is_sync [OF w(6)]
        window_is_sync [OF w(7)] window_is_sync [OF w(8)])
qed

lemma scan_finds:
  assumes "byte_list pre" and "\<not> sublist sync_bytes pre"
  shows "ack_scan 0 (pre @ sync_bytes @ a # rest) = (Inr (a = CMD_ACK), rest)"
proof -
  have "\<not> sublist sync_bytes ([0, 0, 0, 0] @ pre)"
    using assms(2) by (simp add: sublist_Cons_right sync_bytes_eq)
  moreover have "byte_list ([0, 0, 0, 0] @ pre)" using assms(1) by (simp add: byte_list_def)
  ultimately obtain e f g h where "byte_list [e, f, g, h]"
    and "ack_scan (unpack_u32 [0, 0, 0, 0]) (pre @ sync_bytes @ a # rest)
      = ack_scan (unpack_u32 [e, f, g, h]) (sync_bytes @ a # rest)"
    using scan_skips [of 0 0 0 0 pre] by blast
  with scan_sync show ?thesis by (simp add: unpack_u32_def)
qed

text \<open>With enough polls the two scripts agree on which streams are acknowledged.\<close>

lemma poll_scan:
  "length bs < polls \<Longrightarrow>
   snd (ack_poll polls v bs) = snd (ack_scan v bs) \<and>
   (fst (ack_poll polls v bs) = Inr () \<longleftrightarrow> fst (ack_scan v bs) = Inr True)"
proof (induction v bs arbitrary: polls rule: ack_scan.induct)
  case (1 v)
  have "ack_poll n v [] = (Inl (TimeoutError NoAck), [])" for n
    by (induction n) simp_all
  then show ?case by simp
next
  case (2 v b bs)
  then obtain n where n: "polls = Suc n" "length bs < n" by (cases polls) auto
  show ?case
  proof (cases "shift_in v b = PACKET_SYNC_WORD")
    case True
    with n(1) show ?thesis by (cases bs) (simp_all add: Let_def)
  next
    case False
    with n "2.IH" [OF refl False n(2)] show ?thesis by (simp add: Let_def)
  qed
qed

section \<open>Properties\<close>

text \<open>
  Little-endian words: a 32-bit value packs into four bytes, lowest first, and unpacks to itself.
\<close>

theorem u32_roundtrip:
  assumes "0 \<le> v" and "v < 2 ^ 32"
  shows "pack_u32 v = Inr (le32 v) \<and> unpack_u32 (le32 v) = v \<and> length (le32 v) = 4 \<and>
    byte_list (le32 v)"
  using unpack_le32 [OF assms] le32_bytes [of v] assms by (simp add: pack_u32_def)

theorem u32_roundtrip_witness: "unpack_u32 (le32 0xDEADBEEF) = 0xDEADBEEF"
  using u32_roundtrip [of "0xDEADBEEF"] by simp

text \<open>
  Finding the acknowledgement: whatever bytes come before the sync word, as long as they do not
  contain it, the scan stops right behind it, reports whether the next byte is ACK, and consumes
  exactly that much of the stream.
\<close>

theorem ack_scan_synchronises:
  assumes "byte_list pre" and "\<not> sublist sync_bytes pre"
  shows "wait_for_ack (s\<lparr>rx := pre @ sync_bytes @ a # rest\<rparr>)
    = (Inr (a = CMD_ACK), s\<lparr>rx := rest\<rparr>)"
  using scan_finds [OF assms] by (simp add: wait_for_ack_def)

theorem ack_scan_synchronises_witness:
  "fst (wait_for_ack \<lparr>rx = [0x55, 0xEF, 0xBE, 0xEF] @ sync_bytes @ [0xAA, 7], tx = [],
      device = ()\<rparr>)
    = Inr True"
  using ack_scan_synchronises [where pre = "[0x55, 0xEF, 0xBE, 0xEF]" and a = "0xAA"
      and rest = "[7]" and s = "\<lparr>rx = [], tx = [], device = ()\<rparr>"]
  by (simp add: byte_list_def sync_bytes_eq sublist_Cons_right CMD_ACK_def)

text \<open>
  The two host scripts agree: unless its deadline cuts it short, \<open>serial_host.py\<close> returns
  normally on exactly the byte streams on which \<open>host_runner.py\<close> reports an ACK, and both leave the
  same bytes unread.
\<close>

theorem hosts_agree_on_acks:
  assumes "length (rx s) < polls"
  shows "snd (host_wait_for_ack polls s) = snd (wait_for_ack s) \<and>
    (fst (host_wait_for_ack polls s) = Inr () \<longleftrightarrow> fst (wait_for_ack s) = Inr True)"
  using poll_scan [OF assms, of 0]
  by (cases "ack_poll polls 0 (rx s)"; cases "ack_scan 0 (rx s)")
    (simp add: host_wait_for_ack_def wait_for_ack_def)

theorem hosts_agree_on_acks_witness:
  "fst (host_wait_for_ack 10 \<lparr>rx = sync_bytes @ [0xEE], tx = [], device = ()\<rparr>) \<noteq> Inr ()"
  using hosts_agree_on_acks [of "\<lparr>rx = sync_bytes @ [0xEE], tx = [], device = ()\<rparr>" 10]
    scan_finds [of "[]" "0xEE" "[]"]
  by (simp add: sync_bytes_eq wait_for_ack_def byte_list_def CMD_ACK_def)

end
