(* ===== verification/Crc32.thy ===== *)
theory Crc32
  imports Serial_Link "HOL-Library.Word"
begin

text \<open>
  The CRC both host scripts compare: \<open>zlib.crc32\<close> over words packed little-endian
  (\<open>compute_crc32\<close> of \<open>host_runner.py\<close>, \<open>_crc32_words\<close> of \<open>serial_host.py\<close>). \<open>zlib.crc32\<close> is
  the reflected CRC-32/IEEE: polynomial 0xEDB88320, initial value and final complement all ones.
  The register is a 32-bit word; the theory proves that a single damaged word is always detected.
\<close>

section \<open>The checksum\<close>

definition crc_poly :: "32 word" where
  "crc_poly = 0xEDB88320"

definition crc_bit :: "32 word \<Rightarrow> 32 word" where
  "crc_bit c = (if bit c 0 then drop_bit 1 c XOR crc_poly else drop_bit 1 c)"

definition crc_byte :: "32 word \<Rightarrow> int \<Rightarrow> 32 word" where
  "crc_byte c b = (crc_bit ^^ 8) (c XOR word_of_int b)"

definition zlib_crc32 :: "bytes \<Rightarrow> int" where
  "zlib_crc32 bs = uint (NOT (foldl crc_byte (NOT 0) bs))"

definition compute_crc32 :: "int list \<Rightarrow> int result" where
  "compute_crc32 words =
     res_bind (pack_words words) (\<lambda>data. Inr (zlib_crc32 data AND 0xFFFFFFFF))"

section \<open>Every step is injective\<close>

text \<open>The top bit of the polynomial is set, so the bit shifted out can be read off the result.\<close>

lemma crc_poly_top: "bit crc_poly 31"
  by (simp add: crc_poly_def)

lemma crc_bit_top: "bit (crc_bit c) 31 \<longleftrightarrow> bit c 0"
  using crc_poly_top bit_imp_le_length [of c 32]
  by (auto simp: crc_bit_def bit_simps)

lemma xor_cancel: "a XOR x = b XOR x \<longleftrightarrow> a = b" for a b x :: "32 word"
proof
  assume "a XOR x = b XOR x"
  then have "(a XOR x) XOR x = (b XOR x) XOR x" by simp
  then show "a = b" by (simp add: xor.assoc)
qed simp

lemma crc_bit_inject: "crc_bit c = crc_bit d \<longleftrightarrow> c = d"
proof
  assume eq: "crc_bit c = crc_bit d"
  then have low: "bit c 0 = bit d 0" by (metis crc_bit_top)
  with eq have shift: "drop_bit 1 c = drop_bit 1 d"
    by (simp add: crc_bit_def xor_cancel split: if_splits)
  show "c = d"
  proof (rule bit_word_eqI)
    fix n assume "n < LENGTH(32)"
    have "bit (drop_bit 1 c) (n - 1) = bit (drop_bit 1 d) (n - 1)" by (simp only: shift)
    with low show "bit c n = bit d n" by (cases n) (simp_all add: bit_simps)
  qed
qed simp

lemma crc_bits_inject: "(crc_bit ^^ n) c = (crc_bit ^^ n) d \<longleftrightarrow> c = d"
  by (induction n) (simp_all add: crc_bit_inject)

section \<open>The checksum word by word\<close>

lemma crc_bit_xor: "crc_bit (a XOR b) = crc_bit a XOR crc_bit b"
proof -
  have "drop_bit 1 (a XOR b) = drop_bit 1 a XOR drop_bit 1 b" by (rule drop_bit_xor)
  then show ?thesis
    by (simp add: crc_bit_def bit_xor_iff ac_simps)
qed

lemma crc_bits_xor: "(crc_bit ^^ n) (a XOR b) = (crc_bit ^^ n) a XOR (crc_bit ^^ n) b"
  by (induction n) (simp_all add: crc_bit_xor)

lemma crc_bit_push:
  assumes "\<not> bit y 31"
  shows "crc_bit (push_bit 1 y) = y"
proof -
  have "drop_bit 1 (push_bit 1 y) = y"
  proof (rule bit_word_eqI)
    fix n assume "n < LENGTH(32)"
    with assms show "bit (drop_bit 1 (push_bit 1 y)) n = bit y n"
      unfolding bit_drop_bit_eq bit_push_bit_iff by (cases "n = 31") auto
  qed
  moreover have "\<not> bit (push_bit 1 y) 0" unfolding bit_push_bit_iff by simp
  ultimately show ?thesis by (simp add: crc_bit_def del: push_bit_Suc)
qed

lemma crc_bits_push:
  assumes "\<And>n. 32 - k \<le> n \<Longrightarrow> \<not> bit y n" and "k \<le> 32"
  shows "(crc_bit ^^ k) (push_bit k y) = y"
  using assms
proof (induction k)
  case 0
  then show ?case by simp
next
  case (Suc k)
  have push: "push_bit (Suc k) y = push_bit 1 (push_bit k y)"
    unfolding push_bit_push_bit by simp
  have "\<not> bit (push_bit k y) 31" using Suc.prems by (simp add: bit_simps)
  then have "(crc_bit ^^ Suc k) (push_bit (Suc k) y) = (crc_bit ^^ k) (push_bit k y)"
    unfolding push funpow_Suc_right comp_def by (simp only: crc_bit_push not_False_eq_True)
  also have "\<dots> = y" using Suc by simp
  finally show ?case .
qed

lemma word_split:
  "(word_of_int v :: 32 word)
    = word_of_int (v mod 256) XOR push_bit 8 (word_of_int (v div 256))"
proof (rule bit_word_eqI)
  fix n assume n: "n < LENGTH(32)"
  have m: "v mod 256 = take_bit 8 v" and d: "v div 256 = drop_bit 8 v"
    by (simp_all add: take_bit_eq_mod drop_bit_eq_div)
  show "bit (word_of_int v :: 32 word) n
      = bit (word_of_int (v mod 256) XOR push_bit 8 (word_of_int (v div 256)) :: 32 word) n"
    unfolding m d using n by (auto simp: bit_simps)
qed

lemma crc_one_byte:
  assumes "0 \<le> v" and "v < 2 ^ 32"
  shows "(crc_bit ^^ 8) (c XOR word_of_int v)
    = crc_byte c (v mod 256) XOR word_of_int (v div 256)"
proof -
  have "\<not> bit (word_of_int (v div 256) :: 32 word) n" if "32 - 8 \<le> n" for n
  proof -
    have "take_bit 24 (v div 256) = v div 256"
      using assms by (simp add: take_bit_int_eq_self div_less_iff_less_mult)
    moreover have "bit (take_bit 24 (v div 256)) n \<longleftrightarrow> n < 24 \<and> bit (v div 256) n"
      by (rule bit_take_bit_iff)
    ultimately have "\<not> bit (v div 256) n" using that by simp
    then show ?thesis by (simp add: bit_simps)
  qed
  then have "(crc_bit ^^ 8) (push_bit 8 (word_of_int (v div 256))) = (word_of_int (v div 256) :: 32 word)"
    by (intro crc_bits_push) simp_all
  then show ?thesis
    by (subst word_split) (simp only: xor.assoc [symmetric] crc_bits_xor crc_byte_def)
qed

definition crc_word :: "32 word \<Rightarrow> int \<Rightarrow> 32 word" where
  "crc_word c w = (crc_bit ^^ 32) (c XOR word_of_int w)"

lemma crc_le32:
  assumes "0 \<le> w" and "w < 2 ^ 32"
  shows "foldl crc_byte c (le32 w) = crc_word c w"
proof -
  let ?v1 = "w div 256" and ?v2 = "w div 256 div 256" and ?v3 = "w div 256 div 256 div 256"
  have r: "0 \<le> ?v1" "?v1 < 2 ^ 32" "0 \<le> ?v2" "?v2 < 2 ^ 32" "0 \<le> ?v3" "?v3 < 2 ^ 32"
    "?v3 div 256 = 0"
    using assms by (simp_all add: zdiv_zmult2_eq [symmetric] div_less_iff_less_mult)
  have "(crc_bit ^^ 32) x = (crc_bit ^^ 8) ((crc_bit ^^ 8) ((crc_bit ^^ 8) ((crc_bit ^^ 8) x)))"
    for x by (simp add: funpow_add [symmetric, THEN fun_cong, unfolded o_def])
  then show ?thesis
    unfolding crc_word_def le32_def
    by (simp add: crc_one_byte [OF assms] crc_one_byte [OF r(1,2)] crc_one_byte [OF r(3,4)]
        crc_one_byte [OF r(5,6)] r(7))
qed

lemma crc_words:
  "u32s ws \<Longrightarrow> foldl crc_byte c (concat (map le32 ws)) = foldl crc_word c ws"
  by (induction ws arbitrary: c) (simp_all add: crc_le32)

lemma crc_word_inject: "crc_word c w = crc_word d w \<longleftrightarrow> c = d"
  by (simp add: crc_word_def crc_bits_inject xor_cancel)

lemma crc_words_inject: "foldl crc_word c ws = foldl crc_word d ws \<longleftrightarrow> c = d"
  by (induction ws arbitrary: c d) (simp_all add: crc_word_inject)

lemma crc_word_data:
  assumes "0 \<le> x" and "x < 2 ^ 32" and "0 \<le> y" and "y < 2 ^ 32"
  shows "crc_word c x = crc_word c y \<longleftrightarrow> x = y"
proof -
  have "(word_of_int x :: 32 word) = word_of_int y \<longleftrightarrow> x = y"
    using assms by (simp add: word_of_int_eq_iff take_bit_int_eq_self)
  then show ?thesis
    by (simp add: crc_word_def crc_bits_inject) (metis xor_cancel xor.commute)
qed

lemma compute_crc32_words:
  assumes "u32s ws"
  shows "compute_crc32 ws = Inr (uint (NOT (foldl crc_word (NOT 0) ws)))"
proof -
  let ?c = "NOT (foldl crc_word (NOT 0) ws) :: 32 word"
  have "uint ?c AND 0xFFFFFFFF = uint ?c"
    using uint_bounded [of ?c] unfolding bits by (simp add: mod_pos_pos_trivial)
  with assms show ?thesis
    by (simp add: compute_crc32_def pack_words_ok zlib_crc32_def crc_words)
qed

lemma uint_not_inject: "uint (NOT a) = uint (NOT b) \<longleftrightarrow> a = b" for a b :: "32 word"
  unfolding word_uint_eq_iff [symmetric] by (rule bit.compl_eq_compl_iff)

section \<open>Properties\<close>

text \<open>
  A single damaged word is always detected: two word lists that differ in exactly one place,
  whatever the damage and wherever it is, have different checksums.
\<close>

theorem crc_detects_one_word:
  assumes "u32s (pre @ x # post)" and "0 \<le> y" and "y < 2 ^ 32" and "x \<noteq> y"
  shows "compute_crc32 (pre @ x # post) \<noteq> compute_crc32 (pre @ y # post)"
proof -
  have "u32s (pre @ y # post)" using assms by simp
  moreover have "foldl crc_word (NOT 0) (pre @ x # post) \<noteq> foldl crc_word (NOT 0) (pre @ y # post)"
    using assms by (simp add: crc_words_inject crc_word_data)
  ultimately show ?thesis using assms(1) by (simp add: compute_crc32_words uint_not_inject)
qed

theorem crc_detects_one_word_witness:
  "compute_crc32 [1, 2, 3] \<noteq> compute_crc32 [1, 0x80000002, 3]"
  using crc_detects_one_word [of "[1]" 2 "[3]" "0x80000002"] by simp

text \<open>
  The checksum of a list of 32-bit words is a 32-bit number; a list with any other number in it
  raises \<open>struct.error\<close>.
\<close>

theorem crc_total:
  "compute_crc32 ws = (if u32s ws then Inr (uint (NOT (foldl crc_word (NOT 0) ws)))
     else Inl StructError)"
  by (simp add: compute_crc32_words) (simp add: compute_crc32_def pack_words_error)

end
