(* ===== verification/Host_Runner.thy ===== *)
theory Host_Runner
  imports Crc32 Py_Text
begin

text \<open>
  The host script \<open>firmware&local/host_runner.py\<close>: it sends the directives of a stimulus file over
  the serial port, keeps the images of what it loaded, walks the descriptor ring of those images to
  know what each transfer should move, and verifies the transfers by reading back a word and two
  checksums. The firmware \<open>fw\<close> is a parameter, and so is \<open>viz\<close>, whether the viewer is on: then the
  verification reads every cell once more. What is sent to the viewer is added in \<open>Watched_Run\<close>; what
  is printed is not modelled.
\<close>

section \<open>Register access\<close>

definition CSR_OFF_BASEADDR :: int where "CSR_OFF_BASEADDR = 0x00"
definition CSR_OFF_HEAD :: int where "CSR_OFF_HEAD = 0x08"
definition CSR_OFF_TAIL :: int where "CSR_OFF_TAIL = 0x0C"
definition CSR_OFF_STATUS :: int where "CSR_OFF_STATUS = 0x14"
definition CSR_OFF_IRQ_STATUS :: int where "CSR_OFF_IRQ_STATUS = 0x18"
definition CSR_BASE :: int where "CSR_BASE = 0x80000000"

text \<open>\<open>ser.write(build_packet(opcode, addr, payload))\<close>.\<close>

definition send_packet :: "'d firmware \<Rightarrow> int \<Rightarrow> int \<Rightarrow> bytes \<Rightarrow> ('d serial, unit) act" where
  "send_packet fw opcode addr payload =
     act_bind (act_read (\<lambda>_. build_packet opcode addr payload)) (\<lambda>p. ser_write fw p)"

definition read_reply :: "('d serial, int option) act" where
  "read_reply = act_bind wait_for_ack (\<lambda>ok.
     if ok then act_bind (ser_read 4) (\<lambda>data.
       act_return (if length data = 4 then Some (unpack_u32 data) else None))
     else act_return None)"

definition read_memory :: "'d firmware \<Rightarrow> int \<Rightarrow> int \<Rightarrow> ('d serial, int option) act" where
  "read_memory fw opcode addr = act_bind (send_packet fw opcode addr []) (\<lambda>_. read_reply)"

definition csr_read_uart :: "'d firmware \<Rightarrow> int \<Rightarrow> ('d serial, int option) act" where
  "csr_read_uart fw offset = read_memory fw CMD_READ_CSR (CSR_BASE + offset)"

definition request_crc :: "'d firmware \<Rightarrow> int \<Rightarrow> int \<Rightarrow> int \<Rightarrow> ('d serial, int option) act" where
  "request_crc fw opcode addr byte_len =
     act_bind (act_read (\<lambda>_. pack_u32 byte_len)) (\<lambda>payload.
     act_bind (send_packet fw opcode addr payload) (\<lambda>_. read_reply))"

section \<open>The stimulus file\<close>

record images =
  sysmem_image :: "int \<Rightarrow> int option"
  sram_image :: "int \<Rightarrow> int option"
  csr_writes :: "int \<Rightarrow> int option"

definition no_images :: images where
  "no_images = \<lparr>sysmem_image = (\<lambda>_. None), sram_image = (\<lambda>_. None), csr_writes = (\<lambda>_. None)\<rparr>"

record 'd loader =
  ld_serial :: "'d serial"
  ld_images :: images

definition on_serial :: "('d serial, 'a) act \<Rightarrow> ('d loader, 'a) act" where
  "on_serial = zoom ld_serial (\<lambda>s l. l\<lparr>ld_serial := s\<rparr>)"

definition note_images :: "(images \<Rightarrow> images) \<Rightarrow> ('d loader, unit) act" where
  "note_images f = act_modify (\<lambda>l. l\<lparr>ld_images := f (ld_images l)\<rparr>)"

text \<open>\<open>int(parts[i], 16)\<close>.\<close>

definition hex_field :: "string list \<Rightarrow> nat \<Rightarrow> int result" where
  "hex_field parts i = (if i < length parts
     then (case py_int 16 (parts ! i) of
             None \<Rightarrow> Inl (ValueError (BadLiteral (parts ! i) 16)) | Some n \<Rightarrow> Inr n)
     else Inl IndexError)"

text \<open>A packet that must be acknowledged; otherwise \<open>sys.exit(1)\<close>.\<close>

definition send_acked :: "'d firmware \<Rightarrow> int \<Rightarrow> int \<Rightarrow> int \<Rightarrow> ('d loader, unit) act" where
  "send_acked fw opcode addr value =
     act_bind (act_read (\<lambda>_. pack_u32 value)) (\<lambda>payload.
     act_bind (on_serial (send_packet fw opcode addr payload)) (\<lambda>_.
     act_bind (on_serial wait_for_ack) (\<lambda>ok.
       if ok then act_return () else act_raise (SystemExit 1))))"

definition stim_csr_write :: "'d firmware \<Rightarrow> int \<Rightarrow> string list \<Rightarrow> ('d loader, unit) act" where
  "stim_csr_write fw csr_base_addr parts =
     act_bind (act_read (\<lambda>_. hex_field parts 1)) (\<lambda>offset.
     act_bind (act_read (\<lambda>_. hex_field parts 2)) (\<lambda>value.
       let addr = csr_base_addr + offset
       in act_bind (note_images (\<lambda>im. im\<lparr>csr_writes := (csr_writes im)(offset \<mapsto> value)\<rparr>)) (\<lambda>_.
          send_acked fw CMD_WRITE_CSR addr value)))"

definition stim_mem_write :: "'d firmware \<Rightarrow> string list \<Rightarrow> ('d loader, unit) act" where
  "stim_mem_write fw parts =
     act_bind (act_read (\<lambda>_. hex_field parts 1)) (\<lambda>addr.
     act_bind (act_read (\<lambda>_. hex_field parts 2)) (\<lambda>value.
       if parts ! 0 = ''sysmem_write''
       then act_bind (note_images (\<lambda>im. im\<lparr>sysmem_image := (sysmem_image im)(addr \<mapsto> value)\<rparr>)) (\<lambda>_.
              send_acked fw CMD_WRITE_SYSMEM addr value)
       else act_bind (note_images (\<lambda>im. im\<lparr>sram_image := (sram_image im)(addr \<mapsto> value)\<rparr>)) (\<lambda>_.
              send_acked fw CMD_WRITE_SRAM addr value)))"

definition stim_mem_read :: "'d firmware \<Rightarrow> string list \<Rightarrow> ('d loader, unit) act" where
  "stim_mem_read fw parts =
     act_bind (act_read (\<lambda>_. hex_field parts 1)) (\<lambda>addr.
       let opcode = (if parts ! 0 = ''sysmem_read'' then CMD_READ_SYSMEM else CMD_READ_SRAM)
       in act_bind (on_serial (read_memory fw opcode addr)) (\<lambda>val.
            case val of None \<Rightarrow> act_raise (SystemExit 1) | Some _ \<Rightarrow> act_return ()))"

definition stim_directive :: "'d firmware \<Rightarrow> int \<Rightarrow> string \<Rightarrow> ('d loader, unit) act" where
  "stim_directive fw csr_base_addr raw =
     (let line = py_strip raw
      in if line = [] \<or> take 1 line = ''#'' then act_return ()
         else let parts = py_split line
              in if parts ! 0 = ''csr_write'' then stim_csr_write fw csr_base_addr parts
                 else if parts ! 0 \<in> {''sysmem_write'', ''sram_write''} then stim_mem_write fw parts
                 else if parts ! 0 \<in> {''sysmem_read'', ''sram_read''} then stim_mem_read fw parts
                 else act_return ())"

section \<open>The expected transfers\<close>

record transfer =
  src_addr :: int
  dst_addr :: int
  len_words :: int
  direction :: int
  expected_words :: "int list"

definition dict_get :: "(int \<Rightarrow> int option) \<Rightarrow> int \<Rightarrow> int" where
  "dict_get m k = (case m k of None \<Rightarrow> 0 | Some v \<Rightarrow> v)"

definition ring_transfer :: "images \<Rightarrow> int \<Rightarrow> transfer" where
  "ring_transfer im i =
     (let desc_off = dict_get (csr_writes im) CSR_OFF_BASEADDR + i * 16;
          desc_src = dict_get (sysmem_image im) (desc_off + 0x00);
          desc_dst = dict_get (sysmem_image im) (desc_off + 0x04);
          desc_len = dict_get (sysmem_image im) (desc_off + 0x08) AND 0xFF;
          desc_flags = dict_get (sysmem_image im) (desc_off + 0x0C);
          desc_dir = desc_flags AND 1;
          src_image = (if desc_dir = 1 then sysmem_image im else sram_image im)
      in \<lparr>src_addr = desc_src, dst_addr = desc_dst, len_words = desc_len, direction = desc_dir,
          expected_words = map (\<lambda>j. dict_get src_image (desc_src + j * 4)) (py_range desc_len)\<rparr>)"

definition ring_transfers :: "images \<Rightarrow> transfer list" where
  "ring_transfers im = map (ring_transfer im) (py_range (dict_get (csr_writes im) CSR_OFF_TAIL))"

definition parse_stimulus ::
  "'d firmware \<Rightarrow> string list \<Rightarrow> int \<Rightarrow> ('d serial, transfer list) act" where
  "parse_stimulus fw lines csr_base_addr s =
     (case for_each (stim_directive fw csr_base_addr) lines \<lparr>ld_serial = s, ld_images = no_images\<rparr> of
        (Inl e, l) \<Rightarrow> (Inl e, ld_serial l)
      | (Inr _, l) \<Rightarrow> (Inr (ring_transfers (ld_images l)), ld_serial l))"

section \<open>Verification\<close>

text \<open>With the viewer on, every destination and every source cell is read once more, for display.\<close>

definition read_cells :: "'d firmware \<Rightarrow> int \<Rightarrow> int \<Rightarrow> int \<Rightarrow> ('d serial, unit) act" where
  "read_cells fw opcode addr n =
     for_each (\<lambda>j. act_bind (read_memory fw opcode (addr + j * 4)) (\<lambda>_. act_return ())) (py_range n)"

definition verify_one_transfer :: "'d firmware \<Rightarrow> bool \<Rightarrow> transfer \<Rightarrow> ('d serial, bool) act" where
  "verify_one_transfer fw viz t =
     (if len_words t = 0 then act_return True
      else
        act_bind (act_read (\<lambda>_. compute_crc32 (expected_words t))) (\<lambda>expected_crc.
        let byte_len = len_words t * 4;
            (dst_crc_op, src_crc_op, dst_read_op, src_read_op) =
              (if direction t = 1
               then (CMD_CRC_SRAM, CMD_CRC_SYSMEM, CMD_READ_SRAM, CMD_READ_SYSMEM)
               else (CMD_CRC_SYSMEM, CMD_CRC_SRAM, CMD_READ_SYSMEM, CMD_READ_SRAM))
        in act_bind (if viz then act_bind (read_cells fw dst_read_op (dst_addr t) (len_words t))
                       (\<lambda>_. read_cells fw src_read_op (src_addr t) (len_words t))
                     else act_return ()) (\<lambda>_.
           act_bind (read_memory fw dst_read_op (dst_addr t)) (\<lambda>val.
           act_bind (act_read (\<lambda>_. case val of None \<Rightarrow> Inr False
             | Some v \<Rightarrow> res_bind (py_getitem (expected_words t) 0) (\<lambda>w. Inr (v = w)))) (\<lambda>word_ok.
           act_bind (request_crc fw dst_crc_op (dst_addr t) byte_len) (\<lambda>fw_crc_dst.
           act_bind (request_crc fw src_crc_op (src_addr t) byte_len) (\<lambda>fw_crc_src.
             act_return (word_ok \<and> fw_crc_dst = Some expected_crc
               \<and> fw_crc_src = Some expected_crc))))))))"

definition verify_dma_result :: "'d firmware \<Rightarrow> bool \<Rightarrow> transfer list \<Rightarrow> ('d serial, bool) act" where
  "verify_dma_result fw viz transfers =
     (if transfers = [] then act_return False
      else act_bind (map_each (verify_one_transfer fw viz) transfers) (\<lambda>oks. act_return (list_all id oks)))"

section \<open>The whole run\<close>

definition run_dma_command :: "'d firmware \<Rightarrow> ('d serial, bool) act" where
  "run_dma_command fw = act_bind (send_packet fw CMD_RUN_DMA 0x00000000 []) (\<lambda>_. wait_for_ack)"

text \<open>
  The register dump only prints, but it reads four registers, and \<open>hex(irq_status)\<close> raises TypeError
  when STATUS could be read and IRQ_STATUS could not.
\<close>

definition dump_csr_status :: "'d firmware \<Rightarrow> ('d serial, unit) act" where
  "dump_csr_status fw =
     act_bind (csr_read_uart fw CSR_OFF_STATUS) (\<lambda>status.
     act_bind (csr_read_uart fw CSR_OFF_IRQ_STATUS) (\<lambda>irq_status.
     act_bind (csr_read_uart fw CSR_OFF_HEAD) (\<lambda>head.
     act_bind (csr_read_uart fw CSR_OFF_TAIL) (\<lambda>tail.
       if status \<noteq> None \<and> irq_status = None then act_raise TypeError else act_return ()))))"

text \<open>\<open>main\<close> from the stimulus on; the result is the exit status.\<close>

definition host_session :: "'d firmware \<Rightarrow> bool \<Rightarrow> string list \<Rightarrow> ('d serial, int) act" where
  "host_session fw viz lines =
     act_bind (parse_stimulus fw lines CSR_BASE) (\<lambda>transfers.
     act_bind (run_dma_command fw) (\<lambda>dma_ok.
     act_bind (dump_csr_status fw) (\<lambda>_.
       act_bind (if dma_ok then act_bind (verify_dma_result fw viz transfers) (\<lambda>_. act_return ())
                 else act_return ()) (\<lambda>_.
       act_return (if dma_ok then 0 else 1)))))"

section \<open>The images of a stimulus file\<close>

text \<open>What a directive that was sent and acknowledged does to the images.\<close>

definition line_images :: "string \<Rightarrow> images \<Rightarrow> images" where
  "line_images raw im =
     (let line = py_strip raw; parts = py_split line
      in if line = [] \<or> take 1 line = ''#'' then im
         else (case (hex_field parts 1, hex_field parts 2) of
           (Inr a, Inr v) \<Rightarrow>
             if parts ! 0 = ''csr_write'' then im\<lparr>csr_writes := (csr_writes im)(a \<mapsto> v)\<rparr>
             else if parts ! 0 = ''sysmem_write''
               then im\<lparr>sysmem_image := (sysmem_image im)(a \<mapsto> v)\<rparr>
             else if parts ! 0 = ''sram_write''
               then im\<lparr>sram_image := (sram_image im)(a \<mapsto> v)\<rparr>
             else im
         | _ \<Rightarrow> im))"

lemma on_serial_images: "ld_images (snd (on_serial m l)) = ld_images l"
  by (simp add: on_serial_def zoom_def split: prod.split)

lemma on_serial_result: "on_serial m l = (r, t) \<Longrightarrow> ld_images t = ld_images l"
  using on_serial_images [of m l] by simp

lemma send_acked_images: "ld_images (snd (send_acked fw opcode addr value l)) = ld_images l"
proof -
  let ?I = "\<lambda>k. ld_images k = ld_images l"
  have "preserves ?I (on_serial m)" for m :: "('a serial, 'b) act"
    by (rule preservesI) (simp add: on_serial_images)
  moreover have "preserves ?I (on_serial m)" for m :: "('a serial, unit) act"
    by (rule preservesI) (simp add: on_serial_images)
  moreover have "preserves ?I (on_serial m)" for m :: "('a serial, bool) act"
    by (rule preservesI) (simp add: on_serial_images)
  ultimately have "preserves ?I (send_acked fw opcode addr value)"
    unfolding send_acked_def by (intro pres)
  then show ?thesis by (simp add: preserves_def)
qed

lemma stim_mem_read_images:
  "stim_mem_read fw parts l = (Inr (), l') \<Longrightarrow> ld_images l' = ld_images l"
  by (auto simp: stim_mem_read_def act_bind_eq_Inr act_simps Let_def dest!: on_serial_result
      split: option.splits if_splits sum.splits)

lemma acked_after_note:
  assumes "act_bind (note_images f) (\<lambda>_. send_acked fw opcode addr value) l = (Inr (), l')"
  shows "ld_images l' = f (ld_images l)"
  using assms send_acked_images [of fw opcode addr "value" "l\<lparr>ld_images := f (ld_images l)\<rparr>"]
  by (simp add: note_images_def act_simps)

lemma directive_images:
  assumes "stim_directive fw base raw l = (Inr (), l')"
  shows "ld_images l' = line_images raw (ld_images l)"
proof (cases "py_strip raw = [] \<or> take 1 (py_strip raw) = ''#''")
  case True
  with assms show ?thesis by (auto simp: stim_directive_def line_images_def act_simps)
next
  case False
  let ?parts = "py_split (py_strip raw)"
  from False assms have run: "(if ?parts ! 0 = ''csr_write'' then stim_csr_write fw base ?parts
      else if ?parts ! 0 \<in> {''sysmem_write'', ''sram_write''} then stim_mem_write fw ?parts
      else if ?parts ! 0 \<in> {''sysmem_read'', ''sram_read''} then stim_mem_read fw ?parts
      else act_return ()) l = (Inr (), l')"
    by (simp add: stim_directive_def Let_def)
  consider (csr) "?parts ! 0 = ''csr_write''" | (sys) "?parts ! 0 = ''sysmem_write''"
    | (ram) "?parts ! 0 = ''sram_write''"
    | (rd) "?parts ! 0 = ''sysmem_read'' \<or> ?parts ! 0 = ''sram_read''"
    | (other) "?parts ! 0 \<notin> {''csr_write'', ''sysmem_write'', ''sram_write'', ''sysmem_read'', ''sram_read''}"
    by blast
  then show ?thesis
  proof cases
    case csr
    with run False show ?thesis
      by (auto simp: stim_csr_write_def act_simps line_images_def Let_def dest!: acked_after_note
          split: sum.splits)
  next
    case sys
    with run False show ?thesis
      by (auto simp: stim_mem_write_def act_simps line_images_def Let_def dest!: acked_after_note
          split: sum.splits)
  next
    case ram
    with run False show ?thesis
      by (auto simp: stim_mem_write_def act_simps line_images_def Let_def dest!: acked_after_note
          split: sum.splits)
  next
    case rd
    with run have "stim_mem_read fw ?parts l = (Inr (), l')" by auto
    with rd False show ?thesis
      by (auto simp: line_images_def Let_def dest!: stim_mem_read_images split: sum.splits)
  next
    case other
    with run have "l' = l" by (simp add: act_simps)
    with other False show ?thesis by (auto simp: line_images_def Let_def split: sum.splits)
  qed
qed

lemma directives_images:
  "for_each (stim_directive fw base) lines l = (Inr (), l') \<Longrightarrow>
   ld_images l' = fold line_images lines (ld_images l)"
proof (induction lines arbitrary: l)
  case Nil
  then show ?case by (simp add: act_simps)
next
  case (Cons raw lines)
  then show ?case by (auto simp: act_bind_eq_Inr dest: directive_images)
qed

lemma parse_stimulus_images:
  assumes "parse_stimulus fw lines base s = (Inr ts, s')"
  shows "ts = ring_transfers (fold line_images lines no_images)"
proof -
  obtain r l where run: "for_each (stim_directive fw base) lines
      \<lparr>ld_serial = s, ld_images = no_images\<rparr> = (r, l)" by fastforce
  with assms have "r = Inr ()" and "ts = ring_transfers (ld_images l)"
    by (auto simp: parse_stimulus_def split: sum.splits)
  with directives_images [of fw base lines "\<lparr>ld_serial = s, ld_images = no_images\<rparr>" l] run
  show ?thesis by simp
qed

end
