(* ===== verification/Replay.thy ===== *)
theory Replay
  imports Scenario Host_Runner
begin

text \<open>
  From the golden model to the host: the stimulus lines that \<open>run_scenario\<close> emits, read back by
  \<open>parse_stimulus\<close> of \<open>host_runner.py\<close>, rebuild the memories and the registers of the model after
  setup, and the transfers the host expects are the descriptors pending in the model's ring.
\<close>

section \<open>Reading one line back\<close>

lemma three_fields:
  assumes "w \<noteq> []" and "\<forall>c \<in> set w. \<not> is_space c"
  shows "py_split (w @ '' '' @ fmt_hex k a @ '' '' @ fmt_hex m d) = [w, fmt_hex k a, fmt_hex m d]"
  using split_word [OF assms] by (simp add: hex.split_print_rest hex.split_print_end)

lemma line_trimmed:
  assumes "w \<noteq> []" and "\<not> is_space (hd w)"
  shows "py_strip (w @ '' '' @ fmt_hex k a @ '' '' @ fmt_hex m d)
    = w @ '' '' @ fmt_hex k a @ '' '' @ fmt_hex m d"
proof (rule strip_trimmed)
  have "last (fmt_hex m d) \<in> set (fmt_hex m d)" using hex.print_nonempty by simp
  then have "\<not> is_space (last (fmt_hex m d))" by (rule hex.print_chars)
  then show "\<not> is_space (last (w @ '' '' @ fmt_hex k a @ '' '' @ fmt_hex m d))"
    using hex.print_nonempty [of m d] by (simp add: last_append)
qed (use assms in simp_all)

lemma line_images_fields:
  assumes "w \<noteq> []" and "\<forall>c \<in> set w. \<not> is_space c" and "hd w \<noteq> CHR ''#''"
  shows "line_images (w @ '' '' @ fmt_hex k a @ '' '' @ fmt_hex m d) im =
    (if w = ''csr_write'' then im\<lparr>csr_writes := (csr_writes im)(a \<mapsto> d)\<rparr>
     else if w = ''sysmem_write'' then im\<lparr>sysmem_image := (sysmem_image im)(a \<mapsto> d)\<rparr>
     else if w = ''sram_write'' then im\<lparr>sram_image := (sram_image im)(a \<mapsto> d)\<rparr> else im)"
proof -
  have "\<not> is_space (hd w)" using assms(1,2) by simp
  moreover have "take 1 (w @ s) \<noteq> ''#''" for s using assms(1,3) by (cases w) auto
  ultimately show ?thesis
    using assms(1) three_fields [OF assms(1,2), of k a m d] line_trimmed [OF assms(1), of k a m d]
    by (simp add: line_images_def Let_def hex_field_def hex.parse_print)
qed

lemma emitted_images:
  "line_images (sysmem_line a d) im = im\<lparr>sysmem_image := (sysmem_image im)(a \<mapsto> d)\<rparr>"
  "line_images (sram_line a d) im = im\<lparr>sram_image := (sram_image im)(a \<mapsto> d)\<rparr>"
  "line_images (csr_line a d) im = im\<lparr>csr_writes := (csr_writes im)(a \<mapsto> d)\<rparr>"
  using line_images_fields [of "''sysmem_write''" 8 a 8 d im]
    line_images_fields [of "''sram_write''" 8 a 8 d im]
    line_images_fields [of "''csr_write''" 2 a 8 d im]
  by (simp_all add: sysmem_line_def sram_line_def csr_line_def is_space_def Let_def)

section \<open>The images describe the model\<close>

definition loaded :: "golden \<Rightarrow> images \<Rightarrow> bool" where
  "loaded g im \<longleftrightarrow>
     (\<forall>i < length (smem g). dict_get (sysmem_image im) (4 * int i) = smem g ! i) \<and>
     (\<forall>i < length (bram g). dict_get (sram_image im) (4 * int i) = bram g ! i) \<and>
     dict_get (csr_writes im) REG_BASEADDR = reg (g_csr g) REG_BASEADDR \<and>
     dict_get (csr_writes im) REG_TAIL = reg (g_csr g) REG_TAIL"

abbreviation replayed :: "golden \<Rightarrow> images" where
  "replayed g \<equiv> fold line_images (gd_stim g) no_images"

text \<open>
  The rows for which the stimulus means to say the same as the model: no negative index, and
  descriptors only on a well-formed ring.
\<close>

definition row_fine :: "string list \<Rightarrow> golden \<Rightarrow> bool" where
  "row_fine row g = (case parse_row row of
     None \<Rightarrow> True
   | Some (op, args) \<Rightarrow>
       if op = ''smem'' \<or> op = ''sram''
       then (case int_arg 10 args 0 of Inr wi \<Rightarrow> 0 \<le> wi | Inl _ \<Rightarrow> True)
       else if op = ''desc'' then ring_ok (gd_ring g)
       else True)"

fun rows_fine :: "int \<Rightarrow> int \<Rightarrow> string list list \<Rightarrow> golden \<Rightarrow> bool" where
  "rows_fine sw bw [] g \<longleftrightarrow> True"
| "rows_fine sw bw (row # rows) g \<longleftrightarrow>
     row_fine row g \<and> rows_fine sw bw rows (snd (run_row sw bw row g))"

lemma dict_get_update [simp]: "dict_get (m(a \<mapsto> v)) k = (if k = a then v else dict_get m k)"
  by (simp add: dict_get_def)

lemma loaded_init:
  assumes "golden_init sw bw = Inr g"
  shows "loaded g (replayed g)"
  using assms
  by (auto simp: golden_init_def system_memory_init_def sram_init_def fifo_init_def FIFO_DEPTH_def
      DM_DEPTH_def MID_DEPTH_def loaded_def no_images_def dict_get_def reg_csr_init split: if_splits)

text \<open>What each successful row does, and that the lines it emits say so.\<close>

lemma loaded_smem:
  assumes "loaded g im" and "gd_ring g' = set_ring_mem ((smem g)[i := v]) (gd_ring g)"
    and "gd_sram g' = gd_sram g"
  shows "loaded g' (im\<lparr>sysmem_image := (sysmem_image im)(4 * int i \<mapsto> v)\<rparr>)"
  using assms by (auto simp: loaded_def nth_list_update)

lemma loaded_bram:
  assumes "loaded g im" and "gd_sram g' = (gd_sram g)\<lparr>sr_mem := (bram g)[i := v]\<rparr>"
    and "gd_ring g' = gd_ring g"
  shows "loaded g' (im\<lparr>sram_image := (sram_image im)(4 * int i \<mapsto> v)\<rparr>)"
  using assms by (auto simp: loaded_def nth_list_update)

lemma loaded_stim [simp]: "loaded (g\<lparr>gd_stim := xs\<rparr>) im = loaded g im"
  by (simp add: loaded_def)

lemma op_smem_effect:
  assumes "op_smem sw args g = (Inr (), g')" and "int_arg 10 args 0 = Inr wi" and "0 \<le> wi"
  shows "\<exists>i d. i < length (smem g) \<and> 0 \<le> d \<and> d < 2 ^ 32 \<and>
    g' = g\<lparr>gd_ring := set_ring_mem ((smem g)[i := d]) (gd_ring g),
      gd_stim := gd_stim g @ [sysmem_line (4 * int i) d]\<rparr>"
proof -
  obtain v where v: "int_arg 16 args 1 = Inr v"
    using assms(1,2) by (cases "int_arg 16 args 1") (auto simp: op_smem_def act_simps)
  let ?d = "v AND 0xFFFFFFFF"
  have run: "act_bind (on_ring (mem_set wi ?d)) (\<lambda>_. emit (sysmem_line (wi * 4) ?d)) g = (Inr (), g')"
    using assms(1,2) v by (simp add: op_smem_def act_simps Let_def split: if_splits)
  have in_mem: "wi < int (length (smem g))"
  proof (rule ccontr)
    assume "\<not> wi < int (length (smem g))"
    with assms(3) have "py_setitem (smem g) wi ?d = Inl IndexError" by (simp add: py_setitem_def py_index_def)
    with run show False by (simp add: act_bind_def on_ring_def zoom_def mem_set_def)
  qed
  with assms(3) run have "g' = g\<lparr>gd_ring := set_ring_mem ((smem g)[nat wi := ?d]) (gd_ring g),
      gd_stim := gd_stim g @ [sysmem_line (4 * int (nat wi)) ?d]\<rparr>"
    by (simp add: act_bind_def on_ring_def zoom_def mem_set_ok emit_def act_modify_apply mult.commute)
  moreover have "nat wi < length (smem g)" "0 \<le> ?d" "?d < 2 ^ 32"
    using in_mem assms(3) by (simp_all add: bits nat_less_iff)
  ultimately show ?thesis by blast
qed

lemma op_smem_loaded:
  assumes "op_smem sw args g = (Inr (), g')" and "int_arg 10 args 0 = Inr wi" and "0 \<le> wi"
    and "loaded g (replayed g)"
  shows "loaded g' (replayed g')"
proof -
  obtain i d where g': "g' = g\<lparr>gd_ring := set_ring_mem ((smem g)[i := d]) (gd_ring g),
      gd_stim := gd_stim g @ [sysmem_line (4 * int i) d]\<rparr>"
    using op_smem_effect [OF assms(1-3)] by blast
  have "loaded (g\<lparr>gd_ring := set_ring_mem ((smem g)[i := d]) (gd_ring g)\<rparr>) ((replayed g)\<lparr>sysmem_image :=
      (sysmem_image (replayed g))(4 * int i \<mapsto> d)\<rparr>)"
    by (rule loaded_smem [OF assms(4)]) simp_all
  then show ?thesis by (simp add: g' emitted_images)
qed

lemma op_sram_effect:
  assumes "op_sram bw args g = (Inr (), g')" and "int_arg 10 args 0 = Inr wi" and "0 \<le> wi"
  shows "\<exists>i d. i < length (bram g) \<and> 0 \<le> d \<and> d < 2 ^ 32 \<and>
    g' = g\<lparr>gd_sram := (gd_sram g)\<lparr>sr_mem := (bram g)[i := d]\<rparr>,
      gd_stim := gd_stim g @ [sram_line (4 * int i) d]\<rparr>"
proof -
  obtain v where v: "int_arg 16 args 1 = Inr v"
    using assms(1,2) by (cases "int_arg 16 args 1") (auto simp: op_sram_def act_simps)
  let ?d = "v AND 0xFFFFFFFF"
  have run: "act_bind (bram_set wi ?d) (\<lambda>_. emit (sram_line (wi * 4) ?d)) g = (Inr (), g')"
    using assms(1,2) v by (simp add: op_sram_def act_simps Let_def split: if_splits)
  have in_mem: "wi < int (length (bram g))"
  proof (rule ccontr)
    assume "\<not> wi < int (length (bram g))"
    with assms(3) have "py_setitem (bram g) wi ?d = Inl IndexError" by (simp add: py_setitem_def py_index_def)
    with run show False by (simp add: act_bind_def bram_set_def)
  qed
  with assms(3) run have "g' = g\<lparr>gd_sram := (gd_sram g)\<lparr>sr_mem := (bram g)[nat wi := ?d]\<rparr>,
      gd_stim := gd_stim g @ [sram_line (4 * int (nat wi)) ?d]\<rparr>"
    by (simp add: act_bind_def bram_set_def py_setitem_def py_index_def emit_def act_modify_apply mult.commute)
  moreover have "nat wi < length (bram g)" "0 \<le> ?d" "?d < 2 ^ 32"
    using in_mem assms(3) by (simp_all add: bits nat_less_iff)
  ultimately show ?thesis by blast
qed

lemma op_sram_loaded:
  assumes "op_sram bw args g = (Inr (), g')" and "int_arg 10 args 0 = Inr wi" and "0 \<le> wi"
    and "loaded g (replayed g)"
  shows "loaded g' (replayed g')"
proof -
  obtain i d where g': "g' = g\<lparr>gd_sram := (gd_sram g)\<lparr>sr_mem := (bram g)[i := d]\<rparr>,
      gd_stim := gd_stim g @ [sram_line (4 * int i) d]\<rparr>"
    using op_sram_effect [OF assms(1-3)] by blast
  have "loaded (g\<lparr>gd_sram := (gd_sram g)\<lparr>sr_mem := (bram g)[i := d]\<rparr>\<rparr>) ((replayed g)\<lparr>sram_image :=
      (sram_image (replayed g))(4 * int i \<mapsto> d)\<rparr>)"
    by (rule loaded_bram [OF assms(4)]) simp_all
  then show ?thesis by (simp add: g' emitted_images)
qed

lemma set_csr_apply:
  "set_csr k v g = (Inr (), g\<lparr>gd_ring := (gd_ring g)\<lparr>rm_csr := csr_write k v (g_csr g)\<rparr>\<rparr>)"
  by (simp add: set_csr_def on_ring_def zoom_def act_simps)

lemma op_baseaddr_effect:
  assumes "op_baseaddr args g = (Inr (), g')"
  shows "\<exists>v. 0 \<le> v \<and> v < 2 ^ 32 \<and>
    g' = g\<lparr>gd_ring := (gd_ring g)\<lparr>rm_csr := csr_write REG_BASEADDR v (g_csr g)\<rparr>,
      gd_stim := gd_stim g @ [csr_line REG_BASEADDR v]\<rparr>"
proof -
  obtain v where v: "int_arg 16 args 0 = Inr v"
    using assms by (cases "int_arg 16 args 0") (auto simp: op_baseaddr_def act_simps)
  have "g' = g\<lparr>gd_ring := (gd_ring g)\<lparr>rm_csr := csr_write REG_BASEADDR (v AND 0xFFFFFFFF) (g_csr g)\<rparr>,
      gd_stim := gd_stim g @ [csr_line REG_BASEADDR (v AND 0xFFFFFFFF)]\<rparr>"
    using assms v by (simp add: op_baseaddr_def act_simps Let_def act_bind_Inr [OF set_csr_apply] emit_def)
  moreover have "0 \<le> v AND 0xFFFFFFFF" "v AND 0xFFFFFFFF < 2 ^ 32" by (simp_all add: bits)
  ultimately show ?thesis by blast
qed

lemma op_baseaddr_loaded:
  assumes "op_baseaddr args g = (Inr (), g')" and "loaded g (replayed g)"
  shows "loaded g' (replayed g')"
proof -
  obtain v where v: "0 \<le> v" "v < 2 ^ 32" and g': "g' = g\<lparr>gd_ring := (gd_ring g)
        \<lparr>rm_csr := csr_write REG_BASEADDR v (g_csr g)\<rparr>,
      gd_stim := gd_stim g @ [csr_line REG_BASEADDR v]\<rparr>"
    using op_baseaddr_effect [OF assms(1)] by blast
  let ?c = "csr_write REG_BASEADDR v (g_csr g)"
  have "reg ?c REG_BASEADDR = v" "reg ?c REG_TAIL = reg (g_csr g) REG_TAIL"
    using v by (simp_all add: reg_csr_write_plain reg_offsets)
  with assms(2) show ?thesis by (simp add: g' emitted_images loaded_def) (simp add: reg_offsets)
qed

lemma op_ringlen_effect:
  assumes "op_ringlen args g = (Inr (), g')"
  shows "\<exists>v. int_arg 0 args 0 = Inr v \<and>
    g' = g\<lparr>gd_ring := (gd_ring g)\<lparr>rm_csr := csr_write REG_RINGLEN v (g_csr g)\<rparr>,
      gd_stim := gd_stim g @ [csr_line REG_RINGLEN v]\<rparr>"
proof -
  obtain v where v: "int_arg 0 args 0 = Inr v"
    using assms by (cases "int_arg 0 args 0") (auto simp: op_ringlen_def act_simps)
  with assms show ?thesis
    by (simp add: op_ringlen_def act_simps act_bind_Inr [OF set_csr_apply] emit_def)
qed

lemma op_ringlen_loaded:
  assumes "op_ringlen args g = (Inr (), g')" and "loaded g (replayed g)"
  shows "loaded g' (replayed g')"
proof -
  obtain v where g': "g' = g\<lparr>gd_ring := (gd_ring g)\<lparr>rm_csr := csr_write REG_RINGLEN v (g_csr g)\<rparr>,
      gd_stim := gd_stim g @ [csr_line REG_RINGLEN v]\<rparr>"
    using op_ringlen_effect [OF assms(1)] by blast
  let ?c = "csr_write REG_RINGLEN v (g_csr g)"
  have "reg ?c REG_BASEADDR = reg (g_csr g) REG_BASEADDR" "reg ?c REG_TAIL = reg (g_csr g) REG_TAIL"
    by (simp_all add: reg_csr_write_plain reg_offsets)
  with assms(2) show ?thesis by (simp add: g' emitted_images loaded_def) (simp add: reg_offsets)
qed

lemma op_enable_effect:
  assumes "op_enable g = (Inr (), g')"
  shows "\<exists>v. g' = g\<lparr>gd_ring := (gd_ring g)\<lparr>rm_csr := csr_write REG_CTRL v (g_csr g)\<rparr>\<rparr>"
  using assms by (auto simp: op_enable_def act_simps set_csr_apply)

lemma op_enable_loaded:
  assumes "op_enable g = (Inr (), g')" and "loaded g (replayed g)"
  shows "loaded g' (replayed g')"
proof -
  obtain v where g': "g' = g\<lparr>gd_ring := (gd_ring g)\<lparr>rm_csr := csr_write REG_CTRL v (g_csr g)\<rparr>\<rparr>"
    using op_enable_effect [OF assms(1)] by blast
  have "reg (csr_write REG_CTRL v (g_csr g)) k = reg (g_csr g) k" if "k \<noteq> REG_CTRL" for k
    using that by (simp add: reg_csr_write_ctrl)
  with assms(2) show ?thesis by (simp add: g' loaded_def reg_offsets)
qed

lemma store_block_image:
  assumes "\<forall>i < length m. dict_get f (4 * int i) = m ! i" and "w + 4 \<le> length m"
  shows "\<forall>i < length m. dict_get (f(4 * int w + 0 \<mapsto> a, 4 * int w + 4 \<mapsto> b, 4 * int w + 8 \<mapsto> c,
      4 * int w + 12 \<mapsto> d)) (4 * int i) = store_block m w [a, b, c, d] ! i"
proof (intro allI impI)
  fix i assume i: "i < length m"
  consider "i = w" | "i = w + 1" | "i = w + 2" | "i = w + 3" | "i < w \<or> w + 4 \<le> i" by linarith
  then show "dict_get (f(4 * int w + 0 \<mapsto> a, 4 * int w + 4 \<mapsto> b, 4 * int w + 8 \<mapsto> c,
      4 * int w + 12 \<mapsto> d)) (4 * int i) = store_block m w [a, b, c, d] ! i"
    using assms i by cases (auto simp: store_block_nth)
qed

lemma mk_descriptor_masked:
  fixes a b c d :: int
  defines "x \<equiv> mk_descriptor (a AND 0xFFFFFFFF) (b AND 0xFFFFFFFF) (c AND 0xFFFFFFFF) (d AND 0xFFFFFFFF)"
  shows "w0 x = a AND 0xFFFFFFFF" and "w1 x = b AND 0xFFFFFFFF" and "w2 x = c AND 0xFFFFFFFF"
    and "w3 x = d AND 0xFFFFFFFF"
  unfolding x_def mk_descriptor_def by (simp_all add: and.assoc)

text \<open>A descriptor row: the five lines say where the words of the slot and the new TAIL went.\<close>

lemma op_desc_effect:
  assumes "op_desc args g = (Inr (), g')" and "ring_ok (gd_ring g)"
  defines "w \<equiv> slot_word (base_of (gd_ring g)) (tail_of (gd_ring g))"
    and "t \<equiv> (tail_of (gd_ring g) + 1) mod rlen_of (gd_ring g)"
  shows "\<exists>x a b c d. w0 x = a \<and> w1 x = b \<and> w2 x = c \<and> w3 x = d \<and> u32s [a, b, c, d] \<and>
    w + 4 \<le> length (smem g) \<and> 0 \<le> t \<and> t < 2 ^ 32 \<and>
    g' = g\<lparr>gd_ring := enqueued x (gd_ring g), gd_stim := gd_stim g @
      [sysmem_line (4 * int w) a, sysmem_line (4 * int w + 4) b, sysmem_line (4 * int w + 8) c,
       sysmem_line (4 * int w + 12) d, csr_line REG_TAIL t]\<rparr>"
proof -
  let ?r = "gd_ring g"
  obtain a where a: "int_arg 16 args 0 = Inr a"
    using assms(1) by (cases "int_arg 16 args 0") (auto simp: op_desc_def act_simps)
  obtain b where b: "int_arg 16 args 1 = Inr b"
    using assms(1) a by (cases "int_arg 16 args 1") (auto simp: op_desc_def act_simps)
  obtain c where c: "int_arg 16 args 2 = Inr c"
    using assms(1) a b by (cases "int_arg 16 args 2") (auto simp: op_desc_def act_simps)
  obtain d where d: "int_arg 16 args 3 = Inr d"
    using assms(1) a b c by (cases "int_arg 16 args 3") (auto simp: op_desc_def act_simps)
  let ?a = "a AND 0xFFFFFFFF" and ?b = "b AND 0xFFFFFFFF" and ?c = "c AND 0xFFFFFFFF"
    and ?d = "d AND 0xFFFFFFFF"
  let ?x = "mk_descriptor ?a ?b ?c ?d"
  let ?w = "slot_word (base_of ?r) (tail_of ?r)"
  let ?slot = "base_of ?r + tail_of ?r * 16" and ?t = "(tail_of ?r + 1) mod rlen_of ?r"
  note t = tail_range [OF assms(2)]
  note slot = slot_facts [OF assms(2) t [THEN conjunct1] t [THEN conjunct2]]
  have rlen: "csr_ringlen (g_csr g) AND 0xFFFFFFFF = rlen_of ?r"
    "csr_baseaddr (g_csr g) AND 0xFFFFFFFF = base_of ?r" "csr_read (g_csr g) REG_TAIL = tail_of ?r"
    using ring_ok_regs [OF assms(2)]
    by (simp_all add: csr_ringlen_def csr_baseaddr_def csr_read_def bits)
  have nz: "rlen_of ?r \<noteq> 0" using assms(2) by (simp add: ring_ok_def)
  have run: "act_bind (on_ring (ring_enqueue ?x)) (\<lambda>_.
      act_bind (emit (sysmem_line (?slot + 0) ?a)) (\<lambda>_.
      act_bind (emit (sysmem_line (?slot + 4) ?b)) (\<lambda>_.
      act_bind (emit (sysmem_line (?slot + 8) ?c)) (\<lambda>_.
      act_bind (emit (sysmem_line (?slot + 12) ?d)) (\<lambda>_.
      act_bind (act_gets (\<lambda>g. csr_read (g_csr g) REG_TAIL)) (\<lambda>tail.
      emit (csr_line REG_TAIL tail))))))) g = (Inr (), g')"
    using assms(1) t unfolding op_desc_def act_read_def
    by (simp add: a b [unfolded One_nat_def] c d act_simps rlen nz Let_def)
  have room: "int (length (pending ?r)) < rlen_of ?r - 1"
  proof (rule ccontr)
    assume "\<not> int (length (pending ?r)) < rlen_of ?r - 1"
    then have "int (length (pending ?r)) = rlen_of ?r - 1"
      using count_range [OF assms(2)] by (simp add: length_pending [OF assms(2)])
    from enqueue_full [OF assms(2) this] run show False
      by (simp add: act_bind_def on_ring_def zoom_def)
  qed
  let ?q = "enqueued ?x ?r"
  have g': "g' = g\<lparr>gd_ring := ?q, gd_stim := gd_stim g @ [sysmem_line (?slot + 0) ?a,
      sysmem_line (?slot + 4) ?b, sysmem_line (?slot + 8) ?c, sysmem_line (?slot + 12) ?d,
      csr_line REG_TAIL ?t]\<rparr>"
    using run enqueue_room [OF assms(2) room, of ?x] wrap_range [OF assms(2), of "tail_of ?r + 1"]
    by (simp add: act_simps on_ring_def zoom_def emit_def csr_read_def tail_write_regs)
  have at: "4 * int ?w = ?slot" using slot(4,6) mult_div_mod_eq [of 4 ?slot] by simp
  have t: "0 \<le> ?t" "?t < 2 ^ 32" using wrap_range [OF assms(2), of "tail_of ?r + 1"] by simp_all
  have u: "u32s [?a, ?b, ?c, ?d]" by (simp add: bits)
  have x: "w0 ?x = ?a" "w1 ?x = ?b" "w2 ?x = ?c" "w3 ?x = ?d" by (simp_all add: mk_descriptor_masked)
  show ?thesis
    unfolding w_def t_def
    by (intro exI [of _ ?x] exI [of _ ?a] exI [of _ ?b] exI [of _ ?c] exI [of _ ?d])
      (use g' x u t slot(7) in \<open>simp add: at\<close>)
qed

lemma op_desc_loaded:
  assumes "op_desc args g = (Inr (), g')" and "ring_ok (gd_ring g)" and "loaded g (replayed g)"
  shows "loaded g' (replayed g')"
proof -
  let ?w = "slot_word (base_of (gd_ring g)) (tail_of (gd_ring g))"
  let ?t = "(tail_of (gd_ring g) + 1) mod rlen_of (gd_ring g)"
  obtain x a b c d where x: "w0 x = a" "w1 x = b" "w2 x = c" "w3 x = d" and fit: "?w + 4 \<le> length (smem g)"
    and g': "g' = g\<lparr>gd_ring := enqueued x (gd_ring g), gd_stim := gd_stim g @
      [sysmem_line (4 * int ?w) a, sysmem_line (4 * int ?w + 4) b, sysmem_line (4 * int ?w + 8) c,
       sysmem_line (4 * int ?w + 12) d, csr_line REG_TAIL ?t]\<rparr>"
    using op_desc_effect [OF assms(1,2)] by blast
  have mem: "smem g' = store_block (smem g) ?w [a, b, c, d]" by (simp add: g' x)
  have regs: "reg (g_csr g') REG_TAIL = ?t" "reg (g_csr g') REG_BASEADDR = reg (g_csr g) REG_BASEADDR"
    using enqueued_regs [OF assms(2), of x] by (simp_all add: g' reg_offsets)
  have same: "bram g' = bram g" by (simp add: g')
  let ?im = "replayed g"
  let ?f = "(sysmem_image ?im)(4 * int ?w + 0 \<mapsto> a, 4 * int ?w + 4 \<mapsto> b, 4 * int ?w + 8 \<mapsto> c,
      4 * int ?w + 12 \<mapsto> d)"
  have im: "replayed g' = ?im\<lparr>sysmem_image := ?f, csr_writes := (csr_writes ?im)(REG_TAIL \<mapsto> ?t)\<rparr>"
    by (simp add: g' emitted_images)
  have "\<forall>i < length (smem g). dict_get ?f (4 * int i) = smem g' ! i"
    using store_block_image [OF _ fit, of "sysmem_image ?im" a b c d] assms(3)
    unfolding mem by (simp add: loaded_def)
  then show ?thesis
    using assms(3) fit unfolding loaded_def same regs im
    by (simp add: mem reg_offsets)
qed

lemma run_row_loaded:
  assumes "run_row sw bw row g = (Inr (), g')" and "row_fine row g" and "loaded g (replayed g)"
  shows "loaded g' (replayed g')"
proof (cases "parse_row row")
  case None
  with assms show ?thesis by (simp add: run_row_def act_simps)
next
  case (Some p)
  obtain op args where p: "parse_row row = Some (op, args)" using Some by (cases p) simp
  consider (smem) "op = ''smem''" | (sram) "op = ''sram''" | (base) "op = ''csr_baseaddr''"
    | (len) "op = ''csr_ringlen''" | (desc) "op = ''desc''" | (enable) "op = ''enable''"
    | (other) "op \<noteq> ''smem'' \<and> op \<noteq> ''sram'' \<and> op \<noteq> ''csr_baseaddr'' \<and>
        op \<noteq> ''csr_ringlen'' \<and> op \<noteq> ''desc'' \<and> op \<noteq> ''enable''"
    by argo
  then show ?thesis
  proof cases
    case smem
    with assms p have run: "op_smem sw args g = (Inr (), g')" by (simp add: run_row_def)
    then obtain wi where wi: "int_arg 10 args 0 = Inr wi"
      by (cases "int_arg 10 args 0") (auto simp: op_smem_def act_simps)
    from smem wi p assms(2) have "0 \<le> wi" by (simp add: row_fine_def)
    from op_smem_loaded [OF run wi this assms(3)] show ?thesis .
  next
    case sram
    with assms p have run: "op_sram bw args g = (Inr (), g')" by (simp add: run_row_def)
    then obtain wi where wi: "int_arg 10 args 0 = Inr wi"
      by (cases "int_arg 10 args 0") (auto simp: op_sram_def act_simps)
    from sram wi p assms(2) have "0 \<le> wi" by (simp add: row_fine_def)
    from op_sram_loaded [OF run wi this assms(3)] show ?thesis .
  next
    case base
    with assms p have "op_baseaddr args g = (Inr (), g')" by (simp add: run_row_def)
    from op_baseaddr_loaded [OF this assms(3)] show ?thesis .
  next
    case len
    with assms p have "op_ringlen args g = (Inr (), g')" by (simp add: run_row_def)
    from op_ringlen_loaded [OF this assms(3)] show ?thesis .
  next
    case desc
    with assms p have run: "op_desc args g = (Inr (), g')" by (simp add: run_row_def)
    from desc p assms(2) have "ring_ok (gd_ring g)" by (simp add: row_fine_def)
    from op_desc_loaded [OF run this assms(3)] show ?thesis .
  next
    case enable
    with assms p have "op_enable g = (Inr (), g')" by (simp add: run_row_def)
    from op_enable_loaded [OF this assms(3)] show ?thesis .
  next
    case other
    with assms p show ?thesis by (simp add: run_row_def act_simps)
  qed
qed

lemma rows_loaded:
  "for_each (run_row sw bw) rows g = (Inr (), g') \<Longrightarrow> rows_fine sw bw rows g \<Longrightarrow>
   loaded g (replayed g) \<Longrightarrow> loaded g' (replayed g')"
proof (induction rows arbitrary: g)
  case Nil
  then show ?case by (simp add: act_simps)
next
  case (Cons row rows)
  then obtain h where h: "run_row sw bw row g = (Inr (), h)"
    and rest: "for_each (run_row sw bw) rows h = (Inr (), g')" by (auto simp: act_bind_eq_Inr)
  from Cons.prems(2) h have fine: "row_fine row g" "rows_fine sw bw rows h" by simp_all
  from Cons.IH [OF rest fine(2) run_row_loaded [OF h fine(1) Cons.prems(3)]] show ?case .
qed

section \<open>The transfers the host expects\<close>

text \<open>HEAD is zero throughout the setup, so the pending descriptors are the slots below TAIL.\<close>

definition head_zero :: "golden \<Rightarrow> bool" where
  "head_zero g \<longleftrightarrow> reg (g_csr g) REG_HEAD = 0"

lemma csr_write_head: "reg (csr_write k v c) REG_HEAD = reg c REG_HEAD"
  by (cases "k \<in> {REG_HEAD, REG_STATUS, REG_IRQ_CLEAR, REG_CTRL}")
    (auto simp: reg_csr_write csr_write_read_only, auto simp: reg_offsets)

lemma on_ring_head:
  "preserves (\<lambda>r. reg (rm_csr r) REG_HEAD = 0) m \<Longrightarrow> preserves head_zero (on_ring m)"
  unfolding on_ring_def
  by (rule gring.zoom_preserves [where J = "\<lambda>r. reg (rm_csr r) REG_HEAD = 0"])
    (auto simp: head_zero_def)

lemma run_row_head: "preserves head_zero (run_row sw bw row)"
proof -
  have emit: "preserves head_zero (emit line)" for line
    by (rule emit_preserves) (simp add: head_zero_def)
  have bram: "preserves head_zero (bram_set i w)" for i w
    by (auto intro!: preservesI simp: bram_set_def head_zero_def split: sum.split)
  have set: "preserves head_zero (set_csr k v)" for k v
    by (rule set_csr_preserves) (simp add: head_zero_def csr_write_head)
  have ring: "preserves (\<lambda>r. reg (rm_csr r) REG_HEAD = 0) (mem_set i w)"
    "preserves (\<lambda>r. reg (rm_csr r) REG_HEAD = 0) (set_tail_reg v)" for i w v
    by (auto intro!: preservesI simp: mem_set_def set_tail_reg_def act_simps csr_write_head
        split: sum.split)
  note steps = preserves_basic preserves_bind preserves_if on_ring_head ring emit bram set
  have "preserves head_zero (op_smem sw args)" for args
    unfolding op_smem_def Let_def by (intro steps)
  moreover have "preserves head_zero (op_sram bw args)" for args
    unfolding op_sram_def Let_def by (intro steps)
  moreover have "preserves head_zero (op_baseaddr args)" for args
    unfolding op_baseaddr_def Let_def by (intro steps)
  moreover have "preserves head_zero (op_ringlen args)" for args
    unfolding op_ringlen_def Let_def by (intro steps)
  moreover have "preserves head_zero (op_desc args)" for args
    unfolding op_desc_def Let_def ring_enqueue_def write_desc_to_mem_def by (intro steps)
  moreover have "preserves head_zero op_enable"
    unfolding op_enable_def Let_def by (intro steps)
  ultimately show ?thesis
    unfolding run_row_def by (cases "parse_row row") (auto simp: preserves_basic)
qed

lemma setup_head:
  assumes "golden_init sw bw = Inr g0" and "for_each (run_row sw bw) rows g0 = (r, g)"
  shows "reg (g_csr g) REG_HEAD = 0"
proof -
  have "head_zero g0"
    using assms(1) by (auto simp: golden_init_def head_zero_def reg_csr_init res_bind_def split: sum.splits)
  moreover have "preserves head_zero (for_each (run_row sw bw) rows)"
    by (rule preserves_for_each) (rule run_row_head)
  ultimately show ?thesis using assms(2) by (force dest: preservesD simp: head_zero_def)
qed

text \<open>The transfer a descriptor describes, read off the memories before any transfer.\<close>

definition expected_transfer :: "int list \<times> int list \<Rightarrow> descriptor \<Rightarrow> transfer" where
  "expected_transfer m d = \<lparr>src_addr = w0 d, dst_addr = w1 d, len_words = int (dma_beats d),
     direction = w3 d AND 1,
     expected_words = load_block (if odd (w3 d) then fst m else snd m) (nat (w0 d div 4)) (dma_beats d)\<rparr>"

text \<open>The source block is word aligned and inside its memory.\<close>

definition source_ok :: "int list \<times> int list \<Rightarrow> descriptor \<Rightarrow> bool" where
  "source_ok m d \<longleftrightarrow> 0 \<le> w0 d \<and> w0 d mod 4 = 0 \<and>
     nat (w0 d div 4) + dma_beats d \<le> length (if odd (w3 d) then fst m else snd m)"

lemma image_block:
  assumes "\<forall>i < length mem. dict_get f (4 * int i) = mem ! i" and "0 \<le> a" and "a mod 4 = 0"
    and "nat (a div 4) + n \<le> length mem"
  shows "map (\<lambda>j. dict_get f (a + j * 4)) (py_range (int n)) = load_block mem (nat (a div 4)) n"
proof (rule nth_equalityI)
  show "length (map (\<lambda>j. dict_get f (a + j * 4)) (py_range (int n)))
      = length (load_block mem (nat (a div 4)) n)" using assms(4) by (simp add: py_range_def)
next
  fix i assume "i < length (map (\<lambda>j. dict_get f (a + j * 4)) (py_range (int n)))"
  then have i: "i < n" by (simp add: py_range_def)
  have "0 \<le> a div 4" using assms(2) by simp
  then have "a + int i * 4 = 4 * int (nat (a div 4) + i)"
    using assms(3) mult_div_mod_eq [of 4 a] by simp
  moreover have "dict_get f (4 * int (nat (a div 4) + i)) = mem ! (nat (a div 4) + i)"
    using i assms(1,4) by (metis add_less_cancel_left less_le_trans)
  ultimately have "dict_get f (a + int i * 4) = mem ! (nat (a div 4) + i)"
    by (simp only:)
  with i assms(4) show "map (\<lambda>j. dict_get f (a + j * 4)) (py_range (int n)) ! i
      = load_block mem (nat (a div 4)) n ! i"
    by (simp add: py_range_def load_block_nth)
qed

lemma source_image:
  assumes "loaded g im" and "source_ok (smem g, bram g) d"
  shows "map (\<lambda>j. dict_get (if odd (w3 d) then sysmem_image im else sram_image im) (w0 d + j * 4))
      (py_range (int (dma_beats d)))
    = load_block (if odd (w3 d) then smem g else bram g) (nat (w0 d div 4)) (dma_beats d)"
proof (cases "odd (w3 d)")
  case True
  with assms image_block [of "smem g" "sysmem_image im" "w0 d" "dma_beats d"] show ?thesis
    by (simp add: source_ok_def loaded_def)
next
  case False
  with assms image_block [of "bram g" "sram_image im" "w0 d" "dma_beats d"] show ?thesis
    by (simp add: source_ok_def loaded_def)
qed

lemma ring_transfer_expected:
  assumes "loaded g im" and "ring_ok (gd_ring g)" and "0 \<le> i" and "i < rlen_of (gd_ring g)"
    and "source_ok (smem g, bram g) (desc_at (smem g) (slot_word (base_of (gd_ring g)) i))"
  shows "ring_transfer im i =
    expected_transfer (smem g, bram g) (desc_at (smem g) (slot_word (base_of (gd_ring g)) i))"
proof -
  let ?w = "slot_word (base_of (gd_ring g)) i"
  let ?d = "desc_at (smem g) ?w"
  let ?x = "base_of (gd_ring g) + i * 16"
  note slot = slot_facts [OF assms(2-4)]
  have x: "?x = 4 * int ?w" using slot(4,6) mult_div_mod_eq [of 4 ?x] by simp
  have sys: "dict_get (sysmem_image im) (4 * int j) = smem g ! j" if "j < length (smem g)" for j
    using assms(1) that by (simp add: loaded_def)
  have field: "dict_get (sysmem_image im) (?x + 0) = w0 ?d"
    "dict_get (sysmem_image im) (?x + 4) = w1 ?d"
    "dict_get (sysmem_image im) (?x + 8) = w2 ?d"
    "dict_get (sysmem_image im) (?x + 12) = w3 ?d"
    using slot(7) sys [of ?w] sys [of "?w + 1"] sys [of "?w + 2"] sys [of "?w + 3"]
    unfolding x by (simp_all add: desc_at_def algebra_simps)
  have base: "dict_get (csr_writes im) CSR_OFF_BASEADDR = base_of (gd_ring g)"
    using assms(1) by (simp add: loaded_def CSR_OFF_BASEADDR_def REG_BASEADDR_def)
  have len: "w2 ?d AND 0xFF = int (dma_beats ?d)" by (simp add: dma_beats_def bits)
  have odd: "w3 ?d AND 1 = 1 \<longleftrightarrow> odd (w3 ?d)" by (simp add: and_one_eq odd_iff_mod_2_eq_one)
  show ?thesis
    using source_image [OF assms(1,5)] unfolding ring_transfer_def Let_def base field len odd
    by (simp add: expected_transfer_def)
qed

lemma ring_transfers_expected:
  assumes "loaded g im" and "ring_ok (gd_ring g)" and "reg (g_csr g) REG_HEAD = 0"
    and "\<forall>d \<in> set (pending (gd_ring g)). source_ok (smem g, bram g) d"
  shows "ring_transfers im = map (expected_transfer (smem g, bram g)) (pending (gd_ring g))"
proof -
  let ?r = "gd_ring g"
  have t: "0 \<le> tail_of ?r" "tail_of ?r < rlen_of ?r" using tail_range [OF assms(2)] by auto
  have tail: "dict_get (csr_writes im) CSR_OFF_TAIL = tail_of ?r"
    using assms(1) by (simp add: loaded_def CSR_OFF_TAIL_def REG_TAIL_def)
  have "slots (rlen_of ?r) 0 (nat (tail_of ?r)) = py_range (tail_of ?r)"
    using t by (auto simp: slots_def py_range_def)
  then have pend: "pending ?r = map (\<lambda>i. desc_at (smem g) (slot_word (base_of ?r) i)) (py_range (tail_of ?r))"
    using t assms(3) by (simp add: pending_def ring_count_def)
  have "ring_transfer im i = expected_transfer (smem g, bram g) (desc_at (smem g) (slot_word (base_of ?r) i))"
    if "i \<in> set (py_range (tail_of ?r))" for i
    using that t assms(4) by (intro ring_transfer_expected [OF assms(1,2)]) (auto simp: pend py_range_def)
  then show ?thesis by (simp add: ring_transfers_def tail pend)
qed

section \<open>The stimulus file as the host reads it\<close>

lemma strip_first:
  assumes "\<not> is_space c"
  shows "\<exists>u. py_strip (c # s) = c # u"
  using assms by (simp add: py_strip_def dropWhile_append3)

lemma comment_ignored: "line_images (CHR ''#'' # s) im = im"
proof -
  obtain u where "py_strip (CHR ''#'' # s) = CHR ''#'' # u"
    using strip_first [of "CHR ''#''" s] by (auto simp: is_space_def)
  then show ?thesis by (simp add: line_images_def)
qed

lemma trimmed_plain: "\<forall>c \<in> set s. \<not> is_space c \<or> c = CHR 0x20 \<Longrightarrow> plain s"
  by (auto simp: plain_def is_space_def)

lemma emitted_plain: "plain (sysmem_line a d)" "plain (sram_line a d)" "plain (csr_line a d)"
  unfolding sysmem_line_def sram_line_def csr_line_def
  by (rule trimmed_plain; auto simp: is_space_def dest: hex.print_chars)+

text \<open>Every stimulus line is one of the three forms.\<close>

definition emitted :: "string \<Rightarrow> bool" where
  "emitted line \<longleftrightarrow> (\<exists>a d. line = sysmem_line a d \<or> line = sram_line a d \<or> line = csr_line a d)"

definition stim_shaped :: "golden \<Rightarrow> bool" where
  "stim_shaped g \<longleftrightarrow> (\<forall>line \<in> set (gd_stim g). emitted line)"

lemma emitted_forms: "emitted (sysmem_line a d)" "emitted (sram_line a d)" "emitted (csr_line a d)"
  by (auto simp: emitted_def)

lemma run_row_shaped: "preserves stim_shaped (run_row sw bw row)"
proof -
  have emit: "preserves stim_shaped (emit line)" if "emitted line" for line
    using that by (intro preservesI) (simp add: emit_def act_simps stim_shaped_def)
  have bram: "preserves stim_shaped (bram_set i w)" for i w
    by (auto intro!: preservesI simp: bram_set_def stim_shaped_def split: sum.split)
  have set: "preserves stim_shaped (set_csr k v)" for k v
    by (rule set_csr_preserves) (simp add: stim_shaped_def)
  have mem: "preserves stim_shaped (on_ring (mem_set i w))" for i w
    by (rule preservesI) (simp add: stim_shaped_def on_ring_def zoom_def split: prod.split)
  have enq: "preserves stim_shaped (on_ring (ring_enqueue d))" for d
    by (rule preservesI) (simp add: stim_shaped_def on_ring_def zoom_def split: prod.split)
  note steps = preserves_basic preserves_bind preserves_if emit emitted_forms bram set mem enq
  have "preserves stim_shaped (op_smem sw args)" for args
    unfolding op_smem_def Let_def by (intro steps)
  moreover have "preserves stim_shaped (op_sram bw args)" for args
    unfolding op_sram_def Let_def by (intro steps)
  moreover have "preserves stim_shaped (op_baseaddr args)" for args
    unfolding op_baseaddr_def Let_def by (intro steps)
  moreover have "preserves stim_shaped (op_ringlen args)" for args
    unfolding op_ringlen_def Let_def by (intro steps)
  moreover have "preserves stim_shaped (op_desc args)" for args
    unfolding op_desc_def Let_def by (intro steps)
  moreover have "preserves stim_shaped op_enable"
    unfolding op_enable_def Let_def by (intro steps)
  ultimately show ?thesis
    unfolding run_row_def by (cases "parse_row row") (auto simp: preserves_basic)
qed

lemma setup_shaped:
  assumes "golden_init sw bw = Inr g0" and "for_each (run_row sw bw) rows g0 = (r, g)"
  shows "stim_shaped g"
proof -
  have "stim_shaped g0"
    using assms(1) by (auto simp: golden_init_def stim_shaped_def res_bind_def split: sum.splits)
  moreover have "preserves stim_shaped (for_each (run_row sw bw) rows)"
    by (rule preserves_for_each) (rule run_row_shaped)
  ultimately show ?thesis using assms(2) by (force dest: preservesD)
qed

lemma stim_file_lines:
  assumes "stim_shaped g" and "plain csv_name"
  shows "file_lines (universal_newlines (stim_file csv_name (gd_stim g)))
    = (''# generated from '' @ csv_name) # gd_stim g"
proof -
  have "stim_file csv_name (gd_stim g) =
      concat (map (\<lambda>s. s @ newline) ((''# generated from '' @ csv_name) # gd_stim g))"
    by (simp add: stim_file_def)
  moreover have "\<forall>s \<in> set ((''# generated from '' @ csv_name) # gd_stim g). plain s"
    using assms emitted_plain by (fastforce simp: stim_shaped_def emitted_def plain_def)
  ultimately show ?thesis by (metis file_lines_concat)
qed

section \<open>Independent transfers\<close>

text \<open>
  A region is a memory (true for system memory), a first word and a number of words. Descriptors are
  independent when no one writes what another reads or writes.
\<close>

type_synonym region = "bool \<times> nat \<times> nat"

definition source_region :: "descriptor \<Rightarrow> region" where
  "source_region d = (odd (w3 d), nat (w0 d div 4), dma_beats d)"

definition target_region :: "descriptor \<Rightarrow> region" where
  "target_region d = (even (w3 d), nat (w1 d div 4), dma_beats d)"

fun read_region :: "region \<Rightarrow> int list \<times> int list \<Rightarrow> int list" where
  "read_region (in_sys, a, n) m = load_block (if in_sys then fst m else snd m) a n"

fun apart :: "region \<Rightarrow> region \<Rightarrow> bool" where
  "apart (x, a, n) (y, b, k) \<longleftrightarrow> x \<noteq> y \<or> a + n \<le> b \<or> b + k \<le> a"

fun independent :: "descriptor list \<Rightarrow> bool" where
  "independent [] \<longleftrightarrow> True"
| "independent (d # ds) \<longleftrightarrow> (\<forall>e \<in> set ds. apart (source_region e) (target_region d) \<and>
     apart (target_region d) (target_region e) \<and> apart (source_region d) (target_region e)) \<and>
     independent ds"

fun inside :: "region \<Rightarrow> int list \<times> int list \<Rightarrow> bool" where
  "inside (in_sys, a, n) m \<longleftrightarrow> a + n \<le> length (if in_sys then fst m else snd m)"

lemma fits_inside:
  "dma_fits k d m \<Longrightarrow> inside (source_region d) m \<and> inside (target_region d) m"
  by (cases m) (auto simp: dma_fits_def source_region_def target_region_def Let_def)

lemma move_lengths:
  assumes "inside (target_region d) m" and "inside (source_region d) m"
  shows "length (fst (dma_move d m)) = length (fst m)"
    and "length (snd (dma_move d m)) = length (snd m)"
  using assms
  by (auto simp: dma_move_def source_region_def target_region_def Let_def split: prod.splits if_splits)

lemma inside_cong:
  "length (fst m) = length (fst m') \<Longrightarrow> length (snd m) = length (snd m') \<Longrightarrow> inside r m = inside r m'"
  by (cases r) simp

lemma load_stored:
  "w + n \<le> length mem \<Longrightarrow> v + n \<le> length src \<Longrightarrow>
   load_block (store_block mem w (load_block src v n)) w n = load_block src v n"
  using blk.load_store_same [of w "load_block src v n" mem] by simp

lemma move_reads_target:
  assumes "inside (target_region d) m" and "inside (source_region d) m"
  shows "read_region (target_region d) (dma_move d m) = read_region (source_region d) m"
  using assms
  by (auto simp: dma_move_def source_region_def target_region_def Let_def load_stored
      split: prod.splits if_splits)

lemma move_reads_apart:
  assumes "inside (target_region d) m" and "inside (source_region d) m"
    and "apart r (target_region d)" and "inside r m"
  shows "read_region r (dma_move d m) = read_region r m"
proof -
  obtain x a n where r: "r = (x, a, n)" by (cases r) auto
  obtain sys ram where m: "m = (sys, ram)" by (cases m)
  let ?b = "nat (w1 d div 4)" and ?k = "dma_beats d"
  show ?thesis
  proof (cases "odd (w3 d)")
    case True
    let ?ws = "load_block sys (nat (w0 d div 4)) ?k"
    have len: "length ?ws = ?k" using assms(2) True by (simp add: source_region_def m)
    have "load_block (store_block ram ?b ?ws) a n = load_block ram a n" if "\<not> x"
      by (rule load_store_block_apart)
        (use that assms(1,3) len True in \<open>auto simp: r m target_region_def\<close>)
    with True show ?thesis by (simp add: r m dma_move_def Let_def)
  next
    case False
    let ?ws = "load_block ram (nat (w0 d div 4)) ?k"
    have len: "length ?ws = ?k" using assms(2) False by (simp add: source_region_def m)
    have "load_block (store_block sys ?b ?ws) a n = load_block sys a n" if "x"
      by (rule load_store_block_apart)
        (use that assms(1,3) len False in \<open>auto simp: r m target_region_def\<close>)
    with False show ?thesis by (simp add: r m dma_move_def Let_def)
  qed
qed

definition in_range :: "int list \<times> int list \<Rightarrow> descriptor \<Rightarrow> bool" where
  "in_range m d \<longleftrightarrow> inside (source_region d) m \<and> inside (target_region d) m"

lemma moves_keep:
  assumes "\<forall>d \<in> set ds. in_range m d \<and> apart r (target_region d)" and "inside r m"
  shows "read_region r (fold dma_move ds m) = read_region r m"
  using assms
proof (induction ds arbitrary: m)
  case Nil
  then show ?case by simp
next
  case (Cons d ds)
  then have d: "inside (source_region d) m" "inside (target_region d) m" by (simp_all add: in_range_def)
  note same = inside_cong [OF move_lengths [OF d(2,1)]]
  have "\<forall>e \<in> set ds. in_range (dma_move d m) e \<and> apart r (target_region e)"
    using Cons.prems(1) by (simp add: in_range_def same)
  with Cons.IH [of "dma_move d m"] Cons.prems move_reads_apart [OF d(2,1), of r]
  show ?case by (simp add: same)
qed

lemma independent_moves:
  assumes "\<forall>d \<in> set ds. in_range m d" and "independent ds" and "d \<in> set ds"
  shows "read_region (target_region d) (fold dma_move ds m) = read_region (source_region d) m \<and>
    read_region (source_region d) (fold dma_move ds m) = read_region (source_region d) m"
  using assms
proof (induction ds arbitrary: m)
  case Nil
  then show ?case by simp
next
  case (Cons e ds)
  have e: "inside (source_region e) m" "inside (target_region e) m"
    using Cons.prems(1) by (simp_all add: in_range_def)
  note same = inside_cong [OF move_lengths [OF e(2,1)]]
  have fits: "\<forall>c \<in> set ds. in_range (dma_move e m) c"
    using Cons.prems(1) by (simp add: in_range_def same)
  show ?case
  proof (cases "d \<in> set ds")
    case True
    with Cons.prems have "apart (source_region d) (target_region e)" "inside (source_region d) m"
      by (auto simp: in_range_def)
    then have "read_region (source_region d) (dma_move e m) = read_region (source_region d) m"
      by (rule move_reads_apart [OF e(2,1)])
    with Cons.IH [OF fits _ True] Cons.prems(2) show ?thesis by simp
  next
    case False
    with Cons.prems(3) have d: "d = e" by simp
    from Cons.prems(2) fits have "\<forall>c \<in> set ds. in_range (dma_move e m) c \<and>
        apart (target_region e) (target_region c)"
      and src: "\<forall>c \<in> set ds. in_range (dma_move e m) c \<and> apart (source_region e) (target_region c)"
      by auto
    from moves_keep [OF this(1)] moves_keep [OF src] e
    have "read_region (target_region e) (fold dma_move ds (dma_move e m))
        = read_region (target_region e) (dma_move e m)"
      and "read_region (source_region e) (fold dma_move ds (dma_move e m))
        = read_region (source_region e) (dma_move e m)" by (simp_all add: same)
    moreover have "apart (source_region e) (target_region e)"
      by (simp add: source_region_def target_region_def)
    ultimately show ?thesis
      using move_reads_target [OF e(2,1)] move_reads_apart [OF e(2,1) _ e(1)] by (simp add: d)
  qed
qed

lemma expected_words_region:
  "expected_words (expected_transfer m d) = read_region (source_region d) m"
  by (simp add: expected_transfer_def source_region_def)

text \<open>Two independent descriptors, both into the SRAM.\<close>

definition pair_golden :: golden where
  "pair_golden = small_golden\<lparr>gd_ring := set_ring_mem ([64, 0, 2, 1] @ [72, 8, 2, 1] @ replicate 8 0
     @ [11, 22, 33, 44] @ replicate 12 0) (gd_ring small_golden)\<rparr>"

section \<open>Properties\<close>

text \<open>
  C12. From the golden model to the host: when the host reads the stimulus file of a successful setup
  (no negative index, descriptors on a well-formed ring) and every directive is acknowledged,
  whatever the firmware, the transfers it will verify are exactly the descriptors pending in the
  model's ring, in order, each with the words that the model's memories hold at its source after
  setup.
\<close>

theorem host_expects_pending:
  assumes "golden_init sw bw = Inr g0" and "for_each (run_row sw bw) rows g0 = (Inr (), g)"
    and "rows_fine sw bw rows g0" and "ring_ok (gd_ring g)"
    and "\<forall>d \<in> set (pending (gd_ring g)). source_ok (smem g, bram g) d" and "plain csv_name"
    and "parse_stimulus fw (file_lines (universal_newlines (stim_file csv_name (gd_stim g)))) base s
      = (Inr ts, s')"
  shows "ts = map (expected_transfer (smem g, bram g)) (pending (gd_ring g))"
proof -
  have "loaded g (replayed g)"
    by (rule rows_loaded [OF assms(2,3)]) (rule loaded_init [OF assms(1)])
  moreover have "ts = ring_transfers (replayed g)"
    using parse_stimulus_images [OF assms(7)]
    by (simp add: stim_file_lines [OF setup_shaped [OF assms(1,2)] assms(6)] comment_ignored)
  ultimately show ?thesis
    using ring_transfers_expected [OF _ assms(4) setup_head [OF assms(1,2)] assms(5)] by simp
qed

theorem host_expects_pending_witness:
  "\<exists>ts s'. parse_stimulus (\<lambda>_ d. (le32 PACKET_SYNC_WORD @ [CMD_ACK], d))
      (file_lines (universal_newlines (stim_file ''demo.csv'' demo_stim))) CSR_BASE
      \<lparr>rx = [], tx = [], device = ()\<rparr> = (Inr ts, s') \<and>
    ts = [expected_transfer (small_words, replicate 8 0) small_d1,
      expected_transfer (small_words, replicate 8 0) small_d2]"
proof -
  let ?fw = "\<lambda>_ d. (le32 PACKET_SYNC_WORD @ [CMD_ACK], d)"
  let ?run = "parse_stimulus ?fw (file_lines (universal_newlines (stim_file ''demo.csv'' demo_stim)))
      CSR_BASE \<lparr>rx = [], tx = [], device = ()\<rparr>"
  have "\<not> isl (fst ?run)" by code_simp
  then obtain ts s' where run: "?run = (Inr ts, s')" by (cases ?run; cases "fst ?run") auto
  have "rows_fine 32 8 demo_rows demo_init" by code_simp
  moreover have "plain ''demo.csv''" by (simp add: plain_def)
  moreover have "\<forall>d \<in> set (pending (gd_ring demo_golden)). source_ok (smem demo_golden, bram demo_golden) d"
    by (simp add: small_pending small_golden_parts source_ok_def dma_beats_def small_words_def)
  ultimately have "ts = map (expected_transfer (smem demo_golden, bram demo_golden)) (pending (gd_ring demo_golden))"
    using host_expects_pending [OF demo_init_ok demo_setup, of "''demo.csv''" ?fw CSR_BASE
        "\<lparr>rx = [], tx = [], device = ()\<rparr>" ts s'] run small_golden_ok
    by (simp add: golden_ok_def demo_golden_def)
  with run show ?thesis by (simp add: small_pending small_golden_parts)
qed

text \<open>
  When the pending descriptors are independent, the words the host expects are right: after the
  hardware phase every destination block and every source block holds exactly the expected words of
  its transfer, so a firmware that answers from those memories passes both checksums.
\<close>

theorem expectations_met:
  assumes "golden_ok g" and "is_enabled (g_csr g)" and "length (pending (gd_ring g)) < MAX_ITERS"
    and "\<forall>d \<in> set (pending (gd_ring g)).
      dma_fits (queue_length (am_mid (g_axi g))) d (smem g, bram g) \<and>
      spares_ring (csr_baseaddr (g_csr g)) (csr_ringlen (g_csr g)) d"
    and "independent (pending (gd_ring g))" and "hardware_phase g = (Inr descs, h)"
    and "d \<in> set (pending (gd_ring g))"
  shows "read_region (target_region d) (smem h, bram h)
      = expected_words (expected_transfer (smem g, bram g) d) \<and>
    read_region (source_region d) (smem h, bram h)
      = expected_words (expected_transfer (smem g, bram g) d)"
proof -
  have "\<exists>h'. hardware_phase g = (Inr (map pack (pending (gd_ring g))), h') \<and>
      (smem h', bram h') = fold dma_move (pending (gd_ring g)) (smem g, bram g)"
    using hardware_drains [OF assms(1-3) pending_run [OF assms(1)]] assms(4)
    by (force simp: csr_baseaddr_def csr_ringlen_def)
  then have mems: "(smem h, bram h) = fold dma_move (pending (gd_ring g)) (smem g, bram g)"
    using assms(6) by auto
  have "\<forall>d \<in> set (pending (gd_ring g)). in_range (smem g, bram g) d"
    using assms(4) fits_inside by (force simp: in_range_def)
  from independent_moves [OF this assms(5,7)] show ?thesis
    unfolding mems expected_words_region .
qed

theorem expectations_met_witness:
  "\<exists>descs h. hardware_phase pair_golden = (Inr descs, h) \<and>
     read_region (target_region \<lparr>w0 = 72, w1 = 8, w2 = 2, w3 = 1\<rparr>) (smem h, bram h) = [33, 44]"
proof -
  let ?d = "\<lparr>w0 = 72, w1 = 8, w2 = 2, w3 = 1\<rparr> :: descriptor"
  have ok: "golden_ok pair_golden" by code_simp
  have pend: "pending (gd_ring pair_golden) = [\<lparr>w0 = 64, w1 = 0, w2 = 2, w3 = 1\<rparr>, ?d]" by code_simp
  have en: "is_enabled (g_csr pair_golden)" by code_simp
  have fits: "\<forall>d \<in> set (pending (gd_ring pair_golden)).
      dma_fits (queue_length (am_mid (g_axi pair_golden))) d (smem pair_golden, bram pair_golden) \<and>
      spares_ring (csr_baseaddr (g_csr pair_golden)) (csr_ringlen (g_csr pair_golden)) d"
    by code_simp
  have ind: "independent (pending (gd_ring pair_golden))" by code_simp
  have "\<not> isl (fst (hardware_phase pair_golden))" by code_simp
  then obtain descs h where run: "hardware_phase pair_golden = (Inr descs, h)"
    by (cases "hardware_phase pair_golden"; cases "fst (hardware_phase pair_golden)") auto
  have "expected_words (expected_transfer (smem pair_golden, bram pair_golden) ?d) = [33, 44]"
    by code_simp
  with expectations_met [OF ok en _ fits ind run, of ?d] run show ?thesis
    by (auto simp: pend MAX_ITERS_def)
qed

text \<open>
  For a chain the expectation is stale: in the two-descriptor scenario above, the second transfer
  copies the two words the first one brought into the SRAM, but the words the host expects of it are
  those of the SRAM image before any transfer. Already the first word compared differs (11 against
  0), so the host reports a failure for a correct DMA.
\<close>

theorem chained_expectation_stale:
  "map expected_words (ring_transfers (fold line_images demo_stim no_images)) = [[11, 22], [0, 0]] \<and>
   (\<exists>descs h. hardware_phase demo_golden = (Inr descs, h) \<and>
      read_region (target_region small_d2) (smem h, bram h) = [11, 22])"
proof -
  have "\<not> isl (fst (hardware_phase demo_golden)) \<and> read_region (target_region small_d2)
      (smem (snd (hardware_phase demo_golden)), bram (snd (hardware_phase demo_golden))) = [11, 22]"
    by code_simp
  then have "\<exists>descs h. hardware_phase demo_golden = (Inr descs, h) \<and>
      read_region (target_region small_d2) (smem h, bram h) = [11, 22]"
    by (cases "hardware_phase demo_golden"; cases "fst (hardware_phase demo_golden)") auto
  moreover have "map expected_words (ring_transfers (fold line_images demo_stim no_images)) = [[11, 22], [0, 0]]"
    by code_simp
  ultimately show ?thesis by blast
qed

end
