(* ===== verification/Serial_Host.thy ===== *)
theory Serial_Host
  imports Replay
begin

text \<open>
  The other host script, \<open>firmware&local/serial_host.py\<close>: the operations of \<open>DMASerialHost\<close>, the
  hex images it reads back, the replay of a stimulus file, the local self-check \<open>dry_run\<close> of the
  golden model, and the board session of \<open>main\<close>. As in \<open>Host_Runner\<close> the firmware \<open>fw\<close> is a
  parameter; printing is not modelled. A wait for an acknowledgement is given as the number of polls
  before its deadline: \<open>ack_polls\<close> for the default of two seconds, \<open>dma_polls\<close> for the thirty of
  \<open>run_dma\<close>.
\<close>

section \<open>The host object\<close>

record dma_host =
  csr_base_addr :: int
  smem_base_addr :: int
  sram_base_addr :: int
  ack_polls :: nat
  dma_polls :: nat

definition host_send_packet :: "'d firmware \<Rightarrow> int \<Rightarrow> int \<Rightarrow> bytes \<Rightarrow> ('d serial, unit) act" where
  "host_send_packet fw opcode address payload =
     act_bind (act_read (\<lambda>_. build_packet opcode address payload)) (\<lambda>p. ser_write fw p)"

text \<open>Send, wait, and the four bytes that follow the acknowledgement of a read.\<close>

definition host_write ::
  "'d firmware \<Rightarrow> dma_host \<Rightarrow> int \<Rightarrow> int \<Rightarrow> int \<Rightarrow> ('d serial, unit) act" where
  "host_write fw h opcode addr data =
     act_bind (act_read (\<lambda>_. pack_u32 (data AND 0xFFFFFFFF))) (\<lambda>payload.
     act_bind (host_send_packet fw opcode addr payload) (\<lambda>_.
     host_wait_for_ack (ack_polls h)))"

definition host_reply :: "dma_host \<Rightarrow> ('d serial, int) act" where
  "host_reply h =
     act_bind (host_wait_for_ack (ack_polls h)) (\<lambda>_.
     act_bind (ser_read 4) (\<lambda>data.
       if length data \<noteq> 4 then act_raise (TimeoutError ReadTimeout)
       else act_return (unpack_u32 data)))"

definition host_csr_write ::
  "'d firmware \<Rightarrow> dma_host \<Rightarrow> int \<Rightarrow> int \<Rightarrow> ('d serial, unit) act" where
  "host_csr_write fw h byte_offset data =
     host_write fw h CMD_WRITE_CSR ((csr_base_addr h + byte_offset) AND 0xFFFFFFFF) data"

definition host_csr_read :: "'d firmware \<Rightarrow> dma_host \<Rightarrow> int \<Rightarrow> ('d serial, int) act" where
  "host_csr_read fw h byte_offset =
     (let addr = (csr_base_addr h + byte_offset) AND 0xFFFFFFFF
      in act_bind (host_send_packet fw CMD_READ_CSR addr []) (\<lambda>_. host_reply h))"

definition smem_write :: "'d firmware \<Rightarrow> dma_host \<Rightarrow> int \<Rightarrow> int \<Rightarrow> ('d serial, unit) act" where
  "smem_write fw h byte_addr data =
     host_write fw h CMD_WRITE_SYSMEM ((smem_base_addr h + byte_addr) AND 0xFFFFFFFF) data"

definition sram_write :: "'d firmware \<Rightarrow> dma_host \<Rightarrow> int \<Rightarrow> int \<Rightarrow> ('d serial, unit) act" where
  "sram_write fw h byte_addr data =
     host_write fw h CMD_WRITE_SRAM ((sram_base_addr h + byte_addr) AND 0xFFFFFFFF) data"

definition read_smem :: "'d firmware \<Rightarrow> dma_host \<Rightarrow> int \<Rightarrow> ('d serial, int) act" where
  "read_smem fw h byte_addr =
     (let addr = (smem_base_addr h + byte_addr) AND 0xFFFFFFFF
      in act_bind (host_send_packet fw CMD_READ_SYSMEM addr []) (\<lambda>_. host_reply h))"

definition read_sram :: "'d firmware \<Rightarrow> dma_host \<Rightarrow> int \<Rightarrow> ('d serial, int) act" where
  "read_sram fw h byte_addr =
     (let addr = (sram_base_addr h + byte_addr) AND 0xFFFFFFFF
      in act_bind (host_send_packet fw CMD_READ_SRAM addr []) (\<lambda>_. host_reply h))"

definition run_dma :: "'d firmware \<Rightarrow> dma_host \<Rightarrow> ('d serial, unit) act" where
  "run_dma fw h =
     act_bind (host_send_packet fw CMD_RUN_DMA 0x00000000 []) (\<lambda>_. host_wait_for_ack (dma_polls h))"

definition smem_crc :: "'d firmware \<Rightarrow> dma_host \<Rightarrow> int \<Rightarrow> int \<Rightarrow> ('d serial, int) act" where
  "smem_crc fw h byte_addr byte_length =
     (let addr = (smem_base_addr h + byte_addr) AND 0xFFFFFFFF
      in act_bind (act_read (\<lambda>_. pack_u32 (byte_length AND 0xFFFFFFFF))) (\<lambda>payload.
         act_bind (host_send_packet fw CMD_CRC_SYSMEM addr payload) (\<lambda>_. host_reply h)))"

definition sram_crc :: "'d firmware \<Rightarrow> dma_host \<Rightarrow> int \<Rightarrow> int \<Rightarrow> ('d serial, int) act" where
  "sram_crc fw h byte_addr byte_length =
     (let addr = (sram_base_addr h + byte_addr) AND 0xFFFFFFFF
      in act_bind (act_read (\<lambda>_. pack_u32 (byte_length AND 0xFFFFFFFF))) (\<lambda>payload.
         act_bind (host_send_packet fw CMD_CRC_SRAM addr payload) (\<lambda>_. host_reply h)))"

definition wait_done :: "('d serial, unit) act" where
  "wait_done = act_raise (NotImplementedError NotInFirmware)"

definition check_irq :: "('d serial, unit) act" where
  "check_irq = act_raise (NotImplementedError NotInFirmware)"

text \<open>The two classes the handlers of this script name.\<close>

fun link_error :: "exn \<Rightarrow> bool" where
  "link_error (RuntimeError d) \<longleftrightarrow> True"
| "link_error (TimeoutError d) \<longleftrightarrow> True"
| "link_error _ \<longleftrightarrow> False"

fun runtime_error :: "exn \<Rightarrow> bool" where
  "runtime_error (RuntimeError d) \<longleftrightarrow> True"
| "runtime_error _ \<longleftrightarrow> False"

definition host_dump_csr_status :: "'d firmware \<Rightarrow> dma_host \<Rightarrow> ('d serial, unit) act" where
  "host_dump_csr_status fw h =
     act_catch link_error
       (act_bind (host_csr_read fw h 0x14) (\<lambda>_.
        act_bind (host_csr_read fw h 0x18) (\<lambda>_.
        act_bind (host_csr_read fw h 0x08) (\<lambda>_.
        act_bind (host_csr_read fw h 0x0C) (\<lambda>_. act_return ())))))
       (act_return ())"

section \<open>Hex images\<close>

primrec load_lines :: "string list \<Rightarrow> int list result" where
  "load_lines [] = Inr []"
| "load_lines (raw # lines) =
     (let line = py_strip raw
      in if line = [] then load_lines lines
         else (case py_int 16 line of
                 None \<Rightarrow> Inl (ValueError (BadLiteral line 16))
               | Some n \<Rightarrow> res_bind (load_lines lines) (\<lambda>ws. Inr ((n AND 0xFFFFFFFF) # ws))))"

definition load_hex32 :: "string \<Rightarrow> int list result" where
  "load_hex32 text = load_lines (file_lines (universal_newlines text))"

definition crc32_words :: "int list \<Rightarrow> int result" where
  "crc32_words words =
     res_bind (pack_words words) (\<lambda>raw. Inr (zlib_crc32 raw AND 0xFFFFFFFF))"

definition indexed :: "'a list \<Rightarrow> (int \<times> 'a) list" where
  "indexed xs = zip (py_range (int (length xs))) xs"

definition send_initial_smem :: "'d firmware \<Rightarrow> dma_host \<Rightarrow> string \<Rightarrow> ('d serial, unit) act" where
  "send_initial_smem fw h hex_text =
     act_bind (act_read (\<lambda>_. load_hex32 hex_text)) (\<lambda>words.
     for_each (\<lambda>(i, w). if w \<noteq> 0 then smem_write fw h (i * 4) w else act_return ()) (indexed words))"

definition send_initial_sram :: "'d firmware \<Rightarrow> dma_host \<Rightarrow> string \<Rightarrow> ('d serial, unit) act" where
  "send_initial_sram fw h hex_text =
     act_bind (act_read (\<lambda>_. load_hex32 hex_text)) (\<lambda>words.
     for_each (\<lambda>(i, w). if w \<noteq> 0 then sram_write fw h (i * 4) w else act_return ()) (indexed words))"

definition verify_smem_crc :: "'d firmware \<Rightarrow> dma_host \<Rightarrow> string \<Rightarrow> ('d serial, bool) act" where
  "verify_smem_crc fw h hex_text =
     act_bind (act_read (\<lambda>_. load_hex32 hex_text)) (\<lambda>words.
     act_bind (act_read (\<lambda>_. crc32_words words)) (\<lambda>expected.
     act_bind (smem_crc fw h 0 (int (length words) * 4)) (\<lambda>got.
       if got \<noteq> expected then act_raise (RuntimeError (CrcMismatch expected got))
       else act_return True)))"

definition verify_sram_crc :: "'d firmware \<Rightarrow> dma_host \<Rightarrow> string \<Rightarrow> ('d serial, bool) act" where
  "verify_sram_crc fw h hex_text =
     act_bind (act_read (\<lambda>_. load_hex32 hex_text)) (\<lambda>words.
     act_bind (act_read (\<lambda>_. crc32_words words)) (\<lambda>expected.
     act_bind (sram_crc fw h 0 (int (length words) * 4)) (\<lambda>got.
       if got \<noteq> expected then act_raise (RuntimeError (CrcMismatch expected got))
       else act_return True)))"

section \<open>Sending a stimulus file\<close>

text \<open>One line; the result says whether it counts as a write. CTRL is left to CMD_RUN_DMA.\<close>

definition send_line :: "'d firmware \<Rightarrow> dma_host \<Rightarrow> string \<Rightarrow> ('d serial, bool) act" where
  "send_line fw h raw =
     (let line = py_strip raw; parts = py_split line
      in if line = [] \<or> take 1 line = ''#'' \<or> length parts \<noteq> 3 then act_return False
         else act_bind (act_read (\<lambda>_. hex_field parts 1)) (\<lambda>addr.
              act_bind (act_read (\<lambda>_. hex_field parts 2)) (\<lambda>data.
                if parts ! 0 = ''sysmem_write''
                then act_bind (smem_write fw h addr data) (\<lambda>_. act_return True)
                else if parts ! 0 = ''sram_write''
                then act_bind (sram_write fw h addr data) (\<lambda>_. act_return True)
                else if parts ! 0 = ''csr_write''
                then (if addr = 0x10 then act_return False
                      else act_bind (host_csr_write fw h addr data) (\<lambda>_. act_return True))
                else act_return False)))"

definition send_stim :: "'d firmware \<Rightarrow> dma_host \<Rightarrow> string \<Rightarrow> ('d serial, int) act" where
  "send_stim fw h stim_text =
     act_bind (map_each (send_line fw h) (file_lines (universal_newlines stim_text))) (\<lambda>oks.
     act_return (int (length (filter id oks))))"

section \<open>The self-check\<close>

text \<open>The desc rows, with the LEN and the addresses the check uses.\<close>

definition check_row :: "string list \<Rightarrow> (int \<times> int \<times> int \<times> int) option result" where
  "check_row row = (case row of
     [] \<Rightarrow> Inr None
   | first # cells \<Rightarrow>
       if py_lower (py_strip first) \<noteq> ''desc'' then Inr None
       else let args = map py_strip cells in
         res_bind (int_arg 16 args 0) (\<lambda>src.
         res_bind (int_arg 16 args 1) (\<lambda>dst.
         res_bind (int_arg 16 args 2) (\<lambda>len.
         res_bind (int_arg 16 args 3) (\<lambda>flags.
           Inr (Some (src, dst, len AND 0xFF, flags)))))))"

primrec check_rows :: "string list list \<Rightarrow> (int \<times> int \<times> int \<times> int) list result" where
  "check_rows [] = Inr []"
| "check_rows (row # rows) =
     res_bind (check_row row) (\<lambda>d. res_bind (check_rows rows) (\<lambda>ds.
       Inr (case d of None \<Rightarrow> ds | Some x \<Rightarrow> x # ds)))"

text \<open>
  One beat: 1 when the destination word differs from the source word, 0 when they agree or one of
  them is out of range. The lists are indexed as Python does.
\<close>

definition check_beat :: "int list \<Rightarrow> int list \<Rightarrow> int \<Rightarrow> int \<Rightarrow> int \<Rightarrow> int result" where
  "check_beat from_mem to_mem src dst beat =
     (let sw = drop_bit 2 src + beat; dw = drop_bit 2 dst + beat
      in if sw \<ge> int (length from_mem) \<or> dw \<ge> int (length to_mem) then Inr 0
         else res_bind (py_getitem to_mem dw) (\<lambda>got.
              res_bind (py_getitem from_mem sw) (\<lambda>want. Inr (if got \<noteq> want then 1 else 0))))"

primrec sum_results :: "('x \<Rightarrow> int result) \<Rightarrow> 'x list \<Rightarrow> int result" where
  "sum_results f [] = Inr 0"
| "sum_results f (x # xs) =
     res_bind (f x) (\<lambda>n. res_bind (sum_results f xs) (\<lambda>k. Inr (n + k)))"

definition check_desc ::
  "int list \<Rightarrow> int list \<Rightarrow> int list \<Rightarrow> int \<times> int \<times> int \<times> int \<Rightarrow> int result" where
  "check_desc smem0 smem1 sram1 d = (case d of (src, dst, len, flags) \<Rightarrow>
     if flags AND 1 \<noteq> 0
     then sum_results (check_beat smem0 sram1 src dst) (py_range len)
     else sum_results (check_beat sram1 smem1 src dst) (py_range len))"

definition dry_run :: "string list list \<Rightarrow> int \<Rightarrow> int \<Rightarrow> bool result" where
  "dry_run rows smem_words sram_words =
     res_bind (run_scenario rows smem_words sram_words) (\<lambda>out.
     res_bind (check_rows rows) (\<lambda>ds.
     res_bind (sum_results (check_desc (initial_smem out) (final_smem out) (final_sram out)) ds)
       (\<lambda>errors. Inr (errors = 0))))"

section \<open>The board session\<close>

definition changed_words :: "int list \<Rightarrow> int list \<Rightarrow> int list" where
  "changed_words before after =
     map fst (filter (\<lambda>(i, a, b). a \<noteq> b) (indexed (zip before after)))"

definition nonzero_words :: "int list \<Rightarrow> int list" where
  "nonzero_words ws = map fst (filter (\<lambda>(i, w). w \<noteq> 0) (indexed ws))"

text \<open>The checksum over the span from the first to the last of the given indices (not empty).\<close>

definition span_check ::
  "(int \<Rightarrow> int \<Rightarrow> ('d serial, int) act) \<Rightarrow> int list \<Rightarrow> int list \<Rightarrow> ('d serial, bool) act" where
  "span_check crc words idxs =
     (let lo = Min (set idxs); hi = Max (set idxs) + 1
      in act_bind (act_read (\<lambda>_. crc32_words (take (nat (hi - lo)) (drop (nat lo) words)))) (\<lambda>exp_crc.
         act_bind (crc (lo * 4) ((hi - lo) * 4)) (\<lambda>got_crc. act_return (got_crc = exp_crc))))"

definition spot_checks :: "(int \<Rightarrow> ('d serial, int) act) \<Rightarrow> int list \<Rightarrow> ('d serial, unit) act" where
  "spot_checks rd offs = for_each (\<lambda>off. act_bind (rd off) (\<lambda>_. act_return ())) offs"

text \<open>The body of the \<open>try\<close>, with the texts of the five files it reads.\<close>

definition session_body ::
  "'d firmware \<Rightarrow> dma_host \<Rightarrow> string \<Rightarrow> string \<Rightarrow> string \<Rightarrow> int list \<Rightarrow> ('d serial, unit) act" where
  "session_body fw h stim_text init_smem_text init_sram_text sram_words =
     act_bind (act_read (\<lambda>_. load_hex32 init_smem_text)) (\<lambda>init_smem.
     act_bind (act_read (\<lambda>_. load_hex32 init_sram_text)) (\<lambda>init_sram.
     act_bind (for_each (\<lambda>(i, w). smem_write fw h (i * 4) w) (indexed init_smem)) (\<lambda>_.
     act_bind (for_each (\<lambda>(i, w). sram_write fw h (i * 4) w) (indexed init_sram)) (\<lambda>_.
     act_bind (send_stim fw h stim_text) (\<lambda>_.
     act_bind (spot_checks (read_smem fw h)
       [0x000, 0x004, 0x008, 0x00C, 0x100, 0x104, 0x108, 0x10C]) (\<lambda>_.
     act_bind (act_catch runtime_error (act_bind (run_dma fw h) (\<lambda>_. act_return True))
       (act_return False)) (\<lambda>dma_ok.
     act_bind (host_dump_csr_status fw h) (\<lambda>_.
       if \<not> dma_ok then act_raise (SystemExit 1)
       else
     act_bind (spot_checks (read_sram fw h) [0x100, 0x104, 0x108, 0x10C]) (\<lambda>_.
     act_bind (spot_checks (read_smem fw h) [0x100, 0x104, 0x108, 0x10C]) (\<lambda>_.
     act_bind (spot_checks (read_smem fw h) [0x000, 0x004, 0x008, 0x00C]) (\<lambda>_.
     act_bind (act_read (\<lambda>_. load_hex32 init_sram_text)) (\<lambda>init_sram_words.
     let changed = changed_words init_sram_words sram_words in
     act_bind (if changed = [] then act_return False
               else span_check (sram_crc fw h) sram_words changed) (\<lambda>ok1.
     act_bind (act_read (\<lambda>_. load_hex32 init_smem_text)) (\<lambda>init_smem_words.
     let nonzero = nonzero_words init_smem_words in
     act_bind (if nonzero = [] then act_return True
               else span_check (smem_crc fw h) init_smem_words nonzero) (\<lambda>ok2.
       if ok1 \<and> ok2 then act_return () else act_raise (SystemExit 1))))))))))))))))"

text \<open>
  \<open>main\<close> from the artifacts on: the checksums of the two golden images are computed for printing,
  and the handler turns the link's errors into exit status 1.
\<close>

definition board_session ::
  "'d firmware \<Rightarrow> dma_host \<Rightarrow> string \<Rightarrow> artifacts \<Rightarrow> ('d serial, unit) act" where
  "board_session fw h csv_name out =
     act_bind (act_read (\<lambda>_. load_hex32 (hex32_file (final_smem out)))) (\<lambda>smem_words.
     act_bind (act_read (\<lambda>_. load_hex32 (hex32_file (final_sram out)))) (\<lambda>sram_words.
     act_bind (act_read (\<lambda>_. crc32_words smem_words)) (\<lambda>_.
     act_bind (act_read (\<lambda>_. crc32_words sram_words)) (\<lambda>_.
       act_catch link_error
         (session_body fw h (stim_file csv_name (stim_lines out)) (hex32_file (initial_smem out))
            (hex32_file (initial_sram out)) sram_words)
         (act_raise (SystemExit 1))))))"



section \<open>Hex images read back\<close>

lemma hex_trimmed: "py_strip (fmt_hex w n) = fmt_hex w n"
proof (rule strip_trimmed)
  show "fmt_hex w n \<noteq> []" by (rule hex.print_nonempty)
  then have "hd (fmt_hex w n) \<in> set (fmt_hex w n)" and "last (fmt_hex w n) \<in> set (fmt_hex w n)"
    by simp_all
  then show "\<not> is_space (hd (fmt_hex w n))" and "\<not> is_space (last (fmt_hex w n))"
    by (auto dest: hex.print_chars)
qed

lemma load_printed_lines:
  "load_lines (map (\<lambda>w. fmt_hex 8 (w AND 0xFFFFFFFF)) ws) = Inr (map (\<lambda>w. w AND 0xFFFFFFFF) ws)"
  by (induction ws)
    (simp_all add: hex_trimmed hex.print_nonempty hex.parse_print Let_def and.assoc)

lemma hex_plain: "plain (fmt_hex w n)"
  by (rule trimmed_plain) (auto dest: hex.print_chars)

lemma load_hex32_file: "load_hex32 (hex32_file ws) = Inr (map (\<lambda>w. w AND 0xFFFFFFFF) ws)"
proof -
  let ?ls = "map (\<lambda>w. fmt_hex 8 (w AND 0xFFFFFFFF)) ws"
  have "hex32_file ws = concat (map (\<lambda>s. s @ newline) ?ls)"
    by (simp add: hex32_file_def comp_def)
  moreover have "file_lines (universal_newlines (concat (map (\<lambda>s. s @ newline) ?ls))) = ?ls"
    by (rule file_lines_concat) (auto simp: hex_plain)
  ultimately show ?thesis by (simp add: load_hex32_def load_printed_lines)
qed

lemma load_hex32_words: "u32s ws \<Longrightarrow> load_hex32 (hex32_file ws) = Inr ws"
  by (simp add: load_hex32_file u32s_def bits map_idI)

section \<open>Exceptions of the link\<close>

lemma masked_packs: "pack_u32 (x AND 0xFFFFFFFF) = Inr (le32 (x mod 2 ^ 32))"
  by (simp add: pack_u32_def bits)

lemma ack_poll_errors: "ack_poll n sync bs = (Inl e, r) \<Longrightarrow> link_error e"
  by (induction n sync bs rule: ack_poll.induct)
    (auto simp: Let_def split: if_splits list.splits)

lemma host_wait_errors [errs]: "raises_only link_error (host_wait_for_ack n)"
  by (rule raises_onlyI) (auto simp: host_wait_for_ack_def dest: ack_poll_errors split: prod.splits)

lemma ser_errors [errs]: "raises_only P (ser_write fw bs)" "raises_only P (ser_read n)"
  by (auto intro!: raises_onlyI simp: ser_write_def ser_read_def split: prod.splits)

lemma send_errors:
  assumes "0 \<le> opcode" and "opcode < 256" and "int (length payload) < 2 ^ 32"
  shows "raises_only link_error (host_send_packet fw opcode (x AND 0xFFFFFFFF) payload)"
proof -
  have "pack_u32 (int (length payload)) = Inr (le32 (int (length payload)))"
    and "pack_u32 PACKET_SYNC_WORD = Inr (le32 PACKET_SYNC_WORD)"
    using assms(3) by (simp_all add: pack_u32_def PACKET_SYNC_WORD_def)
  then have "build_packet opcode (x AND 0xFFFFFFFF) payload \<noteq> Inl e" for e
    using assms by (simp add: build_packet_def masked_packs pack_u8_def)
  then show ?thesis unfolding host_send_packet_def by (intro errs) auto
qed

lemma raises_map_each [errs]:
  "(\<And>x. x \<in> set xs \<Longrightarrow> raises_only P (f x)) \<Longrightarrow> raises_only P (map_each f xs)"
  by (induction xs) (auto intro!: errs)

lemma known_read: "act_bind (act_read (\<lambda>_. Inr x)) f = f x"
  by (rule ext) (simp add: act_simps)

lemma host_write_errors:
  "0 \<le> opcode \<Longrightarrow> opcode < 256 \<Longrightarrow>
   raises_only link_error (host_write fw h opcode (x AND 0xFFFFFFFF) data)"
  unfolding host_write_def masked_packs known_read
  by (intro errs send_errors) simp_all

lemma host_reply_errors [errs]: "raises_only link_error (host_reply h)"
  unfolding host_reply_def by (intro errs) simp

lemma payload_errors: "int (length payload) < 2 ^ 32 \<Longrightarrow> 0 \<le> opcode \<Longrightarrow> opcode < 256 \<Longrightarrow>
   raises_only link_error (act_bind (host_send_packet fw opcode (x AND 0xFFFFFFFF) payload) (\<lambda>_. host_reply h))"
  by (intro errs send_errors)

lemma crc_errors: "0 \<le> opcode \<Longrightarrow> opcode < 256 \<Longrightarrow>
   raises_only link_error (act_bind (act_read (\<lambda>_. pack_u32 (n AND 0xFFFFFFFF))) (\<lambda>payload.
     act_bind (host_send_packet fw opcode (x AND 0xFFFFFFFF) payload) (\<lambda>_. host_reply h)))"
  unfolding masked_packs known_read by (rule payload_errors) simp_all

lemmas opcodes = CMD_WRITE_SRAM_def CMD_WRITE_SYSMEM_def CMD_WRITE_CSR_def CMD_RUN_DMA_def
  CMD_READ_SRAM_def CMD_READ_SYSMEM_def CMD_CRC_SRAM_def CMD_CRC_SYSMEM_def CMD_READ_CSR_def

lemma host_errors [errs]:
  "raises_only link_error (host_csr_write fw h off data)"
  "raises_only link_error (smem_write fw h off data)"
  "raises_only link_error (sram_write fw h off data)"
  "raises_only link_error (host_csr_read fw h off)"
  "raises_only link_error (read_smem fw h off)"
  "raises_only link_error (read_sram fw h off)"
  "raises_only link_error (smem_crc fw h off n)"
  "raises_only link_error (sram_crc fw h off n)"
  by (simp_all add: host_csr_write_def smem_write_def sram_write_def host_csr_read_def read_smem_def
      read_sram_def smem_crc_def sram_crc_def host_write_errors payload_errors crc_errors opcodes)

lemma run_dma_errors [errs]: "raises_only link_error (run_dma fw h)"
  using send_errors [of CMD_RUN_DMA "[]" fw 0]
  unfolding run_dma_def by (intro errs) (simp add: opcodes)

lemma dump_errors [errs]: "raises_only P (host_dump_csr_status fw h)"
proof -
  have "raises_only link_error (act_bind (host_csr_read fw h 0x14) (\<lambda>_.
        act_bind (host_csr_read fw h 0x18) (\<lambda>_.
        act_bind (host_csr_read fw h 0x08) (\<lambda>_.
        act_bind (host_csr_read fw h 0x0C) (\<lambda>_. act_return ())))))" by (intro errs)
  then have "raises_only (\<lambda>e. \<not> link_error e \<longrightarrow> P e) (act_bind (host_csr_read fw h 0x14) (\<lambda>_.
        act_bind (host_csr_read fw h 0x18) (\<lambda>_.
        act_bind (host_csr_read fw h 0x08) (\<lambda>_.
        act_bind (host_csr_read fw h 0x0C) (\<lambda>_. act_return ())))))"
    unfolding raises_only_def by blast
  then show ?thesis unfolding host_dump_csr_status_def by (rule raises_catch) (rule raises_basic)
qed

section \<open>The lines of the golden model\<close>

lemma send_fields:
  assumes "w \<noteq> []" and "\<forall>c \<in> set w. \<not> is_space c" and "hd w \<noteq> CHR ''#''"
  shows "send_line fw h (w @ '' '' @ fmt_hex k a @ '' '' @ fmt_hex m d) =
    (if w = ''sysmem_write'' then act_bind (smem_write fw h a d) (\<lambda>_. act_return True)
     else if w = ''sram_write'' then act_bind (sram_write fw h a d) (\<lambda>_. act_return True)
     else if w = ''csr_write'' then
       (if a = 0x10 then act_return False else act_bind (host_csr_write fw h a d) (\<lambda>_. act_return True))
     else act_return False)"
proof -
  have "\<not> is_space (hd w)" using assms(1,2) by simp
  moreover have "take 1 (w @ s) \<noteq> ''#''" for s using assms(1,3) by (cases w) auto
  ultimately show ?thesis
    using assms(1) three_fields [OF assms(1,2), of k a m d] line_trimmed [OF assms(1), of k a m d]
    by (intro ext) (simp add: send_line_def Let_def hex_field_def hex.parse_print act_simps)
qed

lemma send_emitted:
  "send_line fw h (sysmem_line a d) = act_bind (smem_write fw h a d) (\<lambda>_. act_return True)"
  "send_line fw h (sram_line a d) = act_bind (sram_write fw h a d) (\<lambda>_. act_return True)"
  "send_line fw h (csr_line a d) =
     (if a = 0x10 then act_return False else act_bind (host_csr_write fw h a d) (\<lambda>_. act_return True))"
  using send_fields [of "''sysmem_write''" fw h 8 a 8 d] send_fields [of "''sram_write''" fw h 8 a 8 d]
    send_fields [of "''csr_write''" fw h 2 a 8 d]
  by (simp_all add: sysmem_line_def sram_line_def csr_line_def is_space_def Let_def)

lemma send_comment: "send_line fw h (CHR ''#'' # s) = act_return False"
proof -
  obtain u where "py_strip (CHR ''#'' # s) = CHR ''#'' # u"
    using strip_first [of "CHR ''#''" s] by (auto simp: is_space_def)
  then show ?thesis by (simp add: send_line_def)
qed

lemma send_line_errors: "emitted line \<Longrightarrow> raises_only link_error (send_line fw h line)"
  by (auto simp: emitted_def send_emitted intro!: errs)

section \<open>The stimulus survives the hardware phase\<close>

lemma hardware_keeps_stim: "gd_stim (snd (hardware_phase g)) = gd_stim g"
proof -
  let ?I = "\<lambda>h. gd_stim h = gd_stim g"
  have ring: "preserves ?I (on_ring m)" for m :: "(ring, 'a) act"
    by (rule preservesI) (simp add: on_ring_def zoom_def split: prod.split)
  have ringb: "preserves ?I (on_ring m)" for m :: "(ring, unit) act"
    by (rule preservesI) (simp add: on_ring_def zoom_def split: prod.split)
  have ringd: "preserves ?I (on_ring m)" for m :: "(ring, descriptor option) act"
    by (rule preservesI) (simp add: on_ring_def zoom_def split: prod.split)
  have dm: "preserves ?I (on_dm_sram m)" for m :: "(fifo, unit) act"
    by (rule preservesI) (simp add: on_dm_sram_def zoom_def split: prod.split)
  have ctrl: "preserves ?I (on_sram_ctrl m)" for m :: "(sram_ctrl, unit) act"
    by (rule preservesI) (simp add: on_sram_ctrl_def zoom_def put_sram_ctrl_def split: prod.split)
  have move: "preserves ?I (move_descriptor d)" for d
    unfolding move_descriptor_def on_master_def Let_def case_prod_beta
    by (intro preserves_bind preserves_if ringb dm ctrl)
  have "preserves ?I (event_loop n ds)" for n ds
  proof (induction n arbitrary: ds)
    case 0
    show ?case unfolding event_loop.simps by (rule preserves_basic)
  next
    case (Suc n)
    show ?case
      unfolding event_loop.simps
      by (intro preserves_bind preserves_if preserves_basic ringd)
        (auto split: option.split intro!: preserves_bind preserves_basic move ringb Suc)
  qed
  then have "preserves ?I hardware_phase"
    unfolding hardware_phase_def by (intro preserves_bind preserves_if preserves_basic)
  then show ?thesis by (simp add: preserves_def)
qed

lemma scenario_stim:
  assumes "run_scenario rows sw bw = Inr out" and "line \<in> set (stim_lines out)"
  shows "emitted line"
proof -
  obtain g0 where init: "golden_init sw bw = Inr g0"
    using assms(1) by (cases "golden_init sw bw") (auto simp: run_scenario_def)
  obtain r g where run: "for_each (run_row sw bw) rows g0 = (r, g)" by fastforce
  have r: "r = Inr ()"
    using assms(1) init run by (cases r) (auto simp: run_scenario_def dest: scenario_setup_fails)
  obtain q h where hw: "hardware_phase g = (q, h)" by fastforce
  have "stim_lines out = gd_stim h"
    using assms(1) init scenario_setup [of sw bw rows g0 g] run r hw
    by (auto simp: run_scenario_def split: sum.splits)
  moreover have "gd_stim h = gd_stim g" using hardware_keeps_stim [of g] hw by simp
  ultimately show ?thesis
    using setup_shaped [OF init run] assms(2) by (simp add: stim_shaped_def)
qed

section \<open>The session ends with an exit status\<close>

lemma raises_weaken: "raises_only P m \<Longrightarrow> (\<And>e. P e \<Longrightarrow> Q e) \<Longrightarrow> raises_only Q m"
  unfolding raises_only_def by blast

definition exits :: "exn \<Rightarrow> bool" where
  "exits e \<longleftrightarrow> link_error e \<or> e = SystemExit 1"

lemma exits_intros [errs]:
  "raises_only link_error m \<Longrightarrow> raises_only exits m" "exits (SystemExit 1)"
  by (auto simp: exits_def intro: raises_weaken)

lemma masked_u32s: "u32s (map (\<lambda>w. w AND 0xFFFFFFFF) ws)"
  by (auto simp: u32s_def bits)

lemma u32s_slice: "u32s ws \<Longrightarrow> u32s (take n (drop k ws))"
  by (auto simp: u32s_def dest!: in_set_takeD in_set_dropD)

lemma crc32_words_ok: "u32s ws \<Longrightarrow> crc32_words ws = Inr (zlib_crc32 (concat (map le32 ws)) AND 0xFFFFFFFF)"
  by (simp add: crc32_words_def pack_words_ok)

lemma span_errors:
  assumes "\<And>a n. raises_only link_error (crc a n)" and "u32s ws"
  shows "raises_only link_error (span_check crc ws idxs)"
  unfolding span_check_def Let_def crc32_words_ok [OF u32s_slice [OF assms(2)]] known_read
  by (intro errs assms(1))

lemma spot_errors: "(\<And>a. raises_only link_error (rd a)) \<Longrightarrow> raises_only link_error (spot_checks rd offs)"
  unfolding spot_checks_def by (intro errs)

lemma send_stim_errors:
  assumes "\<forall>line \<in> set lines. emitted line" and "plain csv_name"
  shows "raises_only link_error (send_stim fw h (stim_file csv_name lines))"
proof -
  have all: "file_lines (universal_newlines (stim_file csv_name lines))
      = (''# generated from '' @ csv_name) # lines"
    using stim_file_lines [of "small_golden\<lparr>gd_stim := lines\<rparr>" csv_name] assms
    by (simp add: stim_shaped_def)
  have "raises_only link_error (send_line fw h line)"
    if "line \<in> set ((''# generated from '' @ csv_name) # lines)" for line
    using that assms(1) send_line_errors
    by (auto simp: send_comment intro: raises_basic)
  then show ?thesis unfolding send_stim_def all by (intro errs)
qed

lemma body_errors:
  assumes "\<forall>line \<in> set lines. emitted line" and "plain csv_name" and "u32s sram_words"
  shows "raises_only exits (session_body fw h (stim_file csv_name lines) (hex32_file smem0)
    (hex32_file sram0) sram_words)"
proof -
  have stim: "raises_only exits (send_stim fw h (stim_file csv_name lines))"
    by (rule exits_intros) (rule send_stim_errors [OF assms(1,2)])
  have spots: "raises_only exits (spot_checks (read_smem fw h) offs)"
    "raises_only exits (spot_checks (read_sram fw h) offs)" for offs
    by (rule exits_intros, rule spot_errors, rule errs)+
  have spans: "raises_only exits (span_check (sram_crc fw h) sram_words idxs)"
    "raises_only exits (span_check (smem_crc fw h) (map (\<lambda>w. w AND 0xFFFFFFFF) smem0) idxs)" for idxs
    by (rule exits_intros, rule span_errors, rule errs, rule assms masked_u32s)+
  have writes: "raises_only exits (for_each (\<lambda>(i, w). smem_write fw h (i * 4) w) xs)"
    "raises_only exits (for_each (\<lambda>(i, w). sram_write fw h (i * 4) w) xs)" for xs :: "(int \<times> int) list"
    by (rule exits_intros, rule raises_for_each, simp add: case_prod_beta, rule errs)+
  have run: "raises_only exits (act_catch runtime_error (act_bind (run_dma fw h) (\<lambda>_. act_return True))
      (act_return False))"
    by (rule raises_catch [OF raises_weaken raises_basic(1)], rule exits_intros, intro errs) simp
  have dump: "raises_only exits (host_dump_csr_status fw h)" by (rule dump_errors)
  show ?thesis
    unfolding session_body_def load_hex32_file known_read Let_def
    by (intro raises_bind raises_if raises_basic raises_raise exits_intros(2) stim spots spans writes
        run dump)
qed

lemma board_errors:
  assumes "\<forall>line \<in> set (stim_lines out). emitted line" and "plain csv_name"
  shows "raises_only (\<lambda>e. e = SystemExit 1) (board_session fw h csv_name out)"
proof -
  have "raises_only (\<lambda>e. \<not> link_error e \<longrightarrow> e = SystemExit 1)
    (session_body fw h (stim_file csv_name (stim_lines out)) (hex32_file (initial_smem out))
       (hex32_file (initial_sram out)) (map (\<lambda>w. w AND 0xFFFFFFFF) (final_sram out)))"
    by (rule raises_weaken [OF body_errors [OF assms masked_u32s]]) (auto simp: exits_def)
  then show ?thesis
    unfolding board_session_def load_hex32_file known_read crc32_words_ok [OF masked_u32s]
    by (intro raises_catch raises_raise) simp_all
qed

lemma unchanged_words: "changed_words ws ws = []"
  by (auto simp: changed_words_def indexed_def filter_empty_conv set_zip)

section \<open>What the self-check accepts\<close>

definition row_fields :: "descriptor \<Rightarrow> int \<times> int \<times> int \<times> int" where
  "row_fields d = (w0 d, w1 d, w2 d AND 0xFF, w3 d)"

lemma sum_results_count:
  assumes "\<And>x. x \<in> set xs \<Longrightarrow> \<exists>n. f x = Inr (int n) \<and> (n = 0 \<longleftrightarrow> P x)"
  shows "\<exists>n. sum_results f xs = Inr (int n) \<and> (n = 0 \<longleftrightarrow> (\<forall>x \<in> set xs. P x))"
  using assms
proof (induction xs)
  case (Cons x xs)
  obtain n where "sum_results f xs = Inr (int n)" "n = 0 \<longleftrightarrow> (\<forall>x \<in> set xs. P x)" using Cons by auto
  moreover obtain k where "f x = Inr (int k)" "k = 0 \<longleftrightarrow> P x" using Cons.prems [of x] by auto
  ultimately show ?case by (intro exI [of _ "k + n"]) auto
qed simp

lemma check_beats_verdict:
  assumes "0 \<le> src" and "0 \<le> dst"
    and "nat (src div 4) + n \<le> length from_mem" and "nat (dst div 4) + n \<le> length to_mem"
  shows "\<exists>k. sum_results (check_beat from_mem to_mem src dst) (py_range (int n)) = Inr (int k) \<and>
    (k = 0 \<longleftrightarrow> load_block to_mem (nat (dst div 4)) n = load_block from_mem (nat (src div 4)) n)"
proof -
  let ?same = "\<lambda>i. to_mem ! (nat (dst div 4) + i) = from_mem ! (nat (src div 4) + i)"
  have beat: "check_beat from_mem to_mem src dst (int i) = Inr (if ?same i then 0 else 1)" if "i < n" for i
  proof -
    have "src div 4 + int i = int (nat (src div 4) + i)" "dst div 4 + int i = int (nat (dst div 4) + i)"
      using assms(1,2) by simp_all
    then show ?thesis
      using that assms(3,4) unfolding check_beat_def Let_def drop_bit_eq_div by (simp del: of_nat_add)
  qed
  have "\<exists>k. check_beat from_mem to_mem src dst b = Inr (int k) \<and> (k = 0 \<longleftrightarrow> ?same (nat b))"
    if "b \<in> set (py_range (int n))" for b
  proof -
    obtain i where "i < n" "b = int i" using \<open>b \<in> set (py_range (int n))\<close> by (auto simp: py_range_def)
    then show ?thesis using beat by (intro exI [of _ "if ?same i then 0 else 1"]) auto
  qed
  from sum_results_count [where f = "check_beat from_mem to_mem src dst" and P = "\<lambda>b. ?same (nat b)", OF this] obtain k where k: "sum_results (check_beat from_mem to_mem src dst) (py_range (int n)) = Inr (int k)"
    "k = 0 \<longleftrightarrow> (\<forall>b \<in> set (py_range (int n)). ?same (nat b))" by blast
  have "(\<forall>b \<in> set (py_range (int n)). ?same (nat b)) \<longleftrightarrow> (\<forall>i < n. ?same i)" by (auto simp: py_range_def)
  also have "\<dots> \<longleftrightarrow> load_block to_mem (nat (dst div 4)) n = load_block from_mem (nat (src div 4)) n"
    using assms(3,4) by (auto simp: list_eq_iff_nth_eq load_block_nth)
  finally show ?thesis using k by blast
qed

text \<open>
  What the script compares for one desc row: into the SRAM the final SRAM with the initial system
  memory, out of it the final system memory with the final SRAM.
\<close>

abbreviation checked_block :: "int list \<Rightarrow> int list \<Rightarrow> int list \<Rightarrow> descriptor \<Rightarrow> bool" where
  "checked_block smem0 smem1 sram1 d \<equiv>
     (if odd (w3 d)
      then load_block sram1 (nat (w1 d div 4)) (dma_beats d) = load_block smem0 (nat (w0 d div 4)) (dma_beats d)
      else load_block smem1 (nat (w1 d div 4)) (dma_beats d) = load_block sram1 (nat (w0 d div 4)) (dma_beats d))"

lemma check_desc_verdict:
  assumes "desc_ok d" and "in_range m d" and "length smem0 = length (fst m)"
    and "length smem1 = length (fst m)" and "length sram1 = length (snd m)"
  shows "\<exists>k. check_desc smem0 smem1 sram1 (row_fields d) = Inr (int k) \<and> (k = 0 \<longleftrightarrow> checked_block smem0 smem1 sram1 d)"
proof -
  have len: "w2 d AND 0xFF = int (dma_beats d)" by (simp add: dma_beats_def bits)
  have addr: "0 \<le> w0 d" "0 \<le> w1 d" using assms(1) by (simp_all add: desc_ok_def)
  show ?thesis
  proof (cases "odd (w3 d)")
    case True
    then have "w3 d AND 1 \<noteq> 0" by (simp add: and_one_eq odd_iff_mod_2_eq_one)
    with True show ?thesis
      using assms(2-5) check_beats_verdict [OF addr, of "dma_beats d" smem0 sram1]
      by (simp add: check_desc_def row_fields_def len in_range_def source_region_def target_region_def)
  next
    case False
    then have "w3 d AND 1 = 0" by (simp add: and_one_eq)
    with False show ?thesis
      using assms(2-5) check_beats_verdict [OF addr, of "dma_beats d" sram1 smem1]
      by (simp add: check_desc_def row_fields_def len in_range_def source_region_def target_region_def)
  qed
qed

lemma fold_lengths:
  "\<forall>d \<in> set ds. in_range m d \<Longrightarrow> length (fst (fold dma_move ds m)) = length (fst m) \<and>
     length (snd (fold dma_move ds m)) = length (snd m)"
proof (induction ds arbitrary: m)
  case Nil
  then show ?case by simp
next
  case (Cons d ds)
  then have d: "inside (source_region d) m" "inside (target_region d) m" by (simp_all add: in_range_def)
  note len = move_lengths [OF d(2,1)]
  have "\<forall>e \<in> set ds. in_range (dma_move d m) e"
    using Cons.prems by (simp add: in_range_def inside_cong [OF len])
  from Cons.IH [OF this] show ?case by (simp add: len)
qed

lemma check_all_verdict:
  assumes "\<forall>d \<in> set ds. in_range m d \<and> desc_ok d"
  shows "\<exists>k. sum_results (check_desc (fst m) (fst (fold dma_move ds m)) (snd (fold dma_move ds m))) (map row_fields ds) = Inr (int k) \<and>
    (k = 0 \<longleftrightarrow> (\<forall>d \<in> set ds. checked_block (fst m) (fst (fold dma_move ds m)) (snd (fold dma_move ds m)) d))"
proof -
  let ?m = "fold dma_move ds m"
  have len: "length (fst ?m) = length (fst m)" "length (snd ?m) = length (snd m)" using fold_lengths [of ds m] assms by simp_all
  have same: "sum_results f (map row_fields ds) = sum_results (\<lambda>d. f (row_fields d)) ds" for f by (induction ds) simp_all
  show ?thesis
    unfolding same using assms check_desc_verdict [of _ m "fst m", OF _ _ refl len] by (intro sum_results_count) blast
qed

lemma independent_checked:
  assumes "\<forall>d \<in> set ds. in_range m d" and "independent ds" and "d \<in> set ds"
  shows "checked_block (fst m) (fst (fold dma_move ds m)) (snd (fold dma_move ds m)) d"
  using independent_moves [OF assms] assms(1,3)
  by (auto simp: source_region_def target_region_def)

lemma pending_desc_ok:
  assumes "ring_ok r" and "d \<in> set (pending r)"
  shows "desc_ok d"
proof -
  obtain i where i: "d = desc_at (ring_mem r) (slot_word (base_of r) i)"
      "i \<in> set (slots (rlen_of r) (head_of r) (nat (ring_count (rlen_of r) (head_of r) (tail_of r))))"
    using assms(2) by (auto simp: pending_def)
  have "0 < rlen_of r" using assms(1) by (simp add: ring_ok_def)
  then have "0 \<le> i" "i < rlen_of r" using slots_range i(2) by blast+
  from slot_facts(7) [OF assms(1) this] ring_ok_mem(2) [OF assms(1)] show ?thesis
    unfolding i(1) by (intro desc_at_ok)
qed

definition reverse_chain :: "string list list" where
  "reverse_chain = [[''sram'', ''0'', ''b''], [''csr_ringlen'', ''4''],
     [''desc'', ''0'', ''50'', ''1'', ''0''], [''desc'', ''50'', ''10'', ''1'', ''1''], [''enable'']]"

definition same_way_rows :: "string list list" where
  "same_way_rows = [[''smem'', ''16'', ''b''], [''smem'', ''18'', ''c''], [''csr_ringlen'', ''4''],
     [''desc'', ''40'', ''0'', ''2'', ''1''], [''desc'', ''48'', ''8'', ''2'', ''1''], [''enable'']]"

section \<open>Properties\<close>

text \<open>
  The board session always ends with an exit status: for a scenario the golden model ran, whatever
  the firmware answers (garbage, nothing, refusals), the session either passes or ends with exit
  status 1; no other exception escapes.
\<close>

theorem board_session_exits:
  assumes "run_scenario rows sw bw = Inr out" and "plain csv_name"
  shows "fst (board_session fw h csv_name out s) \<in> {Inr (), Inl (SystemExit 1)}"
proof -
  have "raises_only (\<lambda>e. e = SystemExit 1) (board_session fw h csv_name out)"
    using scenario_stim [OF assms(1)] assms(2) by (intro board_errors) auto
  then show ?thesis
    by (cases "board_session fw h csv_name out s"; cases "fst (board_session fw h csv_name out s)")
      (auto dest: raises_onlyD)
qed

theorem board_session_exits_witness:
  "\<exists>out. run_scenario (butlast demo_rows) 32 8 = Inr out \<and>
     fst (board_session (\<lambda>_ d. ([0x55, 0xAA], d)) \<lparr>csr_base_addr = CSR_BASE, smem_base_addr = 0,
       sram_base_addr = 0, ack_polls = 9, dma_polls = 9\<rparr> ''demo.csv'' out
       \<lparr>rx = [], tx = [], device = ()\<rparr>) \<in> {Inr (), Inl (SystemExit 1)}"
proof -
  have "\<not> isl (run_scenario (butlast demo_rows) 32 8)" by code_simp
  then obtain out where out: "run_scenario (butlast demo_rows) 32 8 = Inr out"
    by (cases "run_scenario (butlast demo_rows) 32 8") auto
  have "plain ''demo.csv''" by (simp add: plain_def)
  from board_session_exits [OF out this] out show ?thesis by blast
qed

text \<open>
  A scenario that only writes system memory can never pass on the board: when the golden model
  leaves the SRAM as it was, no firmware makes the session return normally.
\<close>

theorem sram_unchanged_never_passes:
  assumes "final_sram out = initial_sram out"
  shows "fst (board_session fw h csv_name out s) \<noteq> Inr ()"
proof
  assume "fst (board_session fw h csv_name out s) = Inr ()"
  then obtain t where "board_session fw h csv_name out s = (Inr (), t)"
    by (cases "board_session fw h csv_name out s") auto
  then obtain u where "session_body fw h (stim_file csv_name (stim_lines out))
      (hex32_file (initial_smem out)) (hex32_file (initial_sram out))
      (map (\<lambda>w. w AND 0xFFFFFFFF) (final_sram out)) s = (Inr (), u)"
    unfolding board_session_def load_hex32_file known_read crc32_words_ok [OF masked_u32s]
    by (auto simp: act_catch_def act_simps split: prod.splits sum.splits if_splits)
  then show False
    unfolding session_body_def load_hex32_file known_read Let_def assms
    by (auto simp: act_bind_eq_Inr act_simps unchanged_words split: if_splits)
qed

theorem sram_unchanged_never_passes_witness:
  "fst (board_session (\<lambda>_ d. ([], d)) \<lparr>csr_base_addr = CSR_BASE, smem_base_addr = 0,
     sram_base_addr = 0, ack_polls = 9, dma_polls = 9\<rparr> ''reverse.csv'' \<lparr>stim_lines = [],
     initial_smem = [0, 0], final_smem = [0, 7], initial_sram = [7], final_sram = [7],
     descs_fetched = []\<rparr> \<lparr>rx = [], tx = [], device = ()\<rparr>) \<noteq> Inr ()"
  by (rule sram_unchanged_never_passes) simp

text \<open>
  The images survive the trip through a file: reading the hex file of a word list gives the words
  masked to 32 bits, so a memory of 32-bit words comes back unchanged.
\<close>

theorem hex_image_roundtrip:
  "load_hex32 (hex32_file ws) = Inr (map (\<lambda>w. w AND 0xFFFFFFFF) ws)"
  by (rule load_hex32_file)

text \<open>
  C25. The verdict of the self-check. For a scenario whose rows leave an enabled, well-formed ring with
  fewer than MAX_ITERS pending descriptors, each of which fits MID and the memories and does not
  overwrite the ring, and whose desc rows name these descriptors, \<open>dry_run\<close> returns without an
  exception, and it returns True exactly when for every descriptor with DIR set the words at its
  destination in the final SRAM are the words at its source in the system memory before any transfer,
  and for every other one the words at its destination in the final system memory are those at its source
  in the final SRAM, the final memories being those after the block copies in ring order. In particular
  it returns True when the transfers are independent.
\<close>

theorem dry_run_verdict:
  assumes "golden_init sw bw = Inr g0" and "for_each (run_row sw bw) rows g0 = (Inr (), g)"
    and "ring_ok (gd_ring g)" and "is_enabled (g_csr g)"
    and "length (pending (gd_ring g)) < MAX_ITERS"
    and "\<forall>d \<in> set (pending (gd_ring g)). dma_fits MID_DEPTH d (smem g, bram g) \<and>
      spares_ring (csr_baseaddr (g_csr g)) (csr_ringlen (g_csr g)) d"
    and "check_rows rows = Inr (map row_fields (pending (gd_ring g)))"
    and "(smem1, sram1) = fold dma_move (pending (gd_ring g)) (smem g, bram g)"
  shows "dry_run rows sw bw = Inr (\<forall>d \<in> set (pending (gd_ring g)).
      if odd (w3 d)
      then load_block sram1 (nat (w1 d div 4)) (dma_beats d) = load_block (smem g) (nat (w0 d div 4)) (dma_beats d)
      else load_block smem1 (nat (w1 d div 4)) (dma_beats d) = load_block sram1 (nat (w0 d div 4)) (dma_beats d)) \<and>
    (independent (pending (gd_ring g)) \<longrightarrow> dry_run rows sw bw = Inr True)"
proof -
  let ?m = "(smem g, bram g)" and ?ds = "pending (gd_ring g)"
  have res: "fst (fold dma_move ?ds ?m) = smem1" "snd (fold dma_move ?ds ?m) = sram1"
    using assms(8) by (metis fst_conv, metis snd_conv)
  obtain out where out: "run_scenario rows sw bw = Inr out" "initial_smem out = smem g"
      "final_smem out = smem1" "final_sram out = sram1"
    using scenario_result [OF assms(1-6)] res by auto
  have fits: "\<forall>d \<in> set ?ds. in_range ?m d \<and> desc_ok d"
    using assms(6) fits_inside pending_desc_ok [OF assms(3)] by (force simp: in_range_def)
  obtain k where k: "sum_results (check_desc (smem g) smem1 sram1) (map row_fields ?ds) = Inr (int k)"
    "k = 0 \<longleftrightarrow> (\<forall>d \<in> set ?ds. checked_block (smem g) smem1 sram1 d)"
    using check_all_verdict [OF fits] unfolding res fst_conv by blast
  have verdict: "dry_run rows sw bw = Inr (\<forall>d \<in> set ?ds. checked_block (smem g) smem1 sram1 d)"
    using k by (simp add: dry_run_def out assms(7))
  have "\<forall>d \<in> set ?ds. checked_block (smem g) smem1 sram1 d" if "independent ?ds"
    using independent_checked [OF _ that] fits unfolding res [symmetric] by force
  with verdict show ?thesis by simp
qed

theorem dry_run_verdict_witness: "dry_run same_way_rows 32 8 = Inr True"
proof -
  let ?g = "snd (for_each (run_row 32 8) same_way_rows demo_init)"
  have run: "for_each (run_row 32 8) same_way_rows demo_init = (Inr (), ?g)"
  proof -
    have "fst (for_each (run_row 32 8) same_way_rows demo_init) = Inr ()" by code_simp
    then show ?thesis by (metis prod.collapse)
  qed
  have ring: "ring_ok (gd_ring ?g)" by code_simp
  have en: "is_enabled (g_csr ?g)" by code_simp
  have len: "length (pending (gd_ring ?g)) < MAX_ITERS" by code_simp
  have fits: "\<forall>d \<in> set (pending (gd_ring ?g)). dma_fits MID_DEPTH d (smem ?g, bram ?g) \<and>
      spares_ring (csr_baseaddr (g_csr ?g)) (csr_ringlen (g_csr ?g)) d" by code_simp
  have ind: "independent (pending (gd_ring ?g))" by code_simp
  have rows: "check_rows same_way_rows = Inr (map row_fields (pending (gd_ring ?g)))" by code_simp
  show ?thesis
    using dry_run_verdict [OF demo_init_ok run ring en len fits rows prod.collapse] ind by blast
qed

text \<open>
  The self-check rejects a correct run when a transfer to the SRAM reads what an earlier one wrote
  to system memory: the check compares with the system memory before any transfer. Here word 4 of the
  SRAM holds the right value and the check still fails.
\<close>

theorem dry_run_rejects_chain:
  "dry_run reverse_chain 32 8 = Inr False \<and>
   (case run_scenario reverse_chain 32 8 of
      Inl e \<Rightarrow> False
    | Inr out \<Rightarrow> final_sram out = [11, 0, 0, 0, 11, 0, 0, 0] \<and> final_smem out ! 20 = 11)"
  by code_simp

end
