(* ===== verification/Firmware.thy ===== *)
theory Firmware
  imports Host_Runner
begin

text \<open>
  The MicroBlaze firmware of \<open>firmware&local/uart_read_write.c\<close> (constants of \<open>protocol.h\<close>): the
  packet parser, the memory accesses through the shim's registers, the table-driven CRC, and the
  command handlers. It is an instance of the parameter \<open>fw\<close> of the host models. Two things stay
  parameters: \<open>bus\<close>, what a 32-bit load or store of the processor does (\<open>Xil_In32\<close>, \<open>Xil_Out32\<close> and
  the hardware behind them), and \<open>say\<close>, the bytes that \<open>xil_printf\<close> puts on the same UART for a format
  and its arguments (none when standard output is elsewhere). A \<open>u32\<close> is an \<open>int\<close> with its
  truncations written out; the CRC register is a \<open>32 word\<close>.
\<close>

section \<open>Constants\<close>

definition MEM_ACCESS_CTRL_BASE :: int where "MEM_ACCESS_CTRL_BASE = 0x60000000"
definition CSR_ACCESS_BASE :: int where "CSR_ACCESS_BASE = 0x80000000"
definition REG_INIT_ADDR :: int where "REG_INIT_ADDR = 0x00"
definition REG_INIT_DATA :: int where "REG_INIT_DATA = 0x04"
definition REG_SRAM_WR :: int where "REG_SRAM_WR = 0x08"
definition REG_SRAM_RD :: int where "REG_SRAM_RD = 0x0C"
definition REG_MEM_WR :: int where "REG_MEM_WR = 0x10"
definition REG_MEM_RD :: int where "REG_MEM_RD = 0x14"
definition REG_RDATA :: int where "REG_RDATA = 0x18"
definition REG_INIT_DONE :: int where "REG_INIT_DONE = 0x1C"
definition CSR_REG_BASEADDR :: int where "CSR_REG_BASEADDR = 0x00"
definition CSR_REG_RINGLEN :: int where "CSR_REG_RINGLEN = 0x04"
definition CSR_REG_HEAD :: int where "CSR_REG_HEAD = 0x08"
definition CSR_REG_TAIL :: int where "CSR_REG_TAIL = 0x0C"
definition CSR_REG_CTRL :: int where "CSR_REG_CTRL = 0x10"
definition CSR_REG_STATUS :: int where "CSR_REG_STATUS = 0x14"
definition CSR_REG_IRQ_CLEAR :: int where "CSR_REG_IRQ_CLEAR = 0x2C"
definition CTRL_ENABLE :: int where "CTRL_ENABLE = 1"
definition CTRL_RESET :: int where "CTRL_RESET = 2"
definition STATUS_BUSY :: int where "STATUS_BUSY = 1"
definition STATUS_EMPTY :: int where "STATUS_EMPTY = 2"
definition STATUS_ERROR :: int where "STATUS_ERROR = 4"
definition CMD_NACK :: int where "CMD_NACK = 0xEE"

lemmas shim_offsets = REG_INIT_ADDR_def REG_INIT_DATA_def REG_SRAM_WR_def REG_SRAM_RD_def
  REG_MEM_WR_def REG_MEM_RD_def REG_RDATA_def REG_INIT_DONE_def

lemmas firmware_opcodes = CMD_WRITE_SRAM_def CMD_WRITE_SYSMEM_def CMD_WRITE_CSR_def CMD_RUN_DMA_def
  CMD_READ_SRAM_def CMD_READ_SYSMEM_def CMD_CRC_SRAM_def CMD_CRC_SYSMEM_def CMD_READ_CSR_def

section \<open>Memory access\<close>

record 'b bus =
  xil_in32 :: "int \<Rightarrow> 'b \<Rightarrow> int \<times> 'b"
  xil_out32 :: "int \<Rightarrow> int \<Rightarrow> 'b \<Rightarrow> 'b"

definition REG_WRITE :: "'b bus \<Rightarrow> int \<Rightarrow> int \<Rightarrow> 'b \<Rightarrow> 'b" where
  "REG_WRITE bus offset val = xil_out32 bus (MEM_ACCESS_CTRL_BASE + offset) val"

definition REG_READ :: "'b bus \<Rightarrow> int \<Rightarrow> 'b \<Rightarrow> int \<times> 'b" where
  "REG_READ bus offset = xil_in32 bus (MEM_ACCESS_CTRL_BASE + offset)"

definition fw_sysmem_write :: "'b bus \<Rightarrow> int \<Rightarrow> int \<Rightarrow> 'b \<Rightarrow> 'b" where
  "fw_sysmem_write bus byte_addr data s =
     (let s1 = REG_WRITE bus REG_INIT_ADDR byte_addr s;
          s2 = REG_WRITE bus REG_INIT_DATA data s1
      in REG_WRITE bus REG_MEM_WR 1 s2)"

definition fw_sysmem_read :: "'b bus \<Rightarrow> int \<Rightarrow> 'b \<Rightarrow> int \<times> 'b" where
  "fw_sysmem_read bus byte_addr s =
     (let s1 = REG_WRITE bus REG_INIT_ADDR byte_addr s;
          s2 = REG_WRITE bus REG_MEM_RD 1 s1
      in REG_READ bus REG_RDATA s2)"

definition fw_sram_write :: "'b bus \<Rightarrow> int \<Rightarrow> int \<Rightarrow> 'b \<Rightarrow> 'b" where
  "fw_sram_write bus byte_addr data s =
     (let s1 = REG_WRITE bus REG_INIT_ADDR byte_addr s;
          s2 = REG_WRITE bus REG_INIT_DATA data s1
      in REG_WRITE bus REG_SRAM_WR 1 s2)"

definition fw_sram_read :: "'b bus \<Rightarrow> int \<Rightarrow> 'b \<Rightarrow> int \<times> 'b" where
  "fw_sram_read bus byte_addr s =
     (let s1 = REG_WRITE bus REG_INIT_ADDR byte_addr s;
          s2 = REG_WRITE bus REG_SRAM_RD 1 s1
      in REG_READ bus REG_RDATA s2)"

section \<open>The table-driven checksum\<close>

definition table_entry :: "32 word \<Rightarrow> 32 word" where
  "table_entry i =
     ((\<lambda>c. if c AND 1 \<noteq> 0 then 0xEDB88320 XOR drop_bit 1 c else drop_bit 1 c) ^^ 8) i"

definition crc32_table :: "32 word list" where
  "crc32_table = map (\<lambda>i. table_entry (of_nat i)) [0..<256]"

definition crc32_step :: "32 word \<Rightarrow> 32 word \<Rightarrow> 32 word" where
  "crc32_step crc b = crc32_table ! unat ((crc XOR b) AND 0xFF) XOR drop_bit 8 crc"

definition crc32_word_le :: "32 word \<Rightarrow> 32 word \<Rightarrow> 32 word" where
  "crc32_word_le crc word =
     (let crc1 = crc32_step crc (word AND 0xFF);
          crc2 = crc32_step crc1 (drop_bit 8 word AND 0xFF);
          crc3 = crc32_step crc2 (drop_bit 16 word AND 0xFF)
      in crc32_step crc3 (drop_bit 24 word AND 0xFF))"

text \<open>\<open>for (w = 0; w < word_count; w++)\<close>, with the number of words still to read.\<close>

fun crc_loop ::
  "(int \<Rightarrow> 'b \<Rightarrow> int \<times> 'b) \<Rightarrow> int \<Rightarrow> nat \<Rightarrow> int \<Rightarrow> 32 word \<Rightarrow> 'b \<Rightarrow> 32 word \<times> 'b" where
  "crc_loop rd start 0 w crc s = (crc, s)"
| "crc_loop rd start (Suc n) w crc s =
     (case rd ((start + w * 4) AND 0xFFFFFFFF) s of
        (v, t) \<Rightarrow> crc_loop rd start n (w + 1) (crc32_word_le crc (word_of_int v)) t)"

definition crc32_range ::
  "(int \<Rightarrow> 'b \<Rightarrow> int \<times> 'b) \<Rightarrow> int \<Rightarrow> int \<Rightarrow> 'b \<Rightarrow> int \<times> 'b" where
  "crc32_range rd start byte_length s =
     (case crc_loop rd start (nat (byte_length div 4)) 0 0xFFFFFFFF s of
        (crc, t) \<Rightarrow> (uint (crc XOR 0xFFFFFFFF), t))"

definition crc32_sram_range :: "'b bus \<Rightarrow> int \<Rightarrow> int \<Rightarrow> 'b \<Rightarrow> int \<times> 'b" where
  "crc32_sram_range bus = crc32_range (fw_sram_read bus)"

definition crc32_sysmem_range :: "'b bus \<Rightarrow> int \<Rightarrow> int \<Rightarrow> 'b \<Rightarrow> int \<times> 'b" where
  "crc32_sysmem_range bus = crc32_range (fw_sysmem_read bus)"

section \<open>State\<close>

datatype parser_state = STATE_WAIT_SYNC | STATE_READ_HEADER | STATE_READ_PAYLOAD | STATE_PROCESS

text \<open>
  The variables of \<open>main\<close>; \<open>header\<close> and \<open>count\<close> say how far the blocking reads of the current state
  have come. The payload buffer is written and never read, so it is left out.
\<close>

record 'b uart_fw =
  pstate :: parser_state
  sync_buffer :: int
  opcode_of :: int
  dest_addr :: int
  payload_len :: int
  payload_word :: int
  header :: bytes
  count :: int
  board :: 'b

definition send_ack :: "int \<Rightarrow> bytes" where
  "send_ack ack_type = le32 PACKET_SYNC_WORD @ [ack_type]"

section \<open>The commands\<close>

type_synonym printf = "string \<Rightarrow> int list \<Rightarrow> bytes"

definition crlf :: string where
  "crlf = [CHR 0x0D, CHR 0x0A]"

text \<open>The two polling loops of CMD_RUN_DMA; the second also says whether it ended before its budget.\<close>

fun wait_busy :: "'b bus \<Rightarrow> nat \<Rightarrow> 'b \<Rightarrow> 'b" where
  "wait_busy bus 0 s = s"
| "wait_busy bus (Suc n) s =
     (case xil_in32 bus (CSR_ACCESS_BASE + CSR_REG_STATUS) s of (st, t) \<Rightarrow>
        if st AND STATUS_BUSY \<noteq> 0 \<or> st AND STATUS_ERROR \<noteq> 0 then t else wait_busy bus n t)"

fun poll_done :: "'b bus \<Rightarrow> nat \<Rightarrow> int \<Rightarrow> 'b \<Rightarrow> int \<times> bool \<times> 'b" where
  "poll_done bus 0 status s = (status, False, s)"
| "poll_done bus (Suc n) status s =
     (case xil_in32 bus (CSR_ACCESS_BASE + CSR_REG_STATUS) s of (st, t) \<Rightarrow>
        if st AND STATUS_ERROR \<noteq> 0 then (st, True, t)
        else if st AND STATUS_EMPTY \<noteq> 0 \<and> st AND STATUS_BUSY = 0 then (st, True, t)
        else poll_done bus n st t)"

definition fw_csr_in :: "'b bus \<Rightarrow> int \<Rightarrow> 'b \<Rightarrow> int \<times> 'b" where
  "fw_csr_in bus off = xil_in32 bus (CSR_ACCESS_BASE + off)"

definition fw_csr_out :: "'b bus \<Rightarrow> int \<Rightarrow> int \<Rightarrow> 'b \<Rightarrow> 'b" where
  "fw_csr_out bus off v = xil_out32 bus (CSR_ACCESS_BASE + off) v"

text \<open>The registers are saved, the block is reset, the registers are restored.\<close>

definition fw_reset_csr :: "'b bus \<Rightarrow> 'b \<Rightarrow> 'b" where
  "fw_reset_csr bus s0 =
     (let (saved_baseaddr, s1) = fw_csr_in bus CSR_REG_BASEADDR s0;
          (saved_ringlen, s2) = fw_csr_in bus CSR_REG_RINGLEN s1;
          (saved_tail, s3) = fw_csr_in bus CSR_REG_TAIL s2;
          s4 = fw_csr_out bus CSR_REG_CTRL CTRL_RESET s3;
          s5 = fw_csr_out bus CSR_REG_CTRL 0 s4;
          s6 = fw_csr_out bus CSR_REG_IRQ_CLEAR 0x3 s5;
          s7 = fw_csr_out bus CSR_REG_BASEADDR saved_baseaddr s6;
          s8 = fw_csr_out bus CSR_REG_RINGLEN saved_ringlen s7
      in fw_csr_out bus CSR_REG_TAIL saved_tail s8)"

text \<open>Memory goes to the engine, the engine starts, the two polling loops run, memory comes back.\<close>

definition fw_start_and_wait :: "'b bus \<Rightarrow> 'b \<Rightarrow> int \<times> bool \<times> 'b" where
  "fw_start_and_wait bus s11 =
     (let s12 = REG_WRITE bus REG_INIT_DONE 1 s11;
          (ctrl, s13) = fw_csr_in bus CSR_REG_CTRL s12;
          s14 = fw_csr_out bus CSR_REG_CTRL (ctrl OR CTRL_ENABLE) s13;
          s15 = wait_busy bus 10000 s14;
          (status, ended, s16) = poll_done bus 10000000 0 s15
      in (status, ended, REG_WRITE bus REG_INIT_DONE 0 s16))"

definition fw_run_dma :: "'b bus \<Rightarrow> printf \<Rightarrow> 'b \<Rightarrow> bytes \<times> 'b" where
  "fw_run_dma bus say s0 =
     (let s9 = fw_reset_csr bus s0;
          (head_pre, s10) = fw_csr_in bus CSR_REG_HEAD s9;
          (tail_pre, s11) = fw_csr_in bus CSR_REG_TAIL s10;
          text1 = say (''Triggering DMA... HEAD=%d TAIL=%d'' @ crlf) [head_pre, tail_pre]
      in if tail_pre = 0
         then (text1 @ say (''DMA ring empty (TAIL=0), nothing to do.'' @ crlf) [] @ send_ack CMD_NACK,
               s11)
         else
           let (status, ended, s17) = fw_start_and_wait bus s11
           in if status AND STATUS_ERROR \<noteq> 0 \<or> \<not> ended
              then (text1 @ say (''DMA failed: status=0x%08x'' @ crlf) [status] @ send_ack CMD_NACK, s17)
              else (text1 @ say (''DMA done: status=0x%08x'' @ crlf) [status] @ send_ack CMD_ACK, s17))"

definition fw_write :: "printf \<Rightarrow> string \<Rightarrow> (int \<Rightarrow> int \<Rightarrow> 'b \<Rightarrow> 'b) \<Rightarrow> 'b uart_fw \<Rightarrow> bytes \<times> 'b" where
  "fw_write say region wr u =
     (if payload_len u \<ge> 4
      then (say (''Wrote 0x%08x to '' @ region @ ''[0x%08x]'' @ crlf) [payload_word u, dest_addr u]
              @ send_ack CMD_ACK,
            wr (dest_addr u) (payload_word u) (board u))
      else (send_ack CMD_NACK, board u))"

definition fw_read ::
  "printf \<Rightarrow> string \<Rightarrow> (int \<Rightarrow> 'b \<Rightarrow> int \<times> 'b) \<Rightarrow> 'b uart_fw \<Rightarrow> bytes \<times> 'b" where
  "fw_read say region rd u =
     (case rd (dest_addr u) (board u) of (val, s) \<Rightarrow>
        (say (''Read 0x%08x from '' @ region @ ''[0x%08x]'' @ crlf) [val, dest_addr u]
           @ send_ack CMD_ACK @ le32 val, s))"

definition fw_read_csr :: "'b bus \<Rightarrow> printf \<Rightarrow> 'b uart_fw \<Rightarrow> bytes \<times> 'b" where
  "fw_read_csr bus say u =
     (case xil_in32 bus (dest_addr u) (board u) of (val, s) \<Rightarrow>
        (say (''Read CSR[0x%08x] = 0x%08x'' @ crlf) [dest_addr u, val]
           @ send_ack CMD_ACK @ le32 val, s))"

definition fw_crc ::
  "printf \<Rightarrow> string \<Rightarrow> (int \<Rightarrow> int \<Rightarrow> 'b \<Rightarrow> int \<times> 'b) \<Rightarrow> 'b uart_fw \<Rightarrow> bytes \<times> 'b" where
  "fw_crc say region crc_range u =
     (if payload_len u \<ge> 4
      then (case crc_range (dest_addr u) (payload_word u) (board u) of (crc, s) \<Rightarrow>
        (say (''CRC '' @ region @ ''[0x%08x..+0x%x] = 0x%08x'' @ crlf)
             [dest_addr u, payload_word u, crc] @ send_ack CMD_ACK @ le32 crc, s))
      else (send_ack CMD_NACK, board u))"

text \<open>\<open>STATE_PROCESS\<close>: one command, then back to the search for a sync word.\<close>

definition fw_command :: "'b bus \<Rightarrow> printf \<Rightarrow> 'b uart_fw \<Rightarrow> bytes \<times> 'b" where
  "fw_command bus say u =
     (if opcode_of u = CMD_WRITE_SRAM then fw_write say ''SRAM'' (fw_sram_write bus) u
      else if opcode_of u = CMD_WRITE_SYSMEM then fw_write say ''SYSMEM'' (fw_sysmem_write bus) u
      else if opcode_of u = CMD_WRITE_CSR then fw_write say ''CSR'' (xil_out32 bus) u
      else if opcode_of u = CMD_RUN_DMA then fw_run_dma bus say (board u)
      else if opcode_of u = CMD_READ_SRAM then fw_read say ''SRAM'' (fw_sram_read bus) u
      else if opcode_of u = CMD_READ_SYSMEM then fw_read say ''SYSMEM'' (fw_sysmem_read bus) u
      else if opcode_of u = CMD_CRC_SRAM then fw_crc say ''SRAM'' (crc32_sram_range bus) u
      else if opcode_of u = CMD_CRC_SYSMEM then fw_crc say ''SYSMEM'' (crc32_sysmem_range bus) u
      else if opcode_of u = CMD_READ_CSR then fw_read_csr bus say u
      else (send_ack CMD_NACK, board u))"

definition fw_process :: "'b bus \<Rightarrow> printf \<Rightarrow> 'b uart_fw \<Rightarrow> bytes \<times> 'b uart_fw" where
  "fw_process bus say u =
     (case fw_command bus say u of
        (out, s) \<Rightarrow> (out, u\<lparr>board := s, sync_buffer := 0, pstate := STATE_WAIT_SYNC\<rparr>))"

section \<open>The parser\<close>

definition fw_wait_sync :: "int \<Rightarrow> 'b uart_fw \<Rightarrow> 'b uart_fw" where
  "fw_wait_sync b u =
     (let sync = shift_in (sync_buffer u) b
      in u\<lparr>sync_buffer := sync, header := [],
           pstate := (if sync = PACKET_SYNC_WORD then STATE_READ_HEADER else STATE_WAIT_SYNC)\<rparr>)"

definition fw_read_header :: "int \<Rightarrow> 'b uart_fw \<Rightarrow> 'b uart_fw" where
  "fw_read_header b u =
     (let h = header u @ [b]
      in if length h < 9 then u\<lparr>header := h\<rparr>
         else let n = unpack_u32 (drop 5 h)
              in u\<lparr>header := h, opcode_of := h ! 0, dest_addr := unpack_u32 (take 4 (drop 1 h)),
                   payload_len := n, payload_word := 0, count := 0,
                   pstate := (if n > 0 then STATE_READ_PAYLOAD else STATE_PROCESS)\<rparr>)"

definition fw_read_payload :: "int \<Rightarrow> 'b uart_fw \<Rightarrow> 'b uart_fw" where
  "fw_read_payload b u =
     u\<lparr>payload_word := (if count u < 4 then payload_word u OR push_bit (8 * nat (count u)) b
          else payload_word u),
       count := count u + 1,
       pstate := (if count u + 1 = payload_len u then STATE_PROCESS else STATE_READ_PAYLOAD)\<rparr>"

text \<open>One byte from the UART: the state that reads it, and the processing it may lead to.\<close>

definition fw_byte :: "'b bus \<Rightarrow> printf \<Rightarrow> int \<Rightarrow> 'b uart_fw \<Rightarrow> bytes \<times> 'b uart_fw" where
  "fw_byte bus say b u =
     (let v = (case pstate u of
          STATE_WAIT_SYNC \<Rightarrow> fw_wait_sync b u
        | STATE_READ_HEADER \<Rightarrow> fw_read_header b u
        | STATE_READ_PAYLOAD \<Rightarrow> fw_read_payload b u
        | STATE_PROCESS \<Rightarrow> u)
      in if pstate v = STATE_PROCESS then fw_process bus say v else ([], v))"

fun uart_firmware :: "'b bus \<Rightarrow> printf \<Rightarrow> 'b uart_fw firmware" where
  "uart_firmware bus say [] u = ([], u)"
| "uart_firmware bus say (b # bs) u =
     (case fw_byte bus say b u of (out, v) \<Rightarrow>
        (case uart_firmware bus say bs v of (outs, w) \<Rightarrow> (out @ outs, w)))"

text \<open>Power-up: the banner and the initial state.\<close>

definition fw_boot :: "printf \<Rightarrow> 'b \<Rightarrow> bytes \<times> 'b uart_fw" where
  "fw_boot say s =
     (say (''MicroBlaze DMA Validation Firmware Ready.'' @ crlf) [],
      \<lparr>pstate = STATE_WAIT_SYNC, sync_buffer = 0, opcode_of = 0, dest_addr = 0,
       payload_len = 0, payload_word = 0, header = [], count = 0, board = s\<rparr>)"

section \<open>The table is the bitwise checksum\<close>

lemma table_entry_bits: "table_entry i = (crc_bit ^^ 8) i"
proof -
  have "(\<lambda>c::32 word. if c AND 1 \<noteq> 0 then 0xEDB88320 XOR drop_bit 1 c else drop_bit 1 c) = crc_bit"
    by (rule ext) (simp add: crc_bit_def crc_poly_def and_one_eq bit_0 odd_iff_mod_2_eq_one xor.commute)
  then show ?thesis by (simp only: table_entry_def)
qed

lemma low_byte_index:
  fixes x :: "32 word"
  shows "crc32_table ! unat (x AND 0xFF) = (crc_bit ^^ 8) (x AND 0xFF)"
proof -
  have "unat (x AND 0xFF) < 256"
  proof -
    have "x AND 0xFF = take_bit 8 x" by (simp add: take_bit_eq_mask mask_eq_exp_minus_1)
    then show ?thesis using take_bit_nat_less_exp [of 8 "unat x"] by (simp only: unsigned_take_bit_eq) simp
  qed
  then show ?thesis by (simp add: crc32_table_def table_entry_bits)
qed

lemma split_low_byte: "x = (x AND 0xFF) XOR push_bit 8 (drop_bit 8 x)" for x :: "32 word"
proof (rule bit_word_eqI)
  fix n assume "n < LENGTH(32)"
  have "x AND 0xFF = take_bit 8 x" by (simp add: take_bit_eq_mask mask_eq_exp_minus_1)
  then show "bit x n = bit ((x AND 0xFF) XOR push_bit 8 (drop_bit 8 x)) n"
    using \<open>n < LENGTH(32)\<close> by (auto simp: bit_simps)
qed

lemma crc_table_step: "crc32_table ! unat (x AND 0xFF) XOR drop_bit 8 x = (crc_bit ^^ 8) x"
proof -
  have "\<not> bit (drop_bit 8 x) n" if "32 - 8 \<le> n" for n
    using that bit_imp_le_length [of x "8 + n"] by (auto simp: bit_simps)
  then have "(crc_bit ^^ 8) (push_bit 8 (drop_bit 8 x)) = drop_bit 8 x"
    by (intro crc_bits_push) simp_all
  then show ?thesis
    unfolding low_byte_index by (subst (3) split_low_byte) (simp only: crc_bits_xor)
qed

lemma crc32_step_byte:
  assumes "0 \<le> b" and "b < 256"
  shows "crc32_step c (word_of_int b) = crc_byte c b"
proof -
  have "drop_bit 8 (word_of_int b :: 32 word) = 0"
  proof (rule bit_word_eqI)
    fix n assume "n < LENGTH(32)"
    have "\<not> bit b (8 + n)"
      using assms bit_take_bit_iff [of 8 b "8 + n"] by (simp add: take_bit_int_eq_self)
    then show "bit (drop_bit 8 (word_of_int b :: 32 word)) n = bit (0 :: 32 word) n"
      by (simp add: bit_simps)
  qed
  then have "drop_bit 8 (c XOR word_of_int b) = drop_bit 8 c" by (simp add: drop_bit_xor)
  then show ?thesis
    using crc_table_step [of "c XOR word_of_int b"] by (simp add: crc32_step_def crc_byte_def)
qed

lemma word_byte:
  "drop_bit n (word_of_int v :: 32 word) AND 0xFF = word_of_int (drop_bit n v mod 256)"
  if "0 \<le> v" "v < 2 ^ 32"
proof (rule bit_word_eqI)
  fix k assume "k < LENGTH(32)"
  have "drop_bit n (word_of_int v :: 32 word) AND 0xFF = take_bit 8 (drop_bit n (word_of_int v))"
    by (simp add: take_bit_eq_mask mask_eq_exp_minus_1)
  moreover have "drop_bit n v mod 256 = take_bit 8 (drop_bit n v)" by (simp add: take_bit_eq_mod)
  moreover have "\<not> bit v m" if "32 \<le> m" for m
    using that \<open>0 \<le> v\<close> \<open>v < 2 ^ 32\<close> bit_take_bit_iff [of 32 v m] by (simp add: take_bit_int_eq_self)
  ultimately show "bit (drop_bit n (word_of_int v :: 32 word) AND 0xFF) k
      = bit (word_of_int (drop_bit n v mod 256) :: 32 word) k"
    using \<open>k < LENGTH(32)\<close> by (auto simp: bit_simps) (metis not_less)
qed

lemma crc32_word_le_word:
  assumes "0 \<le> v" and "v < 2 ^ 32"
  shows "crc32_word_le c (word_of_int v) = crc_word c v"
proof -
  have "foldl crc_byte c (le32 v) = crc32_word_le c (word_of_int v)"
    using word_byte [OF assms, of 0] word_byte [OF assms, of 8] word_byte [OF assms, of 16]
      word_byte [OF assms, of 24]
    unfolding crc32_word_le_def Let_def le32_def
    by (simp add: crc32_step_byte drop_bit_eq_div zdiv_zmult2_eq [symmetric])
  then show ?thesis by (simp add: crc_le32 [OF assms])
qed

section \<open>A whole packet\<close>

lemma firmware_append:
  "uart_firmware bus say (xs @ ys) u =
     (case uart_firmware bus say xs u of (out, v) \<Rightarrow>
        (case uart_firmware bus say ys v of (outs, w) \<Rightarrow> (out @ outs, w)))"
  by (induction xs arbitrary: u) (auto split: prod.split)

lemma firmware_silent:
  "uart_firmware bus say xs u = ([], v) \<Longrightarrow>
   uart_firmware bus say (xs @ ys) u = uart_firmware bus say ys v"
  by (simp add: firmware_append split: prod.split)

lemma firmware_one: "uart_firmware bus say [b] u = fw_byte bus say b u"
  by (simp split: prod.split)

text \<open>Between two packets: searching, with an empty window.\<close>

definition fw_idle :: "'b uart_fw \<Rightarrow> bool" where
  "fw_idle u \<longleftrightarrow> pstate u = STATE_WAIT_SYNC \<and> sync_buffer u = 0"

text \<open>Searching, with the last four bytes in the window.\<close>

lemma search_byte:
  assumes "pstate u = STATE_WAIT_SYNC" and "sync_buffer u = unpack_u32 [a, b, c, d]"
    and "byte_list [a, b, c, d, x]"
  shows "fw_byte bus say x u = ([], u\<lparr>sync_buffer := unpack_u32 [b, c, d, x], header := [],
    pstate := (if [b, c, d, x] = sync_bytes then STATE_READ_HEADER else STATE_WAIT_SYNC)\<rparr>)"
proof -
  have "byte_list [b, c, d, x]" using assms(3) by (simp add: byte_list_def)
  then have "(unpack_u32 [b, c, d, x] = PACKET_SYNC_WORD) = ([b, c, d, x] = sync_bytes)"
    by (rule window_is_sync)
  then show ?thesis
    by (simp add: fw_byte_def fw_wait_sync_def assms(1,2) shift_window [OF assms(3)] Let_def)
qed

lemma search_noise:
  assumes "pstate u = STATE_WAIT_SYNC" and "sync_buffer u = unpack_u32 [a, b, c, d]"
    and "byte_list ([a, b, c, d] @ noise)" and "\<not> sublist sync_bytes ([a, b, c, d] @ noise)"
  shows "\<exists>e f g h v. byte_list [e, f, g, h] \<and> uart_firmware bus say noise u = ([], v) \<and>
    pstate v = STATE_WAIT_SYNC \<and> sync_buffer v = unpack_u32 [e, f, g, h] \<and> board v = board u"
  using assms
proof (induction noise arbitrary: a b c d u)
  case Nil
  then show ?case by (intro exI [of _ a] exI [of _ b] exI [of _ c] exI [of _ d]) simp
next
  case (Cons x noise)
  have bytes: "byte_list [a, b, c, d, x]" "byte_list ([b, c, d, x] @ noise)"
    using Cons.prems(3) by (simp_all add: byte_list_def)
  have no: "\<not> sublist sync_bytes ([b, c, d, x] @ noise)"
    using Cons.prems(4) sublist_ConsI [of sync_bytes "[b, c, d, x] @ noise" a] by auto
  then have "[b, c, d, x] \<noteq> sync_bytes" by (metis sublist_append_rightI)
  then have step: "fw_byte bus say x u = ([], u\<lparr>sync_buffer := unpack_u32 [b, c, d, x], header := [],
      pstate := STATE_WAIT_SYNC\<rparr>)"
    using search_byte [OF Cons.prems(1,2) bytes(1)] by simp
  from Cons.IH [of "u\<lparr>sync_buffer := unpack_u32 [b, c, d, x], header := [],
      pstate := STATE_WAIT_SYNC\<rparr>", OF _ _ bytes(2) no]
  show ?case by (simp add: step)
qed

lemma search_sync:
  assumes "pstate u = STATE_WAIT_SYNC" and "sync_buffer u = unpack_u32 [e, f, g, h]"
    and "byte_list [e, f, g, h]"
  shows "uart_firmware bus say sync_bytes u
    = ([], u\<lparr>sync_buffer := PACKET_SYNC_WORD, header := [], pstate := STATE_READ_HEADER\<rparr>)"
proof -
  have w: "byte_list [e, f, g, h, 239]" "byte_list [f, g, h, 239, 190]"
    "byte_list [g, h, 239, 190, 173]" "byte_list [h, 239, 190, 173, 222]"
    using assms(3) by (simp_all add: byte_list_def)
  have last: "unpack_u32 [239, 190, 173, 222] = PACKET_SYNC_WORD"
    by (simp add: unpack_u32_def PACKET_SYNC_WORD_def)
  show ?thesis
    unfolding sync_bytes_eq using assms(1)
    by (simp add: search_byte [OF _ _ w(1)] search_byte [OF _ _ w(2)] search_byte [OF _ _ w(3)]
        search_byte [OF _ _ w(4)] assms(2) sync_bytes_eq last)
qed

text \<open>Noise without a sync word, then a sync word: the header comes next, the board is untouched.\<close>

lemma feed_sync:
  assumes "fw_idle u" and "byte_list noise" and "\<not> sublist sync_bytes noise"
  shows "\<exists>v. uart_firmware bus say (noise @ sync_bytes) u = ([], v) \<and> header v = [] \<and>
    pstate v = STATE_READ_HEADER \<and> board v = board u"
proof -
  have "\<not> sublist sync_bytes ([0, 0, 0, 0] @ noise)"
    using assms(3) by (simp add: sublist_Cons_right sync_bytes_eq)
  moreover have "byte_list ([0, 0, 0, 0] @ noise)" using assms(2) by (simp add: byte_list_def)
  moreover have "pstate u = STATE_WAIT_SYNC" "sync_buffer u = unpack_u32 [0, 0, 0, 0]"
    using assms(1) by (simp_all add: fw_idle_def unpack_u32_def)
  ultimately obtain e f g h v where "byte_list [e, f, g, h]" "uart_firmware bus say noise u = ([], v)"
    "pstate v = STATE_WAIT_SYNC" "sync_buffer v = unpack_u32 [e, f, g, h]" "board v = board u"
    using search_noise [of u 0 0 0 0 noise bus say] by blast
  then show ?thesis using search_sync [of v e f g h bus say] by (simp add: firmware_append)
qed

lemma header_byte:
  assumes "pstate u = STATE_READ_HEADER" and "length (header u) < 8"
  shows "fw_byte bus say b u = ([], u\<lparr>header := header u @ [b]\<rparr>)"
  using assms by (simp add: fw_byte_def fw_read_header_def Let_def)

lemma header_bytes:
  assumes "pstate u = STATE_READ_HEADER" and "length (header u) + length bs \<le> 8"
  shows "uart_firmware bus say bs u = ([], u\<lparr>header := header u @ bs\<rparr>)"
  using assms
proof (induction bs arbitrary: u)
  case Nil
  then show ?case by simp
next
  case (Cons b bs)
  then show ?case
    using Cons.IH [of "u\<lparr>header := header u @ [b]\<rparr>"] by (simp add: header_byte)
qed

text \<open>The state after the header.\<close>

definition headed :: "int \<Rightarrow> int \<Rightarrow> int \<Rightarrow> 'b uart_fw \<Rightarrow> 'b uart_fw" where
  "headed opcode addr n u = u\<lparr>header := [opcode] @ le32 addr @ le32 n, opcode_of := opcode,
     dest_addr := addr, payload_len := n, payload_word := 0, count := 0,
     pstate := (if n > 0 then STATE_READ_PAYLOAD else STATE_PROCESS)\<rparr>"

lemma feed_header:
  assumes "pstate u = STATE_READ_HEADER" and "header u = []" and "0 \<le> addr" and "addr < 2 ^ 32"
    and "0 \<le> n" and "n < 2 ^ 32"
  shows "uart_firmware bus say ([opcode] @ le32 addr @ le32 n) u =
    (if n > 0 then ([], headed opcode addr n u) else fw_process bus say (headed opcode addr n u))"
proof -
  have last: "le32 n = butlast (le32 n) @ [last (le32 n)]" by (simp add: le32_def)
  let ?h = "[opcode] @ le32 addr @ butlast (le32 n)"
  let ?u = "u\<lparr>header := ?h\<rparr>"
  have len: "length ?h = 8" by (simp add: le32_def)
  have first: "uart_firmware bus say ?h u = ([], ?u)"
    using header_bytes [of u ?h] assms(1,2) len by simp
  have split: "[opcode] @ le32 addr @ le32 n = ?h @ [last (le32 n)]" using last by simp
  have parts: "unpack_u32 (drop 5 (?h @ [last (le32 n)])) = n"
    "unpack_u32 (take 4 (drop 1 (?h @ [last (le32 n)]))) = addr" "(?h @ [last (le32 n)]) ! 0 = opcode"
    unfolding split [symmetric] using assms(3-) by (simp_all add: unpack_le32)
  have "fw_read_header (last (le32 n)) ?u = headed opcode addr n u"
    using len parts unfolding fw_read_header_def Let_def headed_def split by simp
  then have "fw_byte bus say (last (le32 n)) ?u = (if n > 0 then ([], headed opcode addr n u)
      else fw_process bus say (headed opcode addr n u))"
    using assms(1) by (simp add: fw_byte_def headed_def Let_def)
  then have "uart_firmware bus say [last (le32 n)] ?u = (if n > 0 then ([], headed opcode addr n u)
      else fw_process bus say (headed opcode addr n u))"
    by (simp only: firmware_one)
  then show ?thesis
    unfolding split by (simp only: firmware_silent [OF first])
qed

text \<open>The value of a payload: the little-endian word of its first four bytes.\<close>

fun payload_or :: "int \<Rightarrow> int \<Rightarrow> bytes \<Rightarrow> int" where
  "payload_or w k [] = w"
| "payload_or w k (b # bs) =
     payload_or (if k < 4 then w OR push_bit (8 * nat k) b else w) (k + 1) bs"

lemma payload_or_rest: "4 \<le> k \<Longrightarrow> payload_or w k bs = w"
  by (induction bs arbitrary: k) simp_all

lemma feed_payload:
  assumes "pstate u = STATE_READ_PAYLOAD" and "bs \<noteq> []" and "count u + int (length bs) = payload_len u"
    and "0 \<le> count u"
  shows "uart_firmware bus say bs u = fw_process bus say
    (u\<lparr>payload_word := payload_or (payload_word u) (count u) bs, count := payload_len u,
       pstate := STATE_PROCESS\<rparr>)"
  using assms
proof (induction bs arbitrary: u)
  case Nil
  then show ?case by simp
next
  case (Cons b bs)
  show ?case
  proof (cases "bs = []")
    case True
    with Cons.prems have "count u + 1 = payload_len u" by simp
    with Cons.prems True show ?thesis
      by (simp add: fw_byte_def fw_read_payload_def Let_def split: prod.split)
  next
    case False
    let ?v = "u\<lparr>payload_word := (if count u < 4 then payload_word u OR push_bit (8 * nat (count u)) b
          else payload_word u), count := count u + 1\<rparr>"
    have "count u + 1 \<noteq> payload_len u" using Cons.prems(3) False by (cases bs) auto
    then have "fw_byte bus say b u = ([], ?v)"
      using Cons.prems(1) by (simp add: fw_byte_def fw_read_payload_def Let_def)
    moreover have "uart_firmware bus say bs ?v = fw_process bus say
      (?v\<lparr>payload_word := payload_or (payload_word ?v) (count ?v) bs, count := payload_len ?v,
         pstate := STATE_PROCESS\<rparr>)"
      using Cons.prems False by (intro Cons.IH) simp_all
    ultimately show ?thesis by (simp split: prod.split)
  qed
qed

definition payload_value :: "bytes \<Rightarrow> int" where
  "payload_value bs = unpack_u32 (take 4 (bs @ [0, 0, 0, 0]))"

lemma or_digits:
  fixes a b c d :: int
  assumes "byte_list [a, b, c, d]"
  shows "((a OR push_bit 8 b) OR push_bit 16 c) OR push_bit 24 d = unpack_u32 [a, b, c, d]"
proof -
  have r: "0 \<le> a" "a < 256" "0 \<le> b" "b < 256" "0 \<le> c" "c < 256" "0 \<le> d" "d < 256"
    using assms by (simp_all add: byte_list_def)
  have "a OR push_bit 8 b = a + 2 ^ 8 * b" by (rule or_push_bit_add) (use r in simp_all)
  moreover have "(a + 2 ^ 8 * b) OR push_bit 16 c = (a + 2 ^ 8 * b) + 2 ^ 16 * c"
    by (rule or_push_bit_add) (use r in auto)
  moreover have "(a + 2 ^ 8 * b + 2 ^ 16 * c) OR push_bit 24 d
      = (a + 2 ^ 8 * b + 2 ^ 16 * c) + 2 ^ 24 * d"
    by (rule or_push_bit_add) (use r in auto)
  ultimately show ?thesis by (simp add: unpack_u32_def)
qed

lemma payload_or_value:
  assumes "byte_list bs"
  shows "payload_or 0 0 bs = payload_value bs"
proof -
  consider "bs = []" | a where "bs = [a]" | a b where "bs = [a, b]" | a b c where "bs = [a, b, c]"
    | a b c d rest where "bs = a # b # c # d # rest"
    by (metis list.exhaust)
  then show ?thesis
    using assms or_digits [of "bs ! 0" "if 1 < length bs then bs ! 1 else 0"
      "if 2 < length bs then bs ! 2 else 0" "if 3 < length bs then bs ! 3 else 0"]
    by cases (simp_all add: payload_value_def payload_or_rest byte_list_def, simp add: unpack_u32_def)
qed

lemma payload_value_le32: "0 \<le> w \<Longrightarrow> w < 2 ^ 32 \<Longrightarrow> payload_value (le32 w) = w"
  by (simp add: payload_value_def unpack_le32)

text \<open>What a command sees of its packet.\<close>

definition request :: "int \<Rightarrow> int \<Rightarrow> bytes \<Rightarrow> 'b \<Rightarrow> 'b uart_fw" where
  "request opcode addr payload s = \<lparr>pstate = STATE_PROCESS, sync_buffer = PACKET_SYNC_WORD,
     opcode_of = opcode, dest_addr = addr, payload_len = int (length payload),
     payload_word = payload_value payload, header = [opcode] @ le32 addr @ le32 (int (length payload)),
     count = int (length payload), board = s\<rparr>"

lemma command_cong:
  assumes "opcode_of u = opcode_of v" and "dest_addr u = dest_addr v"
    and "payload_len u = payload_len v" and "payload_word u = payload_word v" and "board u = board v"
  shows "fw_command bus say u = fw_command bus say v"
  using assms by (simp add: fw_command_def fw_write_def fw_read_def fw_crc_def fw_read_csr_def)

lemma process_request:
  assumes "opcode_of v = opcode" and "dest_addr v = addr" and "payload_len v = int (length payload)"
    and "payload_word v = payload_value payload" and "board v = s"
    and "fw_command bus say (request opcode addr payload s) = (out, t)"
  shows "\<exists>w. fw_process bus say v = (out, w) \<and> fw_idle w \<and> board w = t"
proof -
  have "fw_command bus say v = fw_command bus say (request opcode addr payload s)"
    by (rule command_cong) (simp_all add: request_def assms(1-5))
  with assms(6) show ?thesis by (simp add: fw_process_def fw_idle_def)
qed

lemma packet_parsed:
  assumes "fw_idle u" and "byte_list noise" and "\<not> sublist sync_bytes noise"
    and "build_packet opcode addr payload = Inr p" and "byte_list payload"
    and "fw_command bus say (request opcode addr payload (board u)) = (out, t)"
  shows "\<exists>v. uart_firmware bus say (noise @ p) u = (out, v) \<and> fw_idle v \<and> board v = t"
proof -
  let ?n = "int (length payload)"
  have ok: "0 \<le> opcode" "opcode < 256" "0 \<le> addr" "addr < 2 ^ 32" "?n < 2 ^ 32"
    and p: "p = sync_bytes @ ([opcode] @ le32 addr @ le32 ?n) @ payload"
    using assms(4) by (auto simp: build_packet_def pack_u8_def pack_u32_def sync_bytes_def PACKET_SYNC_WORD_def
        split: if_splits)
  obtain x where x: "uart_firmware bus say (noise @ sync_bytes) u = ([], x)" "header x = []"
      "pstate x = STATE_READ_HEADER" "board x = board u"
    using feed_sync [OF assms(1-3)] by blast
  let ?h = "headed opcode addr ?n x"
  have head: "uart_firmware bus say ([opcode] @ le32 addr @ le32 ?n) x
      = (if ?n > 0 then ([], ?h) else fw_process bus say ?h)"
    by (rule feed_header) (use x ok in simp_all)
  have "\<exists>v. uart_firmware bus say (([opcode] @ le32 addr @ le32 ?n) @ payload) x = (out, v) \<and>
      fw_idle v \<and> board v = t"
  proof (cases "payload = []")
    case True
    have "\<exists>w. fw_process bus say ?h = (out, w) \<and> fw_idle w \<and> board w = t"
      by (rule process_request [OF _ _ _ _ _ assms(6)])
        (simp_all add: headed_def True x payload_value_def unpack_u32_def)
    with True head show ?thesis by simp
  next
    case False
    let ?r = "?h\<lparr>payload_word := payload_or (payload_word ?h) (count ?h) payload,
        count := payload_len ?h, pstate := STATE_PROCESS\<rparr>"
    have "uart_firmware bus say payload ?h = fw_process bus say ?r"
      by (rule feed_payload) (use False in \<open>simp_all add: headed_def\<close>)
    moreover have "\<exists>w. fw_process bus say ?r = (out, w) \<and> fw_idle w \<and> board w = t"
      by (rule process_request [OF _ _ _ _ _ assms(6)])
        (simp_all add: headed_def x payload_or_value [OF assms(5)])
    moreover have "uart_firmware bus say ([opcode] @ le32 addr @ le32 ?n) x = ([], ?h)"
      using False head by simp
    ultimately show ?thesis by (simp only: firmware_silent)
  qed
  moreover have "noise @ p = (noise @ sync_bytes) @ (([opcode] @ le32 addr @ le32 ?n) @ payload)"
    by (simp add: p)
  ultimately show ?thesis by (simp only: firmware_silent [OF x(1)])
qed

section \<open>The checksum of a range\<close>

fun read_run :: "(int \<Rightarrow> 'b \<Rightarrow> int \<times> 'b) \<Rightarrow> int list \<Rightarrow> 'b \<Rightarrow> int list \<times> 'b" where
  "read_run rd [] s = ([], s)"
| "read_run rd (a # as) s =
     (case rd a s of (v, t) \<Rightarrow> (case read_run rd as t of (vs, u) \<Rightarrow> (v # vs, u)))"

definition word_addrs :: "int \<Rightarrow> int \<Rightarrow> int list" where
  "word_addrs start n = map (\<lambda>j. (start + j * 4) AND 0xFFFFFFFF) (py_range n)"

lemma crc_loop_reads:
  "read_run rd (map (\<lambda>j. (start + (k + int j) * 4) AND 0xFFFFFFFF) [0..<n]) s = (ws, t) \<Longrightarrow> u32s ws \<Longrightarrow>
   crc_loop rd start n k c s = (foldl crc_word c ws, t)"
proof (induction n arbitrary: k c s ws)
  case 0
  then show ?case by simp
next
  case (Suc n)
  obtain v s1 where v: "rd ((start + k * 4) AND 0xFFFFFFFF) s = (v, s1)" by fastforce
  have "map (\<lambda>j. (start + (k + int j) * 4) AND 0xFFFFFFFF) [0..<Suc n]
      = ((start + k * 4) AND 0xFFFFFFFF) # map (\<lambda>j. (start + (k + 1 + int j) * 4) AND 0xFFFFFFFF) [0..<n]"
    by (subst upt_conv_Cons) (simp_all add: map_Suc_upt [symmetric] comp_def algebra_simps del: upt_Suc)
  with Suc.prems(1) v obtain vs where vs: "ws = v # vs"
    "read_run rd (map (\<lambda>j. (start + (k + 1 + int j) * 4) AND 0xFFFFFFFF) [0..<n]) s1 = (vs, t)"
    by (auto split: prod.splits)
  with Suc.prems(2) have "0 \<le> v" "v < 2 ^ 32" "u32s vs" by simp_all
  with vs Suc.IH [OF vs(2)] show ?case by (simp add: v crc32_word_le_word)
qed

lemma crc32_range_words:
  assumes "read_run rd (word_addrs start (byte_length div 4)) s = (ws, t)" and "u32s ws"
  shows "crc32_range rd start byte_length s = (uint (NOT (foldl crc_word (NOT 0) ws)), t)"
proof -
  have all: "(0xFFFFFFFF :: 32 word) = NOT 0" by simp
  have "word_addrs start (byte_length div 4)
      = map (\<lambda>j. (start + (0 + int j) * 4) AND 0xFFFFFFFF) [0..<nat (byte_length div 4)]"
    by (simp add: word_addrs_def py_range_def)
  with assms have "crc_loop rd start (nat (byte_length div 4)) 0 (NOT 0) s = (foldl crc_word (NOT 0) ws, t)"
    by (intro crc_loop_reads) simp_all
  then show ?thesis unfolding crc32_range_def all by (simp add: bit.xor_one_right)
qed

section \<open>Running the engine\<close>

lemma poll_done_ended:
  "poll_done bus n st0 s = (st, True, t) \<Longrightarrow>
   st AND STATUS_ERROR \<noteq> 0 \<or> (st AND STATUS_EMPTY \<noteq> 0 \<and> st AND STATUS_BUSY = 0)"
  by (induction n arbitrary: st0 s) (auto split: prod.splits if_splits)

definition done_status :: "int \<Rightarrow> bool" where
  "done_status st \<longleftrightarrow> st AND STATUS_ERROR = 0 \<and> st AND STATUS_EMPTY \<noteq> 0 \<and> st AND STATUS_BUSY = 0"

text \<open>A register block whose STATUS does not change while it is polled.\<close>

lemma wait_busy_steady:
  assumes "\<And>b. I b \<Longrightarrow> \<exists>b'. xil_in32 bus (CSR_ACCESS_BASE + CSR_REG_STATUS) b = (st, b') \<and> I b'" and "I b"
  shows "I (wait_busy bus n b)"
  using assms(2)
proof (induction n arbitrary: b)
  case (Suc n)
  obtain b' where "xil_in32 bus (CSR_ACCESS_BASE + CSR_REG_STATUS) b = (st, b')" "I b'"
    using assms(1) Suc.prems by blast
  with Suc.IH show ?case by simp
qed simp

lemma poll_done_steady:
  assumes "xil_in32 bus (CSR_ACCESS_BASE + CSR_REG_STATUS) b = (st, b')" and "done_status st"
  shows "poll_done bus 10000000 st0 b = (st, True, b')"
proof -
  obtain n where n: "(10000000 :: nat) = Suc n" by (metis numeral_eq_Suc)
  have "poll_done bus (Suc n) st0 b = (st, True, b')" using assms by (simp add: done_status_def)
  then show ?thesis unfolding n .
qed

lemma send_ack_last: "last (xs @ send_ack a) = a"
  by (simp add: send_ack_def)

text \<open>A bus that reads zero everywhere and records what is stored.\<close>

definition log_bus :: "(int \<times> int) list bus" where
  "log_bus = \<lparr>xil_in32 = (\<lambda>a s. (0, s)), xil_out32 = (\<lambda>a v s. s @ [(a, v)])\<rparr>"

section \<open>Properties\<close>

text \<open>
  C26. One packet, one answer: whatever bytes without a sync word come first, a packet of
  \<open>build_packet\<close> (any opcode, any address, a payload of any length) makes the firmware run exactly
  the command of its opcode, on its address and the little-endian word of its payload, send the
  command's answer and nothing else, and be ready for the next packet.
\<close>

theorem firmware_answers_packet:
  assumes "fw_idle u" and "byte_list noise" and "\<not> sublist sync_bytes noise"
    and "build_packet opcode addr payload = Inr p" and "byte_list payload"
  shows "\<exists>v. uart_firmware bus say (noise @ p) u
      = (fst (fw_command bus say (request opcode addr payload (board u))), v) \<and> fw_idle v \<and>
    board v = snd (fw_command bus say (request opcode addr payload (board u)))"
  using packet_parsed [OF assms] by simp

theorem firmware_answers_packet_witness:
  "\<exists>v. uart_firmware log_bus (\<lambda>_ _. []) ([0xEF, 0xBE] @ sync_bytes @ [2] @ le32 16 @ le32 4 @ le32 7)
      (snd (fw_boot (\<lambda>_ _. []) [])) = (send_ack CMD_ACK, v) \<and>
     board v = [(0x60000000, 16), (0x60000004, 7), (0x60000010, 1)]"
proof -
  let ?say = "\<lambda>(_::string) (_::int list). ([] :: bytes)"
  let ?u = "snd (fw_boot ?say []) :: (int \<times> int) list uart_fw"
  have p: "build_packet 2 16 (le32 7) = Inr (sync_bytes @ [2] @ le32 16 @ le32 4 @ le32 7)"
    by (simp add: build_packet_def pack_u32_def pack_u8_def PACKET_SYNC_WORD_def sync_bytes_def)
  have noise: "byte_list [0xEF, 0xBE]" "\<not> sublist sync_bytes [0xEF, 0xBE]"
    by (simp_all add: byte_list_def sync_bytes_eq sublist_Cons_right)
  have u: "fw_idle ?u" "board ?u = []" by (simp_all add: fw_boot_def fw_idle_def)
  have "payload_value (le32 7) = 7" by (rule payload_value_le32) simp_all
  then have cmd: "fw_command log_bus ?say (request 2 16 (le32 7) [])
      = (send_ack CMD_ACK, [(0x60000000, 16), (0x60000004, 7), (0x60000010, 1)])"
    by (simp add: fw_command_def request_def firmware_opcodes fw_write_def fw_sysmem_write_def
        REG_WRITE_def log_bus_def shim_offsets MEM_ACCESS_CTRL_BASE_def Let_def)
  show ?thesis
    using firmware_answers_packet [OF u(1) noise p le32_bytes, of log_bus ?say] unfolding u(2) cmd by auto
qed

text \<open>
  C29. The firmware's table-driven checksum of a memory range is the checksum the hosts compute:
  when the words read back from the range are \<open>ws\<close>, it returns \<open>compute_crc32 ws\<close>.
\<close>

theorem firmware_crc_is_zlib:
  assumes "read_run rd (word_addrs start (byte_length div 4)) s = (ws, t)" and "u32s ws"
  shows "compute_crc32 ws = Inr (fst (crc32_range rd start byte_length s)) \<and>
    snd (crc32_range rd start byte_length s) = t"
  by (simp add: crc32_range_words [OF assms] compute_crc32_words [OF assms(2)])

theorem firmware_crc_is_zlib_witness:
  "compute_crc32 [8, 12] = Inr (fst (crc32_range (\<lambda>a s. (a, s)) 8 8 ()))"
  using firmware_crc_is_zlib [of "\<lambda>a s. (a, s)" 8 8 "()" "[8, 12]" "()"]
  by (simp add: word_addrs_def py_range_def eval_nat_numeral bits)

text \<open>
  C28. The acknowledgement of CMD_RUN_DMA is sound, for any bus: an ACK is sent only when TAIL was
  not zero and the last STATUS read shows the ring empty, the engine not busy and no error. Every
  run that started the engine ends with the memories handed back, whether it failed or not.
\<close>

theorem run_dma_ack_sound:
  assumes "fw_run_dma bus say s = (out, t)"
  shows "\<exists>head s1 tail s2. fw_csr_in bus CSR_REG_HEAD (fw_reset_csr bus s) = (head, s1) \<and>
    fw_csr_in bus CSR_REG_TAIL s1 = (tail, s2) \<and>
    (if tail = 0 then last out = CMD_NACK \<and> t = s2
     else \<exists>status ended x. fw_start_and_wait bus s2 = (status, ended, t) \<and>
       t = REG_WRITE bus REG_INIT_DONE 0 x \<and>
       last out = (if ended \<and> done_status status then CMD_ACK else CMD_NACK))"
proof -
  obtain head s1 where head: "fw_csr_in bus CSR_REG_HEAD (fw_reset_csr bus s) = (head, s1)" by fastforce
  obtain tail s2 where tail: "fw_csr_in bus CSR_REG_TAIL s1 = (tail, s2)" by fastforce
  obtain status ended r where wait: "fw_start_and_wait bus s2 = (status, ended, r)"
    by (cases "fw_start_and_wait bus s2") auto
  then obtain st0 y x where x: "poll_done bus 10000000 st0 y = (status, ended, x)"
    "r = REG_WRITE bus REG_INIT_DONE 0 x"
    by (auto simp: fw_start_and_wait_def Let_def split: prod.splits)
  have "ended \<Longrightarrow> (status AND STATUS_ERROR \<noteq> 0) = (\<not> done_status status)"
    using poll_done_ended [of bus 10000000 st0 y status x] x(1) by (auto simp: done_status_def)
  then show ?thesis
    using assms head tail wait x(2)
    by (auto simp: fw_run_dma_def Let_def send_ack_def split: if_splits)
qed

theorem run_dma_ack_sound_witness:
  "\<exists>out t. fw_run_dma log_bus (\<lambda>_ _. []) [] = (out, t) \<and> last out = CMD_NACK"
proof -
  obtain out t where run: "fw_run_dma log_bus (\<lambda>_ _. []) [] = (out, t)" by fastforce
  have zero: "fw_csr_in log_bus k s = (0, s)" for k s by (simp add: fw_csr_in_def log_bus_def)
  from run_dma_ack_sound [OF run] run show ?thesis by (auto simp: zero)
qed

end
