(* ===== verification/Host_Firmware.thy ===== *)
theory Host_Firmware
  imports Firmware
begin

text \<open>
  The host script and the firmware at the two ends of one serial line: \<open>host_runner.py\<close> sends a packet,
  \<open>uart_read_write.c\<close> answers it. One exchange is a step on the state both agree on. The contract of a
  memory that the firmware reaches through two accessors is the locale \<open>word_port\<close>; its extension
  \<open>memory_commands\<close> shows what the host's read, write and checksum commands do to such a memory, and
  \<open>dual_memory\<close> what the verification of a transfer says about the two memories of a board.
\<close>

section \<open>Text in front of an acknowledgement\<close>

text \<open>What \<open>xil_printf\<close> sends is ASCII text, so it can hide no part of a sync word.\<close>

definition ascii :: "bytes \<Rightarrow> bool" where
  "ascii bs \<longleftrightarrow> (\<forall>b \<in> set bs. 0 \<le> b \<and> b < 128)"

definition ascii_printf :: "printf \<Rightarrow> bool" where
  "ascii_printf say \<longleftrightarrow> (\<forall>f xs. ascii (say f xs))"

lemma ascii_append [simp]: "ascii (xs @ ys) \<longleftrightarrow> ascii xs \<and> ascii ys"
  by (auto simp: ascii_def)

lemma ascii_Nil [simp]: "ascii []"
  by (simp add: ascii_def)

lemma ascii_say [simp]: "ascii_printf say \<Longrightarrow> ascii (say f xs)"
  by (simp add: ascii_printf_def)

lemma ascii_no_sync:
  assumes "ascii bs"
  shows "byte_list bs" and "\<not> sublist sync_bytes bs"
proof -
  show "byte_list bs" using assms by (force simp: ascii_def byte_list_def)
  have "239 \<notin> set bs" using assms by (force simp: ascii_def)
  moreover have "239 \<in> set sync_bytes" by (simp add: sync_bytes_eq)
  ultimately show "\<not> sublist sync_bytes bs" using set_mono_sublist by blast
qed

section \<open>One exchange\<close>

text \<open>
  Between two exchanges the firmware waits for a sync word, and at most text is left unread in the
  port. Every exchange below starts and ends there.
\<close>

definition on_board :: "'b uart_fw serial \<Rightarrow> 'b \<Rightarrow> bool" where
  "on_board s b \<longleftrightarrow> fw_idle (device s) \<and> ascii (rx s) \<and> board (device s) = b"

text \<open>What the firmware prints in front of an answer: the output of one or two calls of \<open>xil_printf\<close>.\<close>

definition spoken :: "printf \<Rightarrow> bytes \<Rightarrow> bool" where
  "spoken say said \<longleftrightarrow> (\<exists>f xs. said = say f xs) \<or> (\<exists>f xs g ys. said = say f xs @ say g ys)"

lemma spokenI [intro]: "spoken say (say f xs)" "spoken say (say f xs @ say g ys)"
  unfolding spoken_def by blast+

lemma spoken_ascii: "ascii_printf say \<Longrightarrow> spoken say said \<Longrightarrow> ascii said"
  by (auto simp: spoken_def)

text \<open>
  The board's side of an exchange: on this packet the firmware prints something, sends the
  acknowledgement \<open>a\<close> and then \<open>data\<close>, and leaves the board as \<open>b'\<close>.
\<close>

definition answers :: "'b bus \<Rightarrow> printf \<Rightarrow> int \<Rightarrow> int \<Rightarrow> bytes \<Rightarrow> 'b \<Rightarrow> int \<Rightarrow> bytes \<Rightarrow> 'b \<Rightarrow> bool" where
  "answers bus say opcode addr payload b a data b' \<longleftrightarrow> byte_list payload \<and>
     (\<exists>p. build_packet opcode addr payload = Inr p) \<and>
     (\<exists>said. spoken say said \<and> fw_command bus say (request opcode addr payload b) = (said @ send_ack a @ data, b'))"

lemma packet_built:
  assumes "0 \<le> opcode" and "opcode < 256" and "0 \<le> addr" and "addr < 2 ^ 32"
    and "int (length payload) < 2 ^ 32"
  shows "\<exists>p. build_packet opcode addr payload = Inr p"
  using assms by (simp add: build_packet_def pack_u32_def pack_u8_def PACKET_SYNC_WORD_def)

lemma answersI:
  assumes "fw_command bus say (request opcode addr payload b) = (said @ send_ack a @ data, b')"
    and "spoken say said" and "0 \<le> opcode" and "opcode < 256" and "0 \<le> addr" and "addr < 2 ^ 32"
    and "payload = [] \<or> (\<exists>w. payload = le32 w)"
  shows "answers bus say opcode addr payload b a data b'"
  using assms packet_built [of opcode addr payload] le32_bytes by (auto simp: answers_def byte_list_def)

lemma exchange:
  assumes "on_board s b" and "answers bus say opcode addr payload b a data b'" and "ascii_printf say"
  shows "\<exists>s1 said. send_packet (uart_firmware bus say) opcode addr payload s = (Inr (), s1) \<and>
    wait_for_ack s1 = (Inr (a = CMD_ACK), s1\<lparr>rx := data\<rparr>) \<and> on_board (s1\<lparr>rx := []\<rparr>) b' \<and>
    spoken say said \<and> rx s1 = rx s @ said @ send_ack a @ data"
proof -
  obtain p said where p: "build_packet opcode addr payload = Inr p" "byte_list payload" "spoken say said"
      "fw_command bus say (request opcode addr payload b) = (said @ send_ack a @ data, b')"
    using assms(2) by (auto simp: answers_def)
  have u: "fw_idle (device s)" "board (device s) = b" using assms(1) by (simp_all add: on_board_def)
  obtain v where v: "uart_firmware bus say p (device s) = (said @ send_ack a @ data, v)" "fw_idle v"
      "board v = b'"
    using packet_parsed [of "device s" "[]" opcode addr payload p bus say] p u
    by (auto simp: byte_list_def sync_bytes_eq)
  let ?s1 = "s\<lparr>rx := rx s @ said @ send_ack a @ data, tx := tx s @ p, device := v\<rparr>"
  have "send_packet (uart_firmware bus say) opcode addr payload s = (Inr (), ?s1)"
    using p(1) v(1) by (simp add: send_packet_def act_simps ser_write_def)
  moreover have "wait_for_ack ?s1 = (Inr (a = CMD_ACK), ?s1\<lparr>rx := data\<rparr>)"
  proof -
    have "ascii (rx s @ said)" using assms(1) spoken_ascii [OF assms(3) p(3)] by (simp add: on_board_def)
    from scan_finds [OF ascii_no_sync [OF this], of a data]
    show ?thesis by (simp add: wait_for_ack_def send_ack_def sync_bytes_def)
  qed
  ultimately show ?thesis using v(2,3) p(3) by (auto simp: on_board_def)
qed

lemma exchange_ack:
  assumes "on_board s b" and "answers bus say opcode addr payload b a [] b'" and "ascii_printf say"
  shows "\<exists>s'. act_bind (send_packet (uart_firmware bus say) opcode addr payload) (\<lambda>_. wait_for_ack) s
      = (Inr (a = CMD_ACK), s') \<and> on_board s' b'"
  using exchange [OF assms] by (auto simp: act_bind_def)

lemma exchange_value:
  assumes "on_board s b" and "answers bus say opcode addr payload b CMD_ACK (le32 v) b'" and "ascii_printf say"
    and "0 \<le> v" and "v < 2 ^ 32"
  shows "\<exists>s'. act_bind (send_packet (uart_firmware bus say) opcode addr payload) (\<lambda>_. read_reply) s
      = (Inr (Some v), s') \<and> on_board s' b'"
proof -
  obtain s1 where s1: "send_packet (uart_firmware bus say) opcode addr payload s = (Inr (), s1)"
      "wait_for_ack s1 = (Inr True, s1\<lparr>rx := le32 v\<rparr>)" "on_board (s1\<lparr>rx := []\<rparr>) b'"
    using exchange [OF assms(1-3)] by auto
  have "read_reply s1 = (Inr (Some v), s1\<lparr>rx := []\<rparr>)"
    using assms(4,5) by (simp add: read_reply_def s1(2) ser_read_def act_bind_def
        act_return_def unpack_le32)
  with s1(1,3) show ?thesis by (auto simp: act_bind_def)
qed

text \<open>
  The same, with what the host can observe of the board: \<open>ready\<close> says that the board takes commands,
  \<open>view\<close> is what they see of it.
\<close>

definition stands :: "('b \<Rightarrow> bool) \<Rightarrow> ('b \<Rightarrow> 'v) \<Rightarrow> 'b uart_fw serial \<Rightarrow> 'v \<Rightarrow> bool" where
  "stands ready view s v \<longleftrightarrow> (\<exists>b. on_board s b \<and> ready b \<and> view b = v)"

lemma standsI: "on_board s b \<Longrightarrow> ready b \<Longrightarrow> view b = v \<Longrightarrow> stands ready view s v"
  by (auto simp: stands_def)

lemma standsE:
  assumes "stands ready view s v"
  obtains b where "on_board s b" and "ready b" and "view b = v"
  using assms by (auto simp: stands_def)

section \<open>A memory behind two commands\<close>

definition block_crc :: "int list \<Rightarrow> int" where
  "block_crc ws = uint (NOT (foldl crc_word (NOT 0) ws))"

lemma block_crc_u32: "0 \<le> block_crc ws \<and> block_crc ws < 2 ^ 32"
  using uint_bounded [of "NOT (foldl crc_word (NOT 0) ws) :: 32 word"] by (simp add: block_crc_def)

definition cell :: "int \<Rightarrow> nat" where
  "cell a = nat (a div 4)"

text \<open>A word address inside a memory.\<close>

definition holds :: "int \<Rightarrow> int list \<Rightarrow> bool" where
  "holds a m \<longleftrightarrow> 0 \<le> a \<and> a < 2 ^ 32 \<and> a mod 4 = 0 \<and> cell a < length m"

text \<open>A range of words inside a memory.\<close>

definition range_ok :: "int \<Rightarrow> nat \<Rightarrow> int list \<Rightarrow> bool" where
  "range_ok a n m \<longleftrightarrow> 0 \<le> a \<and> a mod 4 = 0 \<and> cell a + n \<le> length m \<and> a + 4 * int n \<le> 2 ^ 32"

lemma cell_offset: "0 \<le> a \<Longrightarrow> cell (a + 4 * int j) = cell a + j"
  by (simp add: cell_def nat_add_distrib)

lemma range_holds: "range_ok a n m \<Longrightarrow> 0 < n \<Longrightarrow> holds a m"
  by (simp add: range_ok_def holds_def)

text \<open>
  The contract of a word-addressed memory that is reached by two accessors: they read and write one
  cell of \<open>cells\<close>, and change nothing else of what is visible of the board (\<open>view\<close>).
\<close>

locale word_port =
  fixes rd :: "int \<Rightarrow> 'b \<Rightarrow> int \<times> 'b"
    and wr :: "int \<Rightarrow> int \<Rightarrow> 'b \<Rightarrow> 'b"
    and ready :: "'b \<Rightarrow> bool"
    and view :: "'b \<Rightarrow> 'v"
    and cells :: "'v \<Rightarrow> int list"
    and put :: "int list \<Rightarrow> 'v \<Rightarrow> 'v"
  assumes rd_cell: "ready b \<Longrightarrow> holds a (cells (view b)) \<Longrightarrow>
      \<exists>b'. rd a b = (cells (view b) ! cell a, b') \<and> ready b' \<and> view b' = view b"
    and wr_cell: "ready b \<Longrightarrow> holds a (cells (view b)) \<Longrightarrow> 0 \<le> v \<Longrightarrow> v < 2 ^ 32 \<Longrightarrow>
      ready (wr a v b) \<and> view (wr a v b) = put ((cells (view b))[cell a := v]) (view b)"
    and cells_u32: "ready b \<Longrightarrow> u32s (cells (view b))"
begin

lemma rd_u32:
  assumes "ready b" and "holds a (cells (view b))"
  shows "0 \<le> cells (view b) ! cell a \<and> cells (view b) ! cell a < 2 ^ 32"
  using u32s_nth [OF cells_u32 [OF assms(1)]] assms(2) by (simp add: holds_def)

lemma read_run_cells:
  assumes "ready b" and "\<forall>a \<in> set as. holds a (cells (view b))"
  shows "\<exists>b'. read_run rd as b = (map (\<lambda>a. cells (view b) ! cell a) as, b') \<and> ready b' \<and>
    view b' = view b"
  using assms
proof (induction as arbitrary: b)
  case Nil
  then show ?case by simp
next
  case (Cons a as)
  obtain b1 where b1: "rd a b = (cells (view b) ! cell a, b1)" "ready b1" "view b1 = view b"
    using rd_cell [of b a] Cons.prems by auto
  from Cons.IH [OF b1(2)] Cons.prems(2) b1 show ?case by auto
qed

text \<open>A range of words, read one by one, is a block.\<close>

lemma read_run_block:
  assumes "ready b" and "range_ok a n (cells (view b))"
  shows "\<exists>b'. read_run rd (word_addrs a (int n)) b = (load_block (cells (view b)) (cell a) n, b') \<and>
    ready b' \<and> view b' = view b"
proof -
  have addrs: "word_addrs a (int n) = map (\<lambda>j. a + 4 * int j) [0..<n]"
    using assms(2) by (auto simp: word_addrs_def py_range_def range_ok_def bits)
  have cells: "map (\<lambda>a. cells (view b) ! cell a) (word_addrs a (int n)) = load_block (cells (view b)) (cell a) n"
    by (rule nth_equalityI)
      (use assms(2) in \<open>auto simp: addrs range_ok_def load_block_nth cell_offset\<close>)
  have "\<forall>x \<in> set (word_addrs a (int n)). holds x (cells (view b))"
    using assms(2) by (auto simp: addrs range_ok_def holds_def cell_offset)
  from read_run_cells [OF assms(1) this] show ?thesis by (simp add: cells)
qed

lemma crc_block:
  assumes "ready b" and "range_ok a n (cells (view b))"
  shows "\<exists>b'. crc32_range rd a (int n * 4) b =
      (uint (NOT (foldl crc_word (NOT 0) (load_block (cells (view b)) (cell a) n))), b') \<and>
    ready b' \<and> view b' = view b"
proof -
  obtain b' where b': "read_run rd (word_addrs a (int n)) b = (load_block (cells (view b)) (cell a) n, b')"
    "ready b'" "view b' = view b" using read_run_block [OF assms] by blast
  have "u32s (load_block (cells (view b)) (cell a) n)" using cells_u32 [OF assms(1)] by auto
  with b' crc32_range_words [of rd a "int n * 4" b] show ?thesis by simp
qed

end

text \<open>The host's side of the same memory: one opcode to write, one to read, one for the checksum.\<close>

locale memory_commands = word_port rd wr ready view cells put
  for rd :: "int \<Rightarrow> 'b \<Rightarrow> int \<times> 'b" and wr :: "int \<Rightarrow> int \<Rightarrow> 'b \<Rightarrow> 'b" and ready :: "'b \<Rightarrow> bool"
    and view :: "'b \<Rightarrow> 'v" and cells :: "'v \<Rightarrow> int list" and put :: "int list \<Rightarrow> 'v \<Rightarrow> 'v" +
  fixes bus :: "'b bus" and say :: printf and region :: string
    and write_op :: int and read_op :: int and crc_op :: int
  assumes write_command: "opcode_of u = write_op \<Longrightarrow> fw_command bus say u = fw_write say region wr u"
    and read_command: "opcode_of u = read_op \<Longrightarrow> fw_command bus say u = fw_read say region rd u"
    and crc_command: "opcode_of u = crc_op \<Longrightarrow> fw_command bus say u = fw_crc say region (crc32_range rd) u"
    and op_bytes: "0 \<le> write_op" "write_op < 256" "0 \<le> read_op" "read_op < 256" "0 \<le> crc_op" "crc_op < 256"
begin

abbreviation host_fw :: "'b uart_fw firmware" where
  "host_fw \<equiv> uart_firmware bus say"

lemma read_answer:
  assumes "ready b" and "holds a (cells (view b))"
  shows "\<exists>b'. answers bus say read_op a [] b CMD_ACK (le32 (cells (view b) ! cell a)) b' \<and> ready b' \<and> view b' = view b"
proof -
  obtain b' where b': "rd a b = (cells (view b) ! cell a, b')" "ready b'" "view b' = view b"
    using rd_cell [OF assms] by blast
  let ?said = "say (''Read 0x%08x from '' @ region @ ''[0x%08x]'' @ crlf) [cells (view b) ! cell a, a]"
  have "fw_command bus say (request read_op a [] b) = (?said @ send_ack CMD_ACK @ le32 (cells (view b) ! cell a), b')"
    by (simp add: read_command fw_read_def request_def b'(1))
  from answersI [OF this] op_bytes assms(2) b'(2,3) show ?thesis by (auto simp: holds_def)
qed

lemma write_answer:
  assumes "ready b" and "holds a (cells (view b))" and "0 \<le> w" and "w < 2 ^ 32"
  shows "\<exists>b'. answers bus say write_op a (le32 w) b CMD_ACK [] b' \<and> ready b' \<and>
    view b' = put ((cells (view b))[cell a := w]) (view b)"
proof -
  let ?said = "say (''Wrote 0x%08x to '' @ region @ ''[0x%08x]'' @ crlf) [w, a]"
  have "fw_command bus say (request write_op a (le32 w) b) = (?said @ send_ack CMD_ACK @ [], wr a w b)"
    by (simp add: write_command fw_write_def request_def payload_value_le32 [OF assms(3,4)])
  from answersI [OF this] op_bytes assms(2) wr_cell [OF assms] show ?thesis by (auto simp: holds_def)
qed

lemma crc_answer:
  assumes "ready b" and "range_ok a n (cells (view b))" and "0 < n" and "int n * 4 < 2 ^ 32"
  shows "\<exists>b'. answers bus say crc_op a (le32 (int n * 4)) b CMD_ACK (le32 (block_crc (load_block (cells (view b)) (cell a) n))) b' \<and>
    ready b' \<and> view b' = view b"
proof -
  let ?crc = "block_crc (load_block (cells (view b)) (cell a) n)"
  obtain b' where b': "crc32_range rd a (int n * 4) b = (?crc, b')" "ready b'" "view b' = view b"
    using crc_block [OF assms(1,2)] by (auto simp: block_crc_def)
  have a: "0 \<le> a" "a < 2 ^ 32" using assms(2,3) by (simp_all add: range_ok_def)
  let ?said = "say (''CRC '' @ region @ ''[0x%08x..+0x%x] = 0x%08x'' @ crlf) [a, int n * 4, ?crc]"
  have "fw_command bus say (request crc_op a (le32 (int n * 4)) b) = (?said @ send_ack CMD_ACK @ le32 ?crc, b')"
    using payload_value_le32 [OF _ assms(4)] by (simp add: crc_command fw_crc_def request_def b'(1))
  from answersI [OF this] op_bytes a b'(2,3) show ?thesis by auto
qed

lemma host_reads_cell:
  assumes "ascii_printf say" and "stands ready view s v" and "holds a (cells v)"
  shows "\<exists>s'. read_memory host_fw read_op a s = (Inr (Some (cells v ! cell a)), s') \<and>
    stands ready view s' v"
proof -
  obtain b where b: "on_board s b" "ready b" "view b = v" using assms(2) by (rule standsE)
  obtain b' where b': "answers bus say read_op a [] b CMD_ACK (le32 (cells v ! cell a)) b'" "ready b'" "view b' = v"
    using read_answer [OF b(2)] assms(3) b(3) by blast
  have "0 \<le> cells v ! cell a" "cells v ! cell a < 2 ^ 32"
    using rd_u32 [OF b(2)] assms(3) b(3) by simp_all
  from exchange_value [OF b(1) b'(1) assms(1) this] b'(2,3) show ?thesis
    unfolding read_memory_def by (blast intro: standsI)
qed

lemma host_writes_cell:
  assumes "ascii_printf say" and "stands ready view s v" and "holds a (cells v)"
    and "0 \<le> w" and "w < 2 ^ 32"
  shows "\<exists>s'. act_bind (send_packet host_fw write_op a (le32 w)) (\<lambda>_. wait_for_ack) s = (Inr True, s') \<and>
    stands ready view s' (put ((cells v)[cell a := w]) v)"
proof -
  obtain b where b: "on_board s b" "ready b" "view b = v" using assms(2) by (rule standsE)
  obtain b' where "answers bus say write_op a (le32 w) b CMD_ACK [] b'" "ready b'"
      "view b' = put ((cells v)[cell a := w]) v"
    using write_answer [OF b(2)] assms(3-5) b(3) by blast
  with exchange_ack [OF b(1) _ assms(1)] show ?thesis by (fastforce intro: standsI)
qed

lemma host_requests_crc:
  assumes "ascii_printf say" and "stands ready view s v" and "range_ok a n (cells v)" and "0 < n"
    and "int n * 4 < 2 ^ 32"
  shows "\<exists>s'. request_crc host_fw crc_op a (int n * 4) s
      = (Inr (Some (block_crc (load_block (cells v) (cell a) n))), s') \<and> stands ready view s' v"
proof -
  obtain b where b: "on_board s b" "ready b" "view b = v" using assms(2) by (rule standsE)
  obtain b' where b': "answers bus say crc_op a (le32 (int n * 4)) b CMD_ACK
      (le32 (block_crc (load_block (cells v) (cell a) n))) b'" "ready b'" "view b' = v"
    using crc_answer [OF b(2)] assms(3-5) b(3) by blast
  from exchange_value [OF b(1) b'(1) assms(1)] block_crc_u32
  obtain s' where "act_bind (send_packet host_fw crc_op a (le32 (int n * 4))) (\<lambda>_. read_reply) s
      = (Inr (Some (block_crc (load_block (cells v) (cell a) n))), s')" "on_board s' b'" by blast
  with b'(2,3) assms(5) show ?thesis by (auto simp: request_crc_def act_simps pack_u32_def intro: standsI)
qed

end


section \<open>Verification of a transfer\<close>

text \<open>
  A transfer whose blocks lie in the memories, and the verdict of \<open>verify_one_transfer\<close> on memories
  with these words: the first word, and the checksums of both blocks.
\<close>

definition checkable :: "int list \<Rightarrow> int list \<Rightarrow> transfer \<Rightarrow> bool" where
  "checkable dst src t \<longleftrightarrow> len_words t = 0 \<or>
     0 < len_words t \<and> len_words t * 4 < 2 ^ 32 \<and> range_ok (dst_addr t) (nat (len_words t)) dst \<and>
     range_ok (src_addr t) (nat (len_words t)) src \<and> u32s (expected_words t) \<and>
     length (expected_words t) = nat (len_words t)"

definition verdict :: "int list \<Rightarrow> int list \<Rightarrow> transfer \<Rightarrow> bool" where
  "verdict dst src t \<longleftrightarrow> len_words t = 0 \<or>
     dst ! cell (dst_addr t) = expected_words t ! 0 \<and>
     block_crc (load_block dst (cell (dst_addr t)) (nat (len_words t))) = block_crc (expected_words t) \<and>
     block_crc (load_block src (cell (src_addr t)) (nat (len_words t))) = block_crc (expected_words t)"

text \<open>Both memories of the board, behind the same firmware.\<close>

locale dual_memory =
  sys: memory_commands sys_rd sys_wr ready view sys_cells sys_put bus say "''SYSMEM''"
    CMD_WRITE_SYSMEM CMD_READ_SYSMEM CMD_CRC_SYSMEM +
  ram: memory_commands ram_rd ram_wr ready view ram_cells ram_put bus say "''SRAM''"
    CMD_WRITE_SRAM CMD_READ_SRAM CMD_CRC_SRAM
  for sys_rd :: "int \<Rightarrow> 'b \<Rightarrow> int \<times> 'b" and sys_wr :: "int \<Rightarrow> int \<Rightarrow> 'b \<Rightarrow> 'b"
    and ready :: "'b \<Rightarrow> bool" and view :: "'b \<Rightarrow> 'v" and sys_cells :: "'v \<Rightarrow> int list"
    and sys_put :: "int list \<Rightarrow> 'v \<Rightarrow> 'v" and bus :: "'b bus" and say :: printf
    and ram_rd :: "int \<Rightarrow> 'b \<Rightarrow> int \<times> 'b" and ram_wr :: "int \<Rightarrow> int \<Rightarrow> 'b \<Rightarrow> 'b"
    and ram_cells :: "'v \<Rightarrow> int list" and ram_put :: "int list \<Rightarrow> 'v \<Rightarrow> 'v"
begin

lemma host_reads_cells:
  assumes "ascii_printf say"
    and "read_op = CMD_READ_SYSMEM \<and> m = sys_cells v \<or> read_op = CMD_READ_SRAM \<and> m = ram_cells v"
    and "range_ok a n m" and "stands ready view s v"
  shows "\<exists>s'. read_cells (uart_firmware bus say) read_op a (int n) s = (Inr (), s') \<and>
    stands ready view s' v"
proof -
  have "\<exists>s'. for_each (\<lambda>j. act_bind (read_memory (uart_firmware bus say) read_op (a + j * 4))
      (\<lambda>_. act_return ())) (map int is) s = (Inr (), s') \<and> stands ready view s' v"
    if "\<forall>i \<in> set is. i < n" for "is"
    using assms(4) that
  proof (induction "is" arbitrary: s)
    case Nil
    then show ?case by (simp add: act_simps)
  next
    case (Cons i "is")
    have "holds (a + 4 * int i) m"
      using assms(3) Cons.prems(2) by (simp add: range_ok_def holds_def cell_offset)
    then obtain x s1 where "read_memory (uart_firmware bus say) read_op (a + int i * 4) s = (Inr x, s1)"
        "stands ready view s1 v"
      using assms(1,2) Cons.prems(1) sys.host_reads_cell [of s v "a + 4 * int i"]
        ram.host_reads_cell [of s v "a + 4 * int i"] by (auto simp: mult.commute)
    with Cons.IH [of s1] Cons.prems(2) show ?case by (simp add: act_bind_def act_return_def)
  qed
  from this [of "[0..<n]"] show ?thesis by (simp add: read_cells_def py_range_def)
qed

abbreviation dst_of :: "transfer \<Rightarrow> 'v \<Rightarrow> int list" where
  "dst_of t v \<equiv> (if direction t = 1 then ram_cells v else sys_cells v)"

abbreviation src_of :: "transfer \<Rightarrow> 'v \<Rightarrow> int list" where
  "src_of t v \<equiv> (if direction t = 1 then sys_cells v else ram_cells v)"

lemma viewer_reads:
  assumes "ascii_printf say" and "checkable (dst_of t v) (src_of t v) t" and "len_words t \<noteq> 0"
    and "stands ready view s v"
  shows "\<exists>s'. (if viz then act_bind (read_cells (uart_firmware bus say)
        (if direction t = 1 then CMD_READ_SRAM else CMD_READ_SYSMEM) (dst_addr t) (len_words t))
      (\<lambda>_. read_cells (uart_firmware bus say)
        (if direction t = 1 then CMD_READ_SYSMEM else CMD_READ_SRAM) (src_addr t) (len_words t))
      else act_return ()) s = (Inr (), s') \<and> stands ready view s' v"
proof (cases viz)
  case True
  let ?n = "nat (len_words t)"
  have n: "int ?n = len_words t" and r: "range_ok (dst_addr t) ?n (dst_of t v)"
    "range_ok (src_addr t) ?n (src_of t v)" using assms(2,3) by (simp_all add: checkable_def)
  obtain s1 where s1: "read_cells (uart_firmware bus say)
      (if direction t = 1 then CMD_READ_SRAM else CMD_READ_SYSMEM) (dst_addr t) (len_words t) s = (Inr (), s1)"
      "stands ready view s1 v"
    using host_reads_cells [OF assms(1) _ r(1) assms(4), unfolded n] by (cases "direction t = 1") auto
  obtain s2 where "read_cells (uart_firmware bus say)
      (if direction t = 1 then CMD_READ_SYSMEM else CMD_READ_SRAM) (src_addr t) (len_words t) s1 = (Inr (), s2)"
      "stands ready view s2 v"
    using host_reads_cells [OF assms(1) _ r(2) s1(2), unfolded n] by (cases "direction t = 1") auto
  with True s1 show ?thesis by (simp add: act_bind_def)
qed (use assms(4) in \<open>simp add: act_simps\<close>)

lemma host_verifies:
  assumes "ascii_printf say" and "stands ready view s v" and "checkable (dst_of t v) (src_of t v) t"
  shows "\<exists>s'. verify_one_transfer (uart_firmware bus say) viz t s
      = (Inr (verdict (dst_of t v) (src_of t v) t), s') \<and> stands ready view s' v"
proof (cases "len_words t = 0")
  case True
  with assms(2) show ?thesis by (simp add: verify_one_transfer_def verdict_def act_simps)
next
  case False
  let ?fw = "uart_firmware bus say" and ?n = "nat (len_words t)"
  have n: "int ?n = len_words t" "0 < ?n" "int ?n * 4 < 2 ^ 32"
    and r: "range_ok (dst_addr t) ?n (dst_of t v)" "range_ok (src_addr t) ?n (src_of t v)"
    and e: "u32s (expected_words t)" "length (expected_words t) = ?n"
    using assms(3) False by (simp_all add: checkable_def)
  have crc: "compute_crc32 (expected_words t) = Inr (block_crc (expected_words t))"
    using e(1) by (simp add: compute_crc32_words block_crc_def)
  have first: "py_getitem (expected_words t) 0 = Inr (expected_words t ! 0)"
    using e(2) n(2) by (simp add: py_getitem_def py_index_def)
  have hold: "holds (dst_addr t) (dst_of t v)" by (rule range_holds [OF r(1) n(2)])
  obtain s1 where s1: "(if viz then act_bind (read_cells ?fw
        (if direction t = 1 then CMD_READ_SRAM else CMD_READ_SYSMEM) (dst_addr t) (len_words t))
      (\<lambda>_. read_cells ?fw
        (if direction t = 1 then CMD_READ_SYSMEM else CMD_READ_SRAM) (src_addr t) (len_words t))
      else act_return ()) s = (Inr (), s1)" "stands ready view s1 v"
    using viewer_reads [OF assms(1,3) False assms(2)] by blast
  obtain s2 where s2: "read_memory ?fw (if direction t = 1 then CMD_READ_SRAM else CMD_READ_SYSMEM)
      (dst_addr t) s1 = (Inr (Some (dst_of t v ! cell (dst_addr t))), s2)" "stands ready view s2 v"
    using sys.host_reads_cell [OF assms(1) s1(2)] ram.host_reads_cell [OF assms(1) s1(2)] hold
    by (cases "direction t = 1") auto
  obtain s3 where s3: "request_crc ?fw (if direction t = 1 then CMD_CRC_SRAM else CMD_CRC_SYSMEM)
      (dst_addr t) (len_words t * 4) s2
      = (Inr (Some (block_crc (load_block (dst_of t v) (cell (dst_addr t)) ?n))), s3)" "stands ready view s3 v"
    using sys.host_requests_crc [OF assms(1) s2(2) _ n(2,3), unfolded n(1)]
      ram.host_requests_crc [OF assms(1) s2(2) _ n(2,3), unfolded n(1)] r(1)
    by (cases "direction t = 1") auto
  obtain s4 where s4: "request_crc ?fw (if direction t = 1 then CMD_CRC_SYSMEM else CMD_CRC_SRAM)
      (src_addr t) (len_words t * 4) s3
      = (Inr (Some (block_crc (load_block (src_of t v) (cell (src_addr t)) ?n))), s4)" "stands ready view s4 v"
    using sys.host_requests_crc [OF assms(1) s3(2) _ n(2,3), unfolded n(1)]
      ram.host_requests_crc [OF assms(1) s3(2) _ n(2,3), unfolded n(1)] r(2)
    by (cases "direction t = 1") auto
  show ?thesis
    using False s1(1) s2(1) s3(1) s4
    by (cases "direction t = 1") (auto simp: verify_one_transfer_def verdict_def crc first act_simps
        act_bind_def Let_def)
qed

lemma host_verifies_all:
  assumes "ascii_printf say" and "\<forall>t \<in> set ts. checkable (dst_of t v) (src_of t v) t"
    and "stands ready view s v"
  shows "\<exists>s'. map_each (verify_one_transfer (uart_firmware bus say) viz) ts s
      = (Inr (map (\<lambda>t. verdict (dst_of t v) (src_of t v) t) ts), s') \<and> stands ready view s' v"
  using assms(2,3)
proof (induction ts arbitrary: s)
  case Nil
  then show ?case by (simp add: act_simps)
next
  case (Cons t ts)
  obtain s1 where "verify_one_transfer (uart_firmware bus say) viz t s
      = (Inr (verdict (dst_of t v) (src_of t v) t), s1)" "stands ready view s1 v"
    using host_verifies [OF assms(1) Cons.prems(2), of t viz] Cons.prems(1) by auto
  with Cons.IH [of s1] Cons.prems(1) show ?case by (auto simp: act_bind_def act_return_def)
qed

end

end
