(* ===== verification/Board.thy ===== *)
theory Board
  imports Host_Firmware Scenario
begin

text \<open>
  A board for the firmware to run on: the memory-access shim of \<open>rtl/mem_access_ctrl.sv\<close> (one
  transaction at a time; the registered outputs of the memories have settled when a read pulse
  captures them), and behind it the golden model: its memories, its register file as the AXI-Lite
  slave, and its hardware phase as the engine. The theory interprets the memory contracts on it and
  follows CMD_RUN_DMA through the firmware.
\<close>

section \<open>The shim and the registers\<close>

record dma_board =
  shim_addr :: int
  shim_data :: int
  shim_rdata :: int
  shim_done :: bool
  dma_rd_addr :: nat
  hw :: golden

text \<open>The byte address as a word index; the memory depth is a power of two there.\<close>

definition shim_index :: "int \<Rightarrow> int list \<Rightarrow> nat" where
  "shim_index a m = nat (a div 4 mod int (length m))"

definition put_smem :: "int list \<Rightarrow> golden \<Rightarrow> golden" where
  "put_smem m g = g\<lparr>gd_ring := set_ring_mem m (gd_ring g)\<rparr>"

definition put_bram :: "int list \<Rightarrow> golden \<Rightarrow> golden" where
  "put_bram m g = g\<lparr>gd_sram := (gd_sram g)\<lparr>sr_mem := m\<rparr>\<rparr>"

text \<open>
  The write commit. The SRAM port belongs to the engine once \<open>init_done\<close> is set: then a write pulse
  of the shim is lost, and a read captures what the engine reads.
\<close>

definition shim_write :: "int \<Rightarrow> int \<Rightarrow> dma_board \<Rightarrow> dma_board" where
  "shim_write off v b =
     (if off = REG_INIT_ADDR then b\<lparr>shim_addr := v\<rparr>
      else if off = REG_INIT_DATA then b\<lparr>shim_data := v\<rparr>
      else if off = REG_INIT_DONE then b\<lparr>shim_done := odd v\<rparr>
      else if off = REG_SRAM_WR \<and> odd v then
        (if shim_done b then b
         else b\<lparr>hw := put_bram ((bram (hw b))[shim_index (shim_addr b) (bram (hw b)) := shim_data b]) (hw b)\<rparr>)
      else if off = REG_MEM_WR \<and> odd v then
        b\<lparr>hw := put_smem ((smem (hw b))[shim_index (shim_addr b) (smem (hw b)) := shim_data b]) (hw b)\<rparr>
      else if off = REG_SRAM_RD \<and> odd v then
        b\<lparr>shim_rdata := bram (hw b) ! (if shim_done b then dma_rd_addr b
            else shim_index (shim_addr b) (bram (hw b)))\<rparr>
      else if off = REG_MEM_RD \<and> odd v then
        b\<lparr>shim_rdata := smem (hw b) ! shim_index (shim_addr b) (smem (hw b))\<rparr>
      else b)"

definition shim_read :: "int \<Rightarrow> dma_board \<Rightarrow> int" where
  "shim_read off b =
     (if off = REG_INIT_ADDR then shim_addr b
      else if off = REG_INIT_DATA then shim_data b
      else if off = REG_RDATA then shim_rdata b
      else if off = REG_INIT_DONE then of_bool (shim_done b)
      else 0)"

text \<open>
  The registers and the engine are those of the golden model. A register write that leaves ENABLE
  set starts the engine, if it owns the memories; it runs to completion before the next access.
  STATUS.RING_EMPTY follows HEAD and TAIL.
\<close>

definition on_csr :: "(csr \<Rightarrow> csr) \<Rightarrow> golden \<Rightarrow> golden" where
  "on_csr f g = g\<lparr>gd_ring := (gd_ring g)\<lparr>rm_csr := f (g_csr g)\<rparr>\<rparr>"

definition run_engine :: "golden \<Rightarrow> golden" where
  "run_engine g = (case hardware_phase g of
     (Inl _, h) \<Rightarrow> on_csr hw_set_error h | (Inr _, h) \<Rightarrow> h)"

definition settle :: "golden \<Rightarrow> golden" where
  "settle g = on_csr (hw_set_ring_empty (ring_is_empty (gd_ring g))) g"

definition csr_store :: "int \<Rightarrow> int \<Rightarrow> dma_board \<Rightarrow> dma_board" where
  "csr_store off v b =
     (let g = on_csr (csr_write off v) (hw b)
      in b\<lparr>hw := settle (if is_enabled (g_csr g) \<and> shim_done b then run_engine g else g)\<rparr>)"

definition in_window :: "int \<Rightarrow> int \<Rightarrow> bool" where
  "in_window base a \<longleftrightarrow> base \<le> a \<and> a < base + 256"

definition board_bus :: "dma_board bus" where
  "board_bus = \<lparr>
     xil_in32 = (\<lambda>a b. if in_window MEM_ACCESS_CTRL_BASE a then (shim_read (a AND 0xFF) b, b)
       else if in_window CSR_ACCESS_BASE a then (csr_read (g_csr (hw b)) (a AND 0xFF), b) else (0, b)),
     xil_out32 = (\<lambda>a v b. if in_window MEM_ACCESS_CTRL_BASE a then shim_write (a AND 0xFF) v b
       else if in_window CSR_ACCESS_BASE a then csr_store (a AND 0xFF) v b else b)\<rparr>"

definition power_on :: "golden \<Rightarrow> dma_board" where
  "power_on g = \<lparr>shim_addr = 0, shim_data = 0, shim_rdata = 0, shim_done = False, dma_rd_addr = 0,
     hw = settle g\<rparr>"

section \<open>What the host sees of the board\<close>

record board_view =
  v_sys :: "int list"
  v_ram :: "int list"
  v_base :: int
  v_len :: int
  v_head :: int
  v_tail :: int

definition golden_view :: "golden \<Rightarrow> board_view" where
  "golden_view g = \<lparr>v_sys = smem g, v_ram = bram g, v_base = base_of (gd_ring g),
     v_len = rlen_of (gd_ring g), v_head = head_of (gd_ring g), v_tail = tail_of (gd_ring g)\<rparr>"

definition board_view_of :: "dma_board \<Rightarrow> board_view" where
  "board_view_of b = golden_view (hw b)"

text \<open>The shim owns the memories, the model objects are in order and the engine is not busy.\<close>

definition board_ready :: "dma_board \<Rightarrow> bool" where
  "board_ready b \<longleftrightarrow> \<not> shim_done b \<and> setup_ok (hw b) \<and> \<not> bit (reg (g_csr (hw b)) REG_STATUS) BUSY_BIT"

lemma windows:
  "in_window MEM_ACCESS_CTRL_BASE (MEM_ACCESS_CTRL_BASE + off) \<longleftrightarrow> 0 \<le> off \<and> off < 256"
  "in_window CSR_ACCESS_BASE (CSR_ACCESS_BASE + off) \<longleftrightarrow> 0 \<le> off \<and> off < 256"
  "0 \<le> off \<Longrightarrow> off < 256 \<Longrightarrow> \<not> in_window MEM_ACCESS_CTRL_BASE (CSR_ACCESS_BASE + off)"
  by (auto simp: in_window_def MEM_ACCESS_CTRL_BASE_def CSR_ACCESS_BASE_def)

lemma low_bytes:
  assumes "0 \<le> off" and "off < 256"
  shows "(MEM_ACCESS_CTRL_BASE + off) AND 0xFF = off" and "(CSR_ACCESS_BASE + off) AND 0xFF = off"
  using assms mod_add_left_eq [of MEM_ACCESS_CTRL_BASE 256 off] mod_add_left_eq [of CSR_ACCESS_BASE 256 off]
  by (simp_all add: bits MEM_ACCESS_CTRL_BASE_def CSR_ACCESS_BASE_def)

lemma board_bus_csr:
  assumes "0 \<le> off" and "off < 256"
  shows "xil_in32 board_bus (CSR_ACCESS_BASE + off) b = (reg (g_csr (hw b)) off, b)"
    and "xil_out32 board_bus (CSR_ACCESS_BASE + off) v b = csr_store off v b"
  using assms by (simp_all add: board_bus_def windows low_bytes csr_read_def)

lemma board_bus_shim:
  assumes "0 \<le> off" and "off < 256"
  shows "REG_READ board_bus off b = (shim_read off b, b)"
    and "REG_WRITE board_bus off v b = shim_write off v b"
  using assms by (simp_all add: board_bus_def windows low_bytes REG_READ_def REG_WRITE_def)

text \<open>The firmware's four accessors on this board.\<close>

lemma board_accessors:
  "fw_sysmem_write board_bus a v b = b\<lparr>shim_addr := a, shim_data := v,
     hw := put_smem ((smem (hw b))[shim_index a (smem (hw b)) := v]) (hw b)\<rparr>"
  "\<not> shim_done b \<Longrightarrow> fw_sram_write board_bus a v b = b\<lparr>shim_addr := a, shim_data := v,
     hw := put_bram ((bram (hw b))[shim_index a (bram (hw b)) := v]) (hw b)\<rparr>"
  "fw_sysmem_read board_bus a b = (smem (hw b) ! shim_index a (smem (hw b)),
     b\<lparr>shim_addr := a, shim_rdata := smem (hw b) ! shim_index a (smem (hw b))\<rparr>)"
  "\<not> shim_done b \<Longrightarrow> fw_sram_read board_bus a b = (bram (hw b) ! shim_index a (bram (hw b)),
     b\<lparr>shim_addr := a, shim_rdata := bram (hw b) ! shim_index a (bram (hw b))\<rparr>)"
  by (simp_all add: fw_sysmem_write_def fw_sram_write_def fw_sysmem_read_def fw_sram_read_def
      board_bus_shim shim_offsets shim_write_def shim_read_def Let_def)

lemma index_in_range:
  assumes "holds a m"
  shows "shim_index a m = cell a"
proof -
  have "0 \<le> a div 4" using assms by (simp add: holds_def pos_imp_zdiv_nonneg_iff)
  moreover from this have "a div 4 < int (length m)"
    using assms nat_less_iff [of "a div 4" "length m"] by (simp add: holds_def cell_def)
  ultimately show ?thesis by (simp add: shim_index_def cell_def)
qed

lemma setup_ok_put:
  assumes "setup_ok g"
  shows "u32s m \<Longrightarrow> length m = length (smem g) \<Longrightarrow> setup_ok (put_smem m g)"
    and "u32s m \<Longrightarrow> length m = length (bram g) \<Longrightarrow> setup_ok (put_bram m g)"
  using assms
  by (simp_all add: setup_ok_def put_smem_def put_bram_def axi_ok_def sysmem_ok_def sram_ok_def
      quiescent_def)

lemma setup_ok_words: "setup_ok g \<Longrightarrow> u32s (smem g) \<and> u32s (bram g)"
  by (simp add: setup_ok_def axi_ok_def sysmem_ok_def sram_ok_def)

lemma u32s_set: "u32s m \<Longrightarrow> 0 \<le> v \<Longrightarrow> v < 2 ^ 32 \<Longrightarrow> u32s (m[i := v])"
  by (rule u32s_update)

lemmas board_views = board_view_of_def golden_view_def put_smem_def put_bram_def

lemma board_sys_port: "word_port (fw_sysmem_read board_bus) (fw_sysmem_write board_bus) board_ready
  board_view_of v_sys (\<lambda>m v. v\<lparr>v_sys := m\<rparr>)"
proof
  fix b a assume "board_ready b" "holds a (v_sys (board_view_of b))"
  then show "\<exists>b'. fw_sysmem_read board_bus a b = (v_sys (board_view_of b) ! cell a, b') \<and>
      board_ready b' \<and> board_view_of b' = board_view_of b"
    by (simp add: board_accessors index_in_range board_ready_def board_views)
next
  fix b a and v :: int assume b: "board_ready b" "holds a (v_sys (board_view_of b))" "0 \<le> v" "v < 2 ^ 32"
  then have "setup_ok (put_smem ((smem (hw b))[cell a := v]) (hw b))"
    using setup_ok_words [of "hw b"] by (intro setup_ok_put u32s_set) (simp_all add: board_ready_def)
  with b show "board_ready (fw_sysmem_write board_bus a v b) \<and>
      board_view_of (fw_sysmem_write board_bus a v b)
      = board_view_of b\<lparr>v_sys := (v_sys (board_view_of b))[cell a := v]\<rparr>"
    by (simp add: board_accessors index_in_range board_ready_def board_views)
next
  fix b assume "board_ready b"
  then show "u32s (v_sys (board_view_of b))"
    using setup_ok_words [of "hw b"] by (simp add: board_ready_def board_views)
qed

lemma board_ram_port: "word_port (fw_sram_read board_bus) (fw_sram_write board_bus) board_ready
  board_view_of v_ram (\<lambda>m v. v\<lparr>v_ram := m\<rparr>)"
proof
  fix b a assume "board_ready b" "holds a (v_ram (board_view_of b))"
  then show "\<exists>b'. fw_sram_read board_bus a b = (v_ram (board_view_of b) ! cell a, b') \<and>
      board_ready b' \<and> board_view_of b' = board_view_of b"
    by (simp add: board_accessors index_in_range board_ready_def board_views)
next
  fix b a and v :: int assume b: "board_ready b" "holds a (v_ram (board_view_of b))" "0 \<le> v" "v < 2 ^ 32"
  then have "setup_ok (put_bram ((bram (hw b))[cell a := v]) (hw b))"
    using setup_ok_words [of "hw b"] by (intro setup_ok_put u32s_set) (simp_all add: board_ready_def)
  with b show "board_ready (fw_sram_write board_bus a v b) \<and>
      board_view_of (fw_sram_write board_bus a v b)
      = board_view_of b\<lparr>v_ram := (v_ram (board_view_of b))[cell a := v]\<rparr>"
    by (simp add: board_accessors index_in_range board_ready_def board_views)
next
  fix b assume "board_ready b"
  then show "u32s (v_ram (board_view_of b))"
    using setup_ok_words [of "hw b"] by (simp add: board_ready_def board_views)
qed

lemma memory_dispatch:
  "opcode_of u = CMD_WRITE_SYSMEM \<Longrightarrow> fw_command bus say u = fw_write say ''SYSMEM'' (fw_sysmem_write bus) u"
  "opcode_of u = CMD_READ_SYSMEM \<Longrightarrow> fw_command bus say u = fw_read say ''SYSMEM'' (fw_sysmem_read bus) u"
  "opcode_of u = CMD_CRC_SYSMEM \<Longrightarrow> fw_command bus say u = fw_crc say ''SYSMEM'' (crc32_range (fw_sysmem_read bus)) u"
  "opcode_of u = CMD_WRITE_SRAM \<Longrightarrow> fw_command bus say u = fw_write say ''SRAM'' (fw_sram_write bus) u"
  "opcode_of u = CMD_READ_SRAM \<Longrightarrow> fw_command bus say u = fw_read say ''SRAM'' (fw_sram_read bus) u"
  "opcode_of u = CMD_CRC_SRAM \<Longrightarrow> fw_command bus say u = fw_crc say ''SRAM'' (crc32_range (fw_sram_read bus)) u"
  by (simp_all add: fw_command_def firmware_opcodes crc32_sysmem_range_def crc32_sram_range_def)

interpretation board_mem: dual_memory "fw_sysmem_read board_bus" "fw_sysmem_write board_bus" board_ready
  board_view_of v_sys "\<lambda>m v. v\<lparr>v_sys := m\<rparr>" board_bus say
  "fw_sram_read board_bus" "fw_sram_write board_bus" v_ram "\<lambda>m v. v\<lparr>v_ram := m\<rparr>" for say
  by (rule dual_memory.intro; rule memory_commands.intro; (rule board_sys_port board_ram_port)?;
      unfold_locales) (simp_all add: memory_dispatch firmware_opcodes)

section \<open>Register writes\<close>

lemma reg_distinct:
  "REG_BASEADDR \<noteq> REG_RINGLEN" "REG_BASEADDR \<noteq> REG_HEAD" "REG_BASEADDR \<noteq> REG_TAIL"
  "REG_BASEADDR \<noteq> REG_CTRL" "REG_BASEADDR \<noteq> REG_STATUS" "REG_BASEADDR \<noteq> REG_IRQ_STATUS"
  "REG_BASEADDR \<noteq> REG_IRQ_CLEAR" "REG_RINGLEN \<noteq> REG_HEAD" "REG_RINGLEN \<noteq> REG_TAIL"
  "REG_RINGLEN \<noteq> REG_CTRL" "REG_RINGLEN \<noteq> REG_STATUS" "REG_RINGLEN \<noteq> REG_IRQ_STATUS"
  "REG_RINGLEN \<noteq> REG_IRQ_CLEAR" "REG_HEAD \<noteq> REG_TAIL" "REG_HEAD \<noteq> REG_CTRL" "REG_HEAD \<noteq> REG_STATUS"
  "REG_HEAD \<noteq> REG_IRQ_STATUS" "REG_HEAD \<noteq> REG_IRQ_CLEAR" "REG_TAIL \<noteq> REG_CTRL"
  "REG_TAIL \<noteq> REG_STATUS" "REG_TAIL \<noteq> REG_IRQ_STATUS" "REG_TAIL \<noteq> REG_IRQ_CLEAR"
  "REG_CTRL \<noteq> REG_STATUS" "REG_CTRL \<noteq> REG_IRQ_STATUS" "REG_CTRL \<noteq> REG_IRQ_CLEAR"
  "REG_STATUS \<noteq> REG_IRQ_STATUS" "REG_STATUS \<noteq> REG_IRQ_CLEAR" "REG_IRQ_STATUS \<noteq> REG_IRQ_CLEAR"
  by (simp_all add: reg_offsets)

lemmas reg_apart = reg_distinct reg_distinct [symmetric]

text \<open>The firmware's register numbers are the model's.\<close>

lemma board_csr_access:
  "fw_csr_in board_bus CSR_REG_BASEADDR b = (reg (g_csr (hw b)) REG_BASEADDR, b)"
  "fw_csr_in board_bus CSR_REG_RINGLEN b = (reg (g_csr (hw b)) REG_RINGLEN, b)"
  "fw_csr_in board_bus CSR_REG_HEAD b = (reg (g_csr (hw b)) REG_HEAD, b)"
  "fw_csr_in board_bus CSR_REG_TAIL b = (reg (g_csr (hw b)) REG_TAIL, b)"
  "fw_csr_in board_bus CSR_REG_CTRL b = (reg (g_csr (hw b)) REG_CTRL, b)"
  "fw_csr_in board_bus CSR_REG_STATUS b = (reg (g_csr (hw b)) REG_STATUS, b)"
  "fw_csr_out board_bus CSR_REG_BASEADDR v b = csr_store REG_BASEADDR v b"
  "fw_csr_out board_bus CSR_REG_RINGLEN v b = csr_store REG_RINGLEN v b"
  "fw_csr_out board_bus CSR_REG_TAIL v b = csr_store REG_TAIL v b"
  "fw_csr_out board_bus CSR_REG_CTRL v b = csr_store REG_CTRL v b"
  "fw_csr_out board_bus CSR_REG_IRQ_CLEAR v b = csr_store REG_IRQ_CLEAR v b"
  unfolding fw_csr_in_def fw_csr_out_def CSR_REG_BASEADDR_def CSR_REG_RINGLEN_def CSR_REG_HEAD_def
    CSR_REG_TAIL_def CSR_REG_CTRL_def CSR_REG_STATUS_def CSR_REG_IRQ_CLEAR_def reg_offsets
  by (rule board_bus_csr; simp)+

lemma on_csr_parts [simp]:
  "smem (on_csr f g) = smem g" "bram (on_csr f g) = bram g" "g_csr (on_csr f g) = f (g_csr g)"
  "gd_stim (on_csr f g) = gd_stim g" "g_axi (on_csr f g) = g_axi g" "gd_sram (on_csr f g) = gd_sram g"
  "gd_dm_sram (on_csr f g) = gd_dm_sram g"
  by (simp_all add: on_csr_def)

lemma setup_ok_on_csr: "setup_ok g \<Longrightarrow> csr_ok (f (g_csr g)) \<Longrightarrow> setup_ok (on_csr f g)"
  by (simp add: setup_ok_def)

lemma settle_regs:
  "reg (g_csr (settle g)) k = (if k = REG_STATUS
     then (if ring_is_empty (gd_ring g) then set_bit 1 else unset_bit 1) (reg (g_csr g) REG_STATUS)
     else reg (g_csr g) k)"
  by (simp add: settle_def reg_hw)

lemma settle_parts [simp]:
  "smem (settle g) = smem g" "bram (settle g) = bram g" "g_axi (settle g) = g_axi g"
  by (simp_all add: settle_def)

lemma settle_view [simp]: "golden_view (settle g) = golden_view g"
  by (simp add: golden_view_def settle_regs reg_apart)

lemma settle_ok: "setup_ok g \<Longrightarrow> setup_ok (settle g)"
  unfolding settle_def by (rule setup_ok_on_csr) (simp_all add: csr_ok_hw setup_ok_def)

lemma settle_status:
  "bit (reg (g_csr (settle g)) REG_STATUS) n \<longleftrightarrow>
     (if n = 1 then ring_is_empty (gd_ring g) else bit (reg (g_csr g) REG_STATUS) n)"
  by (auto simp: settle_regs bit_simps)

text \<open>While the shim owns the memories a register write only writes the register.\<close>

lemma store_quiet:
  assumes "board_ready b"
  shows "csr_store off v b = b\<lparr>hw := settle (on_csr (csr_write off v) (hw b))\<rparr>"
    and "board_ready (csr_store off v b)"
proof -
  show eq: "csr_store off v b = b\<lparr>hw := settle (on_csr (csr_write off v) (hw b))\<rparr>"
    using assms by (simp add: csr_store_def board_ready_def)
  have ok: "setup_ok (hw b)" "csr_ok (g_csr (hw b))" using assms by (simp_all add: board_ready_def setup_ok_def)
  have "\<not> bit (reg (csr_write off v (g_csr (hw b))) REG_STATUS) 0"
  proof (cases "off \<in> {REG_HEAD, REG_STATUS}")
    case True
    then show ?thesis using assms by (simp add: csr_write_read_only board_ready_def BUSY_BIT_def)
  next
    case False
    then show ?thesis
      using assms reg_csr_write_plain [of off v "g_csr (hw b)" REG_STATUS]
        reg_csr_write_ctrl [of v "g_csr (hw b)" REG_STATUS]
        reg_csr_write_clear [of v "g_csr (hw b)" REG_STATUS]
      by (cases "off \<in> {REG_CTRL, REG_IRQ_CLEAR}")
        (auto simp: board_ready_def BUSY_BIT_def bit_simps reg_apart split: if_splits)
  qed
  with ok show "board_ready (csr_store off v b)"
    using assms
    by (simp add: eq board_ready_def settle_ok setup_ok_on_csr csr_ok_write settle_status BUSY_BIT_def)
qed

lemma store_regs:
  assumes "board_ready b" and "k \<noteq> REG_STATUS"
  shows "reg (g_csr (hw (csr_store off v b))) k = reg (csr_write off v (g_csr (hw b))) k"
  using assms(2) by (simp add: store_quiet [OF assms(1)] settle_regs)

lemma store_status:
  assumes "board_ready b" and "n \<noteq> 1"
  shows "bit (reg (g_csr (hw (csr_store off v b))) REG_STATUS) n
    \<longleftrightarrow> bit (reg (csr_write off v (g_csr (hw b))) REG_STATUS) n"
  using assms(2) by (simp add: store_quiet [OF assms(1)] settle_status)

lemma store_view:
  assumes "board_ready b" and "0 \<le> v" and "v < 2 ^ 32"
  shows "board_view_of (csr_store REG_BASEADDR v b) = (board_view_of b)\<lparr>v_base := v\<rparr>"
    and "board_view_of (csr_store REG_RINGLEN v b) = (board_view_of b)\<lparr>v_len := v\<rparr>"
    and "board_view_of (csr_store REG_TAIL v b) = (board_view_of b)\<lparr>v_tail := v\<rparr>"
  using assms(2,3)
  by (simp_all add: store_quiet [OF assms(1)] board_view_of_def)
    (simp_all add: golden_view_def reg_csr_write_plain reg_apart)

lemma store_view_other:
  assumes "board_ready b"
  shows "board_view_of (csr_store REG_CTRL v b) = board_view_of b"
    and "board_view_of (csr_store REG_IRQ_CLEAR v b) = board_view_of b"
  by (simp_all add: store_quiet [OF assms] board_view_of_def)
    (simp_all add: golden_view_def reg_csr_write_ctrl reg_csr_write_clear reg_apart)

lemma store_keeps_ctrl:
  assumes "board_ready b"
  shows "reg (g_csr (hw (csr_store REG_BASEADDR v b))) REG_CTRL = reg (g_csr (hw b)) REG_CTRL"
    and "reg (g_csr (hw (csr_store REG_RINGLEN v b))) REG_CTRL = reg (g_csr (hw b)) REG_CTRL"
    and "reg (g_csr (hw (csr_store REG_TAIL v b))) REG_CTRL = reg (g_csr (hw b)) REG_CTRL"
    and "reg (g_csr (hw (csr_store REG_IRQ_CLEAR v b))) REG_CTRL = reg (g_csr (hw b)) REG_CTRL"
  by (auto simp: store_regs [OF assms] reg_csr_write_plain reg_csr_write_clear reg_apart)

lemma store_keeps_error:
  assumes "board_ready b"
  shows "bit (reg (g_csr (hw (csr_store REG_BASEADDR v b))) REG_STATUS) 2
      = bit (reg (g_csr (hw b)) REG_STATUS) 2"
    and "bit (reg (g_csr (hw (csr_store REG_RINGLEN v b))) REG_STATUS) 2
      = bit (reg (g_csr (hw b)) REG_STATUS) 2"
    and "bit (reg (g_csr (hw (csr_store REG_TAIL v b))) REG_STATUS) 2
      = bit (reg (g_csr (hw b)) REG_STATUS) 2"
  by (auto simp: store_status [OF assms] reg_csr_write_plain reg_apart)

section \<open>Running the engine\<close>

lemma status_bits:
  "x AND STATUS_BUSY = 0 \<longleftrightarrow> \<not> bit x 0" "x AND STATUS_EMPTY = 0 \<longleftrightarrow> \<not> bit x 1"
  "x AND STATUS_ERROR = 0 \<longleftrightarrow> \<not> bit x 2" for x :: int
  using test_bit_eq [of x 0] test_bit_eq [of x 1] test_bit_eq [of x 2]
  by (auto simp: STATUS_BUSY_def STATUS_EMPTY_def STATUS_ERROR_def)


definition view_pending :: "board_view \<Rightarrow> descriptor list" where
  "view_pending v = map (\<lambda>i. desc_at (v_sys v) (slot_word (v_base v) i))
     (slots (v_len v) (v_head v) (nat (ring_count (v_len v) (v_head v) (v_tail v))))"

definition view_ring_ok :: "board_view \<Rightarrow> bool" where
  "view_ring_ok v \<longleftrightarrow> 0 < v_len v \<and> v_head v < v_len v \<and> v_tail v < v_len v \<and> v_base v mod 4 = 0 \<and>
     v_base v div 4 + 4 * v_len v \<le> int (length (v_sys v)) \<and> int (length (v_sys v)) \<le> 2 ^ 30"

lemma pending_view: "pending (gd_ring g) = view_pending (golden_view g)"
  by (simp add: pending_def view_pending_def golden_view_def)

lemma ring_ok_view:
  assumes "setup_ok g"
  shows "ring_ok (gd_ring g) \<longleftrightarrow> view_ring_ok (golden_view g)"
proof -
  have "int (length (smem g)) = sm_size (am_memory (g_axi g))"
    using assms by (simp add: setup_ok_def axi_ok_def sysmem_ok_def)
  then show ?thesis
    using assms by (simp add: ring_ok_def view_ring_ok_def golden_view_def setup_ok_def)
qed

lemma golden_ok_setup:
  "setup_ok g \<and> ring_ok (gd_ring g) \<longleftrightarrow> golden_ok g \<and> queue_length (am_mid (g_axi g)) = MID_DEPTH"
  by (auto simp: setup_ok_def golden_ok_def ring_ok_def)

text \<open>Saving, resetting and restoring the registers changes nothing that is visible.\<close>

lemma board_reset:
  assumes "board_ready b"
  shows "board_ready (fw_reset_csr board_bus b)"
    and "board_view_of (fw_reset_csr board_bus b) = board_view_of b"
    and "reg (g_csr (hw (fw_reset_csr board_bus b))) REG_CTRL = 0"
    and "\<not> bit (reg (g_csr (hw (fw_reset_csr board_bus b))) REG_STATUS) 2"
proof -
  let ?c = "g_csr (hw b)"
  have u: "0 \<le> reg ?c k" "reg ?c k < 2 ^ 32" for k
    using assms csr_ok_reg [of ?c k] by (simp_all add: board_ready_def setup_ok_def)
  define b4 where "b4 = csr_store REG_CTRL CTRL_RESET b"
  define b5 where "b5 = csr_store REG_CTRL 0 b4"
  define b6 where "b6 = csr_store REG_IRQ_CLEAR 3 b5"
  define b7 where "b7 = csr_store REG_BASEADDR (reg ?c REG_BASEADDR) b6"
  define b8 where "b8 = csr_store REG_RINGLEN (reg ?c REG_RINGLEN) b7"
  define b9 where "b9 = csr_store REG_TAIL (reg ?c REG_TAIL) b8"
  note defs = b4_def b5_def b6_def b7_def b8_def b9_def
  have b9: "fw_reset_csr board_bus b = b9"
    unfolding defs
    by (simp add: fw_reset_csr_def board_csr_access Let_def)
  have r: "board_ready b4" "board_ready b5" "board_ready b6" "board_ready b7" "board_ready b8"
    "board_ready b9" unfolding defs by (intro store_quiet(2) assms)+
  show "board_ready (fw_reset_csr board_bus b)" using r by (simp add: b9)
  have "board_view_of b9 = (board_view_of b)\<lparr>v_base := reg ?c REG_BASEADDR, v_len := reg ?c REG_RINGLEN,
      v_tail := reg ?c REG_TAIL\<rparr>"
    unfolding b9_def store_view(3) [OF r(5) u] unfolding b8_def store_view(2) [OF r(4) u]
    unfolding b7_def store_view(1) [OF r(3) u] unfolding b6_def store_view_other(2) [OF r(2)]
    unfolding b5_def store_view_other(1) [OF r(1)] unfolding b4_def store_view_other(1) [OF assms]
    by simp
  then show "board_view_of (fw_reset_csr board_bus b) = board_view_of b"
    by (simp add: b9 board_view_of_def golden_view_def)
  have "reg (g_csr (hw b5)) REG_CTRL = 0"
    by (simp add: b5_def store_regs [OF r(1)] reg_csr_write_ctrl reg_apart)
  then show "reg (g_csr (hw (fw_reset_csr board_bus b))) REG_CTRL = 0"
    unfolding b9 unfolding b9_def store_keeps_ctrl(3) [OF r(5)]
    unfolding b8_def store_keeps_ctrl(2) [OF r(4)] unfolding b7_def store_keeps_ctrl(1) [OF r(3)]
    unfolding b6_def store_keeps_ctrl(4) [OF r(2)] .
  have "\<not> bit (reg (g_csr (hw b6)) REG_STATUS) 2"
    by (simp add: b6_def store_status [OF r(2)] reg_csr_write_clear reg_apart bit_simps)
  then show "\<not> bit (reg (g_csr (hw (fw_reset_csr board_bus b))) REG_STATUS) 2"
    unfolding b9 unfolding b9_def store_keeps_error(3) [OF r(5)]
    unfolding b8_def store_keeps_error(2) [OF r(4)] unfolding b7_def store_keeps_error(1) [OF r(3)] .
qed

text \<open>What a run leaves: the block copies of the pending descriptors, and HEAD at TAIL.\<close>

definition after_run :: "board_view \<Rightarrow> board_view" where
  "after_run v = (let m = fold dma_move (view_pending v) (v_sys v, v_ram v)
     in v\<lparr>v_sys := fst m, v_ram := snd m, v_head := v_tail v\<rparr>)"

definition runnable :: "board_view \<Rightarrow> bool" where
  "runnable v \<longleftrightarrow> view_ring_ok v \<and> length (view_pending v) < MAX_ITERS \<and>
     (\<forall>d \<in> set (view_pending v). dma_fits MID_DEPTH d (v_sys v, v_ram v) \<and>
       spares_ring (v_base v) (v_len v) d)"

lemma engine_runs:
  assumes "setup_ok g" and "runnable (golden_view g)" and "is_enabled (g_csr g)"
    and "\<not> bit (reg (g_csr g) REG_STATUS) 0" and "\<not> bit (reg (g_csr g) REG_STATUS) 2"
  shows "setup_ok (settle (run_engine g))" and "golden_view (settle (run_engine g)) = after_run (golden_view g)"
    and "done_status (reg (g_csr (settle (run_engine g))) REG_STATUS)"
    and "\<not> bit (reg (g_csr (settle (run_engine g))) REG_STATUS) 0"
proof -
  let ?p = "pending (gd_ring g)"
  have ring: "ring_ok (gd_ring g)" and mid: "queue_length (am_mid (g_axi g)) = MID_DEPTH"
    and ok: "golden_ok g"
    using assms(1,2) ring_ok_view [OF assms(1)] golden_ok_setup [of g] by (simp_all add: runnable_def)
  have fits: "\<forall>d \<in> set ?p. dma_fits MID_DEPTH d (smem g, bram g) \<and>
      spares_ring (base_of (gd_ring g)) (rlen_of (gd_ring g)) d" and len: "length ?p < MAX_ITERS"
    using assms(2) by (simp_all add: runnable_def pending_view) (simp_all add: golden_view_def)
  obtain h where h: "hardware_phase g = (Inr (map pack ?p), h)"
      "(smem h, bram h) = fold dma_move ?p (smem g, bram g)" "pending (gd_ring h) = []" "golden_ok h"
      "same_setup g h"
    using hardware_drains [OF ok assms(3) len, unfolded mid, OF pending_run [OF ok fits]] by blast
  have run: "run_engine g = h" by (simp add: run_engine_def h(1))
  have regs: "reg (g_csr h) k = reg (g_csr g) k" if "k \<noteq> REG_HEAD" for k
    using h(5) that by (simp add: same_setup_def)
  have hok: "setup_ok h" "ring_ok (gd_ring h)"
    using golden_ok_setup [of h] h(4,5) mid by (auto simp: same_setup_def)
  have emp: "ring_is_empty (gd_ring h)" using ring_is_empty_iff [OF hok(2)] h(3) by simp
  then have head: "head_of (gd_ring h) = tail_of (gd_ring g)"
    using regs [of REG_TAIL] ring_ok_regs [OF hok(2), of REG_HEAD] ring_ok_regs [OF hok(2), of REG_TAIL]
    by (simp add: ring_is_empty_def ring_head_def ring_tail_def csr_read_def reg_apart bits)
  show "setup_ok (settle (run_engine g))" using hok by (simp add: run settle_ok)
  show "golden_view (settle (run_engine g)) = after_run (golden_view g)"
    using h(2) by (simp add: run after_run_def pending_view [symmetric] Let_def)
      (simp add: golden_view_def head regs reg_apart flip: h(2))
  have st: "bit (reg (g_csr (settle (run_engine g))) REG_STATUS) n
      \<longleftrightarrow> n = 1 \<or> bit (reg (g_csr g) REG_STATUS) n" if "n < 3" for n
    using emp regs [of REG_STATUS] by (simp add: run settle_status reg_apart)
  show "\<not> bit (reg (g_csr (settle (run_engine g))) REG_STATUS) 0"
    using st [of 0] assms(4) by simp
  show "done_status (reg (g_csr (settle (run_engine g))) REG_STATUS)"
    unfolding done_status_def status_bits using st [of 0] st [of 1] st [of 2] assms(4,5) by simp
qed

lemma status_read: "xil_in32 board_bus (CSR_ACCESS_BASE + CSR_REG_STATUS) b = (reg (g_csr (hw b)) REG_STATUS, b)"
  using board_csr_access(6) [of b] by (simp add: fw_csr_in_def)

lemma wait_busy_board: "wait_busy board_bus n b = b"
  using wait_busy_steady [of "\<lambda>c. c = b" board_bus "reg (g_csr (hw b)) REG_STATUS" b n] status_read by blast

lemma poll_board:
  assumes "st = reg (g_csr (hw b)) REG_STATUS" and "done_status st \<or> st AND STATUS_ERROR \<noteq> 0"
  shows "poll_done board_bus 10000000 0 b = (st, True, b)"
proof -
  obtain n where n: "(10000000 :: nat) = Suc n" by (metis numeral_eq_Suc)
  have "poll_done board_bus (Suc n) 0 b = (st, True, b)"
    using assms by (auto simp: status_read done_status_def)
  then show ?thesis unfolding n .
qed

lemma start_and_wait:
  assumes "reg (g_csr (hw b)) REG_CTRL = 0" and "\<not> shim_done b"
  defines "g \<equiv> settle (run_engine (on_csr (csr_write REG_CTRL CTRL_ENABLE) (hw b)))"
  defines "st \<equiv> reg (g_csr g) REG_STATUS"
  assumes "done_status st \<or> st AND STATUS_ERROR \<noteq> 0"
  shows "fw_start_and_wait board_bus b = (st, True, b\<lparr>hw := g\<rparr>)"
proof -
  let ?b1 = "b\<lparr>shim_done := True\<rparr>"
  have en: "is_enabled (csr_write REG_CTRL CTRL_ENABLE c)" for c
    by (simp add: ctrl_bits reg_csr_write_ctrl CTRL_ENABLE_def)
  have own: "REG_WRITE board_bus REG_INIT_DONE 1 b = ?b1"
    "REG_WRITE board_bus REG_INIT_DONE 0 c = c\<lparr>shim_done := False\<rparr>" for c
    by (simp_all add: board_bus_shim shim_offsets shim_write_def)
  have go: "csr_store REG_CTRL CTRL_ENABLE ?b1 = b\<lparr>shim_done := True, hw := g\<rparr>"
    by (simp add: csr_store_def g_def en Let_def)
  have "poll_done board_bus 10000000 0 (b\<lparr>shim_done := True, hw := g\<rparr>)
      = (st, True, b\<lparr>shim_done := True, hw := g\<rparr>)"
    by (rule poll_board) (use assms(5) in \<open>simp_all add: st_def\<close>)
  then show ?thesis
    using assms(1,2)
    by (simp add: fw_start_and_wait_def own board_csr_access Let_def go wait_busy_board)
qed

text \<open>CMD_RUN_DMA on a board whose ring holds transfers that fit.\<close>

lemma board_run_dma:
  assumes "board_ready b" and "runnable (board_view_of b)" and "v_tail (board_view_of b) \<noteq> 0"
  shows "\<exists>said b'. fw_run_dma board_bus say b = (said @ send_ack CMD_ACK, b') \<and> spoken say said \<and>
    board_ready b' \<and> board_view_of b' = after_run (board_view_of b)"
proof -
  define b9 where "b9 = fw_reset_csr board_bus b"
  note r = board_reset [OF assms(1), folded b9_def]
  let ?g = "on_csr (csr_write REG_CTRL CTRL_ENABLE) (hw b9)"
  have keep: "reg (csr_write REG_CTRL CTRL_ENABLE c) k = (if k = REG_CTRL then 1 else reg c k)" for c k
    by (simp add: reg_csr_write_ctrl CTRL_ENABLE_def)
  have g: "setup_ok ?g"
    using r(1) by (intro setup_ok_on_csr csr_ok_write) (simp_all add: board_ready_def setup_ok_def)
  have view: "golden_view ?g = board_view_of b"
    using r(2) by (simp add: board_view_of_def) (simp add: golden_view_def keep reg_apart)
  have run: "setup_ok (settle (run_engine ?g))" "golden_view (settle (run_engine ?g)) = after_run (board_view_of b)"
    "done_status (reg (g_csr (settle (run_engine ?g))) REG_STATUS)"
    "\<not> bit (reg (g_csr (settle (run_engine ?g))) REG_STATUS) 0"
    using engine_runs [OF g, unfolded view] assms(2) r(1,4)
    by (simp_all add: ctrl_bits keep reg_apart board_ready_def BUSY_BIT_def)
  let ?b' = "b9\<lparr>hw := settle (run_engine ?g)\<rparr>" and ?st = "reg (g_csr (settle (run_engine ?g))) REG_STATUS"
  have wait: "fw_start_and_wait board_bus b9 = (?st, True, ?b')"
    by (rule start_and_wait) (use r run(3) in \<open>simp_all add: board_ready_def\<close>)
  have tail: "tail_of (gd_ring (hw b9)) \<noteq> 0"
    using assms(3) r(2) by (simp add: board_view_of_def golden_view_def)
  have "board_ready ?b'" "board_view_of ?b' = after_run (board_view_of b)"
    using run r(1) by (simp_all add: board_ready_def board_view_of_def BUSY_BIT_def)
  moreover have "fw_run_dma board_bus say b =
      ((say (''Triggering DMA... HEAD=%d TAIL=%d'' @ crlf) [head_of (gd_ring (hw b9)), tail_of (gd_ring (hw b9))]
        @ say (''DMA done: status=0x%08x'' @ crlf) [?st]) @ send_ack CMD_ACK, ?b')"
    using run(3) tail wait by (simp add: fw_run_dma_def b9_def [symmetric] board_csr_access Let_def done_status_def)
  ultimately show ?thesis by blast
qed

lemma board_run_empty:
  assumes "board_ready b" and "v_tail (board_view_of b) = 0"
  shows "\<exists>said b'. fw_run_dma board_bus say b = (said @ send_ack CMD_NACK, b') \<and> spoken say said \<and>
    board_ready b' \<and> board_view_of b' = board_view_of b"
proof -
  note r = board_reset [OF assms(1)]
  have "tail_of (gd_ring (hw (fw_reset_csr board_bus b))) = 0"
    using assms(2) r(2) by (simp add: board_view_of_def golden_view_def)
  then have "fw_run_dma board_bus say b =
      ((say (''Triggering DMA... HEAD=%d TAIL=%d'' @ crlf) [head_of (gd_ring (hw (fw_reset_csr board_bus b))), 0]
        @ say (''DMA ring empty (TAIL=0), nothing to do.'' @ crlf) []) @ send_ack CMD_NACK,
       fw_reset_csr board_bus b)"
    by (simp add: fw_run_dma_def board_csr_access Let_def)
  with r show ?thesis by blast
qed

section \<open>The host's commands\<close>

definition board_stands :: "dma_board uart_fw serial \<Rightarrow> board_view \<Rightarrow> bool" where
  "board_stands = stands board_ready board_view_of"

lemma run_answer:
  assumes "board_ready b" and "runnable (board_view_of b)" and "v_tail (board_view_of b) \<noteq> 0"
  shows "\<exists>b'. answers board_bus say CMD_RUN_DMA 0 [] b CMD_ACK [] b' \<and> board_ready b' \<and>
    board_view_of b' = after_run (board_view_of b)"
proof -
  obtain said b' where b': "fw_run_dma board_bus say b = (said @ send_ack CMD_ACK, b')" "spoken say said"
      "board_ready b'" "board_view_of b' = after_run (board_view_of b)"
    using board_run_dma [OF assms] by blast
  have "fw_command board_bus say (request CMD_RUN_DMA 0 [] b) = (said @ send_ack CMD_ACK @ [], b')"
    using b'(1) by (simp add: fw_command_def request_def firmware_opcodes)
  from answersI [OF this b'(2)] b'(3,4) show ?thesis by (auto simp: CMD_RUN_DMA_def)
qed

lemma refuse_answer:
  assumes "board_ready b" and "v_tail (board_view_of b) = 0"
  shows "\<exists>b'. answers board_bus say CMD_RUN_DMA 0 [] b CMD_NACK [] b' \<and> board_ready b' \<and>
    board_view_of b' = board_view_of b"
proof -
  obtain said b' where b': "fw_run_dma board_bus say b = (said @ send_ack CMD_NACK, b')" "spoken say said"
      "board_ready b'" "board_view_of b' = board_view_of b"
    using board_run_empty [OF assms] by blast
  have "fw_command board_bus say (request CMD_RUN_DMA 0 [] b) = (said @ send_ack CMD_NACK @ [], b')"
    using b'(1) by (simp add: fw_command_def request_def firmware_opcodes)
  from answersI [OF this b'(2)] b'(3,4) show ?thesis by (auto simp: CMD_RUN_DMA_def)
qed

lemma host_runs_dma:
  assumes "ascii_printf say" and "board_stands s v" and "runnable v" and "v_tail v \<noteq> 0"
  shows "\<exists>s'. run_dma_command (uart_firmware board_bus say) s = (Inr True, s') \<and> board_stands s' (after_run v)"
proof -
  obtain b where b: "on_board s b" "board_ready b" "board_view_of b = v"
    using assms(2) unfolding board_stands_def by (rule standsE)
  obtain b' where "answers board_bus say CMD_RUN_DMA 0 [] b CMD_ACK [] b'" "board_ready b'"
      "board_view_of b' = after_run v"
    using run_answer [OF b(2)] assms(3,4) b(3) by blast
  with exchange_ack [OF b(1) _ assms(1)] show ?thesis
    unfolding run_dma_command_def board_stands_def by (fastforce intro: standsI)
qed

lemma host_run_refused:
  assumes "ascii_printf say" and "board_stands s v" and "v_tail v = 0"
  shows "\<exists>s'. run_dma_command (uart_firmware board_bus say) s = (Inr False, s') \<and> board_stands s' v"
proof -
  obtain b where b: "on_board s b" "board_ready b" "board_view_of b = v"
    using assms(2) unfolding board_stands_def by (rule standsE)
  obtain b' where "answers board_bus say CMD_RUN_DMA 0 [] b CMD_NACK [] b'" "board_ready b'"
      "board_view_of b' = v"
    using refuse_answer [OF b(2)] assms(3) b(3) by blast
  with exchange_ack [OF b(1) _ assms(1)] show ?thesis
    unfolding run_dma_command_def board_stands_def
    by (fastforce intro: standsI simp: CMD_ACK_def CMD_NACK_def)
qed

text \<open>Register accesses.\<close>

lemma csr_read_answer:
  assumes "board_ready b" and "0 \<le> off" and "off < 256"
  shows "answers board_bus say CMD_READ_CSR (CSR_BASE + off) [] b CMD_ACK (le32 (reg (g_csr (hw b)) off)) b"
    and "0 \<le> reg (g_csr (hw b)) off \<and> reg (g_csr (hw b)) off < 2 ^ 32"
proof -
  let ?x = "reg (g_csr (hw b)) off" and ?a = "CSR_BASE + off"
  have base: "?a = CSR_ACCESS_BASE + off" by (simp add: CSR_BASE_def CSR_ACCESS_BASE_def)
  let ?said = "say (''Read CSR[0x%08x] = 0x%08x'' @ crlf) [?a, ?x]"
  have "fw_command board_bus say (request CMD_READ_CSR ?a [] b) = (?said @ send_ack CMD_ACK @ le32 ?x, b)"
    using board_bus_csr(1) [OF assms(2,3)] unfolding base
    by (simp add: fw_command_def request_def firmware_opcodes fw_read_csr_def)
  from answersI [OF this] assms(2,3)
  show "answers board_bus say CMD_READ_CSR (CSR_BASE + off) [] b CMD_ACK (le32 ?x) b"
    by (auto simp: CMD_READ_CSR_def CSR_BASE_def)
  show "0 \<le> ?x \<and> ?x < 2 ^ 32"
    using assms(1) csr_ok_reg [of "g_csr (hw b)" off] by (simp add: board_ready_def setup_ok_def)
qed

lemma csr_store_answer:
  assumes "0 \<le> off" and "off < 256" and "0 \<le> x" and "x < 2 ^ 32"
  shows "answers board_bus say CMD_WRITE_CSR (CSR_BASE + off) (le32 x) b CMD_ACK [] (csr_store off x b)"
proof -
  let ?a = "CSR_BASE + off"
  have base: "?a = CSR_ACCESS_BASE + off" by (simp add: CSR_BASE_def CSR_ACCESS_BASE_def)
  let ?said = "say (''Wrote 0x%08x to CSR[0x%08x]'' @ crlf) [x, ?a]"
  have cmd: "fw_command board_bus say (request CMD_WRITE_CSR ?a (le32 x) b)
      = (?said @ send_ack CMD_ACK @ [], csr_store off x b)"
    using board_bus_csr(2) [OF assms(1,2)] unfolding base
    by (simp add: fw_command_def request_def firmware_opcodes fw_write_def
        payload_value_le32 [OF assms(3,4)])
  show ?thesis
    using answersI [OF cmd] assms(1,2) by (auto simp: CMD_WRITE_CSR_def CSR_BASE_def)
qed

lemma csr_write_answer:
  assumes "board_ready b" and "0 \<le> x" and "x < 2 ^ 32"
    and "off = REG_BASEADDR \<and> v' = (board_view_of b)\<lparr>v_base := x\<rparr> \<or>
      off = REG_RINGLEN \<and> v' = (board_view_of b)\<lparr>v_len := x\<rparr> \<or>
      off = REG_TAIL \<and> v' = (board_view_of b)\<lparr>v_tail := x\<rparr>"
  shows "\<exists>b'. answers board_bus say CMD_WRITE_CSR (CSR_BASE + off) (le32 x) b CMD_ACK [] b' \<and> board_ready b' \<and>
    board_view_of b' = v'"
proof -
  have off: "0 \<le> off" "off < 256" using assms(4) by (auto simp: reg_offsets)
  have "board_view_of (csr_store off x b) = v'"
    using assms(4) store_view [OF assms(1-3)] by auto
  with csr_store_answer [OF off assms(2,3)] store_quiet(2) [OF assms(1)] show ?thesis by blast
qed

lemma host_reads_csr:
  assumes "ascii_printf say" and "board_stands s v" and "0 \<le> off" and "off < 256"
  shows "\<exists>x s'. csr_read_uart (uart_firmware board_bus say) off s = (Inr (Some x), s') \<and> board_stands s' v"
proof -
  obtain b where b: "on_board s b" "board_ready b" "board_view_of b = v"
    using assms(2) unfolding board_stands_def by (rule standsE)
  note answer = csr_read_answer [OF b(2) assms(3,4)]
  from exchange_value [OF b(1) answer(1) assms(1)] answer(2) b(2,3) show ?thesis
    unfolding csr_read_uart_def read_memory_def board_stands_def by (fastforce intro: standsI)
qed

lemma host_dumps_csr:
  assumes "ascii_printf say" and "board_stands s v"
  shows "\<exists>s'. dump_csr_status (uart_firmware board_bus say) s = (Inr (), s') \<and> board_stands s' v"
proof -
  let ?fw = "uart_firmware board_bus say"
  obtain x1 s1 where s1: "csr_read_uart ?fw CSR_OFF_STATUS s = (Inr (Some x1), s1)" "board_stands s1 v"
    using host_reads_csr [OF assms, of CSR_OFF_STATUS] by (auto simp: CSR_OFF_STATUS_def)
  obtain x2 s2 where s2: "csr_read_uart ?fw CSR_OFF_IRQ_STATUS s1 = (Inr (Some x2), s2)" "board_stands s2 v"
    using host_reads_csr [OF assms(1) s1(2), of CSR_OFF_IRQ_STATUS] by (auto simp: CSR_OFF_IRQ_STATUS_def)
  obtain x3 s3 where s3: "csr_read_uart ?fw CSR_OFF_HEAD s2 = (Inr (Some x3), s3)" "board_stands s3 v"
    using host_reads_csr [OF assms(1) s2(2), of CSR_OFF_HEAD] by (auto simp: CSR_OFF_HEAD_def)
  obtain x4 s4 where s4: "csr_read_uart ?fw CSR_OFF_TAIL s3 = (Inr (Some x4), s4)" "board_stands s4 v"
    using host_reads_csr [OF assms(1) s3(2), of CSR_OFF_TAIL] by (auto simp: CSR_OFF_TAIL_def)
  show ?thesis
    using s1 s2 s3 s4 by (simp add: dump_csr_status_def act_bind_def act_return_def)
qed

lemma host_writes_csr:
  assumes "ascii_printf say" and "board_stands s v" and "0 \<le> x" and "x < 2 ^ 32"
    and "off = REG_BASEADDR \<and> v' = v\<lparr>v_base := x\<rparr> \<or> off = REG_RINGLEN \<and> v' = v\<lparr>v_len := x\<rparr> \<or>
      off = REG_TAIL \<and> v' = v\<lparr>v_tail := x\<rparr>"
  shows "\<exists>s'. act_bind (send_packet (uart_firmware board_bus say) CMD_WRITE_CSR (CSR_BASE + off) (le32 x))
      (\<lambda>_. wait_for_ack) s = (Inr True, s') \<and> board_stands s' v'"
proof -
  obtain b where b: "on_board s b" "board_ready b" "board_view_of b = v"
    using assms(2) unfolding board_stands_def by (rule standsE)
  obtain b' where "answers board_bus say CMD_WRITE_CSR (CSR_BASE + off) (le32 x) b CMD_ACK [] b'" "board_ready b'"
      "board_view_of b' = v'"
    using csr_write_answer [OF b(2) assms(3,4)] assms(5) b(3) by blast
  with exchange_ack [OF b(1) _ assms(1)] show ?thesis
    unfolding board_stands_def by (fastforce intro: standsI)
qed

end
