(* ===== verification/Bring_Up.thy ===== *)
theory Bring_Up
  imports Board Replay
begin

text \<open>
  The whole chain on one board: \<open>run_golden.py\<close> writes a stimulus file, \<open>host_runner.py\<close> sends it to the
  firmware, the firmware loads the board, runs the engine, and the host verifies the transfers.
\<close>

section \<open>Lines a board can take\<close>

definition stim_ok :: "nat \<Rightarrow> nat \<Rightarrow> string \<Rightarrow> bool" where
  "stim_ok ns nr line \<longleftrightarrow>
     (\<exists>i d. i < ns \<and> 0 \<le> d \<and> d < 2 ^ 32 \<and> line = sysmem_line (4 * int i) d) \<or>
     (\<exists>i d. i < nr \<and> 0 \<le> d \<and> d < 2 ^ 32 \<and> line = sram_line (4 * int i) d) \<or>
     (\<exists>off d. off \<in> {REG_BASEADDR, REG_RINGLEN, REG_TAIL} \<and> 0 \<le> d \<and> d < 2 ^ 32 \<and> line = csr_line off d)"

text \<open>
  The value of a \<open>csr_ringlen\<close> row is emitted as it is written; the model masks it, the host does
  not, so the row has to hold a 32-bit number.
\<close>

definition ringlen_fine :: "string list \<Rightarrow> bool" where
  "ringlen_fine row = (case parse_row row of
     None \<Rightarrow> True
   | Some (op, args) \<Rightarrow> op = ''csr_ringlen'' \<longrightarrow>
       (case int_arg 0 args 0 of Inr v \<Rightarrow> 0 \<le> v \<and> v < 2 ^ 32 | Inl _ \<Rightarrow> True))"

definition sendable :: "golden \<Rightarrow> bool" where
  "sendable g \<longleftrightarrow> (\<forall>line \<in> set (gd_stim g). stim_ok (length (smem g)) (length (bram g)) line) \<and>
     dict_get (csr_writes (replayed g)) REG_RINGLEN = reg (g_csr g) REG_RINGLEN"

lemma stim_ok_lines:
  "i < ns \<Longrightarrow> 0 \<le> d \<Longrightarrow> d < 2 ^ 32 \<Longrightarrow> stim_ok ns nr (sysmem_line (4 * int i) d)"
  "i < nr \<Longrightarrow> 0 \<le> d \<Longrightarrow> d < 2 ^ 32 \<Longrightarrow> stim_ok ns nr (sram_line (4 * int i) d)"
  "off \<in> {REG_BASEADDR, REG_RINGLEN, REG_TAIL} \<Longrightarrow> 0 \<le> d \<Longrightarrow> d < 2 ^ 32 \<Longrightarrow> stim_ok ns nr (csr_line off d)"
  unfolding stim_ok_def by blast+

lemma sendable_desc:
  assumes "op_desc args g = (Inr (), g')" and "ring_ok (gd_ring g)" and "sendable g"
  shows "sendable g'"
proof -
  let ?w = "slot_word (base_of (gd_ring g)) (tail_of (gd_ring g))"
  let ?t = "(tail_of (gd_ring g) + 1) mod rlen_of (gd_ring g)"
  obtain x a b c d where u: "u32s [a, b, c, d]" and fit: "?w + 4 \<le> length (smem g)"
    and t: "0 \<le> ?t" "?t < 2 ^ 32"
    and g': "g' = g\<lparr>gd_ring := enqueued x (gd_ring g), gd_stim := gd_stim g @
      [sysmem_line (4 * int ?w) a, sysmem_line (4 * int ?w + 4) b, sysmem_line (4 * int ?w + 8) c,
       sysmem_line (4 * int ?w + 12) d, csr_line REG_TAIL ?t]\<rparr>"
    using op_desc_effect [OF assms(1,2)] by blast
  have "stim_ok (length (smem g)) (length (bram g)) (csr_line REG_TAIL ?t)"
    by (rule stim_ok_lines) (use t in simp_all)
  moreover have "stim_ok (length (smem g)) (length (bram g)) (sysmem_line (4 * int ?w) a)"
    "stim_ok (length (smem g)) (length (bram g)) (sysmem_line (4 * int ?w + 4) b)"
    "stim_ok (length (smem g)) (length (bram g)) (sysmem_line (4 * int ?w + 8) c)"
    "stim_ok (length (smem g)) (length (bram g)) (sysmem_line (4 * int ?w + 12) d)"
    using u fit stim_ok_lines(1) [of ?w "length (smem g)" a "length (bram g)"]
      stim_ok_lines(1) [of "?w + 1" "length (smem g)" b "length (bram g)"]
      stim_ok_lines(1) [of "?w + 2" "length (smem g)" c "length (bram g)"]
      stim_ok_lines(1) [of "?w + 3" "length (smem g)" d "length (bram g)"]
    by (simp_all add: algebra_simps)
  moreover have "length (smem g') = length (smem g)" "bram g' = bram g"
    using fit by (simp_all add: g')
  moreover have "reg (g_csr g') REG_RINGLEN = reg (g_csr g) REG_RINGLEN"
    using enqueued_regs [OF assms(2), of x] by (simp add: g' reg_apart)
  ultimately show ?thesis
    using assms(3) by (auto simp: sendable_def g' emitted_images reg_apart)
qed

lemma run_row_sendable:
  assumes "run_row sw bw row g = (Inr (), g')" and "row_fine row g" and "ringlen_fine row" and "sendable g"
  shows "sendable g'"
proof (cases "parse_row row")
  case None
  with assms show ?thesis by (simp add: run_row_def act_simps)
next
  case (Some p)
  obtain op args where p: "parse_row row = Some (op, args)" using Some by (cases p) simp
  consider (smem) "op = ''smem''" | (sram) "op = ''sram''" | (base) "op = ''csr_baseaddr''"
    | (len) "op = ''csr_ringlen''" | (desc) "op = ''desc''" | (enable) "op = ''enable''"
    | (other) "op \<noteq> ''smem'' \<and> op \<noteq> ''sram'' \<and> op \<noteq> ''csr_baseaddr'' \<and>
        op \<noteq> ''csr_ringlen'' \<and> op \<noteq> ''desc'' \<and> op \<noteq> ''enable''"
    by argo
  then show ?thesis
  proof cases
    case smem
    with assms p have run: "op_smem sw args g = (Inr (), g')" by (simp add: run_row_def)
    then obtain wi where wi: "int_arg 10 args 0 = Inr wi"
      by (cases "int_arg 10 args 0") (auto simp: op_smem_def act_simps)
    from smem wi p assms(2) have "0 \<le> wi" by (simp add: row_fine_def)
    from op_smem_effect [OF run wi this] assms(4) show ?thesis
      by (auto simp: sendable_def emitted_images stim_ok_lines)
  next
    case sram
    with assms p have run: "op_sram bw args g = (Inr (), g')" by (simp add: run_row_def)
    then obtain wi where wi: "int_arg 10 args 0 = Inr wi"
      by (cases "int_arg 10 args 0") (auto simp: op_sram_def act_simps)
    from sram wi p assms(2) have "0 \<le> wi" by (simp add: row_fine_def)
    from op_sram_effect [OF run wi this] assms(4) show ?thesis
      by (auto simp: sendable_def emitted_images stim_ok_lines)
  next
    case base
    with assms p have "op_baseaddr args g = (Inr (), g')" by (simp add: run_row_def)
    from op_baseaddr_effect [OF this] assms(4) show ?thesis
      by (auto simp: sendable_def emitted_images stim_ok_lines reg_csr_write_plain reg_apart)
  next
    case len
    with assms p have run: "op_ringlen args g = (Inr (), g')" by (simp add: run_row_def)
    obtain v where v: "int_arg 0 args 0 = Inr v"
        "g' = g\<lparr>gd_ring := (gd_ring g)\<lparr>rm_csr := csr_write REG_RINGLEN v (g_csr g)\<rparr>,
          gd_stim := gd_stim g @ [csr_line REG_RINGLEN v]\<rparr>"
      using op_ringlen_effect [OF run] by blast
    with len p assms(3) have "0 \<le> v" "v < 2 ^ 32" by (simp_all add: ringlen_fine_def)
    with v(2) assms(4) show ?thesis
      by (auto simp: sendable_def emitted_images stim_ok_lines reg_csr_write_plain reg_apart)
  next
    case desc
    with assms p have run: "op_desc args g = (Inr (), g')" by (simp add: run_row_def)
    from desc p assms(2) have "ring_ok (gd_ring g)" by (simp add: row_fine_def)
    from sendable_desc [OF run this assms(4)] show ?thesis .
  next
    case enable
    with assms p have "op_enable g = (Inr (), g')" by (simp add: run_row_def)
    from op_enable_effect [OF this] assms(4) show ?thesis
      by (auto simp: sendable_def reg_csr_write_ctrl reg_apart)
  next
    case other
    with assms p show ?thesis by (simp add: run_row_def act_simps)
  qed
qed

lemma rows_sendable:
  "for_each (run_row sw bw) rows g = (Inr (), g') \<Longrightarrow> rows_fine sw bw rows g \<Longrightarrow>
   \<forall>row \<in> set rows. ringlen_fine row \<Longrightarrow> sendable g \<Longrightarrow> sendable g'"
proof (induction rows arbitrary: g)
  case Nil
  then show ?case by (simp add: act_simps)
next
  case (Cons row rows)
  then obtain h where h: "run_row sw bw row g = (Inr (), h)"
    and rest: "for_each (run_row sw bw) rows h = (Inr (), g')" by (auto simp: act_bind_eq_Inr)
  from Cons.prems(2,3) h have fine: "row_fine row g" "rows_fine sw bw rows h" "ringlen_fine row"
    "\<forall>row \<in> set rows. ringlen_fine row" by simp_all
  from Cons.IH [OF rest fine(2,4) run_row_sendable [OF h fine(1,3) Cons.prems(4)]] show ?case .
qed

lemma sendable_init:
  assumes "golden_init sw bw = Inr g"
  shows "sendable g"
  using assms
  by (auto simp: golden_init_def system_memory_init_def sram_init_def fifo_init_def FIFO_DEPTH_def
      DM_DEPTH_def MID_DEPTH_def sendable_def no_images_def dict_get_def reg_csr_init split: if_splits)

section \<open>Loading the board\<close>

text \<open>The directive of an emitted line.\<close>

lemma directive_fields:
  assumes "w \<noteq> []" and "\<forall>c \<in> set w. \<not> is_space c" and "hd w \<noteq> CHR ''#''"
  shows "stim_directive fw base (w @ '' '' @ fmt_hex k a @ '' '' @ fmt_hex m d) =
    (if w = ''csr_write'' then stim_csr_write fw base [w, fmt_hex k a, fmt_hex m d]
     else if w \<in> {''sysmem_write'', ''sram_write''} then stim_mem_write fw [w, fmt_hex k a, fmt_hex m d]
     else if w \<in> {''sysmem_read'', ''sram_read''} then stim_mem_read fw [w, fmt_hex k a, fmt_hex m d]
     else act_return ())"
proof -
  have "\<not> is_space (hd w)" using assms(1,2) by simp
  moreover have "take 1 (w @ s) \<noteq> ''#''" for s using assms(1,3) by (cases w) auto
  ultimately show ?thesis
    using assms(1) three_fields [OF assms(1,2), of k a m d] line_trimmed [OF assms(1), of k a m d]
    by (simp add: stim_directive_def Let_def)
qed

lemma emitted_directives:
  "stim_directive fw base (sysmem_line a d) =
     act_bind (note_images (\<lambda>im. im\<lparr>sysmem_image := (sysmem_image im)(a \<mapsto> d)\<rparr>))
       (\<lambda>_. send_acked fw CMD_WRITE_SYSMEM a d)"
  "stim_directive fw base (sram_line a d) =
     act_bind (note_images (\<lambda>im. im\<lparr>sram_image := (sram_image im)(a \<mapsto> d)\<rparr>))
       (\<lambda>_. send_acked fw CMD_WRITE_SRAM a d)"
  "stim_directive fw base (csr_line a d) =
     act_bind (note_images (\<lambda>im. im\<lparr>csr_writes := (csr_writes im)(a \<mapsto> d)\<rparr>))
       (\<lambda>_. send_acked fw CMD_WRITE_CSR (base + a) d)"
  using directive_fields [of "''sysmem_write''" fw base 8 a 8 d]
    directive_fields [of "''sram_write''" fw base 8 a 8 d]
    directive_fields [of "''csr_write''" fw base 2 a 8 d]
  by (auto simp: sysmem_line_def sram_line_def csr_line_def is_space_def stim_mem_write_def
      stim_csr_write_def hex_field_def hex.parse_print act_simps fun_eq_iff)

lemma comment_directive: "stim_directive fw base (CHR ''#'' # s) = act_return ()"
proof -
  obtain u where "py_strip (CHR ''#'' # s) = CHR ''#'' # u"
    using strip_first [of "CHR ''#''" s] by (auto simp: is_space_def)
  then show ?thesis by (simp add: stim_directive_def)
qed

text \<open>One line sent to the board.\<close>

definition matches :: "board_view \<Rightarrow> images \<Rightarrow> bool" where
  "matches v im \<longleftrightarrow>
     (\<forall>i < length (v_sys v). v_sys v ! i = dict_get (sysmem_image im) (4 * int i)) \<and>
     (\<forall>i < length (v_ram v). v_ram v ! i = dict_get (sram_image im) (4 * int i)) \<and>
     v_base v = dict_get (csr_writes im) REG_BASEADDR \<and>
     v_len v = dict_get (csr_writes im) REG_RINGLEN \<and>
     v_tail v = dict_get (csr_writes im) REG_TAIL"

text \<open>The loader's state, the board's view and the images agree; the sizes and HEAD are fixed.\<close>

definition loading :: "nat \<Rightarrow> nat \<Rightarrow> dma_board uart_fw loader \<Rightarrow> bool" where
  "loading ns nr l \<longleftrightarrow> (\<exists>v. board_stands (ld_serial l) v \<and> matches v (ld_images l) \<and>
     length (v_sys v) = ns \<and> length (v_ram v) = nr \<and> v_head v = 0)"

lemma send_acked_on_board:
  assumes "0 \<le> d" and "d < 2 ^ 32"
    and "act_bind (send_packet fw opcode a (le32 d)) (\<lambda>_. wait_for_ack) (ld_serial l) = (Inr True, s')"
  shows "act_bind (note_images f) (\<lambda>_. send_acked fw opcode a d) l
    = (Inr (), l\<lparr>ld_serial := s', ld_images := f (ld_images l)\<rparr>)"
proof -
  obtain t where t: "send_packet fw opcode a (le32 d) (ld_serial l) = (Inr (), t)"
    "wait_for_ack t = (Inr True, s')"
    using assms(3) by (auto simp: act_bind_eq_Inr)
  then show ?thesis
    using assms(1,2)
    by (simp add: note_images_def act_simps send_acked_def pack_u32_def on_serial_def zoom_def act_bind_def)
qed

lemma line_loaded:
  assumes "0 \<le> d" and "d < 2 ^ 32"
    and "act_bind (send_packet fw opcode a (le32 d)) (\<lambda>_. wait_for_ack) (ld_serial l) = (Inr True, s')"
    and "board_stands s' v" and "matches v (f (ld_images l))" and "length (v_sys v) = ns"
    and "length (v_ram v) = nr" and "v_head v = 0"
  shows "\<exists>l'. act_bind (note_images f) (\<lambda>_. send_acked fw opcode a d) l = (Inr (), l') \<and> loading ns nr l'"
  unfolding send_acked_on_board [OF assms(1-3)] using assms(4-) by (auto simp: loading_def)

lemma matches_sys:
  "matches v im \<Longrightarrow> matches (v\<lparr>v_sys := (v_sys v)[i := d]\<rparr>) (im\<lparr>sysmem_image := (sysmem_image im)(4 * int i \<mapsto> d)\<rparr>)"
  by (auto simp: matches_def nth_list_update)

lemma matches_ram:
  "matches v im \<Longrightarrow> matches (v\<lparr>v_ram := (v_ram v)[i := d]\<rparr>) (im\<lparr>sram_image := (sram_image im)(4 * int i \<mapsto> d)\<rparr>)"
  by (auto simp: matches_def nth_list_update)

lemma line_on_board:
  assumes "ascii_printf say" and "loading ns nr l" and "stim_ok ns nr line" and "ns \<le> 2 ^ 30" and "nr \<le> 2 ^ 30"
  shows "\<exists>l'. stim_directive (uart_firmware board_bus say) CSR_BASE line l = (Inr (), l') \<and> loading ns nr l'"
proof -
  let ?fw = "uart_firmware board_bus say"
  obtain v where v: "board_stands (ld_serial l) v" "matches v (ld_images l)"
    and size: "length (v_sys v) = ns" "length (v_ram v) = nr" "v_head v = 0"
    using assms(2) by (auto simp: loading_def)
  note st = v(1) [unfolded board_stands_def]
  have at: "cell (4 * int i) = i" for i by (simp add: cell_def)
  consider (sys) i d where "i < ns" "0 \<le> d" "d < 2 ^ 32" "line = sysmem_line (4 * int i) d"
    | (ram) i d where "i < nr" "0 \<le> d" "d < 2 ^ 32" "line = sram_line (4 * int i) d"
    | (csr) off d where "off \<in> {REG_BASEADDR, REG_RINGLEN, REG_TAIL}" "0 \<le> d" "d < 2 ^ 32" "line = csr_line off d"
    using assms(3) unfolding stim_ok_def by blast
  then show ?thesis
  proof cases
    case sys
    have "holds (4 * int i) (v_sys v)" using sys(1) assms(4) size by (simp add: holds_def at)
    from board_mem.sys.host_writes_cell [OF assms(1) st this sys(2,3)]
    obtain s' where "act_bind (send_packet ?fw CMD_WRITE_SYSMEM (4 * int i) (le32 d)) (\<lambda>_. wait_for_ack)
        (ld_serial l) = (Inr True, s')" "board_stands s' (v\<lparr>v_sys := (v_sys v)[i := d]\<rparr>)"
      by (auto simp: board_stands_def at)
    then show ?thesis
      unfolding sys(4) emitted_directives
      by (rule line_loaded [OF sys(2,3)]) (use matches_sys [OF v(2)] size in simp_all)
  next
    case ram
    have "holds (4 * int i) (v_ram v)" using ram(1) assms(5) size by (simp add: holds_def at)
    from board_mem.ram.host_writes_cell [OF assms(1) st this ram(2,3)]
    obtain s' where "act_bind (send_packet ?fw CMD_WRITE_SRAM (4 * int i) (le32 d)) (\<lambda>_. wait_for_ack)
        (ld_serial l) = (Inr True, s')" "board_stands s' (v\<lparr>v_ram := (v_ram v)[i := d]\<rparr>)"
      by (auto simp: board_stands_def at)
    then show ?thesis
      unfolding ram(4) emitted_directives
      by (rule line_loaded [OF ram(2,3)]) (use matches_ram [OF v(2)] size in simp_all)
  next
    case csr
    define v' where "v' = (if off = REG_BASEADDR then v\<lparr>v_base := d\<rparr>
      else if off = REG_RINGLEN then v\<lparr>v_len := d\<rparr> else v\<lparr>v_tail := d\<rparr>)"
    obtain s' where "act_bind (send_packet ?fw CMD_WRITE_CSR (CSR_BASE + off) (le32 d)) (\<lambda>_. wait_for_ack)
        (ld_serial l) = (Inr True, s')" "board_stands s' v'"
      using host_writes_csr [OF assms(1) v(1) csr(2,3), of off v'] csr(1)
      by (auto simp: v'_def reg_apart)
    moreover have "matches v' ((ld_images l)\<lparr>csr_writes := (csr_writes (ld_images l))(off \<mapsto> d)\<rparr>)"
      using v(2) csr(1) by (auto simp: v'_def matches_def reg_apart)
    moreover have "length (v_sys v') = ns" "length (v_ram v') = nr" "v_head v' = 0"
      using size by (simp_all add: v'_def)
    ultimately show ?thesis
      unfolding csr(4) emitted_directives by (rule line_loaded [OF csr(2,3)])
  qed
qed

lemma lines_on_board:
  assumes "ascii_printf say" and "\<forall>line \<in> set lines. stim_ok ns nr line" and "ns \<le> 2 ^ 30" and "nr \<le> 2 ^ 30"
    and "loading ns nr l"
  shows "\<exists>l'. for_each (stim_directive (uart_firmware board_bus say) CSR_BASE) lines l = (Inr (), l') \<and> loading ns nr l'"
  using assms(2,5)
proof (induction lines arbitrary: l)
  case Nil
  then show ?case by (simp add: act_simps)
next
  case (Cons line lines)
  obtain l1 where "stim_directive (uart_firmware board_bus say) CSR_BASE line l = (Inr (), l1)" "loading ns nr l1"
    using line_on_board [OF assms(1) Cons.prems(2) _ assms(3,4), of line] Cons.prems(1) by auto
  with Cons.IH [of l1] Cons.prems(1) show ?case by (simp add: act_bind_def)
qed

lemma setup_view:
  assumes "golden_init sw bw = Inr g0"
  shows "setup_ok g0" and "golden_view g0 = \<lparr>v_sys = replicate (nat sw) 0, v_ram = replicate (nat bw) 0,
    v_base = 0, v_len = 0, v_head = 0, v_tail = 0\<rparr>"
proof -
  show "setup_ok g0" by (rule golden_init_ok [OF assms])
  show "golden_view g0 = \<lparr>v_sys = replicate (nat sw) 0, v_ram = replicate (nat bw) 0,
    v_base = 0, v_len = 0, v_head = 0, v_tail = 0\<rparr>"
    using assms by (auto simp: golden_init_def system_memory_init_def sram_init_def golden_view_def
        reg_csr_init res_bind_def split: sum.splits if_splits)
qed

text \<open>The host port of a board that was just switched on; the banner may still be unread.\<close>

definition fresh_link :: "printf \<Rightarrow> golden \<Rightarrow> dma_board uart_fw serial" where
  "fresh_link say g = (case fw_boot say (power_on g) of
     (banner, u) \<Rightarrow> \<lparr>rx = banner, tx = [], device = u\<rparr>)"

lemma fresh_link_stands:
  assumes "ascii_printf say" and "golden_init sw bw = Inr g0"
  shows "board_stands (fresh_link say g0) (golden_view g0)"
proof -
  have "reg (g_csr g0) REG_STATUS = 0"
    using assms(2) by (auto simp: golden_init_def reg_csr_init res_bind_def split: sum.splits)
  then have "board_ready (power_on g0)" "board_view_of (power_on g0) = golden_view g0"
    using setup_view(1) [OF assms(2)]
    by (simp_all add: power_on_def board_ready_def settle_ok settle_status board_view_of_def BUSY_BIT_def)
  moreover have "on_board (fresh_link say g0) (power_on g0)"
    using assms(1) by (simp add: fresh_link_def fw_boot_def on_board_def fw_idle_def)
  ultimately show ?thesis unfolding board_stands_def by (auto intro: standsI)
qed

lemma board_loaded:
  assumes "ascii_printf say" and "golden_init sw bw = Inr g0" and "for_each (run_row sw bw) rows g0 = (Inr (), g)"
    and "rows_fine sw bw rows g0" and "\<forall>row \<in> set rows. ringlen_fine row" and "plain csv_name"
    and "sw \<le> 2 ^ 30" and "bw \<le> 2 ^ 30"
    and "board_stands s0 (golden_view g0)"
  shows "\<exists>s'. parse_stimulus (uart_firmware board_bus say)
      (file_lines (universal_newlines (stim_file csv_name (gd_stim g)))) CSR_BASE s0
      = (Inr (ring_transfers (replayed g)), s') \<and> board_stands s' (golden_view g)"
proof -
  let ?fw = "uart_firmware board_bus say" and ?l0 = "\<lparr>ld_serial = s0, ld_images = no_images\<rparr>"
  have sizes: "length (smem g) = nat sw" "length (bram g) = nat bw"
    using setup_sized [OF assms(2), of rows] assms(3) by (simp_all add: sized_def)
  have send: "sendable g"
    by (rule rows_sendable [OF assms(3,4,5)]) (rule sendable_init [OF assms(2)])
  have load: "loaded g (replayed g)"
    by (rule rows_loaded [OF assms(3,4)]) (rule loaded_init [OF assms(2)])
  have l0: "loading (nat sw) (nat bw) ?l0"
    unfolding loading_def
    by (rule exI [of _ "golden_view g0"])
      (use assms(9) setup_view(2) [OF assms(2)] in
        \<open>simp add: matches_def no_images_def dict_get_def\<close>)
  have "\<forall>line \<in> set (gd_stim g). stim_ok (nat sw) (nat bw) line"
    using send sizes by (simp add: sendable_def)
  moreover have "nat sw \<le> 2 ^ 30" "nat bw \<le> 2 ^ 30" using assms(7,8) by (simp_all add: nat_le_iff)
  ultimately obtain l where l: "for_each (stim_directive ?fw CSR_BASE) (gd_stim g) ?l0 = (Inr (), l)"
    "loading (nat sw) (nat bw) l" using lines_on_board [OF assms(1) _ _ _ l0] by blast
  have im: "ld_images l = replayed g" using directives_images [OF l(1)] by simp
  have lines: "file_lines (universal_newlines (stim_file csv_name (gd_stim g)))
      = (''# generated from '' @ csv_name) # gd_stim g"
    by (rule stim_file_lines [OF setup_shaped [OF assms(2,3)] assms(6)])
  have "for_each (stim_directive ?fw CSR_BASE) ((''# generated from '' @ csv_name) # gd_stim g) ?l0 = (Inr (), l)"
    using l(1) by (simp add: comment_directive act_simps)
  then have parse: "parse_stimulus ?fw (file_lines (universal_newlines (stim_file csv_name (gd_stim g)))) CSR_BASE
      s0 = (Inr (ring_transfers (replayed g)), ld_serial l)"
    unfolding lines by (simp add: parse_stimulus_def im)
  obtain v where v: "board_stands (ld_serial l) v" "matches v (replayed g)" "length (v_sys v) = nat sw"
      "length (v_ram v) = nat bw" "v_head v = 0"
    using l(2) im by (auto simp: loading_def)
  have "v_sys v = smem g" "v_ram v = bram g"
    using v(2-4) load sizes by (auto simp: matches_def loaded_def intro!: nth_equalityI)
  moreover have "v_base v = base_of (gd_ring g)" "v_tail v = tail_of (gd_ring g)" "v_len v = rlen_of (gd_ring g)"
    using v(2) load send by (simp_all add: matches_def loaded_def sendable_def)
  moreover have "v_head v = head_of (gd_ring g)" using v(5) setup_head [OF assms(2,3)] by simp
  ultimately have "v = golden_view g" by (simp add: golden_view_def)
  with parse v(1) show ?thesis by auto
qed

section \<open>Verification of what the engine did\<close>

lemma moves_lengths:
  "\<forall>d \<in> set ds. in_range m d \<Longrightarrow> length (fst (fold dma_move ds m)) = length (fst m) \<and>
    length (snd (fold dma_move ds m)) = length (snd m)"
proof (induction ds arbitrary: m)
  case Nil
  then show ?case by simp
next
  case (Cons d ds)
  then have d: "inside (source_region d) m" "inside (target_region d) m" by (simp_all add: in_range_def)
  note same = inside_cong [OF move_lengths [OF d(2,1)]]
  have "\<forall>e \<in> set ds. in_range (dma_move d m) e" using Cons.prems by (simp add: in_range_def same)
  from Cons.IH [OF this] move_lengths [OF d(2,1)] show ?case by simp
qed

definition word_aligned :: "descriptor \<Rightarrow> bool" where
  "word_aligned d \<longleftrightarrow> 0 \<le> w0 d \<and> w0 d mod 4 = 0 \<and> 0 \<le> w1 d \<and> w1 d mod 4 = 0"

lemma expected_checkable:
  assumes "dma_fits k d m" and "word_aligned d" and "u32s (fst m)" and "u32s (snd m)"
    and "length (fst m') = length (fst m)" and "length (snd m') = length (snd m)"
    and "length (fst m) \<le> 2 ^ 30" and "length (snd m) \<le> 2 ^ 30"
  defines "t \<equiv> expected_transfer m d"
  defines "dst \<equiv> (if direction t = 1 then snd m' else fst m')"
    and "src \<equiv> (if direction t = 1 then fst m' else snd m')"
  shows "checkable dst src t"
    and "load_block dst (cell (dst_addr t)) (nat (len_words t)) = read_region (target_region d) m'"
    and "load_block src (cell (src_addr t)) (nat (len_words t)) = read_region (source_region d) m'"
proof -
  let ?n = "dma_beats d"
  have dir: "direction t = 1 \<longleftrightarrow> odd (w3 d)"
    by (simp add: t_def expected_transfer_def and_one_eq odd_iff_mod_2_eq_one)
  have n: "len_words t = int ?n" "src_addr t = w0 d" "dst_addr t = w1 d"
    by (simp_all add: t_def expected_transfer_def)
  have e: "expected_words t = read_region (source_region d) m"
    by (simp add: t_def expected_words_region)
  have ins: "inside (source_region d) m" "inside (target_region d) m"
    using fits_inside [OF assms(1)] by simp_all
  show "load_block dst (cell (dst_addr t)) (nat (len_words t)) = read_region (target_region d) m'"
    and "load_block src (cell (src_addr t)) (nat (len_words t)) = read_region (source_region d) m'"
    by (cases "odd (w3 d)"; simp add: dst_def src_def dir n target_region_def source_region_def cell_def)+
  have range: "range_ok (w1 d) ?n dst" "range_ok (w0 d) ?n src"
    using ins assms(2,5-8)
    by (auto simp: range_ok_def word_aligned_def dst_def src_def dir target_region_def source_region_def
        cell_def split: if_splits)
  have "length (expected_words t) = ?n"
    using ins(1) by (cases "odd (w3 d)") (simp_all add: e source_region_def)
  moreover have "u32s (expected_words t)"
    using assms(3,4) by (auto simp: e source_region_def)
  moreover have "?n < 256" by (simp add: dma_beats_def nat_less_iff)
  ultimately show "checkable dst src t"
    using range by (auto simp: checkable_def n)
qed

text \<open>A transfer is accepted when both blocks hold the expected words.\<close>

lemma verdict_blocks:
  assumes "checkable dst src t"
    and "load_block dst (cell (dst_addr t)) (nat (len_words t)) = expected_words t"
    and "load_block src (cell (src_addr t)) (nat (len_words t)) = expected_words t"
  shows "verdict dst src t"
proof (cases "len_words t = 0")
  case False
  with assms(1) have "cell (dst_addr t) + nat (len_words t) \<le> length dst" "0 < nat (len_words t)"
    by (simp_all add: checkable_def range_ok_def)
  then have "dst ! cell (dst_addr t) = expected_words t ! 0"
    by (simp flip: assms(2) add: load_block_nth)
  with assms(2,3) show ?thesis by (simp add: verdict_def)
qed (simp add: verdict_def)

text \<open>The transfers of a loaded scenario can be checked on the memories after the run.\<close>

lemma transfers_checkable:
  assumes "golden_init sw bw = Inr g0" and "for_each (run_row sw bw) rows g0 = (Inr (), g)"
    and "sw \<le> 2 ^ 30" and "bw \<le> 2 ^ 30"
    and "\<forall>d \<in> set (pending (gd_ring g)). dma_fits MID_DEPTH d (smem g, bram g) \<and> word_aligned d \<and>
      spares_ring (csr_baseaddr (g_csr g)) (csr_ringlen (g_csr g)) d"
    and "t \<in> set (map (expected_transfer (smem g, bram g)) (pending (gd_ring g)))"
  defines "m \<equiv> fold dma_move (pending (gd_ring g)) (smem g, bram g)"
  shows "checkable (if direction t = 1 then snd m else fst m) (if direction t = 1 then fst m else snd m) t"
proof -
  let ?m0 = "(smem g, bram g)"
  have gok: "setup_ok g" using setup_run_ok [OF golden_init_ok [OF assms(1)], of sw bw rows] assms(2) by simp
  have sizes: "length (smem g) \<le> 2 ^ 30" "length (bram g) \<le> 2 ^ 30"
    using setup_sized [OF assms(1), of rows] assms(2-4) by (simp_all add: sized_def nat_le_iff)
  have words: "u32s (smem g)" "u32s (bram g)" using setup_ok_words [OF gok] by simp_all
  have inr: "\<forall>d \<in> set (pending (gd_ring g)). in_range ?m0 d"
    using assms(5) fits_inside by (force simp: in_range_def)
  obtain d where d: "d \<in> set (pending (gd_ring g))" "t = expected_transfer ?m0 d" using assms(6) by auto
  have fit: "dma_fits MID_DEPTH d ?m0" "word_aligned d" using assms(5) d(1) by auto
  show ?thesis
    unfolding d(2)
    using expected_checkable(1) [OF fit, of m] words sizes moves_lengths [OF inr] by (simp add: m_def)
qed

text \<open>A loaded board can run.\<close>

lemma loaded_runnable:
  assumes "setup_ok g" and "ring_ok (gd_ring g)" and "length (pending (gd_ring g)) < MAX_ITERS"
    and "\<forall>d \<in> set (pending (gd_ring g)). dma_fits MID_DEPTH d (smem g, bram g) \<and>
      spares_ring (csr_baseaddr (g_csr g)) (csr_ringlen (g_csr g)) d"
  shows "runnable (golden_view g)"
  using assms(2-4) ring_ok_view [OF assms(1)]
  by (auto simp: runnable_def pending_view [symmetric])
    (auto simp: golden_view_def csr_baseaddr_def csr_ringlen_def)

lemma loaded_tail:
  assumes "golden_init sw bw = Inr g0" and "for_each (run_row sw bw) rows g0 = (Inr (), g)"
    and "pending (gd_ring g) \<noteq> []"
  shows "v_tail (golden_view g) \<noteq> 0"
proof
  assume "v_tail (golden_view g) = 0"
  then have "ring_count (rlen_of (gd_ring g)) (head_of (gd_ring g)) (tail_of (gd_ring g)) = 0"
    using setup_head [OF assms(1,2)] by (simp add: golden_view_def ring_count_def)
  with assms(3) show False by (simp add: pending_def slots_def)
qed

text \<open>The session up to the verification.\<close>

lemma session_ran:
  assumes "ascii_printf say" and "golden_init sw bw = Inr g0" and "for_each (run_row sw bw) rows g0 = (Inr (), g)"
    and "rows_fine sw bw rows g0" and "\<forall>row \<in> set rows. ringlen_fine row" and "plain csv_name"
    and "sw \<le> 2 ^ 30" and "bw \<le> 2 ^ 30" and "ring_ok (gd_ring g)" and "pending (gd_ring g) \<noteq> []"
    and "length (pending (gd_ring g)) < MAX_ITERS"
    and "\<forall>d \<in> set (pending (gd_ring g)). dma_fits MID_DEPTH d (smem g, bram g) \<and> word_aligned d \<and>
      spares_ring (csr_baseaddr (g_csr g)) (csr_ringlen (g_csr g)) d"
    and "board_stands s0 (golden_view g0)"
  defines "fw \<equiv> uart_firmware board_bus say"
    and "lines \<equiv> file_lines (universal_newlines (stim_file csv_name (gd_stim g)))"
    and "m \<equiv> fold dma_move (pending (gd_ring g)) (smem g, bram g)"
  shows "\<exists>s1 s2 s3. parse_stimulus fw lines CSR_BASE s0
      = (Inr (map (expected_transfer (smem g, bram g)) (pending (gd_ring g))), s1) \<and>
    run_dma_command fw s1 = (Inr True, s2) \<and> dump_csr_status fw s2 = (Inr (), s3) \<and>
    board_stands s3 ((golden_view g)\<lparr>v_sys := fst m, v_ram := snd m, v_head := tail_of (gd_ring g)\<rparr>)"
proof -
  let ?p = "pending (gd_ring g)" and ?m0 = "(smem g, bram g)"
  let ?v = "golden_view g" and ?v' = "after_run (golden_view g)"
  have gok: "setup_ok g" using setup_run_ok [OF golden_init_ok [OF assms(2)], of sw bw rows] assms(3) by simp
  have src: "\<forall>d \<in> set ?p. source_ok ?m0 d"
    using assms(12) fits_inside
    by (fastforce simp: source_ok_def word_aligned_def source_region_def split: if_splits)
  have tr: "ring_transfers (replayed g) = map (expected_transfer ?m0) ?p"
  proof -
    have "loaded g (replayed g)"
      by (rule rows_loaded [OF assms(3,4)]) (rule loaded_init [OF assms(2)])
    from ring_transfers_expected [OF this assms(9) setup_head [OF assms(2,3)] src] show ?thesis .
  qed
  obtain s1 where s1: "parse_stimulus fw lines CSR_BASE s0 = (Inr (ring_transfers (replayed g)), s1)"
      "board_stands s1 ?v"
    using board_loaded [OF assms(1-8,13)] unfolding fw_def lines_def by blast
  have run: "runnable ?v" by (rule loaded_runnable [OF gok assms(9,11)]) (use assms(12) in blast)
  have tail: "v_tail ?v \<noteq> 0" by (rule loaded_tail [OF assms(2,3,10)])
  obtain s2 where s2: "run_dma_command fw s1 = (Inr True, s2)" "board_stands s2 ?v'"
    using host_runs_dma [OF assms(1) s1(2) run tail] unfolding fw_def by blast
  obtain s3 where s3: "dump_csr_status fw s2 = (Inr (), s3)" "board_stands s3 ?v'"
    using host_dumps_csr [OF assms(1) s2(2)] unfolding fw_def by blast
  have v': "?v' = ?v\<lparr>v_sys := fst m, v_ram := snd m, v_head := tail_of (gd_ring g)\<rparr>"
    by (simp add: after_run_def pending_view [symmetric] m_def Let_def) (simp add: golden_view_def)
  from s1(1) s2(1) s3 show ?thesis unfolding tr v' by blast
qed

text \<open>The session, step by step, with the verdict of the verification.\<close>

lemma session_on_board:
  assumes "ascii_printf say" and "golden_init sw bw = Inr g0" and "for_each (run_row sw bw) rows g0 = (Inr (), g)"
    and "rows_fine sw bw rows g0" and "\<forall>row \<in> set rows. ringlen_fine row" and "plain csv_name"
    and "sw \<le> 2 ^ 30" and "bw \<le> 2 ^ 30" and "ring_ok (gd_ring g)" and "pending (gd_ring g) \<noteq> []"
    and "length (pending (gd_ring g)) < MAX_ITERS"
    and "\<forall>d \<in> set (pending (gd_ring g)). dma_fits MID_DEPTH d (smem g, bram g) \<and> word_aligned d \<and>
      spares_ring (csr_baseaddr (g_csr g)) (csr_ringlen (g_csr g)) d"
    and "board_stands s0 (golden_view g0)"
  defines "fw \<equiv> uart_firmware board_bus say"
    and "lines \<equiv> file_lines (universal_newlines (stim_file csv_name (gd_stim g)))"
    and "m \<equiv> fold dma_move (pending (gd_ring g)) (smem g, bram g)"
    and "ts \<equiv> map (expected_transfer (smem g, bram g)) (pending (gd_ring g))"
  shows "\<exists>s1 s2 s3 s4. parse_stimulus fw lines CSR_BASE s0 = (Inr ts, s1) \<and>
    run_dma_command fw s1 = (Inr True, s2) \<and> dump_csr_status fw s2 = (Inr (), s3) \<and>
    verify_dma_result fw viz ts s3 = (Inr (\<forall>t \<in> set ts. verdict (if direction t = 1 then snd m else fst m)
      (if direction t = 1 then fst m else snd m) t), s4) \<and>
    board_stands s4 ((golden_view g)\<lparr>v_sys := fst m, v_ram := snd m, v_head := tail_of (gd_ring g)\<rparr>)"
proof -
  let ?v = "(golden_view g)\<lparr>v_sys := fst m, v_ram := snd m, v_head := tail_of (gd_ring g)\<rparr>"
  obtain s1 s2 s3 where s: "parse_stimulus fw lines CSR_BASE s0 = (Inr ts, s1)"
    "run_dma_command fw s1 = (Inr True, s2)" "dump_csr_status fw s2 = (Inr (), s3)" "board_stands s3 ?v"
    using session_ran [OF assms(1-13)] unfolding fw_def lines_def m_def ts_def by blast
  have mem: "v_sys ?v = fst m" "v_ram ?v = snd m" by simp_all
  have ok: "\<forall>t \<in> set ts. checkable (if direction t = 1 then v_ram ?v else v_sys ?v)
      (if direction t = 1 then v_sys ?v else v_ram ?v) t"
    unfolding mem unfolding m_def ts_def by (intro ballI transfers_checkable [OF assms(2,3,7,8,12)])
  obtain s4 where s4: "map_each (verify_one_transfer fw viz) ts s3
      = (Inr (map (\<lambda>t. verdict (if direction t = 1 then v_ram ?v else v_sys ?v)
          (if direction t = 1 then v_sys ?v else v_ram ?v) t) ts), s4)" "board_stands s4 ?v"
    using board_mem.host_verifies_all [OF assms(1) ok s(4) [unfolded board_stands_def], of viz]
    unfolding fw_def board_stands_def by blast
  have "verify_dma_result fw viz ts s3 = (Inr (\<forall>t \<in> set ts. verdict (if direction t = 1 then snd m else fst m)
      (if direction t = 1 then fst m else snd m) t), s4)"
    using assms(10) s4(1) unfolding mem
    by (auto simp: ts_def verify_dma_result_def act_bind_def act_return_def list_all_iff)
  with s s4(2) show ?thesis by blast
qed

text \<open>Independent transfers leave the expected words at both ends, so they are accepted.\<close>

lemma independent_blocks:
  assumes "golden_init sw bw = Inr g0" and "for_each (run_row sw bw) rows g0 = (Inr (), g)"
    and "sw \<le> 2 ^ 30" and "bw \<le> 2 ^ 30"
    and "\<forall>d \<in> set (pending (gd_ring g)). dma_fits MID_DEPTH d (smem g, bram g) \<and> word_aligned d \<and>
      spares_ring (csr_baseaddr (g_csr g)) (csr_ringlen (g_csr g)) d"
    and "independent (pending (gd_ring g))"
    and "t \<in> set (map (expected_transfer (smem g, bram g)) (pending (gd_ring g)))"
  defines "m \<equiv> fold dma_move (pending (gd_ring g)) (smem g, bram g)"
  shows "load_block (if direction t = 1 then snd m else fst m) (cell (dst_addr t)) (nat (len_words t)) = expected_words t"
    and "load_block (if direction t = 1 then fst m else snd m) (cell (src_addr t)) (nat (len_words t)) = expected_words t"
proof -
  let ?p = "pending (gd_ring g)" and ?m0 = "(smem g, bram g)"
  have gok: "setup_ok g" using setup_run_ok [OF golden_init_ok [OF assms(1)], of sw bw rows] assms(2) by simp
  have sizes: "length (smem g) \<le> 2 ^ 30" "length (bram g) \<le> 2 ^ 30"
    using setup_sized [OF assms(1), of rows] assms(2-4) by (simp_all add: sized_def nat_le_iff)
  have words: "u32s (smem g)" "u32s (bram g)" using setup_ok_words [OF gok] by simp_all
  have inr: "\<forall>d \<in> set ?p. in_range ?m0 d"
    using assms(5) fits_inside by (force simp: in_range_def)
  obtain d where d: "d \<in> set ?p" "t = expected_transfer ?m0 d" using assms(7) by auto
  have fit: "dma_fits MID_DEPTH d ?m0" "word_aligned d" using assms(5) d(1) by auto
  note blocks = expected_checkable(2,3) [OF fit, of m]
  show "load_block (if direction t = 1 then snd m else fst m) (cell (dst_addr t)) (nat (len_words t)) = expected_words t"
    "load_block (if direction t = 1 then fst m else snd m) (cell (src_addr t)) (nat (len_words t)) = expected_words t"
    unfolding d(2)
    by (subst blocks;
        use words sizes moves_lengths [OF inr] independent_moves [OF inr assms(6) d(1)] in
          \<open>simp add: m_def expected_words_region\<close>)+
qed

lemma independent_accepted:
  assumes "golden_init sw bw = Inr g0" and "for_each (run_row sw bw) rows g0 = (Inr (), g)"
    and "sw \<le> 2 ^ 30" and "bw \<le> 2 ^ 30"
    and "\<forall>d \<in> set (pending (gd_ring g)). dma_fits MID_DEPTH d (smem g, bram g) \<and> word_aligned d \<and>
      spares_ring (csr_baseaddr (g_csr g)) (csr_ringlen (g_csr g)) d"
    and "independent (pending (gd_ring g))"
  defines "m \<equiv> fold dma_move (pending (gd_ring g)) (smem g, bram g)"
  shows "\<forall>t \<in> set (map (expected_transfer (smem g, bram g)) (pending (gd_ring g))).
    verdict (if direction t = 1 then snd m else fst m) (if direction t = 1 then fst m else snd m) t"
  unfolding m_def
  by (intro ballI verdict_blocks transfers_checkable [OF assms(1-5)] independent_blocks [OF assms(1-6)])

lemma session_exit:
  assumes "parse_stimulus fw lines CSR_BASE s = (Inr ts, s1)" and "run_dma_command fw s1 = (Inr True, s2)"
    and "dump_csr_status fw s2 = (Inr (), s3)" and "verify_dma_result fw viz ts s3 = (Inr ok, s4)"
  shows "host_session fw viz lines s = (Inr 0, s4)"
  using assms by (simp add: host_session_def act_bind_def act_return_def)

lemma board_memories:
  assumes "board_stands s v"
  shows "smem (hw (board (device s))) = v_sys v" and "bram (hw (board (device s))) = v_ram v"
  using assms
  by (auto simp: board_stands_def stands_def on_board_def board_view_of_def golden_view_def)

text \<open>Two independent transfers, as rows.\<close>

definition pair_rows :: "string list list" where
  "pair_rows = [[''smem'', ''16'', ''b''], [''smem'', ''17'', ''16''], [''smem'', ''18'', ''21''],
     [''smem'', ''19'', ''2c''], [''csr_ringlen'', ''4''], [''desc'', ''40'', ''0'', ''2'', ''1''],
     [''desc'', ''48'', ''8'', ''2'', ''1''], [''enable'']]"

definition pair_loaded :: golden where
  "pair_loaded = snd (for_each (run_row 32 8) pair_rows demo_init)"

lemma pair_setup: "for_each (run_row 32 8) pair_rows demo_init = (Inr (), pair_loaded)"
proof -
  have "\<not> isl (fst (for_each (run_row 32 8) pair_rows demo_init))" by code_simp
  then show ?thesis
    unfolding pair_loaded_def
    by (cases "for_each (run_row 32 8) pair_rows demo_init"; cases "fst (for_each (run_row 32 8) pair_rows demo_init)") auto
qed

lemma pair_facts:
  "rows_fine 32 8 pair_rows demo_init" "\<forall>row \<in> set pair_rows. ringlen_fine row"
  "ring_ok (gd_ring pair_loaded)" "pending (gd_ring pair_loaded) \<noteq> []"
  "is_enabled (g_csr pair_loaded)" "independent (pending (gd_ring pair_loaded))"
  by code_simp+

lemma pair_fits:
  "\<forall>d \<in> set (pending (gd_ring pair_loaded)).
     dma_fits MID_DEPTH d (smem pair_loaded, bram pair_loaded) \<and> word_aligned d \<and>
     spares_ring (csr_baseaddr (g_csr pair_loaded)) (csr_ringlen (g_csr pair_loaded)) d"
  by code_simp

lemma pair_length: "length (pending (gd_ring pair_loaded)) < MAX_ITERS"
proof -
  have "length (pending (gd_ring pair_loaded)) = 2" by code_simp
  then show ?thesis by (simp add: MAX_ITERS_def)
qed

lemma block_crc_damage:
  assumes "u32s (pre @ x # post)" and "0 \<le> y" and "y < 2 ^ 32" and "x \<noteq> y"
  shows "block_crc (pre @ x # post) \<noteq> block_crc (pre @ y # post)"
  using assms by (simp add: block_crc_def uint_not_inject crc_words_inject crc_word_data)

section \<open>Properties\<close>

text \<open>
  C6. The whole chain works: for every scenario of the golden model whose rows succeed and leave an
  enabled well-formed ring of independent, aligned transfers that fit, its stimulus file, sent by
  the host to the firmware of a board that was just switched on and whose engine is the golden
  model, loads the board, runs the engine and passes every check of the verification, with or
  without the viewer; the exit status is 0 and the memories of the board are the golden images.
\<close>

theorem golden_session_passes:
  assumes "ascii_printf say" and "golden_init sw bw = Inr g0" and "for_each (run_row sw bw) rows g0 = (Inr (), g)"
    and "rows_fine sw bw rows g0" and "\<forall>row \<in> set rows. ringlen_fine row" and "plain csv_name"
    and "sw \<le> 2 ^ 30" and "bw \<le> 2 ^ 30" and "ring_ok (gd_ring g)" and "pending (gd_ring g) \<noteq> []"
    and "length (pending (gd_ring g)) < MAX_ITERS"
    and "\<forall>d \<in> set (pending (gd_ring g)). dma_fits MID_DEPTH d (smem g, bram g) \<and> word_aligned d \<and>
      spares_ring (csr_baseaddr (g_csr g)) (csr_ringlen (g_csr g)) d"
    and "independent (pending (gd_ring g))" and "is_enabled (g_csr g)"
  shows "\<exists>arts lines ts s1 s2 s3 s4. run_scenario rows sw bw = Inr arts \<and>
    lines = file_lines (universal_newlines (stim_file csv_name (stim_lines arts))) \<and>
    parse_stimulus (uart_firmware board_bus say) lines CSR_BASE (fresh_link say g0) = (Inr ts, s1) \<and>
    run_dma_command (uart_firmware board_bus say) s1 = (Inr True, s2) \<and>
    dump_csr_status (uart_firmware board_bus say) s2 = (Inr (), s3) \<and>
    verify_dma_result (uart_firmware board_bus say) viz ts s3 = (Inr True, s4) \<and>
    host_session (uart_firmware board_bus say) viz lines (fresh_link say g0) = (Inr 0, s4) \<and>
    smem (hw (board (device s4))) = final_smem arts \<and> bram (hw (board (device s4))) = final_sram arts"
proof -
  let ?p = "pending (gd_ring g)" and ?start = "(smem g, bram g)"
  let ?res = "fold dma_move ?p ?start" and ?fw = "uart_firmware board_bus say"
  let ?ts = "map (expected_transfer ?start) ?p"
    and ?lines = "file_lines (universal_newlines (stim_file csv_name (gd_stim g)))"
  have arts: "run_scenario rows sw bw = Inr \<lparr>stim_lines = gd_stim g, initial_smem = smem g,
      final_smem = fst ?res, initial_sram = bram g, final_sram = snd ?res, descs_fetched = map pack ?p\<rparr>"
    using assms(12) by (intro scenario_result [OF assms(2,3,9,14,11)]) blast
  obtain s1 s2 s3 s4 where s: "parse_stimulus ?fw ?lines CSR_BASE (fresh_link say g0) = (Inr ?ts, s1)"
    "run_dma_command ?fw s1 = (Inr True, s2)" "dump_csr_status ?fw s2 = (Inr (), s3)"
    "verify_dma_result ?fw viz ?ts s3 = (Inr (\<forall>t \<in> set ?ts. verdict (if direction t = 1 then snd ?res else fst ?res)
      (if direction t = 1 then fst ?res else snd ?res) t), s4)"
    "board_stands s4 ((golden_view g)\<lparr>v_sys := fst ?res, v_ram := snd ?res, v_head := tail_of (gd_ring g)\<rparr>)"
    using session_on_board [OF assms(1-12) fresh_link_stands [OF assms(1,2)], of viz] by blast
  have "\<forall>t \<in> set ?ts. verdict (if direction t = 1 then snd ?res else fst ?res)
      (if direction t = 1 then fst ?res else snd ?res) t"
    using independent_accepted [OF assms(2,3,7,8,12,13)] by simp
  with s have v: "verify_dma_result ?fw viz ?ts s3 = (Inr True, s4)" by simp
  show ?thesis
    using arts s(1-3) v session_exit [OF s(1-3) v] board_memories [OF s(5)] by fastforce
qed
theorem golden_session_passes_witness:
  "\<exists>arts lines s4. run_scenario pair_rows 32 8 = Inr arts \<and>
    lines = file_lines (universal_newlines (stim_file ''pair.csv'' (stim_lines arts))) \<and>
    host_session (uart_firmware board_bus (\<lambda>_ _. [])) True lines (fresh_link (\<lambda>_ _. []) demo_init) = (Inr 0, s4) \<and>
    bram (hw (board (device s4))) = final_sram arts"
proof -
  have "ascii_printf (\<lambda>_ _. [])" by (simp add: ascii_printf_def)
  moreover have "plain ''pair.csv''" by (simp add: plain_def)
  ultimately show ?thesis
    using golden_session_passes [OF _ demo_init_ok pair_setup pair_facts(1,2) _ _ _ pair_facts(3,4)
        pair_length pair_fits pair_facts(6,5), of "\<lambda>_ _. []" "''pair.csv''" True]
    by simp blast
qed

text \<open>
  C30. A chain is misjudged: on the same board, the two-descriptor scenario whose second transfer reads
  what the first one wrote ends with the golden images in both memories, and yet the verification
  fails, because the host expects the words that were there before any transfer. The exit status is
  0 all the same: it depends on the acknowledgement of CMD_RUN_DMA only.
\<close>

theorem chain_misjudged:
  assumes "ascii_printf say"
  shows "\<exists>arts lines ts s1 s2 s3 s4. run_scenario demo_rows 32 8 = Inr arts \<and>
    lines = file_lines (universal_newlines (stim_file ''chain.csv'' (stim_lines arts))) \<and>
    parse_stimulus (uart_firmware board_bus say) lines CSR_BASE (fresh_link say demo_init) = (Inr ts, s1) \<and>
    run_dma_command (uart_firmware board_bus say) s1 = (Inr True, s2) \<and>
    dump_csr_status (uart_firmware board_bus say) s2 = (Inr (), s3) \<and>
    verify_dma_result (uart_firmware board_bus say) viz ts s3 = (Inr False, s4) \<and>
    host_session (uart_firmware board_bus say) viz lines (fresh_link say demo_init) = (Inr 0, s4) \<and>
    smem (hw (board (device s4))) = final_smem arts \<and> bram (hw (board (device s4))) = final_sram arts"
proof -
  let ?fw = "uart_firmware board_bus say" and ?start = "(small_words, replicate 8 0)"
  let ?lines = "file_lines (universal_newlines (stim_file ''chain.csv'' (gd_stim demo_golden)))"
  have ok: "rows_fine 32 8 demo_rows demo_init" "\<forall>row \<in> set demo_rows. ringlen_fine row" by code_simp+
  have ring: "ring_ok (gd_ring demo_golden)" "is_enabled (g_csr demo_golden)"
    using small_golden_ok small_enabled by (simp_all add: golden_ok_def)
  have pend: "pending (gd_ring demo_golden) = [small_d1, small_d2]" by (simp add: small_pending)
  have mems: "(smem demo_golden, bram demo_golden) = ?start" by (simp add: small_golden_parts)
  have fits: "\<forall>d \<in> set (pending (gd_ring demo_golden)). dma_fits MID_DEPTH d (smem demo_golden, bram demo_golden) \<and>
      word_aligned d \<and> spares_ring (csr_baseaddr (g_csr demo_golden)) (csr_ringlen (g_csr demo_golden)) d"
    unfolding pend mems using small_fits
    by (simp add: MID_DEPTH_def word_aligned_def spares_ring_def dma_beats_def csr_baseaddr_def csr_ringlen_def
        small_golden_regs reg_offsets)
  have few: "length (pending (gd_ring demo_golden)) < MAX_ITERS"
    unfolding pend by (simp add: MAX_ITERS_def)
  have plain: "plain ''chain.csv''" by (simp add: plain_def)
  let ?ts = "map (expected_transfer ?start) [small_d1, small_d2]"
  obtain s1 s2 s3 s4 where s: "parse_stimulus ?fw ?lines CSR_BASE (fresh_link say demo_init) = (Inr ?ts, s1)"
    "run_dma_command ?fw s1 = (Inr True, s2)" "dump_csr_status ?fw s2 = (Inr (), s3)"
    "verify_dma_result ?fw viz ?ts s3 = (Inr (\<forall>t \<in> set ?ts. verdict
        (if direction t = 1 then snd small_result else fst small_result)
        (if direction t = 1 then fst small_result else snd small_result) t), s4)"
    "board_stands s4 ((golden_view demo_golden)\<lparr>v_sys := fst small_result, v_ram := snd small_result,
        v_head := tail_of (gd_ring demo_golden)\<rparr>)"
    using session_on_board [OF assms demo_init_ok demo_setup ok plain _ _ ring(1) _ few fits fresh_link_stands [OF assms demo_init_ok], of viz]
    unfolding pend mems small_moves by auto
  have "\<not> verdict (fst small_result) (snd small_result) (expected_transfer ?start small_d2)" by code_simp
  moreover have "direction (expected_transfer ?start small_d2) \<noteq> 1" by code_simp
  ultimately have v: "verify_dma_result ?fw viz ?ts s3 = (Inr False, s4)" using s(4) by auto
  have arts: "run_scenario demo_rows 32 8 = Inr \<lparr>stim_lines = gd_stim demo_golden, initial_smem = small_words,
      final_smem = fst small_result, initial_sram = replicate 8 0, final_sram = snd small_result,
      descs_fetched = map pack [small_d1, small_d2]\<rparr>"
    using scenario_result [OF demo_init_ok demo_setup ring few] fits mems
    unfolding pend by (simp add: small_moves [unfolded fold_simps comp_def] del: fold_simps)
  show ?thesis
    using arts s(1-3) v session_exit [OF s(1-3) v] board_memories [OF s(5)] by fastforce
qed

theorem chain_misjudged_witness:
  "ascii_printf (\<lambda>_ _. []) \<and> (\<exists>arts lines ts s1 s2 s3 s4. run_scenario demo_rows 32 8 = Inr arts \<and>
    lines = file_lines (universal_newlines (stim_file ''chain.csv'' (stim_lines arts))) \<and>
    parse_stimulus (uart_firmware board_bus (\<lambda>_ _. [])) lines CSR_BASE (fresh_link (\<lambda>_ _. []) demo_init) = (Inr ts, s1) \<and>
    run_dma_command (uart_firmware board_bus (\<lambda>_ _. [])) s1 = (Inr True, s2) \<and>
    dump_csr_status (uart_firmware board_bus (\<lambda>_ _. [])) s2 = (Inr (), s3) \<and>
    verify_dma_result (uart_firmware board_bus (\<lambda>_ _. [])) False ts s3 = (Inr False, s4) \<and>
    host_session (uart_firmware board_bus (\<lambda>_ _. [])) False lines (fresh_link (\<lambda>_ _. []) demo_init) = (Inr 0, s4) \<and>
    smem (hw (board (device s4))) = final_smem arts \<and> bram (hw (board (device s4))) = final_sram arts)"
proof
  show quiet: "ascii_printf (\<lambda>_ _. [])" by (simp add: ascii_printf_def)
  show "\<exists>arts lines ts s1 s2 s3 s4. run_scenario demo_rows 32 8 = Inr arts \<and>
    lines = file_lines (universal_newlines (stim_file ''chain.csv'' (stim_lines arts))) \<and>
    parse_stimulus (uart_firmware board_bus (\<lambda>_ _. [])) lines CSR_BASE (fresh_link (\<lambda>_ _. []) demo_init) = (Inr ts, s1) \<and>
    run_dma_command (uart_firmware board_bus (\<lambda>_ _. [])) s1 = (Inr True, s2) \<and>
    dump_csr_status (uart_firmware board_bus (\<lambda>_ _. [])) s2 = (Inr (), s3) \<and>
    verify_dma_result (uart_firmware board_bus (\<lambda>_ _. [])) False ts s3 = (Inr False, s4) \<and>
    host_session (uart_firmware board_bus (\<lambda>_ _. [])) False lines (fresh_link (\<lambda>_ _. []) demo_init) = (Inr 0, s4) \<and>
    smem (hw (board (device s4))) = final_smem arts \<and> bram (hw (board (device s4))) = final_sram arts"
    by (rule chain_misjudged [OF quiet])
qed

text \<open>
  The memories of the board are memories to the host: after a write through the firmware is
  acknowledged, a read of the same address returns the word, a read of any other address of that
  memory returns what it held before, and so does every read of the other memory.
\<close>

theorem host_memory_roundtrip:
  assumes "ascii_printf say" and "board_stands s v" and "0 \<le> w" and "w < 2 ^ 32"
    and "holds a (if in_sys then v_sys v else v_ram v)" and "holds c (if in_sys then v_sys v else v_ram v)"
    and "holds e (if in_sys then v_ram v else v_sys v)"
  shows "\<exists>s1 s2 s3. act_bind (send_packet (uart_firmware board_bus say)
        (if in_sys then CMD_WRITE_SYSMEM else CMD_WRITE_SRAM) a (le32 w)) (\<lambda>_. wait_for_ack) s = (Inr True, s1) \<and>
    read_memory (uart_firmware board_bus say) (if in_sys then CMD_READ_SYSMEM else CMD_READ_SRAM) c s1
      = (Inr (Some (if cell c = cell a then w else (if in_sys then v_sys v else v_ram v) ! cell c)), s2) \<and>
    read_memory (uart_firmware board_bus say) (if in_sys then CMD_READ_SRAM else CMD_READ_SYSMEM) e s2
      = (Inr (Some ((if in_sys then v_ram v else v_sys v) ! cell e)), s3)"
proof (cases in_sys)
  case True
  let ?v = "v\<lparr>v_sys := (v_sys v)[cell a := w]\<rparr>"
  have h: "holds a (v_sys v)" "holds c (v_sys ?v)" "holds e (v_ram ?v)"
    using True assms(5-7) by (simp_all add: holds_def)
  note st = assms(2) [unfolded board_stands_def]
  obtain s1 where s1: "act_bind (send_packet (uart_firmware board_bus say) CMD_WRITE_SYSMEM a (le32 w))
      (\<lambda>_. wait_for_ack) s = (Inr True, s1)" "stands board_ready board_view_of s1 ?v"
    using board_mem.sys.host_writes_cell [OF assms(1) st h(1) assms(3,4)] by blast
  obtain s2 where s2: "read_memory (uart_firmware board_bus say) CMD_READ_SYSMEM c s1
      = (Inr (Some (v_sys ?v ! cell c)), s2)" "stands board_ready board_view_of s2 ?v"
    using board_mem.sys.host_reads_cell [OF assms(1) s1(2) h(2)] by blast
  obtain s3 where "read_memory (uart_firmware board_bus say) CMD_READ_SRAM e s2
      = (Inr (Some (v_ram ?v ! cell e)), s3)"
    using board_mem.ram.host_reads_cell [OF assms(1) s2(2) h(3)] by blast
  with s1(1) s2(1) True h(1) show ?thesis by (auto simp: holds_def nth_list_update)
next
  case False
  let ?v = "v\<lparr>v_ram := (v_ram v)[cell a := w]\<rparr>"
  have h: "holds a (v_ram v)" "holds c (v_ram ?v)" "holds e (v_sys ?v)"
    using False assms(5-7) by (simp_all add: holds_def)
  note st = assms(2) [unfolded board_stands_def]
  obtain s1 where s1: "act_bind (send_packet (uart_firmware board_bus say) CMD_WRITE_SRAM a (le32 w))
      (\<lambda>_. wait_for_ack) s = (Inr True, s1)" "stands board_ready board_view_of s1 ?v"
    using board_mem.ram.host_writes_cell [OF assms(1) st h(1) assms(3,4)] by blast
  obtain s2 where s2: "read_memory (uart_firmware board_bus say) CMD_READ_SRAM c s1
      = (Inr (Some (v_ram ?v ! cell c)), s2)" "stands board_ready board_view_of s2 ?v"
    using board_mem.ram.host_reads_cell [OF assms(1) s1(2) h(2)] by blast
  obtain s3 where "read_memory (uart_firmware board_bus say) CMD_READ_SYSMEM e s2
      = (Inr (Some (v_sys ?v ! cell e)), s3)"
    using board_mem.sys.host_reads_cell [OF assms(1) s2(2) h(3)] by blast
  with s1(1) s2(1) False h(1) show ?thesis by (auto simp: holds_def nth_list_update)
qed

theorem host_memory_roundtrip_witness:
  "\<exists>s1 s2. act_bind (send_packet (uart_firmware board_bus (\<lambda>_ _. [])) CMD_WRITE_SRAM 4 (le32 0xCAFE))
      (\<lambda>_. wait_for_ack) (fresh_link (\<lambda>_ _. []) demo_init) = (Inr True, s1) \<and>
    read_memory (uart_firmware board_bus (\<lambda>_ _. [])) CMD_READ_SRAM 4 s1 = (Inr (Some 0xCAFE), s2)"
proof -
  let ?say = "\<lambda>(_::string) (_::int list). ([] :: bytes)"
  have say: "ascii_printf ?say" by (simp add: ascii_printf_def)
  have "holds 4 (v_ram (golden_view demo_init))" "holds 0 (v_sys (golden_view demo_init))"
    by (simp_all add: setup_view(2) [OF demo_init_ok] holds_def cell_def)
  then show ?thesis
    using host_memory_roundtrip [OF say fresh_link_stands [OF say demo_init_ok], of "0xCAFE" 4 False 4 0]
    by (auto simp: cell_def)
qed

text \<open>
  C27. A damaged word is found on the board: when the destination or the source block of a transfer
  differs from the expected words in exactly one place, wherever it is and whatever it holds, the
  verification of the transfer over the serial line fails.
\<close>

theorem damaged_transfer_rejected:
  assumes "ascii_printf say" and "board_stands s v"
    and "dst = (if direction t = 1 then v_ram v else v_sys v)"
    and "src = (if direction t = 1 then v_sys v else v_ram v)"
    and "checkable dst src t" and "len_words t \<noteq> 0" and "expected_words t = pre @ x # post" and "x \<noteq> y"
    and "load_block dst (cell (dst_addr t)) (nat (len_words t)) = pre @ y # post \<or>
      load_block src (cell (src_addr t)) (nat (len_words t)) = pre @ y # post"
  shows "\<exists>s'. verify_one_transfer (uart_firmware board_bus say) viz t s = (Inr False, s')"
proof -
  obtain b where "board_ready b" "board_view_of b = v"
    using assms(2) unfolding board_stands_def by (rule standsE)
  then have "u32s dst" "u32s src"
    using board_mem.sys.cells_u32 [of b] board_mem.ram.cells_u32 [of b] assms(3,4) by simp_all
  then have "u32s (pre @ y # post)" using assms(9) u32s_load_block by metis
  moreover have "u32s (pre @ x # post)" using assms(5-7) by (simp add: checkable_def)
  ultimately have "block_crc (pre @ y # post) \<noteq> block_crc (expected_words t)"
    using block_crc_damage [of pre x post y] assms(7,8) by simp
  with assms(6,9) have "\<not> verdict dst src t" by (auto simp: verdict_def)
  with board_mem.host_verifies [OF assms(1) assms(2) [unfolded board_stands_def], of t viz] assms(3-5)
  show ?thesis by auto
qed

theorem damaged_transfer_rejected_witness:
  "\<exists>s'. verify_one_transfer (uart_firmware board_bus (\<lambda>_ _. [])) False
      \<lparr>src_addr = 0, dst_addr = 4, len_words = 2, direction = 1, expected_words = [0, 7]\<rparr>
      (fresh_link (\<lambda>_ _. []) demo_init) = (Inr False, s')"
proof -
  let ?say = "\<lambda>(_::string) (_::int list). ([] :: bytes)"
  have say: "ascii_printf ?say" by (simp add: ascii_printf_def)
  let ?t = "\<lparr>src_addr = 0, dst_addr = 4, len_words = 2, direction = 1, expected_words = [0, 7]\<rparr>"
  have check: "checkable (replicate 8 0) (replicate 32 0) ?t"
    by (simp add: checkable_def range_ok_def cell_def)
  have block: "load_block (replicate 8 (0::int)) 1 2 = [0] @ 0 # []"
    by (simp add: load_block_def eval_nat_numeral)
  show ?thesis
    by (rule damaged_transfer_rejected [OF say fresh_link_stands [OF say demo_init_ok] _ _ check,
          where pre = "[0]" and x = 7 and post = "[]" and y = 0])
      (use block in \<open>simp_all add: setup_view(2) [OF demo_init_ok] cell_def\<close>)
qed

text \<open>
  A negative ring length: the golden model accepts the row, because the register masks the value,
  and emits it unmasked; the host cannot send that line, whatever the firmware, and dies with
  \<open>struct.error\<close>.
\<close>

theorem negative_ringlen_unsendable:
  "(\<exists>arts. run_scenario [[''csr_ringlen'', ''-1'']] 32 8 = Inr arts \<and> stim_lines arts = [''csr_write 04 -0000001'']) \<and>
   fst (parse_stimulus fw (file_lines (universal_newlines (stim_file ''neg.csv'' [''csr_write 04 -0000001'']))) CSR_BASE s)
     = Inl StructError"
proof -
  have "\<not> isl (run_scenario [[''csr_ringlen'', ''-1'']] 32 8) \<and>
      stim_lines (projr (run_scenario [[''csr_ringlen'', ''-1'']] 32 8)) = [''csr_write 04 -0000001'']" by code_simp
  moreover have "fst (parse_stimulus fw (file_lines (universal_newlines (stim_file ''neg.csv''
      [''csr_write 04 -0000001'']))) CSR_BASE s) = Inl StructError"
    by code_simp
  ultimately show ?thesis by (cases "run_scenario [[''csr_ringlen'', ''-1'']] 32 8") auto
qed

text \<open>
  A scenario that enqueues nothing: the board is loaded, the firmware refuses CMD_RUN_DMA because
  TAIL is zero, the memories stay as the stimulus left them, and the host exits with status 1.
\<close>

theorem empty_ring_exits_one:
  assumes "ascii_printf say" and "golden_init sw bw = Inr g0" and "for_each (run_row sw bw) rows g0 = (Inr (), g)"
    and "rows_fine sw bw rows g0" and "\<forall>row \<in> set rows. ringlen_fine row" and "plain csv_name"
    and "sw \<le> 2 ^ 30" and "bw \<le> 2 ^ 30" and "ring_ok (gd_ring g)" and "pending (gd_ring g) = []"
  shows "\<exists>s'. host_session (uart_firmware board_bus say) viz
      (file_lines (universal_newlines (stim_file csv_name (gd_stim g)))) (fresh_link say g0) = (Inr 1, s') \<and>
    smem (hw (board (device s'))) = smem g \<and> bram (hw (board (device s'))) = bram g"
proof -
  let ?fw = "uart_firmware board_bus say" and ?v = "golden_view g"
  obtain s1 where s1: "parse_stimulus ?fw (file_lines (universal_newlines (stim_file csv_name (gd_stim g))))
      CSR_BASE (fresh_link say g0) = (Inr (ring_transfers (replayed g)), s1)" "board_stands s1 ?v"
    using board_loaded [OF assms(1-8) fresh_link_stands [OF assms(1,2)]] by blast
  have "v_tail ?v = 0"
  proof -
    have "ring_is_empty (gd_ring g)" using ring_is_empty_iff [OF assms(9)] assms(10) by simp
    then show ?thesis
      using setup_head [OF assms(2,3)] ring_ok_regs [OF assms(9), of REG_TAIL]
      by (simp add: ring_is_empty_def ring_head_def ring_tail_def csr_read_def bits golden_view_def)
  qed
  then obtain s2 where s2: "run_dma_command ?fw s1 = (Inr False, s2)" "board_stands s2 ?v"
    using host_run_refused [OF assms(1) s1(2)] by blast
  obtain s3 where s3: "dump_csr_status ?fw s2 = (Inr (), s3)" "board_stands s3 ?v"
    using host_dumps_csr [OF assms(1) s2(2)] by blast
  have "host_session ?fw viz (file_lines (universal_newlines (stim_file csv_name (gd_stim g)))) (fresh_link say g0)
      = (Inr 1, s3)"
    using s1(1) s2(1) s3(1) by (simp add: host_session_def act_bind_def act_return_def)
  moreover have "smem (hw (board (device s3))) = smem g" "bram (hw (board (device s3))) = bram g"
    using s3(2) by (auto simp: board_stands_def stands_def on_board_def board_view_of_def golden_view_def)
  ultimately show ?thesis by blast
qed

theorem empty_ring_exits_one_witness:
  "\<exists>g s'. for_each (run_row 32 8) [[''smem'', ''3'', ''7''], [''csr_ringlen'', ''4'']] demo_init = (Inr (), g) \<and>
    host_session (uart_firmware board_bus (\<lambda>_ _. [])) False
      (file_lines (universal_newlines (stim_file ''empty.csv'' (gd_stim g)))) (fresh_link (\<lambda>_ _. []) demo_init)
      = (Inr 1, s')"
proof -
  let ?rows = "[[''smem'', ''3'', ''7''], [''csr_ringlen'', ''4'']]"
  let ?run = "for_each (run_row 32 8) ?rows demo_init"
  have "\<not> isl (fst ?run)" by code_simp
  then obtain g where g: "?run = (Inr (), g)" by (cases ?run; cases "fst ?run") auto
  have ok: "rows_fine 32 8 ?rows demo_init" "\<forall>row \<in> set ?rows. ringlen_fine row" by code_simp+
  have "ring_ok (gd_ring (snd ?run)) \<and> pending (gd_ring (snd ?run)) = []" by code_simp
  then have ring: "ring_ok (gd_ring g)" "pending (gd_ring g) = []" unfolding g snd_conv by simp_all
  have say: "ascii_printf (\<lambda>_ _. [])" by (simp add: ascii_printf_def)
  have plain: "plain ''empty.csv''" by (simp add: plain_def)
  from empty_ring_exits_one [OF say demo_init_ok g ok plain _ _ ring, of False] g show ?thesis by auto
qed

end
