(* ===== verification/Terminal_Viewer.thy ===== *)
theory Terminal_Viewer
  imports Py_Text
begin

text \<open>
  The terminal viewer \<open>firmware&local/viz.py\<close>: its state, its event handlers, the loop that reads
  events from standard input, and the rows of its four tables. A line is modelled by what
  \<open>json.loads\<close> makes of it; numbers are integers (the host sends no fractions and no booleans). The
  layout, the styles of titles and borders, the pauses and the refresh loop are not modelled.
\<close>

section \<open>Messages\<close>

datatype json =
    JNull
  | JInt int
  | JStr string
  | JList "json list"
  | JDict "(string \<times> json) list"

text \<open>\<open>ev[key]\<close>, and \<open>for x in value\<close>: a list, the characters of a string, the keys of an object.\<close>

definition ev_item :: "(string \<times> json) list \<Rightarrow> string \<Rightarrow> json result" where
  "ev_item ev key = (case map_of ev key of None \<Rightarrow> Inl KeyError | Some x \<Rightarrow> Inr x)"

fun py_iter :: "json \<Rightarrow> json list result" where
  "py_iter (JList xs) = Inr xs"
| "py_iter (JStr s) = Inr (map (\<lambda>c. JStr [c]) s)"
| "py_iter (JDict ev) = Inr (map (\<lambda>(k, _). JStr k) ev)"
| "py_iter _ = Inl TypeError"

text \<open>\<open>a, v = x\<close>.\<close>

definition unpack_pair :: "json \<Rightarrow> (json \<times> json) result" where
  "unpack_pair x = res_bind (py_iter x) (\<lambda>xs.
     if length xs = 2 then Inr (xs ! 0, xs ! 1) else Inl (ValueError UnpackCount))"

fun hashable :: "json \<Rightarrow> bool" where
  "hashable (JList _) = False"
| "hashable (JDict _) = False"
| "hashable _ = True"

section \<open>The state\<close>

record viz_cell =
  vc_addr :: json
  vc_value :: json
  vc_status :: string

record viewer =
  header_text :: json
  tables :: "string \<times> json \<Rightarrow> viz_cell list option"

definition viewer_init :: "string \<Rightarrow> viewer" where
  "viewer_init title = \<lparr>header_text = JStr title,
     tables = [(''expected'', JStr ''sram'') \<mapsto> [], (''expected'', JStr ''smem'') \<mapsto> [],
       (''actual'', JStr ''sram'') \<mapsto> [], (''actual'', JStr ''smem'') \<mapsto> []]\<rparr>"

text \<open>\<open>state[(kind, region)] = cells\<close> and \<open>state[(kind, region)]\<close>; the key must be hashable.\<close>

definition set_table :: "string \<Rightarrow> json \<Rightarrow> viz_cell list \<Rightarrow> (viewer, unit) act" where
  "set_table kind region cells =
     (if hashable region
      then act_modify (\<lambda>s. s\<lparr>tables := (tables s)((kind, region) \<mapsto> cells)\<rparr>)
      else act_raise TypeError)"

definition get_table :: "string \<Rightarrow> json \<Rightarrow> (viewer, viz_cell list) act" where
  "get_table kind region =
     (if hashable region
      then act_read (\<lambda>s. case tables s (kind, region) of None \<Rightarrow> Inl KeyError | Some cs \<Rightarrow> Inr cs)
      else act_raise TypeError)"

text \<open>The first cell with the address is updated in place; None when there is no such cell.\<close>

fun mark_cell :: "json \<Rightarrow> (viz_cell \<Rightarrow> viz_cell) \<Rightarrow> viz_cell list \<Rightarrow> viz_cell list option" where
  "mark_cell addr f [] = None"
| "mark_cell addr f (c # cs) =
     (if vc_addr c = addr then Some (f c # cs) else map_option ((#) c) (mark_cell addr f cs))"

section \<open>Event handlers\<close>

definition on_header :: "(string \<times> json) list \<Rightarrow> (viewer, unit) act" where
  "on_header ev = act_modify (\<lambda>s. s\<lparr>header_text :=
     (case map_of ev ''label'' of None \<Rightarrow> header_text s | Some x \<Rightarrow> x)\<rparr>)"

definition on_expected :: "(string \<times> json) list \<Rightarrow> (viewer, unit) act" where
  "on_expected ev =
     act_bind (act_read (\<lambda>_. ev_item ev ''region'')) (\<lambda>region.
     act_bind (act_read (\<lambda>_. ev_item ev ''cells'')) (\<lambda>cells_list.
     act_bind (act_read (\<lambda>_. py_iter cells_list)) (\<lambda>items.
     act_bind (map_each (\<lambda>x. act_read (\<lambda>_. unpack_pair x)) items) (\<lambda>pairs.
     act_bind (set_table ''expected'' region
         (map (\<lambda>(a, v). \<lparr>vc_addr = a, vc_value = v, vc_status = ''shown''\<rparr>) pairs)) (\<lambda>_.
       set_table ''actual'' region
         (map (\<lambda>(a, _). \<lparr>vc_addr = a, vc_value = JNull, vc_status = ''pending''\<rparr>) pairs))))))"

definition on_actual :: "(string \<times> json) list \<Rightarrow> (viewer, unit) act" where
  "on_actual ev =
     act_bind (act_read (\<lambda>_. ev_item ev ''region'')) (\<lambda>region.
     act_bind (act_read (\<lambda>_. ev_item ev ''addr'')) (\<lambda>addr.
     act_bind (act_read (\<lambda>_. ev_item ev ''value'')) (\<lambda>value.
     act_bind (get_table ''actual'' region) (\<lambda>cs.
       set_table ''actual'' region
         (case mark_cell addr (\<lambda>c. c\<lparr>vc_value := value, vc_status := ''filled''\<rparr>) cs of
            Some cs' \<Rightarrow> cs'
          | None \<Rightarrow> cs @ [\<lparr>vc_addr = addr, vc_value = value, vc_status = ''filled''\<rparr>])))))"

definition on_terminal :: "string \<Rightarrow> (string \<times> json) list \<Rightarrow> (viewer, unit) act" where
  "on_terminal status ev =
     act_bind (act_read (\<lambda>_. ev_item ev ''region'')) (\<lambda>region.
     act_bind (act_read (\<lambda>_. ev_item ev ''addr'')) (\<lambda>addr.
     act_bind (get_table ''actual'' region) (\<lambda>cs.
       case mark_cell addr (\<lambda>c. c\<lparr>vc_status := status\<rparr>) cs of
         Some cs' \<Rightarrow> set_table ''actual'' region cs'
       | None \<Rightarrow> act_return ())))"

definition HANDLERS :: "string \<Rightarrow> ((string \<times> json) list \<Rightarrow> (viewer, unit) act) option" where
  "HANDLERS = [''header'' \<mapsto> on_header, ''expected'' \<mapsto> on_expected, ''actual'' \<mapsto> on_actual,
     ''match'' \<mapsto> on_terminal ''match'', ''fail'' \<mapsto> on_terminal ''fail'']"

lemma handler_names:
  "HANDLERS ''header'' = Some on_header" "HANDLERS ''expected'' = Some on_expected"
  "HANDLERS ''actual'' = Some on_actual"
  "HANDLERS (if ok then ''match'' else ''fail'') = Some (on_terminal (if ok then ''match'' else ''fail''))"
  by (simp_all add: HANDLERS_def)

section \<open>The reader\<close>

text \<open>
  A line of standard input: blank, not JSON, or a message. Exceptions of a handler are swallowed; but
  \<open>ev.get\<close> on a message that is no object, and \<open>HANDLERS.get\<close> of a type that cannot be hashed,
  stand outside the \<open>try\<close> and end the reader thread.
\<close>

datatype feed = Blank | Undecodable | Message json

definition find_handler ::
  "json option \<Rightarrow> ((string \<times> json) list \<Rightarrow> (viewer, unit) act) option result" where
  "find_handler ty = (case ty of
     None \<Rightarrow> Inr None
   | Some (JStr s) \<Rightarrow> Inr (HANDLERS s)
   | Some x \<Rightarrow> if hashable x then Inr None else Inl TypeError)"

definition is_exception :: "exn \<Rightarrow> bool" where
  "is_exception e = (case e of SystemExit _ \<Rightarrow> False | _ \<Rightarrow> True)"

definition read_event :: "feed \<Rightarrow> (viewer, unit) act" where
  "read_event line = (case line of
     Message (JDict ev) \<Rightarrow>
       act_bind (act_read (\<lambda>_. find_handler (map_of ev ''type''))) (\<lambda>h.
         case h of None \<Rightarrow> act_return ()
         | Some f \<Rightarrow> act_catch is_exception (f ev) (act_return ()))
   | Message _ \<Rightarrow> act_raise AttributeError
   | _ \<Rightarrow> act_return ())"

definition stdin_reader :: "feed list \<Rightarrow> (viewer, unit) act" where
  "stdin_reader = for_each read_event"

section \<open>The tables\<close>

text \<open>One table cell: its colour, and a text or one of the symbols.\<close>

datatype style = Plain | Dim | Yellow | BoldGreen | BoldRed
datatype glyph = Chars string | Dash | Waiting | Bar | Tick | Cross

definition upper_hex :: "nat \<Rightarrow> int \<Rightarrow> string" where
  "upper_hex w n = map (\<lambda>c. if 97 \<le> code c \<and> code c \<le> 122 then char_of (code c - 32) else c) (fmt_hex w n)"

definition show_hex :: "nat \<Rightarrow> json \<Rightarrow> string result" where
  "show_hex w x = (case x of
     JInt n \<Rightarrow> Inr (''0x'' @ upper_hex w n)
   | JStr _ \<Rightarrow> Inl (ValueError FormatCode)
   | _ \<Rightarrow> Inl TypeError)"

definition or_zero :: "json \<Rightarrow> json" where
  "or_zero v = (if v = JNull then JInt 0 else v)"

definition value_row ::
  "style \<Rightarrow> json \<Rightarrow> (style \<times> glyph) list \<Rightarrow> string \<Rightarrow> (style \<times> glyph) list list result" where
  "value_row st v rest addr_s =
     res_bind (show_hex 8 v) (\<lambda>s. Inr [(Plain, Chars addr_s) # (st, Chars s) # rest])"

definition cell_rows :: "string \<Rightarrow> viz_cell \<Rightarrow> (style \<times> glyph) list list result" where
  "cell_rows kind c =
     res_bind (show_hex 4 (vc_addr c)) (\<lambda>addr_s.
       if kind = ''expected'' then value_row Plain (vc_value c) [] addr_s
       else if vc_status c = ''pending''
         then Inr [[(Plain, Chars addr_s), (Dim, Bar), (Plain, Chars [])]]
       else if vc_status c = ''filled'' then value_row Yellow (vc_value c) [(Plain, Chars [])] addr_s
       else if vc_status c = ''match''
         then value_row BoldGreen (or_zero (vc_value c)) [(BoldGreen, Tick)] addr_s
       else if vc_status c = ''fail''
         then value_row BoldRed (or_zero (vc_value c)) [(BoldRed, Cross)] addr_s
       else Inr [])"

fun all_rows :: "string \<Rightarrow> viz_cell list \<Rightarrow> (style \<times> glyph) list list result" where
  "all_rows kind [] = Inr []"
| "all_rows kind (c # cs) =
     res_bind (cell_rows kind c) (\<lambda>rs. res_bind (all_rows kind cs) (\<lambda>rss. Inr (rs @ rss)))"

definition make_table :: "string \<Rightarrow> string \<Rightarrow> viewer \<Rightarrow> (style \<times> glyph) list list result" where
  "make_table kind region s =
     (case tables s (kind, JStr region) of
        None \<Rightarrow> Inl KeyError
      | Some cells \<Rightarrow>
          if cells = [] then Inr [[(Dim, Dash), (Dim, Waiting)]
              @ (if kind = ''actual'' then [(Plain, Chars [])] else [])]
          else all_rows kind cells)"


section \<open>The handlers on the states they find\<close>

lemma viewer_parts [simp]:
  "tables (tables_update f s) = f (tables s)" "header_text (tables_update f s) = header_text s"
  "tables (header_text_update h s) = tables s"
  by (cases s; simp)+

lemma set_table_at [simp]:
  "hashable r \<Longrightarrow> set_table kind r cs s = (Inr (), s\<lparr>tables := (tables s)((kind, r) \<mapsto> cs)\<rparr>)"
  by (simp add: set_table_def act_simps)

lemma get_table_at [simp]:
  "hashable r \<Longrightarrow> tables s (kind, r) = Some cs \<Longrightarrow> get_table kind r s = (Inr cs, s)"
  by (simp add: get_table_def act_simps)

lemma map_each_unpacked:
  "map_each (\<lambda>x. act_read (\<lambda>_. unpack_pair x)) (map (\<lambda>(a, v). JList [a, v]) cells) s = (Inr cells, s)"
  by (induction cells) (auto simp: act_simps unpack_pair_def res_bind_def)

text \<open>A sweep over the cells of a table, one event per cell, in order.\<close>

lemma mark_cell_at:
  assumes "i < n" and "inj addr" and "\<And>j. vc_addr (g j) = addr j"
  shows "mark_cell (addr i) f (map g [k..<k + n]) = (if k \<le> i \<and> i < k + n
    then Some (map (\<lambda>j. if j = i then f (g j) else g j) [k..<k + n]) else None)"
proof (induction n arbitrary: k)
  case 0
  then show ?case by simp
next
  case (Suc n)
  have up: "[k..<k + Suc n] = k # [Suc k..<Suc k + n]" by (simp add: upt_conv_Cons)
  show ?case
    unfolding up using Suc [of "Suc k"] injD [OF assms(2), of k i] assms(3) by (auto simp: not_less_eq_eq)
qed

lemma marking_sweep:
  assumes "tables s (''actual'', r) = Some (map g [0..<n])" and "inj addr"
    and "\<And>j. vc_addr (g j) = addr j" and "\<And>j c. vc_addr (f j c) = vc_addr c"
    and ev: "\<And>j s cs cs'. tables s (''actual'', r) = Some cs \<Longrightarrow> mark_cell (addr j) (f j) cs = Some cs' \<Longrightarrow>
      read_event (Message (e j)) s = (Inr (), s\<lparr>tables := (tables s)((''actual'', r) \<mapsto> cs')\<rparr>)"
  shows "stdin_reader (map (\<lambda>j. Message (e j)) [0..<n]) s
    = (Inr (), s\<lparr>tables := (tables s)((''actual'', r) \<mapsto> map (\<lambda>j. f j (g j)) [0..<n])\<rparr>)"
proof -
  define part where "part = (\<lambda>k. map (\<lambda>j. if j < k then f j (g j) else g j) [0..<n])"
  have step: "mark_cell (addr k) (f k) (part k) = Some (part (Suc k))" if "k < n" for k
    using mark_cell_at [of k n addr "\<lambda>j. if j < k then f j (g j) else g j" "f k" 0] that assms(2-4)
    by (auto simp: part_def less_Suc_eq)
  have "stdin_reader (map (\<lambda>j. Message (e j)) [0..<k]) s
      = (Inr (), s\<lparr>tables := (tables s)((''actual'', r) \<mapsto> part k)\<rparr>)" if "k \<le> n" for k
    using that
  proof (induction k)
    case 0
    have "s\<lparr>tables := (tables s)((''actual'', r) \<mapsto> part 0)\<rparr> = s"
      by (simp add: part_def assms(1) [symmetric])
    then show ?case by (simp only: stdin_reader_def list.map upt_conv_Nil [OF order_refl] for_each.simps act_simps)
  next
    case (Suc k)
    then show ?case
      using step [of k] ev [of _ "part k" k "part (Suc k)"]
      by (simp add: stdin_reader_def for_each_append act_simps fun_upd_def cong: if_cong)
  qed
  moreover have "part n = map (\<lambda>j. f j (g j)) [0..<n]"
    by (simp add: part_def)
  ultimately show ?thesis by simp
qed

section \<open>Invariants\<close>

text \<open>The actual table of a region starts with the addresses of the expected one.\<close>

definition paired :: "viz_cell list option \<Rightarrow> viz_cell list option \<Rightarrow> bool" where
  "paired e a \<longleftrightarrow> (case e of None \<Rightarrow> a = None
     | Some es \<Rightarrow> (\<exists>as extra. a = Some as \<and> map vc_addr as = map vc_addr es @ extra))"

definition in_step :: "viewer \<Rightarrow> bool" where
  "in_step s \<longleftrightarrow> (\<forall>r. paired (tables s (''expected'', r)) (tables s (''actual'', r)))"

lemma paired_longer:
  "paired e (Some as) \<Longrightarrow> map vc_addr as' = map vc_addr as @ extra \<Longrightarrow> paired e (Some as')"
  by (auto simp: paired_def split: option.splits)

lemma in_step_actual:
  assumes "in_step s" and "tables s (''actual'', r) = Some as" and "map vc_addr as' = map vc_addr as @ extra"
  shows "in_step (s\<lparr>tables := (tables s)((''actual'', r) \<mapsto> as')\<rparr>)"
proof -
  have "paired (tables s (''expected'', r)) (Some as)"
    using assms(1,2) by (simp add: in_step_def) metis
  from paired_longer [OF this assms(3)] assms(1) show ?thesis by (simp add: in_step_def)
qed

lemma mark_cell_addrs:
  "mark_cell a f cs = Some cs' \<Longrightarrow> (\<And>c. vc_addr (f c) = vc_addr c) \<Longrightarrow> map vc_addr cs' = map vc_addr cs"
  by (induction cs arbitrary: cs') (auto split: if_splits)

subsection \<open>What a handler can do to the tables\<close>

text \<open>A step that reads and may raise, in front of the rest of a handler.\<close>

lemma bind_keep_cases:
  assumes "snd (m s) = s" and "Q s" and "\<And>y. m s = (Inr y, s) \<Longrightarrow> Q (snd (f y s))"
  shows "Q (snd (act_bind m f s))"
  using assms by (auto simp: act_bind_def split: prod.split sum.split)

lemma read_keeps: "snd (act_read f s) = s"
  by (simp add: act_read_def)

lemma map_read_keeps: "snd (map_each (\<lambda>x. act_read (\<lambda>_. f x)) xs s) = s"
  by (induction xs) (auto simp: act_bind_def act_read_def act_return_def split: prod.splits sum.splits)

lemma get_table_keeps: "snd (get_table k r s) = s"
  by (simp add: get_table_def act_simps)

lemma get_table_Inr: "get_table k r s = (Inr cs, s) \<longleftrightarrow> hashable r \<and> tables s (k, r) = Some cs"
  by (auto simp: get_table_def act_simps split: option.split)

lemmas keeps = read_keeps map_read_keeps get_table_keeps

definition shown_cells :: "(json \<times> json) list \<Rightarrow> viz_cell list" where
  "shown_cells pairs = map (\<lambda>(a, v). \<lparr>vc_addr = a, vc_value = v, vc_status = ''shown''\<rparr>) pairs"

definition pending_cells :: "(json \<times> json) list \<Rightarrow> viz_cell list" where
  "pending_cells pairs = map (\<lambda>(a, _). \<lparr>vc_addr = a, vc_value = JNull, vc_status = ''pending''\<rparr>) pairs"

lemma on_expected_effect:
  assumes "Q s" and "\<And>r cs xs pairs. ev_item ev ''cells'' = Inr cs \<Longrightarrow> py_iter cs = Inr xs \<Longrightarrow>
    map_each (\<lambda>x. act_read (\<lambda>_. unpack_pair x)) xs s = (Inr pairs, s) \<Longrightarrow>
    Q (s\<lparr>tables := (tables s)((''expected'', r) \<mapsto> shown_cells pairs, (''actual'', r) \<mapsto> pending_cells pairs)\<rparr>)"
  shows "Q (snd (on_expected ev s))"
proof -
  define store where "store = (\<lambda>r pairs. act_bind (set_table ''expected'' r
      (map (\<lambda>(a, v). \<lparr>vc_addr = a, vc_value = v, vc_status = ''shown''\<rparr>) pairs))
    (\<lambda>_. set_table ''actual'' r (map (\<lambda>(a, _). \<lparr>vc_addr = a, vc_value = JNull, vc_status = ''pending''\<rparr>) pairs)))"
  have body: "on_expected ev = act_bind (act_read (\<lambda>_. ev_item ev ''region'')) (\<lambda>region.
      act_bind (act_read (\<lambda>_. ev_item ev ''cells'')) (\<lambda>cells_list.
      act_bind (act_read (\<lambda>_. py_iter cells_list)) (\<lambda>items.
      act_bind (map_each (\<lambda>x. act_read (\<lambda>_. unpack_pair x)) items) (\<lambda>pairs. store region pairs))))"
    by (simp add: on_expected_def store_def)
  have store: "Q (snd (store r pairs s))" if "ev_item ev ''cells'' = Inr cs" "py_iter cs = Inr xs"
    "map_each (\<lambda>x. act_read (\<lambda>_. unpack_pair x)) xs s = (Inr pairs, s)" for r cs xs pairs
  proof (cases "hashable r")
    case True
    then show ?thesis using assms(2) [OF that, of r]
      by (simp add: store_def act_simps shown_cells_def pending_cells_def fun_upd_def)
  next
    case False
    then show ?thesis using assms(1) by (simp add: store_def act_simps set_table_def)
  qed
  show ?thesis
    unfolding body
    by (intro bind_keep_cases [where Q = Q]) (auto simp: keeps assms(1) act_simps intro: store)
qed

lemma on_actual_effect:
  assumes "Q s" and "\<And>r a v cs. ev_item ev ''addr'' = Inr a \<Longrightarrow> ev_item ev ''value'' = Inr v \<Longrightarrow>
    tables s (''actual'', r) = Some cs \<Longrightarrow> Q (s\<lparr>tables := (tables s)((''actual'', r) \<mapsto>
      (case mark_cell a (\<lambda>c. c\<lparr>vc_value := v, vc_status := ''filled''\<rparr>) cs of
         Some cs' \<Rightarrow> cs' | None \<Rightarrow> cs @ [\<lparr>vc_addr = a, vc_value = v, vc_status = ''filled''\<rparr>]))\<rparr>)"
  shows "Q (snd (on_actual ev s))"
  unfolding on_actual_def
proof (intro bind_keep_cases [where Q = Q], goal_cases)
  case (9 r a v cs)
  then show ?case using assms(2) [of a v r cs] by (simp add: get_table_Inr act_simps)
qed (simp_all add: keeps assms(1))

lemma on_terminal_effect:
  assumes "Q s" and "\<And>r a cs cs'. tables s (''actual'', r) = Some cs \<Longrightarrow>
    mark_cell a (\<lambda>c. c\<lparr>vc_status := st\<rparr>) cs = Some cs' \<Longrightarrow>
    Q (s\<lparr>tables := (tables s)((''actual'', r) \<mapsto> cs')\<rparr>)"
  shows "Q (snd (on_terminal st ev s))"
  unfolding on_terminal_def
proof (intro bind_keep_cases [where Q = Q], goal_cases)
  case (7 r a cs)
  then show ?case using assms by (auto simp: get_table_Inr act_simps split: option.split)
qed (simp_all add: keeps assms(1))

lemma on_header_tables: "tables (snd (on_header ev s)) = tables s"
  unfolding on_header_def act_modify_def by (cases "map_of ev ''label''") simp_all

lemma handlers_known:
  assumes "HANDLERS ty = Some h"
  obtains "h = on_header" | "h = on_expected" | "h = on_actual" | st where "h = on_terminal st"
    and "st = ''match'' \<or> st = ''fail''"
  using assms by (auto simp: HANDLERS_def split: if_splits)

lemma handler_in_step:
  assumes "HANDLERS ty = Some h" and "in_step s"
  shows "in_step (snd (h ev s))"
  using assms(1)
proof (cases rule: handlers_known)
  case 1
  with assms(2) show ?thesis by (simp add: on_header_tables in_step_def)
next
  case 2
  have "paired (Some (shown_cells pairs)) (Some (pending_cells pairs))" for pairs
    by (simp add: paired_def shown_cells_def pending_cells_def case_prod_unfold comp_def)
  with assms(2) have "in_step (s\<lparr>tables := (tables s)((''expected'', r) \<mapsto> shown_cells pairs,
      (''actual'', r) \<mapsto> pending_cells pairs)\<rparr>)" for r pairs
    by (simp add: in_step_def)
  then show ?thesis
    unfolding 2 by (intro on_expected_effect [where Q = in_step] assms(2))
next
  case 3
  show ?thesis
    unfolding 3
  proof (rule on_actual_effect [where Q = in_step], rule assms(2))
    fix r a v cs assume cs: "tables s (''actual'', r) = Some cs"
    let ?m = "mark_cell a (\<lambda>c. c\<lparr>vc_value := v, vc_status := ''filled''\<rparr>) cs"
    show "in_step (s\<lparr>tables := (tables s)((''actual'', r) \<mapsto> (case ?m of
        Some cs' \<Rightarrow> cs' | None \<Rightarrow> cs @ [\<lparr>vc_addr = a, vc_value = v, vc_status = ''filled''\<rparr>]))\<rparr>)"
    proof (cases ?m)
      case None
      then show ?thesis by (simp add: in_step_actual [OF assms(2) cs, where extra = "[a]"])
    next
      case (Some cs')
      from mark_cell_addrs [OF this] show ?thesis
        by (simp add: Some in_step_actual [OF assms(2) cs, where extra = "[]"])
    qed
  qed
next
  case (4 st)
  have "map vc_addr cs' = map vc_addr cs" if "mark_cell a (\<lambda>c. c\<lparr>vc_status := st\<rparr>) cs = Some cs'" for a cs cs'
    using mark_cell_addrs [OF that] by simp
  then show ?thesis
    unfolding 4
    by (intro on_terminal_effect [where Q = in_step] assms(2))
      (simp add: in_step_actual [OF assms(2), where extra = "[]"])
qed

lemma catch_keeps: "snd (act_catch p m (act_return x) s) = snd (m s)"
  by (auto simp: act_catch_def act_return_def split: prod.split sum.split)

lemma read_event_keeps:
  assumes "\<And>ty h ev s. line = Message (JDict ev) \<Longrightarrow> HANDLERS ty = Some h \<Longrightarrow> I s \<Longrightarrow> I (snd (h ev s))"
  shows "preserves I (read_event line)"
proof -
  have "preserves I (act_bind (act_read (\<lambda>_. find_handler (map_of ev ''type''))) (\<lambda>h.
      case h of None \<Rightarrow> act_return () | Some f \<Rightarrow> act_catch is_exception (f ev) (act_return ())))"
    if "line = Message (JDict ev)" for ev
    using assms [OF that]
    by (auto simp: preserves_def act_bind_def act_read_def act_return_def find_handler_def catch_keeps
        split: option.split json.split sum.split)
  then show ?thesis
    by (auto simp: read_event_def split: feed.split json.split intro: pres)
qed

text \<open>The messages that end the reader.\<close>

fun lethal :: "feed \<Rightarrow> bool" where
  "lethal (Message (JDict ev)) = (\<exists>x. map_of ev ''type'' = Some x \<and> \<not> hashable x)"
| "lethal (Message _) = True"
| "lethal _ = False"

lemma handler_raises:
  assumes "HANDLERS ty = Some h"
  shows "raises_only is_exception (h ev)"
proof -
  have item: "ev_item ev k = Inl e \<Longrightarrow> is_exception e" for k e
    by (simp add: ev_item_def is_exception_def split: option.splits)
  have iter: "py_iter x = Inl e \<Longrightarrow> is_exception e" for x e
    by (cases x) (auto simp: is_exception_def)
  have unpack: "unpack_pair x = Inl e \<Longrightarrow> is_exception e" for x e
    using iter by (auto simp: unpack_pair_def res_bind_def is_exception_def split: sum.splits if_splits)
  have unpacks: "raises_only is_exception (map_each (\<lambda>x. act_read (\<lambda>_. unpack_pair x)) xs)" for xs
    by (induction xs) (auto intro!: errs unpack)
  have tabs: "raises_only is_exception (set_table k r cs)" "raises_only is_exception (get_table k r)" for k r cs
    by (auto simp: set_table_def get_table_def is_exception_def intro!: errs split: option.splits)
  show ?thesis
    using assms
    by (cases rule: handlers_known)
      (auto simp: on_header_def on_expected_def on_actual_def on_terminal_def split: option.split
        intro!: errs unpacks tabs dest: item iter)
qed

lemma catch_return:
  "raises_only p m \<Longrightarrow> act_catch p m (act_return x) s = (Inr (case fst (m s) of Inr y \<Rightarrow> y | Inl _ \<Rightarrow> x), snd (m s))"
  by (auto simp: act_catch_def act_return_def dest: raises_onlyD split: prod.split sum.split)

lemma read_event_lethal: "isl (fst (read_event line s)) \<longleftrightarrow> lethal line"
proof (cases line)
  case (Message x)
  show ?thesis
  proof (cases x)
    case (JDict ev)
    show ?thesis
      unfolding Message JDict
      by (auto simp: read_event_def find_handler_def act_simps act_bind_def catch_return handler_raises
          split: option.split json.split)
  qed (simp_all add: Message read_event_def act_simps)
qed (simp_all add: read_event_def act_simps)

section \<open>What the display can render\<close>

text \<open>Every address is a number, and every value that is printed is one.\<close>

definition is_int :: "json \<Rightarrow> bool" where
  "is_int x = (case x of JInt _ \<Rightarrow> True | _ \<Rightarrow> False)"

definition printable :: "string \<Rightarrow> viz_cell \<Rightarrow> bool" where
  "printable kind c \<longleftrightarrow> is_int (vc_addr c) \<and>
     (if kind = ''expected'' then is_int (vc_value c)
      else vc_status c = ''pending'' \<and> vc_value c = JNull \<or> vc_status c = ''filled'' \<and> is_int (vc_value c) \<or>
        vc_status c \<in> {''match'', ''fail''} \<and> (vc_value c = JNull \<or> is_int (vc_value c)))"

definition displayable :: "viewer \<Rightarrow> bool" where
  "displayable s \<longleftrightarrow> (\<forall>kind r cs. tables s (kind, r) = Some cs \<longrightarrow>
     kind \<in> {''expected'', ''actual''} \<and> (\<forall>c \<in> set cs. printable kind c)) \<and>
     (\<forall>kind \<in> {''expected'', ''actual''}. \<forall>r \<in> {''sram'', ''smem''}. tables s (kind, JStr r) \<noteq> None)"

text \<open>The documented messages, as far as their numbers go.\<close>

definition int_pair :: "json \<Rightarrow> bool" where
  "int_pair x = (case x of JList [a, v] \<Rightarrow> is_int a \<and> is_int v | _ \<Rightarrow> False)"

definition documented :: "feed \<Rightarrow> bool" where
  "documented line = (case line of
     Message (JDict ev) \<Rightarrow>
       (case map_of ev ''cells'' of None \<Rightarrow> True | Some (JList xs) \<Rightarrow> list_all int_pair xs | _ \<Rightarrow> False) \<and>
       (case map_of ev ''addr'' of None \<Rightarrow> True | Some a \<Rightarrow> is_int a) \<and>
       (case map_of ev ''value'' of None \<Rightarrow> True | Some v \<Rightarrow> is_int v)
   | Message _ \<Rightarrow> False
   | _ \<Rightarrow> True)"

lemma mark_cell_all:
  "mark_cell a f cs = Some cs' \<Longrightarrow> \<forall>c \<in> set cs. P c \<Longrightarrow> (\<And>c. P c \<Longrightarrow> P (f c)) \<Longrightarrow> \<forall>c \<in> set cs'. P c"
  by (induction cs arbitrary: cs') (auto split: if_splits)

lemma map_each_ConsE:
  assumes "map_each f (x # xs) s = (Inr ys, s')"
  obtains y t zs where "f x s = (Inr y, t)" and "map_each f xs t = (Inr zs, s')" and "ys = y # zs"
  using assms by (auto simp: act_bind_def act_return_def split: prod.splits sum.splits)

lemma unpacked_ints:
  "list_all int_pair xs \<Longrightarrow> map_each (\<lambda>x. act_read (\<lambda>_. unpack_pair x)) xs s = (Inr pairs, s') \<Longrightarrow>
   \<forall>(a, v) \<in> set pairs. is_int a \<and> is_int v"
proof (induction xs arbitrary: s pairs)
  case Nil
  then show ?case by (simp add: act_simps)
next
  case (Cons x xs)
  obtain a v where "x = JList [a, v]" "is_int a" "is_int v"
    using Cons.prems(1) by (auto simp: int_pair_def split: json.splits list.splits)
  then have "unpack_pair x = Inr (a, v)" by (simp add: unpack_pair_def res_bind_def)
  moreover obtain y t ps where "act_read (\<lambda>_. unpack_pair x) s = (Inr y, t)"
      and ps: "map_each (\<lambda>x. act_read (\<lambda>_. unpack_pair x)) xs t = (Inr ps, s')" "pairs = y # ps"
    using Cons.prems(2) by (rule map_each_ConsE)
  ultimately have "y = (a, v)" by (simp add: act_read_apply)
  with Cons.IH [OF _ ps(1)] Cons.prems(1) ps(2) \<open>is_int a\<close> \<open>is_int v\<close> show ?case by simp
qed

lemma displayable_set:
  assumes "displayable s" and "kind \<in> {''expected'', ''actual''}" and "\<forall>c \<in> set cs. printable kind c"
  shows "displayable (s\<lparr>tables := (tables s)((kind, r) \<mapsto> cs)\<rparr>)"
proof -
  have "k \<in> {''expected'', ''actual''} \<and> (\<forall>c \<in> set ds. printable k c)"
    if "((tables s)((kind, r) \<mapsto> cs)) (k, q) = Some ds" for k q ds
  proof (cases "(k, q) = (kind, r)")
    case True
    with that assms(2,3) show ?thesis by simp
  next
    case False
    with that assms(1) show ?thesis by (simp add: displayable_def split: if_splits)
  qed
  moreover have "((tables s)((kind, r) \<mapsto> cs)) (k, JStr q) \<noteq> None"
    if "k \<in> {''expected'', ''actual''}" "q \<in> {''sram'', ''smem''}" for k q
    using assms(1) that unfolding displayable_def fun_upd_apply by (metis option.distinct(1))
  ultimately show ?thesis unfolding displayable_def viewer_parts by blast
qed

lemma displayable_table:
  "displayable s \<Longrightarrow> tables s (kind, r) = Some cs \<Longrightarrow> \<forall>c \<in> set cs. printable kind c"
  by (simp add: displayable_def)

lemma printable_marks:
  "is_int v \<Longrightarrow> printable ''actual'' c \<Longrightarrow> printable ''actual'' (c\<lparr>vc_value := v, vc_status := ''filled''\<rparr>)"
  "st = ''match'' \<or> st = ''fail'' \<Longrightarrow> printable ''actual'' c \<Longrightarrow> printable ''actual'' (c\<lparr>vc_status := st\<rparr>)"
  by (auto simp: printable_def)

lemma documented_parts:
  assumes "documented (Message (JDict ev))"
  shows "ev_item ev ''cells'' = Inr cs \<Longrightarrow> \<exists>xs. cs = JList xs \<and> list_all int_pair xs"
    and "ev_item ev ''addr'' = Inr a \<Longrightarrow> is_int a" and "ev_item ev ''value'' = Inr v \<Longrightarrow> is_int v"
  using assms by (auto simp: documented_def ev_item_def split: option.splits json.splits)

lemma handler_displayable:
  assumes "HANDLERS ty = Some h" and "displayable s" and doc: "documented (Message (JDict ev))"
  shows "displayable (snd (h ev s))"
  using assms(1)
proof (cases rule: handlers_known)
  case 1
  with assms(2) show ?thesis by (simp add: displayable_def on_header_tables)
next
  case 2
  show ?thesis
    unfolding 2
  proof (rule on_expected_effect [where Q = displayable], rule assms(2))
    fix r cs xs pairs
    assume "ev_item ev ''cells'' = Inr cs" "py_iter cs = Inr xs"
      and p: "map_each (\<lambda>x. act_read (\<lambda>_. unpack_pair x)) xs s = (Inr pairs, s)"
    then have "list_all int_pair xs" using documented_parts(1) [OF doc] by fastforce
    from unpacked_ints [OF this p]
    have "\<forall>c \<in> set (shown_cells pairs). printable ''expected'' c"
      "\<forall>c \<in> set (pending_cells pairs). printable ''actual'' c"
      by (auto simp: shown_cells_def pending_cells_def printable_def)
    then have "displayable (s\<lparr>tables := (tables s)((''expected'', r) \<mapsto> shown_cells pairs)\<rparr>)" (is "displayable ?t")
      and p: "\<forall>c \<in> set (pending_cells pairs). printable ''actual'' c"
      by (simp_all add: displayable_set [OF assms(2)])
    from displayable_set [OF this(1) _ p]
    have "displayable (?t\<lparr>tables := (tables ?t)((''actual'', r) \<mapsto> pending_cells pairs)\<rparr>)" by blast
    moreover have "?t\<lparr>tables := (tables ?t)((''actual'', r) \<mapsto> pending_cells pairs)\<rparr> =
        s\<lparr>tables := (tables s)((''expected'', r) \<mapsto> shown_cells pairs, (''actual'', r) \<mapsto> pending_cells pairs)\<rparr>"
      by (simp add: fun_upd_def cong: if_cong)
    ultimately show "displayable (s\<lparr>tables := (tables s)((''expected'', r) \<mapsto> shown_cells pairs,
        (''actual'', r) \<mapsto> pending_cells pairs)\<rparr>)" by metis
  qed
next
  case 3
  show ?thesis
    unfolding 3
  proof (rule on_actual_effect [where Q = displayable], rule assms(2))
    fix r a v cs
    assume "ev_item ev ''addr'' = Inr a" "ev_item ev ''value'' = Inr v"
      and cs: "tables s (''actual'', r) = Some cs"
    then have ints: "is_int a" "is_int v" using documented_parts(2,3) [OF doc] by auto
    let ?m = "mark_cell a (\<lambda>c. c\<lparr>vc_value := v, vc_status := ''filled''\<rparr>) cs"
    have "\<forall>c \<in> set (case ?m of Some cs' \<Rightarrow> cs'
        | None \<Rightarrow> cs @ [\<lparr>vc_addr = a, vc_value = v, vc_status = ''filled''\<rparr>]). printable ''actual'' c"
      using displayable_table [OF assms(2) cs] ints mark_cell_all [of a _ cs _ "printable ''actual''"]
        printable_marks(1) [OF ints(2)]
      by (auto simp: printable_def [of _ "\<lparr>vc_addr = a, vc_value = v, vc_status = ''filled''\<rparr>"] split: option.split)
    from displayable_set [OF assms(2) _ this]
    show "displayable (s\<lparr>tables := (tables s)((''actual'', r) \<mapsto> (case ?m of
        Some cs' \<Rightarrow> cs' | None \<Rightarrow> cs @ [\<lparr>vc_addr = a, vc_value = v, vc_status = ''filled''\<rparr>]))\<rparr>)" by simp
  qed
next
  case (4 st)
  show ?thesis
    unfolding 4(1)
  proof (rule on_terminal_effect [where Q = displayable], rule assms(2))
    fix r a cs cs'
    assume "tables s (''actual'', r) = Some cs" "mark_cell a (\<lambda>c. c\<lparr>vc_status := st\<rparr>) cs = Some cs'"
    then have "\<forall>c \<in> set cs'. printable ''actual'' c"
      using displayable_table [OF assms(2)] mark_cell_all [of a _ cs cs' "printable ''actual''"]
        printable_marks(2) [OF 4(2)] by blast
    from displayable_set [OF assms(2) _ this]
    show "displayable (s\<lparr>tables := (tables s)((''actual'', r) \<mapsto> cs')\<rparr>)" by simp
  qed
qed

lemma preserves_each:
  "(\<And>x. x \<in> set xs \<Longrightarrow> preserves I (f x)) \<Longrightarrow> preserves I (for_each f xs)"
  by (induction xs) (auto intro!: preserves_bind intro: pres)

lemma init_displayable: "displayable (viewer_init title)"
  by (auto simp: displayable_def viewer_init_def split: if_splits)

lemma is_int_shows: "is_int x \<Longrightarrow> \<exists>s. show_hex w x = Inr s"
  by (cases x) (simp_all add: is_int_def show_hex_def)

lemma cell_rows_printable:
  assumes "printable kind c" and "kind \<in> {''expected'', ''actual''}"
  shows "\<exists>row. cell_rows kind c = Inr [row]"
proof -
  obtain a where a: "show_hex 4 (vc_addr c) = Inr a"
    using is_int_shows assms(1) by (auto simp: printable_def)
  have v: "is_int (vc_value c) \<Longrightarrow> \<exists>s. show_hex 8 (vc_value c) = Inr s" by (rule is_int_shows)
  have z: "vc_value c = JNull \<or> is_int (vc_value c) \<Longrightarrow> \<exists>s. show_hex 8 (or_zero (vc_value c)) = Inr s"
    by (rule is_int_shows) (auto simp: or_zero_def is_int_def)
  show ?thesis
    using assms a v z
    by (auto simp: cell_rows_def value_row_def printable_def res_bind_def split: if_splits)
qed

lemma all_rows_printable:
  assumes "kind \<in> {''expected'', ''actual''}"
  shows "\<forall>c \<in> set cs. printable kind c \<Longrightarrow> \<exists>rows. all_rows kind cs = Inr rows \<and> length rows = length cs"
proof (induction cs)
  case (Cons c cs)
  then obtain row rows where "cell_rows kind c = Inr [row]" "all_rows kind cs = Inr rows" "length rows = length cs"
    using cell_rows_printable [OF _ assms, of c] by auto
  then show ?case by (simp add: res_bind_def)
qed simp

section \<open>Properties\<close>

text \<open>
  The tables stay in step: whatever arrives on standard input, well-formed or not, and wherever
  the reader stopped, each region has both tables or none, and its actual table starts with the
  addresses of the expected one, in the same order.
\<close>

theorem viewer_tables_in_step:
  "in_step (snd (stdin_reader ls (viewer_init title)))"
proof -
  have "preserves in_step (stdin_reader ls)"
    unfolding stdin_reader_def
    by (intro preserves_for_each read_event_keeps) (rule handler_in_step)
  moreover have "in_step (viewer_init title)"
    by (auto simp: in_step_def viewer_init_def paired_def)
  ultimately show ?thesis by (rule preservesD)
qed

lemma lethal_keeps: "lethal l \<Longrightarrow> snd (read_event l s) = s"
  by (cases l rule: lethal.cases)
    (auto simp: read_event_def act_simps find_handler_def split: json.splits)

text \<open>
  C32. What ends the reader: a message that is no object or whose type cannot be hashed, and nothing
  else; from then on the display is frozen, as if the input had ended before that message. An event
  that its handler cannot digest never ends the reader.
\<close>

theorem viewer_reader_ends:
  "(isl (fst (stdin_reader ls s)) \<longleftrightarrow> (\<exists>l \<in> set ls. lethal l)) \<and>
   snd (stdin_reader ls s) = snd (stdin_reader (takeWhile (\<lambda>l. \<not> lethal l) ls) s)"
proof
  show "isl (fst (stdin_reader ls s)) \<longleftrightarrow> (\<exists>l \<in> set ls. lethal l)"
  proof (induction ls arbitrary: s)
    case (Cons l ls)
    then show ?case
      using read_event_lethal [of l s]
      by (auto simp: stdin_reader_def act_bind_def split: prod.split sum.split)
  qed (simp add: stdin_reader_def act_simps)
  show "snd (stdin_reader ls s) = snd (stdin_reader (takeWhile (\<lambda>l. \<not> lethal l) ls) s)"
  proof (induction ls arbitrary: s)
    case (Cons l ls)
    then show ?case
      using read_event_lethal [of l s] lethal_keeps [of l s]
      by (auto simp: stdin_reader_def act_bind_def act_return_def split: prod.splits sum.splits)
  qed simp
qed

text \<open>
  C33. Documented events never break the display: after any sequence of them every table can be
  rendered, with one row per cell, or the waiting row when it has none.
\<close>

theorem viewer_renders:
  assumes "list_all documented ls" and "kind \<in> {''expected'', ''actual''}" and "region \<in> {''sram'', ''smem''}"
  shows "\<exists>cells rows. tables (snd (stdin_reader ls (viewer_init title))) (kind, JStr region) = Some cells \<and>
    make_table kind region (snd (stdin_reader ls (viewer_init title))) = Inr rows \<and>
    length rows = max 1 (length cells)"
proof -
  let ?s = "snd (stdin_reader ls (viewer_init title))"
  have "preserves displayable (stdin_reader ls)"
    unfolding stdin_reader_def using assms(1)
    by (intro preserves_each read_event_keeps) (auto simp: list_all_iff intro: handler_displayable)
  from preservesD [OF this init_displayable] have d: "displayable ?s" .
  then obtain cells where cells: "tables ?s (kind, JStr region) = Some cells"
    using assms(2,3) by (fastforce simp: displayable_def)
  obtain rows where "all_rows kind cells = Inr rows" "length rows = length cells"
    using all_rows_printable [OF assms(2) displayable_table [OF d cells]] by blast
  with cells show ?thesis by (cases "cells = []") (auto simp: make_table_def max_def Suc_le_eq)
qed

theorem viewer_renders_witness:
  "\<exists>cells rows. tables (snd (stdin_reader [Message (JDict [(''type'', JStr ''actual''), (''region'', JStr ''sram''),
      (''addr'', JInt 4), (''value'', JInt 0xCAFE)])] (viewer_init ''demo''))) (''actual'', JStr ''sram'') = Some cells \<and>
    make_table ''actual'' ''sram'' (snd (stdin_reader [Message (JDict [(''type'', JStr ''actual''), (''region'', JStr ''sram''),
      (''addr'', JInt 4), (''value'', JInt 0xCAFE)])] (viewer_init ''demo''))) = Inr rows \<and>
    length rows = max 1 (length cells)"
  by (rule viewer_renders) (simp_all add: documented_def is_int_def)

end
