(* ===== verification/Watched_Run.thy ===== *)
theory Watched_Run
  imports Bring_Up Terminal_Viewer
begin

text \<open>
  The run of \<open>host_runner.py --viz\<close>: the verification with the events it sends to the viewer
  process, the pipe that may break at any time, and the composition with the viewer: what its tables
  show after a transfer, and after a whole session on the board.
\<close>

section \<open>The pipe to the viewer\<close>

text \<open>
  The class \<open>Viz\<close>. The pipe takes \<open>w_room\<close> more messages (None: any number); the write that fails
  turns the viewer off. What was sent arrives as the viewer's input, message by message.
\<close>

record 'd watched =
  w_serial :: "'d serial"
  w_enabled :: bool
  w_sent :: "json list"
  w_room :: "nat option"

definition viz_start :: "nat option \<Rightarrow> 'd serial \<Rightarrow> 'd watched" where
  "viz_start room s = \<lparr>w_serial = s, w_enabled = True, w_sent = [], w_room = room\<rparr>"

definition viz_send :: "json \<Rightarrow> ('d watched, unit) act" where
  "viz_send ev = act_modify (\<lambda>w.
     if \<not> w_enabled w then w
     else if w_room w = Some 0 then w\<lparr>w_enabled := False\<rparr>
     else w\<lparr>w_sent := w_sent w @ [ev], w_room := map_option (\<lambda>n. n - 1) (w_room w)\<rparr>)"

definition on_port :: "('d serial, 'a) act \<Rightarrow> ('d watched, 'a) act" where
  "on_port = zoom w_serial (\<lambda>s w. w\<lparr>w_serial := s\<rparr>)"

section \<open>The events\<close>

definition header_event :: "string \<Rightarrow> json" where
  "header_event label = JDict [(''type'', JStr ''header''), (''label'', JStr label)]"

definition expected_event :: "string \<Rightarrow> (int \<times> int) list \<Rightarrow> json" where
  "expected_event region cells = JDict [(''type'', JStr ''expected''), (''region'', JStr region),
     (''cells'', JList (map (\<lambda>(a, v). JList [JInt a, JInt v]) cells))]"

definition actual_event :: "string \<Rightarrow> int \<Rightarrow> int option \<Rightarrow> json" where
  "actual_event region a v = JDict [(''type'', JStr ''actual''), (''region'', JStr region),
     (''addr'', JInt a), (''value'', JInt (case v of None \<Rightarrow> 0 | Some x \<Rightarrow> x))]"

definition terminal_event :: "bool \<Rightarrow> string \<Rightarrow> int \<Rightarrow> json" where
  "terminal_event ok region a = JDict [(''type'', JStr (if ok then ''match'' else ''fail'')),
     (''region'', JStr region), (''addr'', JInt a)]"

definition hex_text :: "int \<Rightarrow> string" where
  "hex_text n = (if n < 0 then ''-'' else []) @ ''0x'' @ fmt_hex 0 \<bar>n\<bar>"

definition dst_region :: "transfer \<Rightarrow> string" where
  "dst_region t = (if direction t = 1 then ''sram'' else ''smem'')"

definition src_region :: "transfer \<Rightarrow> string" where
  "src_region t = (if direction t = 1 then ''smem'' else ''sram'')"

text \<open>The label of a transfer; the middle dot is character 183.\<close>

definition transfer_label :: "int \<Rightarrow> transfer \<Rightarrow> string" where
  "transfer_label idx t =
     (let dst = (if direction t = 1 then ''SRAM['' else ''SYSMEM['') @ hex_text (dst_addr t) @ '']'';
          src = (if direction t = 1 then ''SYSMEM['' else ''SRAM['') @ hex_text (src_addr t) @ '']'';
          dot = ''  '' @ [CHR 0xB7] @ ''  ''
      in ''Desc '' @ fmt_dec idx @ dot @ src @ '' -> '' @ dst @ dot @ fmt_dec (len_words t) @ '' word(s)'')"

section \<open>The verification\<close>

definition announced_cells :: "int \<Rightarrow> int list \<Rightarrow> int \<Rightarrow> ('d watched, (int \<times> int) list) act" where
  "announced_cells a ws n = map_each (\<lambda>j. act_bind (act_read (\<lambda>_. py_getitem ws j)) (\<lambda>w.
     act_return (a + j * 4, w))) (py_range n)"

definition show_reads :: "'d firmware \<Rightarrow> int \<Rightarrow> string \<Rightarrow> int \<Rightarrow> int \<Rightarrow> ('d watched, unit) act" where
  "show_reads fw opcode region a n =
     for_each (\<lambda>j. act_bind (on_port (read_memory fw opcode (a + j * 4))) (\<lambda>v.
       viz_send (actual_event region (a + j * 4) v))) (py_range n)"

definition show_sweep :: "bool \<Rightarrow> string \<Rightarrow> int \<Rightarrow> int \<Rightarrow> ('d watched, unit) act" where
  "show_sweep ok region a n =
     for_each (\<lambda>j. viz_send (terminal_event ok region (a + j * 4))) (py_range n)"

definition announce_transfer :: "'d firmware \<Rightarrow> int \<Rightarrow> transfer \<Rightarrow> ('d watched, unit) act" where
  "announce_transfer fw idx t =
     (let dst_read_op = (if direction t = 1 then CMD_READ_SRAM else CMD_READ_SYSMEM);
          src_read_op = (if direction t = 1 then CMD_READ_SYSMEM else CMD_READ_SRAM)
      in act_bind (viz_send (header_event (transfer_label idx t))) (\<lambda>_.
         act_bind (announced_cells (dst_addr t) (expected_words t) (len_words t)) (\<lambda>exp_dst.
         act_bind (announced_cells (src_addr t) (expected_words t) (len_words t)) (\<lambda>exp_src.
         act_bind (viz_send (expected_event (dst_region t) exp_dst)) (\<lambda>_.
         act_bind (viz_send (expected_event (src_region t) exp_src)) (\<lambda>_.
         act_bind (show_reads fw dst_read_op (dst_region t) (dst_addr t) (len_words t)) (\<lambda>_.
           show_reads fw src_read_op (src_region t) (src_addr t) (len_words t))))))))"

definition watch_transfer :: "'d firmware \<Rightarrow> int \<Rightarrow> transfer \<Rightarrow> ('d watched, bool) act" where
  "watch_transfer fw idx t =
     (if len_words t = 0 then act_return True
      else
        act_bind (act_read (\<lambda>_. compute_crc32 (expected_words t))) (\<lambda>expected_crc.
        let byte_len = len_words t * 4;
            (dst_crc_op, src_crc_op, dst_read_op) =
              (if direction t = 1 then (CMD_CRC_SRAM, CMD_CRC_SYSMEM, CMD_READ_SRAM)
               else (CMD_CRC_SYSMEM, CMD_CRC_SRAM, CMD_READ_SYSMEM))
        in act_bind (act_gets w_enabled) (\<lambda>enabled.
           act_bind (if enabled then announce_transfer fw idx t else act_return ()) (\<lambda>_.
           act_bind (on_port (read_memory fw dst_read_op (dst_addr t))) (\<lambda>val.
           act_bind (act_read (\<lambda>_. case val of None \<Rightarrow> Inr False
             | Some v \<Rightarrow> res_bind (py_getitem (expected_words t) 0) (\<lambda>w. Inr (v = w)))) (\<lambda>word_ok.
           act_bind (on_port (request_crc fw dst_crc_op (dst_addr t) byte_len)) (\<lambda>fw_crc_dst.
           act_bind (on_port (request_crc fw src_crc_op (src_addr t) byte_len)) (\<lambda>fw_crc_src.
           act_bind (act_gets w_enabled) (\<lambda>still.
           act_bind (if still
             then act_bind (show_sweep (fw_crc_dst = Some expected_crc) (dst_region t) (dst_addr t) (len_words t))
               (\<lambda>_. show_sweep (fw_crc_src = Some expected_crc) (src_region t) (src_addr t) (len_words t))
             else act_return ()) (\<lambda>_.
             act_return (word_ok \<and> fw_crc_dst = Some expected_crc
               \<and> fw_crc_src = Some expected_crc)))))))))))"

definition watch_transfers :: "'d firmware \<Rightarrow> transfer list \<Rightarrow> ('d watched, bool) act" where
  "watch_transfers fw ts =
     (if ts = [] then act_return False
      else act_bind (map_each (\<lambda>(idx, t). watch_transfer fw (int idx) t) (List.enumerate 0 ts))
        (\<lambda>oks. act_return (list_all id oks)))"

text \<open>\<open>main\<close> with \<open>--viz\<close>: the title of the first header is an argument.\<close>

definition watched_session ::
  "'d firmware \<Rightarrow> string \<Rightarrow> string list \<Rightarrow> ('d watched, int) act" where
  "watched_session fw title lines =
     act_bind (viz_send (header_event title)) (\<lambda>_.
     act_bind (on_port (parse_stimulus fw lines CSR_BASE)) (\<lambda>transfers.
     act_bind (on_port (run_dma_command fw)) (\<lambda>dma_ok.
     act_bind (on_port (dump_csr_status fw)) (\<lambda>_.
     act_bind (if dma_ok then act_bind (watch_transfers fw transfers) (\<lambda>_. act_return ())
               else act_return ()) (\<lambda>_.
       act_return (if dma_ok then 0 else 1))))))"

section \<open>Watching does not change what is verified\<close>

text \<open>\<open>follows m m'\<close>: with the viewer aside, \<open>m\<close> does on the serial port what \<open>m'\<close> does.\<close>

definition follows :: "('d watched, 'a) act \<Rightarrow> ('d serial, 'a) act \<Rightarrow> bool" where
  "follows m m' \<longleftrightarrow> (\<forall>w. m' (w_serial w) = (fst (m w), w_serial (snd (m w))))"

lemma followsD: "follows m m' \<Longrightarrow> m w = (r, w') \<Longrightarrow> m' (w_serial w) = (r, w_serial w')"
  by (simp add: follows_def)

lemma followsI: "(\<And>w. m' (w_serial w) = (fst (m w), w_serial (snd (m w)))) \<Longrightarrow> follows m m'"
  by (simp add: follows_def)

named_theorems follow \<open>the watched run follows the plain one\<close>

lemma follows_basic [follow]:
  "follows (on_port m) m" "follows (act_return x) (act_return x)" "follows (act_read (\<lambda>_. r)) (act_read (\<lambda>_. r))"
  "follows (viz_send ev) (act_return ())"
  by (simp_all add: follows_def on_port_def zoom_def act_simps viz_send_def split: prod.split)

lemma follows_bind [follow]:
  assumes "follows m m'" and "\<And>x. follows (f x) (f' x)"
  shows "follows (act_bind m f) (act_bind m' f')"
proof (rule followsI)
  fix w
  obtain r w1 where m: "m w = (r, w1)" by (cases "m w")
  show "act_bind m' f' (w_serial w) = (fst (act_bind m f w), w_serial (snd (act_bind m f w)))"
  proof (cases r)
    case (Inl e)
    with m followsD [OF assms(1) m] show ?thesis by (simp add: act_simps)
  next
    case (Inr x)
    with m followsD [OF assms(1) m] assms(2) [of x] show ?thesis by (simp add: act_simps follows_def)
  qed
qed

lemma follows_silent:
  assumes "follows m (act_return x)" and "follows (f x) m'"
  shows "follows (act_bind m f) m'"
proof (rule followsI)
  fix w
  obtain w1 where m: "m w = (Inr x, w1)" "w_serial w1 = w_serial w"
    using assms(1) by (cases "m w") (auto simp: follows_def act_return_def dest!: spec [of _ w])
  from followsD [OF assms(2), of w1] m(2)
  show "m' (w_serial w) = (fst (act_bind m f w), w_serial (snd (act_bind m f w)))"
    by (simp add: act_bind_def m)
qed

lemma follows_gets: "(\<And>b. follows (f b) m') \<Longrightarrow> follows (act_bind (act_gets g) f) m'"
  by (simp add: follows_def act_simps)

lemma follows_for_each [follow]:
  "(\<And>x. follows (f x) (f' x)) \<Longrightarrow> follows (for_each f xs) (for_each f' xs)"
  by (induction xs) (auto intro: follow)

lemma silent_for_each: "(\<And>x. follows (f x) (act_return ())) \<Longrightarrow> follows (for_each f xs) (act_return ())"
  by (induction xs) (auto intro: follow follows_silent)


text \<open>The cells of an announcement are those of the transfer.\<close>

definition cells_from :: "int \<Rightarrow> int list \<Rightarrow> (int \<times> int) list" where
  "cells_from a ws = map (\<lambda>j. (a + int j * 4, ws ! j)) [0..<length ws]"

lemma announced_cells_all:
  assumes "n = int (length ws)"
  shows "announced_cells a ws n = act_return (cells_from a ws)"
proof -
  have "map_each (\<lambda>j. act_bind (act_read (\<lambda>_. py_getitem ws j)) (\<lambda>w. act_return (a + j * 4, w))) (map int is) s
      = (Inr (map (\<lambda>j. (a + int j * 4, ws ! j)) is), s)" if "\<forall>i \<in> set is. i < length ws" for "is" s
    using that by (induction "is") (simp_all add: act_simps)
  from this [of "[0..<length ws]"] show ?thesis
    by (intro ext) (simp add: announced_cells_def cells_from_def py_range_def assms act_return_def)
qed

lemma announce_follows:
  assumes "len_words t = int (length (expected_words t))"
  shows "follows (announce_transfer fw idx t)
    (act_bind (read_cells fw (if direction t = 1 then CMD_READ_SRAM else CMD_READ_SYSMEM) (dst_addr t) (len_words t))
      (\<lambda>_. read_cells fw (if direction t = 1 then CMD_READ_SYSMEM else CMD_READ_SRAM) (src_addr t) (len_words t)))"
  unfolding announce_transfer_def Let_def announced_cells_all [OF assms] show_reads_def read_cells_def
  by (rule follows_silent, rule follow)+ (intro follow)

lemma sweep_silent: "follows (show_sweep ok region a n) (act_return ())"
  unfolding show_sweep_def by (intro silent_for_each follow)

lemma act_return_bind [simp]: "act_bind (act_return x) f = f x"
  by (rule ext) (simp add: act_simps)

lemma follows_at:
  assumes "follows m m'"
  shows "m' (w_serial w) = (fst (m w), w_serial (snd (m w)))"
  using assms by (simp add: follows_def)

lemma watch_follows:
  assumes "len_words t = int (length (expected_words t))"
  shows "verify_one_transfer fw (w_enabled w) t (w_serial w)
    = (fst (watch_transfer fw idx t w), w_serial (snd (watch_transfer fw idx t w)))"
proof (cases "len_words t = 0 \<or> isl (compute_crc32 (expected_words t))")
  case True
  then show ?thesis
    by (cases "compute_crc32 (expected_words t)") (auto simp: verify_one_transfer_def watch_transfer_def act_simps)
next
  case False
  then obtain crc where crc: "compute_crc32 (expected_words t) = Inr crc" and n: "len_words t \<noteq> 0"
    by (cases "compute_crc32 (expected_words t)") auto
  have rest: "follows (act_bind (act_gets w_enabled) (\<lambda>still. act_bind (if still
        then act_bind (show_sweep dok (dst_region t) (dst_addr t) (len_words t))
          (\<lambda>_. show_sweep sok (src_region t) (src_addr t) (len_words t))
        else act_return ()) (\<lambda>_. act_return x))) (act_return x)" for dok sok x
    by (rule follows_gets) (auto intro!: follows_silent [of _ "()"] sweep_silent follow)
  have checks: "follows
      (act_bind (on_port (read_memory fw rop (dst_addr t))) (\<lambda>val.
       act_bind (act_read (\<lambda>_. case val of None \<Rightarrow> Inr False
         | Some v \<Rightarrow> res_bind (py_getitem (expected_words t) 0) (\<lambda>w. Inr (v = w)))) (\<lambda>word_ok.
       act_bind (on_port (request_crc fw dop (dst_addr t) (len_words t * 4))) (\<lambda>fw_crc_dst.
       act_bind (on_port (request_crc fw sop (src_addr t) (len_words t * 4))) (\<lambda>fw_crc_src.
       act_bind (act_gets w_enabled) (\<lambda>still.
       act_bind (if still
         then act_bind (show_sweep (fw_crc_dst = Some crc) (dst_region t) (dst_addr t) (len_words t))
           (\<lambda>_. show_sweep (fw_crc_src = Some crc) (src_region t) (src_addr t) (len_words t))
         else act_return ()) (\<lambda>_.
         act_return (word_ok \<and> fw_crc_dst = Some crc \<and> fw_crc_src = Some crc))))))))
      (act_bind (read_memory fw rop (dst_addr t)) (\<lambda>val.
       act_bind (act_read (\<lambda>_. case val of None \<Rightarrow> Inr False
         | Some v \<Rightarrow> res_bind (py_getitem (expected_words t) 0) (\<lambda>w. Inr (v = w)))) (\<lambda>word_ok.
       act_bind (request_crc fw dop (dst_addr t) (len_words t * 4)) (\<lambda>fw_crc_dst.
       act_bind (request_crc fw sop (src_addr t) (len_words t * 4)) (\<lambda>fw_crc_src.
         act_return (word_ok \<and> fw_crc_dst = Some crc \<and> fw_crc_src = Some crc))))))" for rop dop sop
    by (rule follows_bind, rule follow, rule follows_bind, rule follow, rule follows_bind, rule follow,
        rule follows_bind, rule follow, rule rest)
  note start = announce_follows [OF assms, of fw idx]
  have plain: "act_bind (act_read (\<lambda>_. Inr crc)) f s = f crc s" "act_bind (act_gets w_enabled) g w = g (w_enabled w) w"
    for f g s by (simp_all add: act_simps)
  note ram = checks [of CMD_READ_SRAM CMD_CRC_SRAM CMD_CRC_SYSMEM]
    and sys = checks [of CMD_READ_SYSMEM CMD_CRC_SYSMEM CMD_CRC_SRAM]
  show ?thesis
    unfolding verify_one_transfer_def watch_transfer_def Let_def crc plain if_not_P [OF n]
    using start follows_at [OF ram] follows_at [OF sys] follows_at [OF follows_bind [OF start ram]]
      follows_at [OF follows_bind [OF start sys]]
    by (cases "direction t = 1"; cases "w_enabled w") (simp_all add: plain)
qed

section \<open>What is sent while the pipe holds\<close>

definition live :: "'d watched \<Rightarrow> bool" where
  "live w \<longleftrightarrow> w_enabled w \<and> w_room w = None"

lemma viz_send_live:
  "live w \<Longrightarrow> viz_send ev w = (Inr (), w\<lparr>w_sent := w_sent w @ [ev]\<rparr>)"
  by (simp add: live_def viz_send_def act_simps)

lemma live_parts [simp]:
  "live (w\<lparr>w_sent := es\<rparr>) = live w" "live (w\<lparr>w_serial := s\<rparr>) = live w"
  by (simp_all add: live_def)

lemma on_port_at: "m (w_serial w) = (r, s) \<Longrightarrow> on_port m w = (r, w\<lparr>w_serial := s\<rparr>)"
  by (simp add: on_port_def zoom_def)

text \<open>The values of the reads are those of the plain reads.\<close>

definition actual_value :: "int option \<Rightarrow> int" where
  "actual_value v = (case v of None \<Rightarrow> 0 | Some x \<Rightarrow> x)"

definition actual_events :: "string \<Rightarrow> int \<Rightarrow> int option list \<Rightarrow> json list" where
  "actual_events region a vals = map (\<lambda>j. actual_event region (a + int j * 4) (vals ! j)) [0..<length vals]"

definition terminal_events :: "bool \<Rightarrow> string \<Rightarrow> int \<Rightarrow> nat \<Rightarrow> json list" where
  "terminal_events ok region a n = map (\<lambda>j. terminal_event ok region (a + int j * 4)) [0..<n]"

lemma show_reads_live:
  assumes "show_reads fw opcode region a n w = (Inr (), w')" and "live w"
  shows "\<exists>vals s'. map_each (\<lambda>j. read_memory fw opcode (a + j * 4)) (py_range n) (w_serial w) = (Inr vals, s') \<and>
    length vals = nat n \<and> w' = w\<lparr>w_serial := s', w_sent := w_sent w @ actual_events region a vals\<rparr>"
proof -
  have "\<exists>vals s'. map_each (\<lambda>j. read_memory fw opcode (a + j * 4)) xs (w_serial w) = (Inr vals, s') \<and>
      length vals = length xs \<and> w' = w\<lparr>w_serial := s',
        w_sent := w_sent w @ map2 (\<lambda>j v. actual_event region (a + j * 4) v) xs vals\<rparr>"
    if "for_each (\<lambda>j. act_bind (on_port (read_memory fw opcode (a + j * 4))) (\<lambda>v.
        viz_send (actual_event region (a + j * 4) v))) xs w = (Inr (), w')" "live w" for xs
    using that
  proof (induction xs arbitrary: w)
    case Nil
    then show ?case by (auto simp: act_simps)
  next
    case (Cons j xs)
    obtain r s1 where m: "read_memory fw opcode (a + j * 4) (w_serial w) = (r, s1)"
      by (cases "read_memory fw opcode (a + j * 4) (w_serial w)")
    from Cons.prems m obtain v where v: "r = Inr v"
      by (cases r) (auto simp: act_bind_def on_port_def zoom_def)
    let ?w1 = "w\<lparr>w_serial := s1, w_sent := w_sent w @ [actual_event region (a + j * 4) v]\<rparr>"
    have "for_each (\<lambda>j. act_bind (on_port (read_memory fw opcode (a + j * 4))) (\<lambda>v.
        viz_send (actual_event region (a + j * 4) v))) xs ?w1 = (Inr (), w')"
      using Cons.prems m v by (simp add: act_simps on_port_at viz_send_live)
    from Cons.IH [OF this] Cons.prems(2) m v show ?case
      by (auto simp: act_bind_def act_return_def)
  qed
  from this [of "py_range n"] assms
  obtain vals s' where "map_each (\<lambda>j. read_memory fw opcode (a + j * 4)) (py_range n) (w_serial w) = (Inr vals, s')"
    "length vals = nat n" "w' = w\<lparr>w_serial := s',
        w_sent := w_sent w @ map2 (\<lambda>j v. actual_event region (a + j * 4) v) (py_range n) vals\<rparr>"
    by (auto simp: show_reads_def)
  moreover have "map2 (\<lambda>j v. actual_event region (a + j * 4) v) (py_range n) vals = actual_events region a vals"
    using calculation(2) by (intro nth_equalityI) (simp_all add: actual_events_def py_range_def)
  ultimately show ?thesis by auto
qed

lemma show_sweep_live:
  assumes "live w"
  shows "show_sweep ok region a n w
    = (Inr (), w\<lparr>w_sent := w_sent w @ terminal_events ok region a (nat n)\<rparr>)"
proof -
  have "for_each (\<lambda>j. viz_send (terminal_event ok region (a + j * 4))) xs w
      = (Inr (), w\<lparr>w_sent := w_sent w @ map (\<lambda>j. terminal_event ok region (a + j * 4)) xs\<rparr>)" for xs
    using assms
  proof (induction xs arbitrary: w)
    case Nil
    then show ?case by (simp add: act_simps)
  next
    case (Cons x xs)
    from Cons.IH [of "w\<lparr>w_sent := w_sent w @ [terminal_event ok region (a + x * 4)]\<rparr>"] Cons.prems
    show ?case by (simp add: act_simps viz_send_live)
  qed
  then show ?thesis by (simp add: show_sweep_def terminal_events_def py_range_def comp_def)
qed

definition transfer_events ::
  "int \<Rightarrow> transfer \<Rightarrow> int option list \<Rightarrow> int option list \<Rightarrow> bool \<Rightarrow> bool \<Rightarrow> json list" where
  "transfer_events idx t dvals svals dok sok =
     [header_event (transfer_label idx t),
      expected_event (dst_region t) (cells_from (dst_addr t) (expected_words t)),
      expected_event (src_region t) (cells_from (src_addr t) (expected_words t))]
     @ actual_events (dst_region t) (dst_addr t) dvals @ actual_events (src_region t) (src_addr t) svals
     @ terminal_events dok (dst_region t) (dst_addr t) (length dvals)
     @ terminal_events sok (src_region t) (src_addr t) (length svals)"

abbreviation reads_of :: "'d firmware \<Rightarrow> int \<Rightarrow> int \<Rightarrow> int \<Rightarrow> ('d serial, int option list) act" where
  "reads_of fw opcode a n \<equiv> map_each (\<lambda>j. read_memory fw opcode (a + j * 4)) (py_range n)"

lemma act_bind_InrE:
  assumes "act_bind m f s = (Inr x, t)"
  obtains y u where "m s = (Inr y, u)" and "f y u = (Inr x, t)"
  using assms by (auto simp: act_bind_def split: prod.splits sum.splits)

lemma on_portE:
  assumes "on_port m w = (Inr y, u)"
  obtains s where "m (w_serial w) = (Inr y, s)" and "u = w\<lparr>w_serial := s\<rparr>"
  using assms by (auto simp: on_port_def zoom_def split: prod.splits)

lemma announce_live:
  assumes "announce_transfer fw idx t w = (Inr (), w')" and "live w"
    and "len_words t = int (length (expected_words t))"
  obtains dvals svals s1 s2 where
    "reads_of fw (if direction t = 1 then CMD_READ_SRAM else CMD_READ_SYSMEM) (dst_addr t) (len_words t) (w_serial w) = (Inr dvals, s1)"
    "reads_of fw (if direction t = 1 then CMD_READ_SYSMEM else CMD_READ_SRAM) (src_addr t) (len_words t) s1 = (Inr svals, s2)"
    "length dvals = nat (len_words t)" "length svals = nat (len_words t)"
    "w' = w\<lparr>w_serial := s2, w_sent := w_sent w @
      [header_event (transfer_label idx t),
       expected_event (dst_region t) (cells_from (dst_addr t) (expected_words t)),
       expected_event (src_region t) (cells_from (src_addr t) (expected_words t))]
      @ actual_events (dst_region t) (dst_addr t) dvals @ actual_events (src_region t) (src_addr t) svals\<rparr>"
proof -
  let ?w1 = "w\<lparr>w_sent := w_sent w @ [header_event (transfer_label idx t),
       expected_event (dst_region t) (cells_from (dst_addr t) (expected_words t)),
       expected_event (src_region t) (cells_from (src_addr t) (expected_words t))]\<rparr>"
  have "act_bind (show_reads fw (if direction t = 1 then CMD_READ_SRAM else CMD_READ_SYSMEM) (dst_region t) (dst_addr t) (len_words t))
      (\<lambda>_. show_reads fw (if direction t = 1 then CMD_READ_SYSMEM else CMD_READ_SRAM) (src_region t) (src_addr t) (len_words t)) ?w1
      = (Inr (), w')"
    using assms(1,2) by (simp add: announce_transfer_def announced_cells_all [OF assms(3)] act_simps viz_send_live)
  then obtain w2 where
    "show_reads fw (if direction t = 1 then CMD_READ_SRAM else CMD_READ_SYSMEM) (dst_region t) (dst_addr t) (len_words t) ?w1 = (Inr (), w2)"
    and b: "show_reads fw (if direction t = 1 then CMD_READ_SYSMEM else CMD_READ_SRAM) (src_region t) (src_addr t) (len_words t) w2 = (Inr (), w')"
    by (auto elim: act_bind_InrE)
  from show_reads_live [OF this(1)] assms(2) obtain dvals s1 where
    a: "reads_of fw (if direction t = 1 then CMD_READ_SRAM else CMD_READ_SYSMEM) (dst_addr t) (len_words t) (w_serial w) = (Inr dvals, s1)"
      "length dvals = nat (len_words t)" "w2 = ?w1\<lparr>w_serial := s1, w_sent := w_sent ?w1 @ actual_events (dst_region t) (dst_addr t) dvals\<rparr>"
    by auto
  from show_reads_live [OF b] assms(2) a(3) obtain svals s2 where
    "reads_of fw (if direction t = 1 then CMD_READ_SYSMEM else CMD_READ_SRAM) (src_addr t) (len_words t) s1 = (Inr svals, s2)"
      "length svals = nat (len_words t)" "w' = w2\<lparr>w_serial := s2, w_sent := w_sent w2 @ actual_events (src_region t) (src_addr t) svals\<rparr>"
    by auto
  with a show thesis by (intro that) auto
qed

lemma watch_transfer_live:
  assumes "watch_transfer fw idx t w = (Inr ok, w')" and "live w" and "len_words t \<noteq> 0"
    and "len_words t = int (length (expected_words t))"
  obtains dvals svals val cd cs s1 s2 s3 s4 s5 crc where
    "compute_crc32 (expected_words t) = Inr crc"
    "reads_of fw (if direction t = 1 then CMD_READ_SRAM else CMD_READ_SYSMEM) (dst_addr t) (len_words t) (w_serial w) = (Inr dvals, s1)"
    "reads_of fw (if direction t = 1 then CMD_READ_SYSMEM else CMD_READ_SRAM) (src_addr t) (len_words t) s1 = (Inr svals, s2)"
    "length dvals = nat (len_words t)" "length svals = nat (len_words t)"
    "read_memory fw (if direction t = 1 then CMD_READ_SRAM else CMD_READ_SYSMEM) (dst_addr t) s2 = (Inr val, s3)"
    "request_crc fw (if direction t = 1 then CMD_CRC_SRAM else CMD_CRC_SYSMEM) (dst_addr t) (len_words t * 4) s3 = (Inr cd, s4)"
    "request_crc fw (if direction t = 1 then CMD_CRC_SYSMEM else CMD_CRC_SRAM) (src_addr t) (len_words t * 4) s4 = (Inr cs, s5)"
    "w' = w\<lparr>w_serial := s5, w_sent := w_sent w @ transfer_events idx t dvals svals (cd = Some crc) (cs = Some crc)\<rparr>"
    "ok \<longleftrightarrow> val = Some (expected_words t ! 0) \<and> cd = Some crc \<and> cs = Some crc"
proof -
  have first: "py_getitem (expected_words t) 0 = Inr (expected_words t ! 0)" using assms(3,4) by simp
  obtain crc where crc: "compute_crc32 (expected_words t) = Inr crc"
    using assms(1,3) by (cases "compute_crc32 (expected_words t)") (auto simp: watch_transfer_def act_simps)
  let ?rop = "if direction t = 1 then CMD_READ_SRAM else CMD_READ_SYSMEM"
    and ?dop = "if direction t = 1 then CMD_CRC_SRAM else CMD_CRC_SYSMEM"
    and ?sop = "if direction t = 1 then CMD_CRC_SYSMEM else CMD_CRC_SRAM"
  have run: "act_bind (announce_transfer fw idx t) (\<lambda>_.
      act_bind (on_port (read_memory fw ?rop (dst_addr t))) (\<lambda>val.
      act_bind (act_read (\<lambda>_. case val of None \<Rightarrow> Inr False
        | Some v \<Rightarrow> res_bind (py_getitem (expected_words t) 0) (\<lambda>w. Inr (v = w)))) (\<lambda>word_ok.
      act_bind (on_port (request_crc fw ?dop (dst_addr t) (len_words t * 4))) (\<lambda>cd.
      act_bind (on_port (request_crc fw ?sop (src_addr t) (len_words t * 4))) (\<lambda>cs.
      act_bind (act_gets w_enabled) (\<lambda>still.
      act_bind (if still then act_bind (show_sweep (cd = Some crc) (dst_region t) (dst_addr t) (len_words t))
          (\<lambda>_. show_sweep (cs = Some crc) (src_region t) (src_addr t) (len_words t))
        else act_return ()) (\<lambda>_.
        act_return (word_ok \<and> cd = Some crc \<and> cs = Some crc)))))))) w = (Inr ok, w')"
    using assms(1-3) crc by (cases "direction t = 1") (simp_all add: watch_transfer_def act_simps live_def Let_def)
  obtain w1 val s3 cd s4 cs s5 word_ok where a: "announce_transfer fw idx t w = (Inr (), w1)"
    and b: "read_memory fw ?rop (dst_addr t) (w_serial w1) = (Inr val, s3)"
      "request_crc fw ?dop (dst_addr t) (len_words t * 4) s3 = (Inr cd, s4)"
      "request_crc fw ?sop (src_addr t) (len_words t * 4) s4 = (Inr cs, s5)"
    and c: "act_bind (if w_enabled w1 then act_bind (show_sweep (cd = Some crc) (dst_region t) (dst_addr t) (len_words t))
          (\<lambda>_. show_sweep (cs = Some crc) (src_region t) (src_addr t) (len_words t))
        else act_return ()) (\<lambda>_. act_return (word_ok \<and> cd = Some crc \<and> cs = Some crc))
      (w1\<lparr>w_serial := s5\<rparr>) = (Inr ok, w')"
    and word: "word_ok \<longleftrightarrow> val = Some (expected_words t ! 0)"
    using run by (elim act_bind_InrE on_portE) (auto simp: act_simps first split: option.splits)
  from announce_live [OF a assms(2,4)] obtain dvals svals s1 s2 where d:
    "reads_of fw ?rop (dst_addr t) (len_words t) (w_serial w) = (Inr dvals, s1)"
    "reads_of fw (if direction t = 1 then CMD_READ_SYSMEM else CMD_READ_SRAM) (src_addr t) (len_words t) s1 = (Inr svals, s2)"
    "length dvals = nat (len_words t)" "length svals = nat (len_words t)"
    "w1 = w\<lparr>w_serial := s2, w_sent := w_sent w @
      [header_event (transfer_label idx t),
       expected_event (dst_region t) (cells_from (dst_addr t) (expected_words t)),
       expected_event (src_region t) (cells_from (src_addr t) (expected_words t))]
      @ actual_events (dst_region t) (dst_addr t) dvals @ actual_events (src_region t) (src_addr t) svals\<rparr>"
    by metis
  have "live w1" "w_enabled w1" using assms(2) d(5) by (simp_all add: live_def)
  with c d have "w' = w\<lparr>w_serial := s5, w_sent := w_sent w @ transfer_events idx t dvals svals (cd = Some crc) (cs = Some crc)\<rparr>"
    and "ok \<longleftrightarrow> val = Some (expected_words t ! 0) \<and> cd = Some crc \<and> cs = Some crc"
    using word by (auto simp: act_simps show_sweep_live transfer_events_def)
  with crc d b show thesis by (intro that) auto
qed

section \<open>What the viewer makes of it\<close>

lemma regions_apart: "dst_region t \<noteq> src_region t"
  by (simp add: dst_region_def src_region_def)

definition region_cells :: "int \<Rightarrow> int list \<Rightarrow> viz_cell list" where
  "region_cells a ws = map (\<lambda>j. \<lparr>vc_addr = JInt (a + int j * 4), vc_value = JInt (ws ! j), vc_status = ''shown''\<rparr>)
     [0..<length ws]"

definition checked_cells :: "int \<Rightarrow> int option list \<Rightarrow> bool \<Rightarrow> viz_cell list" where
  "checked_cells a vals ok = map (\<lambda>j. \<lparr>vc_addr = JInt (a + int j * 4),
     vc_value = JInt (case vals ! j of None \<Rightarrow> 0 | Some x \<Rightarrow> x), vc_status = (if ok then ''match'' else ''fail'')\<rparr>)
     [0..<length vals]"

lemma handler_runs:
  assumes "map_of ev ''type'' = Some (JStr ty)" and "HANDLERS ty = Some h" and "h ev s = (Inr (), s')"
  shows "read_event (Message (JDict ev)) s = (Inr (), s')"
  using assms by (simp add: read_event_def find_handler_def act_simps act_catch_def)

lemma viewer_header:
  "read_event (Message (header_event label)) s = (Inr (), s\<lparr>header_text := JStr label\<rparr>)"
  unfolding header_event_def
  by (rule handler_runs [OF _ handler_names(1)]) (simp_all add: on_header_def act_simps)

lemma viewer_expected:
  "read_event (Message (expected_event region (cells_from a ws))) s = (Inr (), s\<lparr>tables := (tables s)
     ((''expected'', JStr region) \<mapsto> region_cells a ws,
      (''actual'', JStr region) \<mapsto> pending_cells (map (\<lambda>(x, v). (JInt x, JInt v)) (cells_from a ws)))\<rparr>)"
proof -
  define ps where "ps = map (\<lambda>(x, v). (JInt x, JInt v)) (cells_from a ws)"
  have items: "map (\<lambda>(x, v). JList [JInt x, JInt v]) (cells_from a ws) = map (\<lambda>(x, v). JList [x, v]) ps"
    by (simp add: ps_def case_prod_unfold)
  have shown: "map (\<lambda>(a, v). \<lparr>vc_addr = a, vc_value = v, vc_status = ''shown''\<rparr>) ps = region_cells a ws"
    by (simp add: ps_def region_cells_def cells_from_def)
  show ?thesis
    unfolding expected_event_def items ps_def [symmetric]
    by (rule handler_runs [OF _ handler_names(2)])
      (simp_all add: on_expected_def act_simps ev_item_def map_each_unpacked shown
        pending_cells_def fun_upd_def cong: if_cong)
qed

lemma viewer_actual:
  assumes "tables s (''actual'', JStr region) = Some cs"
    and "mark_cell (JInt a) (\<lambda>c. c\<lparr>vc_value := JInt (case v of None \<Rightarrow> 0 | Some x \<Rightarrow> x), vc_status := ''filled''\<rparr>) cs = Some cs'"
  shows "read_event (Message (actual_event region a v)) s
    = (Inr (), s\<lparr>tables := (tables s)((''actual'', JStr region) \<mapsto> cs')\<rparr>)"
  unfolding actual_event_def
  by (rule handler_runs [OF _ handler_names(3)]) (simp_all add: on_actual_def act_simps ev_item_def assms)

lemma viewer_terminal:
  assumes "tables s (''actual'', JStr region) = Some cs"
    and "mark_cell (JInt a) (\<lambda>c. c\<lparr>vc_status := (if ok then ''match'' else ''fail'')\<rparr>) cs = Some cs'"
  shows "read_event (Message (terminal_event ok region a)) s
    = (Inr (), s\<lparr>tables := (tables s)((''actual'', JStr region) \<mapsto> cs')\<rparr>)"
  unfolding terminal_event_def
  by (rule handler_runs [OF _ handler_names(4)])
    (simp, use assms in \<open>cases ok; simp add: on_terminal_def act_simps ev_item_def\<close>)

text \<open>The reads of a region, and its final sweep.\<close>

lemma viewer_fills:
  assumes "tables s (''actual'', JStr region) = Some (pending_cells (map (\<lambda>(x, v). (JInt x, JInt v)) (cells_from a ws)))"
    and "length vals = length ws"
  shows "stdin_reader (map Message (actual_events region a vals)) s = (Inr (), s\<lparr>tables := (tables s)
    ((''actual'', JStr region) \<mapsto> map (\<lambda>j. \<lparr>vc_addr = JInt (a + int j * 4),
      vc_value = JInt (case vals ! j of None \<Rightarrow> 0 | Some x \<Rightarrow> x), vc_status = ''filled''\<rparr>) [0..<length vals])\<rparr>)"
  using marking_sweep [of s "JStr region" "\<lambda>j. \<lparr>vc_addr = JInt (a + int j * 4), vc_value = JNull, vc_status = ''pending''\<rparr>"
      "length vals" "\<lambda>j. JInt (a + int j * 4)"
      "\<lambda>j c. c\<lparr>vc_value := JInt (case vals ! j of None \<Rightarrow> 0 | Some x \<Rightarrow> x), vc_status := ''filled''\<rparr>"
      "\<lambda>j. actual_event region (a + int j * 4) (vals ! j)"] assms viewer_actual
  by (simp add: actual_events_def comp_def pending_cells_def cells_from_def inj_def)

lemma viewer_sweeps:
  assumes "tables s (''actual'', JStr region) = Some (map (\<lambda>j. \<lparr>vc_addr = JInt (a + int j * 4),
      vc_value = JInt (case vals ! j of None \<Rightarrow> 0 | Some x \<Rightarrow> x), vc_status = ''filled''\<rparr>) [0..<length vals])"
  shows "stdin_reader (map Message (terminal_events ok region a (length vals))) s = (Inr (), s\<lparr>tables := (tables s)
    ((''actual'', JStr region) \<mapsto> checked_cells a vals ok)\<rparr>)"
  using marking_sweep [of s "JStr region" "\<lambda>j. \<lparr>vc_addr = JInt (a + int j * 4),
      vc_value = JInt (case vals ! j of None \<Rightarrow> 0 | Some x \<Rightarrow> x), vc_status = ''filled''\<rparr>"
      "length vals" "\<lambda>j. JInt (a + int j * 4)"
      "\<lambda>j c. c\<lparr>vc_status := (if ok then ''match'' else ''fail'')\<rparr>"
      "\<lambda>j. terminal_event ok region (a + int j * 4)"] assms viewer_terminal
  by (simp add: terminal_events_def comp_def checked_cells_def inj_def)

lemma reader_append:
  "stdin_reader ls s = (Inr (), t) \<Longrightarrow> stdin_reader (ls @ ms) s = stdin_reader ms t"
  by (simp add: stdin_reader_def for_each_append act_simps)

lemma viewer_reads_transfer:
  assumes "length dvals = length (expected_words t)" and "length svals = length (expected_words t)"
  shows "stdin_reader (map Message (transfer_events idx t dvals svals dok sok)) s = (Inr (),
    s\<lparr>header_text := JStr (transfer_label idx t), tables := (tables s)
      ((''expected'', JStr (dst_region t)) \<mapsto> region_cells (dst_addr t) (expected_words t),
       (''expected'', JStr (src_region t)) \<mapsto> region_cells (src_addr t) (expected_words t),
       (''actual'', JStr (dst_region t)) \<mapsto> checked_cells (dst_addr t) dvals dok,
       (''actual'', JStr (src_region t)) \<mapsto> checked_cells (src_addr t) svals sok)\<rparr>)"
proof -
  define pend where "pend = (\<lambda>a. pending_cells (map (\<lambda>(x, v). (JInt x, JInt v)) (cells_from a (expected_words t))))"
  define fill where "fill = (\<lambda>a vals. map (\<lambda>j. \<lparr>vc_addr = JInt (a + int j * 4),
      vc_value = JInt (case vals ! j of None \<Rightarrow> 0 | Some x \<Rightarrow> x), vc_status = ''filled''\<rparr>) [0..<length vals])"
  define T where "T = (\<lambda>d s'. (tables s)
      ((''expected'', JStr (dst_region t)) \<mapsto> region_cells (dst_addr t) (expected_words t),
       (''expected'', JStr (src_region t)) \<mapsto> region_cells (src_addr t) (expected_words t),
       (''actual'', JStr (dst_region t)) \<mapsto> d, (''actual'', JStr (src_region t)) \<mapsto> s'))"
  let ?t = "\<lambda>d s'. s\<lparr>header_text := JStr (transfer_label idx t), tables := T d s'\<rparr>"
  note apart = regions_apart [of t] regions_apart [of t, symmetric]
  have T: "T d q (''actual'', JStr (dst_region t)) = Some d" "T d q (''actual'', JStr (src_region t)) = Some q"
    "(T d q)((''actual'', JStr (dst_region t)) \<mapsto> d') = T d' q"
    "(T d q)((''actual'', JStr (src_region t)) \<mapsto> q') = T d q'" for d q d' q'
    by (simp_all add: T_def apart fun_upd_twist)
  have announced: "stdin_reader [Message (header_event (transfer_label idx t)),
      Message (expected_event (dst_region t) (cells_from (dst_addr t) (expected_words t))),
      Message (expected_event (src_region t) (cells_from (src_addr t) (expected_words t)))] s
      = (Inr (), ?t (pend (dst_addr t)) (pend (src_addr t)))"
    by (simp add: stdin_reader_def act_simps viewer_header viewer_expected pend_def T_def)
      (rule arg_cong [where f = "\<lambda>T. s\<lparr>header_text := JStr (transfer_label idx t), tables := T\<rparr>"],
        rule ext, simp add: apart)
  have fill_d: "stdin_reader (map Message (actual_events (dst_region t) (dst_addr t) dvals)) (?t (pend (dst_addr t)) q)
      = (Inr (), ?t (fill (dst_addr t) dvals) q)" for q
    using viewer_fills [of "?t (pend (dst_addr t)) q" "dst_region t" "dst_addr t" "expected_words t" dvals] assms(1)
    by (simp add: pend_def fill_def T)
  have fill_s: "stdin_reader (map Message (actual_events (src_region t) (src_addr t) svals)) (?t d (pend (src_addr t)))
      = (Inr (), ?t d (fill (src_addr t) svals))" for d
    using viewer_fills [of "?t d (pend (src_addr t))" "src_region t" "src_addr t" "expected_words t" svals] assms(2)
    by (simp add: pend_def fill_def T)
  have sweep_d: "stdin_reader (map Message (terminal_events dok (dst_region t) (dst_addr t) (length dvals))) (?t (fill (dst_addr t) dvals) q)
      = (Inr (), ?t (checked_cells (dst_addr t) dvals dok) q)" for q
    using viewer_sweeps [of "?t (fill (dst_addr t) dvals) q" "dst_region t" "dst_addr t" dvals dok]
    by (simp add: fill_def T)
  have sweep_s: "stdin_reader (map Message (terminal_events sok (src_region t) (src_addr t) (length svals))) (?t d (fill (src_addr t) svals))
      = (Inr (), ?t d (checked_cells (src_addr t) svals sok))" for d
    using viewer_sweeps [of "?t d (fill (src_addr t) svals)" "src_region t" "src_addr t" svals sok]
    by (simp add: fill_def T)
  have "map Message (transfer_events idx t dvals svals dok sok) =
      [Message (header_event (transfer_label idx t)),
       Message (expected_event (dst_region t) (cells_from (dst_addr t) (expected_words t))),
       Message (expected_event (src_region t) (cells_from (src_addr t) (expected_words t)))] @
      map Message (actual_events (dst_region t) (dst_addr t) dvals) @
      map Message (actual_events (src_region t) (src_addr t) svals) @
      map Message (terminal_events dok (dst_region t) (dst_addr t) (length dvals)) @
      map Message (terminal_events sok (src_region t) (src_addr t) (length svals))"
    by (simp add: transfer_events_def)
  then show ?thesis
    by (simp only: reader_append [OF announced] reader_append [OF fill_d] reader_append [OF fill_s]
        reader_append [OF sweep_d] sweep_s) (simp add: T_def)
qed

section \<open>On a board\<close>

text \<open>The messages of a transfer on memories with these words.\<close>

definition memory_events :: "int list \<Rightarrow> int list \<Rightarrow> int \<Rightarrow> transfer \<Rightarrow> json list" where
  "memory_events dst src idx t = (if len_words t = 0 then [] else
     let dws = load_block dst (cell (dst_addr t)) (nat (len_words t));
         sws = load_block src (cell (src_addr t)) (nat (len_words t))
     in transfer_events idx t (map Some dws) (map Some sws) (block_crc dws = block_crc (expected_words t))
          (block_crc sws = block_crc (expected_words t)))"

context dual_memory
begin

lemma host_reads_values:
  assumes "ascii_printf say"
    and "read_op = CMD_READ_SYSMEM \<and> m = sys_cells v \<or> read_op = CMD_READ_SRAM \<and> m = ram_cells v"
    and "range_ok a n m" and "stands ready view s v"
  shows "\<exists>s'. reads_of (uart_firmware bus say) read_op a (int n) s
      = (Inr (map Some (load_block m (cell a) n)), s') \<and> stands ready view s' v"
proof -
  have "\<exists>s'. map_each (\<lambda>j. read_memory (uart_firmware bus say) read_op (a + j * 4)) (map int is) s
      = (Inr (map (\<lambda>i. Some (m ! (cell a + i))) is), s') \<and> stands ready view s' v"
    if "\<forall>i \<in> set is. i < n" for "is"
    using assms(4) that
  proof (induction "is" arbitrary: s)
    case Nil
    then show ?case by (simp add: act_simps)
  next
    case (Cons i "is")
    have "holds (a + 4 * int i) m" and c: "cell (a + 4 * int i) = cell a + i"
      using assms(3) Cons.prems(2) by (simp_all add: range_ok_def holds_def cell_offset)
    then obtain s1 where "read_memory (uart_firmware bus say) read_op (a + int i * 4) s
        = (Inr (Some (m ! (cell a + i))), s1)" "stands ready view s1 v"
      using assms(1,2) Cons.prems(1) sys.host_reads_cell [of s v "a + 4 * int i"]
        ram.host_reads_cell [of s v "a + 4 * int i"] by (auto simp: mult.commute)
    with Cons.IH [of s1] Cons.prems(2) show ?case by (auto simp: act_bind_def act_return_def)
  qed
  moreover have "map (\<lambda>i. Some (m ! (cell a + i))) [0..<n] = map Some (load_block m (cell a) n)"
    using assms(3) by (intro nth_equalityI) (simp_all add: range_ok_def load_block_nth)
  ultimately show ?thesis by (metis atLeastLessThan_iff nat_int py_range_def set_upt)
qed

lemma host_watches:
  assumes "ascii_printf say" and "stands ready view (w_serial w) v"
    and "checkable (dst_of t v) (src_of t v) t"
  shows "\<exists>w'. watch_transfer (uart_firmware bus say) idx t w = (Inr (verdict (dst_of t v) (src_of t v) t), w') \<and>
    stands ready view (w_serial w') v \<and>
    (live w \<longrightarrow> live w' \<and> w_sent w' = w_sent w @ memory_events (dst_of t v) (src_of t v) idx t)"
proof (cases "len_words t = 0")
  case True
  with assms(2) show ?thesis by (simp add: watch_transfer_def verdict_def act_simps memory_events_def)
next
  case False
  let ?fw = "uart_firmware bus say" and ?n = "nat (len_words t)"
  have n: "int ?n = len_words t" "0 < ?n" "int ?n * 4 < 2 ^ 32"
    and r: "range_ok (dst_addr t) ?n (dst_of t v)" "range_ok (src_addr t) ?n (src_of t v)"
    and e: "u32s (expected_words t)" "length (expected_words t) = ?n"
    using assms(3) False by (simp_all add: checkable_def)
  have len: "len_words t = int (length (expected_words t))" using n(1) e(2) by simp
  obtain s' where s': "verify_one_transfer ?fw (w_enabled w) t (w_serial w)
      = (Inr (verdict (dst_of t v) (src_of t v) t), s')" "stands ready view s' v"
    using host_verifies [OF assms] by blast
  obtain w' where w': "watch_transfer ?fw idx t w = (Inr (verdict (dst_of t v) (src_of t v) t), w')" "w_serial w' = s'"
    using watch_follows [OF len, of ?fw w idx] s'(1) by (cases "watch_transfer ?fw idx t w") auto
  have "live w' \<and> w_sent w' = w_sent w @ memory_events (dst_of t v) (src_of t v) idx t" if live: "live w"
  proof -
    let ?rop = "if direction t = 1 then CMD_READ_SRAM else CMD_READ_SYSMEM"
      and ?sop = "if direction t = 1 then CMD_READ_SYSMEM else CMD_READ_SRAM"
    obtain dvals svals val cd cs s1 s2 s3 s4 s5 crc where
      crc: "compute_crc32 (expected_words t) = Inr crc" and
      d: "reads_of ?fw ?rop (dst_addr t) (len_words t) (w_serial w) = (Inr dvals, s1)" and
      s: "reads_of ?fw ?sop (src_addr t) (len_words t) s1 = (Inr svals, s2)" and
      a: "read_memory ?fw ?rop (dst_addr t) s2 = (Inr val, s3)" and
      b: "request_crc ?fw (if direction t = 1 then CMD_CRC_SRAM else CMD_CRC_SYSMEM) (dst_addr t) (len_words t * 4) s3 = (Inr cd, s4)" and
      c: "request_crc ?fw (if direction t = 1 then CMD_CRC_SYSMEM else CMD_CRC_SRAM) (src_addr t) (len_words t * 4) s4 = (Inr cs, s5)" and
      out: "w' = w\<lparr>w_serial := s5, w_sent := w_sent w @ transfer_events idx t dvals svals (cd = Some crc) (cs = Some crc)\<rparr>"
      by (rule watch_transfer_live [OF w'(1) live False len])
    have crc': "crc = block_crc (expected_words t)"
      using crc e(1) by (simp add: compute_crc32_words block_crc_def)
    obtain q1 where "reads_of ?fw ?rop (dst_addr t) (len_words t) (w_serial w)
        = (Inr (map Some (load_block (dst_of t v) (cell (dst_addr t)) ?n)), q1)" "stands ready view q1 v"
      using host_reads_values [OF assms(1) _ r(1) assms(2), unfolded n(1)] by (cases "direction t = 1") auto
    with d have st1: "dvals = map Some (load_block (dst_of t v) (cell (dst_addr t)) ?n)" "stands ready view s1 v"
      by simp_all
    obtain q2 where "reads_of ?fw ?sop (src_addr t) (len_words t) s1
        = (Inr (map Some (load_block (src_of t v) (cell (src_addr t)) ?n)), q2)" "stands ready view q2 v"
      using host_reads_values [OF assms(1) _ r(2) st1(2), unfolded n(1)] by (cases "direction t = 1") auto
    with s have st2: "svals = map Some (load_block (src_of t v) (cell (src_addr t)) ?n)" "stands ready view s2 v"
      by simp_all
    have hold: "holds (dst_addr t) (dst_of t v)" by (rule range_holds [OF r(1) n(2)])
    have st3: "stands ready view s3 v"
      using sys.host_reads_cell [OF assms(1) st2(2)] ram.host_reads_cell [OF assms(1) st2(2)] hold a
      by (cases "direction t = 1") force+
    have st4: "cd = Some (block_crc (load_block (dst_of t v) (cell (dst_addr t)) ?n))" "stands ready view s4 v"
      using sys.host_requests_crc [OF assms(1) st3 _ n(2,3), unfolded n(1)]
        ram.host_requests_crc [OF assms(1) st3 _ n(2,3), unfolded n(1)] r(1) b
      by (cases "direction t = 1"; force)+
    have st5: "cs = Some (block_crc (load_block (src_of t v) (cell (src_addr t)) ?n))"
      using sys.host_requests_crc [OF assms(1) st4(2) _ n(2,3), unfolded n(1)]
        ram.host_requests_crc [OF assms(1) st4(2) _ n(2,3), unfolded n(1)] r(2) c
      by (cases "direction t = 1"; force)
    show ?thesis
      using live False by (simp add: out memory_events_def Let_def crc' st1(1) st2(1) st4(1) st5)
  qed
  with w' s'(2) show ?thesis by auto
qed

lemma host_watches_all:
  assumes "ascii_printf say" and "\<forall>t \<in> set ts. checkable (dst_of t v) (src_of t v) t"
    and "stands ready view (w_serial w) v"
  shows "\<exists>w'. map_each (\<lambda>(idx, t). watch_transfer (uart_firmware bus say) (int idx) t) (List.enumerate k ts) w
      = (Inr (map (\<lambda>t. verdict (dst_of t v) (src_of t v) t) ts), w') \<and> stands ready view (w_serial w') v \<and>
    (live w \<longrightarrow> live w' \<and>
      w_sent w' = w_sent w @ concat (map (\<lambda>(idx, t). memory_events (dst_of t v) (src_of t v) (int idx) t) (List.enumerate k ts)))"
  using assms(2,3)
proof (induction ts arbitrary: w k)
  case Nil
  then show ?case by (simp add: act_simps)
next
  case (Cons t ts)
  obtain w1 where "watch_transfer (uart_firmware bus say) (int k) t w
      = (Inr (verdict (dst_of t v) (src_of t v) t), w1)" "stands ready view (w_serial w1) v"
      "live w \<longrightarrow> live w1 \<and> w_sent w1 = w_sent w @ memory_events (dst_of t v) (src_of t v) (int k) t"
    using host_watches [OF assms(1) Cons.prems(2), of t "int k"] Cons.prems(1) by auto
  with Cons.IH [of w1 "Suc k"] Cons.prems(1) show ?case by (auto simp: act_bind_def act_return_def)
qed

end

section \<open>The display after a session\<close>

text \<open>Every cell of both tables of a region agrees, and is marked as a match.\<close>

definition matched :: "viewer \<Rightarrow> string \<Rightarrow> bool" where
  "matched s region \<longleftrightarrow> (\<exists>es as. tables s (''expected'', JStr region) = Some es \<and>
     tables s (''actual'', JStr region) = Some as \<and>
     list_all2 (\<lambda>e a. vc_addr a = vc_addr e \<and> vc_value a = vc_value e \<and> vc_status a = ''match'') es as)"

lemma matching_cells:
  "list_all2 (\<lambda>e a. vc_addr a = vc_addr e \<and> vc_value a = vc_value e \<and> vc_status a = ''match'')
     (region_cells a ws) (checked_cells a (map Some ws) True)"
  by (simp add: region_cells_def checked_cells_def list_all2_conv_all_nth)

lemma matching_transfer:
  assumes "matched s ''sram''" and "matched s ''smem''"
    and "len_words t = 0 \<or> load_block dst (cell (dst_addr t)) (nat (len_words t)) = expected_words t \<and>
      load_block src (cell (src_addr t)) (nat (len_words t)) = expected_words t"
  obtains s' where "stdin_reader (map Message (memory_events dst src idx t)) s = (Inr (), s')"
    and "matched s' ''sram''" and "matched s' ''smem''"
proof (cases "len_words t = 0")
  case True
  with assms(1,2) that show thesis by (simp add: memory_events_def stdin_reader_def act_simps)
next
  case False
  then have "memory_events dst src idx t
      = transfer_events idx t (map Some (expected_words t)) (map Some (expected_words t)) True True"
    using assms(3) by (simp add: memory_events_def Let_def)
  with viewer_reads_transfer [of "map Some (expected_words t)" t "map Some (expected_words t)" idx True True s]
  obtain s' where s': "stdin_reader (map Message (memory_events dst src idx t)) s = (Inr (), s')"
    "tables s' (''expected'', JStr (dst_region t)) = Some (region_cells (dst_addr t) (expected_words t))"
    "tables s' (''expected'', JStr (src_region t)) = Some (region_cells (src_addr t) (expected_words t))"
    "tables s' (''actual'', JStr (dst_region t)) = Some (checked_cells (dst_addr t) (map Some (expected_words t)) True)"
    "tables s' (''actual'', JStr (src_region t)) = Some (checked_cells (src_addr t) (map Some (expected_words t)) True)"
    using regions_apart [of t] by simp
  then have "matched s' (dst_region t)" "matched s' (src_region t)"
    using matching_cells by (auto simp: matched_def)
  then have "matched s' ''sram''" "matched s' ''smem''"
    by (auto simp: dst_region_def src_region_def split: if_splits)
  with s'(1) show thesis by (rule that)
qed

lemma matching_transfers:
  assumes "matched s ''sram''" and "matched s ''smem''"
    and "\<forall>t \<in> set ts. load_block (dst t) (cell (dst_addr t)) (nat (len_words t)) = expected_words t \<and>
      load_block (src t) (cell (src_addr t)) (nat (len_words t)) = expected_words t"
  shows "\<exists>s'. stdin_reader (map Message (concat (map (\<lambda>(idx, t). memory_events (dst t) (src t) (int idx) t)
      (List.enumerate k ts)))) s = (Inr (), s') \<and> matched s' ''sram'' \<and> matched s' ''smem''"
  using assms
proof (induction ts arbitrary: s k)
  case Nil
  then show ?case by (simp add: stdin_reader_def act_simps)
next
  case (Cons t ts)
  have "len_words t = 0 \<or> load_block (dst t) (cell (dst_addr t)) (nat (len_words t)) = expected_words t \<and>
      load_block (src t) (cell (src_addr t)) (nat (len_words t)) = expected_words t"
    using Cons.prems(3) by simp
  from matching_transfer [OF Cons.prems(1,2) this] obtain s1 where
    s1: "stdin_reader (map Message (memory_events (dst t) (src t) (int k) t)) s = (Inr (), s1)"
      "matched s1 ''sram''" "matched s1 ''smem''" by blast
  from Cons.IH [OF s1(2,3), of "Suc k"] Cons.prems(3) reader_append [OF s1(1)] show ?case by simp
qed

section \<open>The viewer on or off\<close>

lemma send_preserves: "preserves live (viz_send ev)" "preserves (\<lambda>w. \<not> w_enabled w) (viz_send ev)"
  by (auto simp: preserves_def live_def viz_send_def act_simps)

lemma port_preserves: "preserves live (on_port m)" "preserves (\<lambda>w. \<not> w_enabled w) (on_port m)"
  by (auto simp: preserves_def live_def on_port_def zoom_def split: prod.split)

lemma watch_preserves:
  assumes send: "\<And>ev. preserves I (viz_send ev)" and port: "\<And>m :: ('d serial, int option) act. preserves I (on_port m)"
  shows "preserves I (watch_transfer (fw :: 'd firmware) idx t)"
proof -
  have sweep: "preserves I (show_sweep ok region a n)" for ok region a n
    unfolding show_sweep_def by (intro pres send)
  have reads: "preserves I (show_reads fw opcode region a n)" for opcode region a n
    unfolding show_reads_def by (intro pres send port)
  have cells: "preserves I (announced_cells a ws n)" for a ws n
    unfolding announced_cells_def by (intro pres)
  have ann: "preserves I (announce_transfer fw idx t)"
    unfolding announce_transfer_def Let_def by (intro pres send cells reads)
  show ?thesis
    unfolding watch_transfer_def Let_def prod.case_distrib
    by (auto intro!: pres port ann sweep split: prod.split)
qed

lemma watch_all_follows:
  assumes "\<forall>t \<in> set ts. len_words t = int (length (expected_words t))" and "live w \<or> \<not> w_enabled w"
  shows "map_each (verify_one_transfer fw (w_enabled w)) ts (w_serial w)
    = (fst (map_each (\<lambda>(idx, t). watch_transfer fw (int idx) t) (List.enumerate k ts) w),
       w_serial (snd (map_each (\<lambda>(idx, t). watch_transfer fw (int idx) t) (List.enumerate k ts) w)))"
  using assms
proof (induction ts arbitrary: w k)
  case Nil
  then show ?case by (simp add: act_simps)
next
  case (Cons t ts)
  obtain r w1 where w1: "watch_transfer fw (int k) t w = (r, w1)" by (cases "watch_transfer fw (int k) t w")
  have v: "verify_one_transfer fw (w_enabled w) t (w_serial w) = (r, w_serial w1)"
    using watch_follows [of t fw w "int k"] Cons.prems(1) w1 by simp
  have "live w \<longrightarrow> live w1" "\<not> w_enabled w \<longrightarrow> \<not> w_enabled w1"
    using preservesD [OF watch_preserves [OF send_preserves(1) port_preserves(1)], of w fw "int k" t]
      preservesD [OF watch_preserves [OF send_preserves(2) port_preserves(2)], of w fw "int k" t] w1 by simp_all
  then have w1': "live w1 \<or> \<not> w_enabled w1" "w_enabled w1 = w_enabled w"
    using Cons.prems(2) by (auto simp: live_def)
  show ?case
  proof (cases r)
    case (Inl e)
    with v w1 show ?thesis by (simp add: act_simps)
  next
    case (Inr x)
    obtain q w2 where w2: "map_each (\<lambda>(idx, t). watch_transfer fw (int idx) t) (List.enumerate (Suc k) ts) w1 = (q, w2)"
      by (cases "map_each (\<lambda>(idx, t). watch_transfer fw (int idx) t) (List.enumerate (Suc k) ts) w1")
    from Cons.IH [OF _ w1'(1), of "Suc k"] Cons.prems(1) w1'(2) w2
    have "map_each (verify_one_transfer fw (w_enabled w)) ts (w_serial w1) = (q, w_serial w2)" by simp
    with v w1 w2 Inr show ?thesis by (cases q) (simp_all add: act_bind_def act_return_def)
  qed
qed

text \<open>A device that never answers.\<close>

definition silent :: "unit firmware" where
  "silent bs d = ([], d)"

definition silent_port :: "unit serial" where
  "silent_port = \<lparr>rx = [], tx = [], device = ()\<rparr>"

definition one_word :: transfer where
  "one_word = \<lparr>src_addr = 0, dst_addr = 4, len_words = 1, direction = 1, expected_words = [0xCAFE]\<rparr>"

lemma silent_reply:
  assumes "rx s = []" and "build_packet opcode a payload = Inr p"
  shows "act_bind (send_packet silent opcode a payload) (\<lambda>_. read_reply) s
    = (Inr None, s\<lparr>tx := tx s @ p, device := ()\<rparr>)"
  using assms
  by (simp add: send_packet_def read_reply_def act_simps ser_write_def silent_def act_bind_def wait_for_ack_def
      act_read_def act_return_def)

lemma silent_watch: "fst (watch_transfer silent 0 one_word (viz_start None silent_port)) = Inr False"
proof -
  have packs: "\<exists>p. build_packet CMD_READ_SRAM 4 [] = Inr p" "\<exists>p. build_packet CMD_CRC_SRAM 4 (le32 4) = Inr p"
    "\<exists>p. build_packet CMD_CRC_SYSMEM 0 (le32 4) = Inr p" "\<exists>p. build_packet CMD_READ_SYSMEM 0 [] = Inr p"
    using packet_built by (force simp: CMD_READ_SRAM_def CMD_CRC_SRAM_def CMD_CRC_SYSMEM_def CMD_READ_SYSMEM_def)+
  obtain crc where crc: "compute_crc32 [0xCAFE] = Inr crc"
    by (simp add: compute_crc32_words u32s_def)
  have "fst (verify_one_transfer silent True one_word silent_port) = Inr False"
    using packs crc
    by (auto simp: verify_one_transfer_def one_word_def read_cells_def read_memory_def request_crc_def py_range_def
        silent_reply silent_port_def act_simps pack_u32_def)
  then show ?thesis
    using watch_follows [of one_word silent "viz_start None silent_port" 0]
    by (simp add: one_word_def viz_start_def)
qed

section \<open>Properties\<close>

text \<open>
  C31. The viewer tells what was verified: on any firmware, when the verification of a transfer
  returns and the pipe held, it has read every word of the destination and of the source block, the
  first destination word again and both checksums, in this order, and the messages it sent lead the
  viewer, whatever it showed before, to the transfer's label, the expected words at the addresses of
  both blocks, and beside them exactly the words these reads returned (0 for a failed one), marked as a
  match where the checksum reply for the block is the checksum of the expected words and as a failure
  where it is not. The verification accepts exactly when both are and the first word is the expected one.
\<close>

theorem viewer_shows_transfer:
  assumes "watch_transfer fw idx t w = (Inr ok, w')" and "live w" and "len_words t \<noteq> 0"
    and "len_words t = int (length (expected_words t))"
  shows "\<exists>crc dvals svals val cd cs s1 s2 s3 s4 s'.
    compute_crc32 (expected_words t) = Inr crc \<and>
    reads_of fw (if direction t = 1 then CMD_READ_SRAM else CMD_READ_SYSMEM) (dst_addr t) (len_words t) (w_serial w) = (Inr dvals, s1) \<and>
    reads_of fw (if direction t = 1 then CMD_READ_SYSMEM else CMD_READ_SRAM) (src_addr t) (len_words t) s1 = (Inr svals, s2) \<and>
    read_memory fw (if direction t = 1 then CMD_READ_SRAM else CMD_READ_SYSMEM) (dst_addr t) s2 = (Inr val, s3) \<and>
    request_crc fw (if direction t = 1 then CMD_CRC_SRAM else CMD_CRC_SYSMEM) (dst_addr t) (len_words t * 4) s3 = (Inr cd, s4) \<and>
    request_crc fw (if direction t = 1 then CMD_CRC_SYSMEM else CMD_CRC_SRAM) (src_addr t) (len_words t * 4) s4 = (Inr cs, w_serial w') \<and>
    stdin_reader (map Message (drop (length (w_sent w)) (w_sent w'))) s = (Inr (), s') \<and>
    header_text s' = JStr (transfer_label idx t) \<and>
    tables s' (''expected'', JStr (dst_region t)) = Some (region_cells (dst_addr t) (expected_words t)) \<and>
    tables s' (''expected'', JStr (src_region t)) = Some (region_cells (src_addr t) (expected_words t)) \<and>
    tables s' (''actual'', JStr (dst_region t)) = Some (checked_cells (dst_addr t) dvals (cd = Some crc)) \<and>
    tables s' (''actual'', JStr (src_region t)) = Some (checked_cells (src_addr t) svals (cs = Some crc)) \<and>
    (ok \<longleftrightarrow> val = Some (expected_words t ! 0) \<and> cd = Some crc \<and> cs = Some crc)"
proof -
  obtain dvals svals val cd cs s1 s2 s3 s4 s5 crc where
    run: "compute_crc32 (expected_words t) = Inr crc"
      "reads_of fw (if direction t = 1 then CMD_READ_SRAM else CMD_READ_SYSMEM) (dst_addr t) (len_words t) (w_serial w) = (Inr dvals, s1)"
      "reads_of fw (if direction t = 1 then CMD_READ_SYSMEM else CMD_READ_SRAM) (src_addr t) (len_words t) s1 = (Inr svals, s2)" and
    len: "length dvals = nat (len_words t)" "length svals = nat (len_words t)" and
    crcs: "read_memory fw (if direction t = 1 then CMD_READ_SRAM else CMD_READ_SYSMEM) (dst_addr t) s2 = (Inr val, s3)"
      "request_crc fw (if direction t = 1 then CMD_CRC_SRAM else CMD_CRC_SYSMEM) (dst_addr t) (len_words t * 4) s3 = (Inr cd, s4)"
      "request_crc fw (if direction t = 1 then CMD_CRC_SYSMEM else CMD_CRC_SRAM) (src_addr t) (len_words t * 4) s4 = (Inr cs, s5)" and
    out: "w' = w\<lparr>w_serial := s5, w_sent := w_sent w @ transfer_events idx t dvals svals (cd = Some crc) (cs = Some crc)\<rparr>" and
    ok: "ok \<longleftrightarrow> val = Some (expected_words t ! 0) \<and> cd = Some crc \<and> cs = Some crc"
    by (rule watch_transfer_live [OF assms])
  from len assms(4) have n: "length dvals = length (expected_words t)" "length svals = length (expected_words t)"
    by simp_all
  have "w_serial w' = s5" by (simp add: out)
  moreover obtain s' where "stdin_reader (map Message (drop (length (w_sent w)) (w_sent w'))) s = (Inr (), s')"
    "header_text s' = JStr (transfer_label idx t)"
    "tables s' (''expected'', JStr (dst_region t)) = Some (region_cells (dst_addr t) (expected_words t))"
    "tables s' (''expected'', JStr (src_region t)) = Some (region_cells (src_addr t) (expected_words t))"
    "tables s' (''actual'', JStr (dst_region t)) = Some (checked_cells (dst_addr t) dvals (cd = Some crc))"
    "tables s' (''actual'', JStr (src_region t)) = Some (checked_cells (src_addr t) svals (cs = Some crc))"
    using viewer_reads_transfer [OF n, of idx "cd = Some crc" "cs = Some crc" s] regions_apart [of t] n by (auto simp: out)
  ultimately show ?thesis using run crcs ok by blast
qed

theorem viewer_shows_transfer_witness:
  "\<exists>w' dvals s1 crc cd cs s'. watch_transfer silent 0 one_word (viz_start None silent_port) = (Inr False, w') \<and>
    reads_of silent CMD_READ_SRAM 4 1 silent_port = (Inr dvals, s1) \<and>
    stdin_reader (map Message (w_sent w')) (viewer_init ''demo'') = (Inr (), s') \<and>
    header_text s' = JStr (transfer_label 0 one_word) \<and>
    tables s' (''expected'', JStr ''sram'') = Some (region_cells 4 [0xCAFE]) \<and>
    tables s' (''actual'', JStr ''sram'') = Some (checked_cells 4 dvals (cd = Some crc)) \<and>
    compute_crc32 [0xCAFE] = Inr crc"
proof -
  obtain w' where w': "watch_transfer silent 0 one_word (viz_start None silent_port) = (Inr False, w')"
    using silent_watch by (cases "watch_transfer silent 0 one_word (viz_start None silent_port)") auto
  have "live (viz_start None silent_port)" by (simp add: live_def viz_start_def)
  from viewer_shows_transfer [OF w' this, of "viewer_init ''demo''"] w' show ?thesis
    by (simp add: one_word_def viz_start_def dst_region_def) blast
qed

text \<open>
  The viewer does not change the verdict: while the pipe holds, and when the viewer was never on,
  the verification with its messages returns what the verification without them returns, and leaves
  the serial port and the device in the same state, for any firmware and any exception.
\<close>

theorem watching_is_verifying:
  assumes "\<forall>t \<in> set ts. len_words t = int (length (expected_words t))" and "live w \<or> \<not> w_enabled w"
  shows "verify_dma_result fw (w_enabled w) ts (w_serial w)
    = (fst (watch_transfers fw ts w), w_serial (snd (watch_transfers fw ts w)))"
proof (cases "ts = []")
  case True
  then show ?thesis by (simp add: verify_dma_result_def watch_transfers_def act_simps)
next
  case False
  obtain r w1 where "map_each (\<lambda>(idx, t). watch_transfer fw (int idx) t) (List.enumerate 0 ts) w = (r, w1)"
    by (cases "map_each (\<lambda>(idx, t). watch_transfer fw (int idx) t) (List.enumerate 0 ts) w")
  with watch_all_follows [OF assms, of fw 0] False show ?thesis
    by (cases r) (simp_all add: verify_dma_result_def watch_transfers_def act_bind_def act_return_def)
qed

theorem watching_is_verifying_witness:
  "verify_dma_result silent (w_enabled (viz_start None silent_port)) [one_word] (w_serial (viz_start None silent_port))
    = (fst (watch_transfers silent [one_word] (viz_start None silent_port)),
       w_serial (snd (watch_transfers silent [one_word] (viz_start None silent_port))))"
  by (rule watching_is_verifying) (simp_all add: one_word_def viz_start_def live_def)

text \<open>
  C7. The viewer cannot spoil a session, and a whole one ends in green: for every scenario of the
  golden model with independent transfers, the session with the viewer sends its title, reads back from
  the stimulus file exactly the transfers of the pending descriptors, runs the engine, dumps the
  registers, and the verification of these transfers in the state then reached returns True; it exits
  with 0 and leaves the golden images on the board, however early the pipe to the viewer breaks; when it
  holds, the viewer has read every message, and in both regions every actual cell has the address and
  the value of its expected cell and is marked as a match.
\<close>

theorem watched_session_passes:
  assumes "ascii_printf say" and "golden_init sw bw = Inr g0" and "for_each (run_row sw bw) rows g0 = (Inr (), g)"
    and "rows_fine sw bw rows g0" and "\<forall>row \<in> set rows. ringlen_fine row" and "plain csv_name"
    and "sw \<le> 2 ^ 30" and "bw \<le> 2 ^ 30" and "ring_ok (gd_ring g)" and "pending (gd_ring g) \<noteq> []"
    and "length (pending (gd_ring g)) < MAX_ITERS"
    and "\<forall>d \<in> set (pending (gd_ring g)). dma_fits MID_DEPTH d (smem g, bram g) \<and> word_aligned d \<and>
      spares_ring (csr_baseaddr (g_csr g)) (csr_ringlen (g_csr g)) d"
    and "independent (pending (gd_ring g))" and "is_enabled (g_csr g)"
  shows "\<exists>arts lines ts w0 s1 s2 s3 w4. run_scenario rows sw bw = Inr arts \<and>
    lines = file_lines (universal_newlines (stim_file csv_name (stim_lines arts))) \<and>
    ts = map (expected_transfer (initial_smem arts, initial_sram arts)) (pending (gd_ring g)) \<and>
    viz_send (header_event title) (viz_start room (fresh_link say g0)) = (Inr (), w0) \<and>
    parse_stimulus (uart_firmware board_bus say) lines CSR_BASE (w_serial w0) = (Inr ts, s1) \<and>
    run_dma_command (uart_firmware board_bus say) s1 = (Inr True, s2) \<and>
    dump_csr_status (uart_firmware board_bus say) s2 = (Inr (), s3) \<and>
    watch_transfers (uart_firmware board_bus say) ts (w0\<lparr>w_serial := s3\<rparr>) = (Inr True, w4) \<and>
    watched_session (uart_firmware board_bus say) title lines (viz_start room (fresh_link say g0)) = (Inr 0, w4) \<and>
    smem (hw (board (device (w_serial w4)))) = final_smem arts \<and>
    bram (hw (board (device (w_serial w4)))) = final_sram arts \<and>
    (room = None \<longrightarrow> (\<exists>s. stdin_reader (map Message (w_sent w4)) (viewer_init title0) = (Inr (), s) \<and>
      matched s ''sram'' \<and> matched s ''smem''))"
proof -
  let ?p = "pending (gd_ring g)" and ?start = "(smem g, bram g)"
  let ?res = "fold dma_move ?p ?start" and ?fw = "uart_firmware board_bus say"
  let ?ts = "map (expected_transfer ?start) ?p"
    and ?lines = "file_lines (universal_newlines (stim_file csv_name (gd_stim g)))"
  let ?v = "(golden_view g)\<lparr>v_sys := fst ?res, v_ram := snd ?res, v_head := tail_of (gd_ring g)\<rparr>"
  let ?dst = "\<lambda>t. if direction t = 1 then snd ?res else fst ?res"
    and ?src = "\<lambda>t. if direction t = 1 then fst ?res else snd ?res"
  have arts: "run_scenario rows sw bw = Inr \<lparr>stim_lines = gd_stim g, initial_smem = smem g,
      final_smem = fst ?res, initial_sram = bram g, final_sram = snd ?res, descs_fetched = map pack ?p\<rparr>"
    using assms(12) by (intro scenario_result [OF assms(2,3,9,14,11)]) blast
  obtain s1 s2 s3 where s: "parse_stimulus ?fw ?lines CSR_BASE (fresh_link say g0) = (Inr ?ts, s1)"
    "run_dma_command ?fw s1 = (Inr True, s2)" "dump_csr_status ?fw s2 = (Inr (), s3)" "board_stands s3 ?v"
    using session_ran [OF assms(1-12) fresh_link_stands [OF assms(1,2)]] by blast
  define w0 where "w0 = snd (viz_send (header_event title) (viz_start room (fresh_link say g0)))"
  have w0: "viz_send (header_event title) (viz_start room (fresh_link say g0)) = (Inr (), w0)"
    "w_serial w0 = fresh_link say g0"
    by (simp_all add: w0_def viz_send_def viz_start_def act_simps)
  let ?w3 = "w0\<lparr>w_serial := s3\<rparr>"
  have mem: "v_sys ?v = fst ?res" "v_ram ?v = snd ?res" by simp_all
  have ok: "\<forall>t \<in> set ?ts. checkable (if direction t = 1 then v_ram ?v else v_sys ?v)
      (if direction t = 1 then v_sys ?v else v_ram ?v) t"
    unfolding mem by (intro ballI transfers_checkable [OF assms(2,3,7,8,12)])
  obtain w4 where w4: "map_each (\<lambda>(idx, t). watch_transfer ?fw (int idx) t) (List.enumerate 0 ?ts) ?w3
      = (Inr (map (\<lambda>t. verdict (?dst t) (?src t) t) ?ts), w4)" "board_stands (w_serial w4) ?v"
    "live ?w3 \<longrightarrow> w_sent w4 = w_sent ?w3 @
      concat (map (\<lambda>(idx, t). memory_events (?dst t) (?src t) (int idx) t) (List.enumerate 0 ?ts))"
    using board_mem.host_watches_all [OF assms(1) ok, of ?w3 0] s(4) unfolding board_stands_def mem by auto
  have "\<forall>t \<in> set ?ts. verdict (?dst t) (?src t) t"
    by (rule independent_accepted [OF assms(2,3,7,8,12,13)])
  with w4(1) assms(10) have pass: "watch_transfers ?fw ?ts ?w3 = (Inr True, w4)"
    by (simp add: watch_transfers_def act_simps list_all_iff)
  have run: "watched_session ?fw title ?lines (viz_start room (fresh_link say g0)) = (Inr 0, w4)"
    using w0 s(1-3) pass
    by (simp add: watched_session_def act_simps on_port_at)
  have green: "\<exists>s. stdin_reader (map Message (w_sent w4)) (viewer_init title0) = (Inr (), s) \<and>
      matched s ''sram'' \<and> matched s ''smem''" if "room = None"
  proof -
    have sent: "w_sent w4 = [header_event title] @
        concat (map (\<lambda>(idx, t). memory_events (?dst t) (?src t) (int idx) t) (List.enumerate 0 ?ts))"
      using w4(3) that by (simp add: w0_def viz_send_def viz_start_def act_simps live_def)
    let ?s0 = "(viewer_init title0)\<lparr>header_text := JStr title\<rparr>"
    have head: "stdin_reader [Message (header_event title)] (viewer_init title0) = (Inr (), ?s0)"
      by (simp add: stdin_reader_def act_simps viewer_header)
    have start: "matched ?s0 ''sram''" "matched ?s0 ''smem''"
      by (simp_all add: matched_def viewer_init_def)
    have "\<forall>t \<in> set ?ts. load_block (?dst t) (cell (dst_addr t)) (nat (len_words t)) = expected_words t \<and>
        load_block (?src t) (cell (src_addr t)) (nat (len_words t)) = expected_words t"
      using independent_blocks [OF assms(2,3,7,8,12,13)] by blast
    from matching_transfers [OF start this, of 0] reader_append [OF head] show ?thesis
      by (simp add: sent)
  qed
  show ?thesis
    using arts w0 s(1-3) pass run green board_memories [OF w4(2)]
    by (intro exI [of _ "\<lparr>stim_lines = gd_stim g, initial_smem = smem g, final_smem = fst ?res, initial_sram = bram g,
        final_sram = snd ?res, descs_fetched = map pack ?p\<rparr>"] exI [of _ ?lines] exI [of _ ?ts] exI [of _ w0] exI [of _ s1]
        exI [of _ s2] exI [of _ s3] exI [of _ w4]) simp
qed

theorem watched_session_passes_witness:
  "\<exists>lines w4 s. watched_session (uart_firmware board_bus (\<lambda>_ _. [])) ''pair'' lines
      (viz_start None (fresh_link (\<lambda>_ _. []) demo_init)) = (Inr 0, w4) \<and>
    stdin_reader (map Message (w_sent w4)) (viewer_init ''demo'') = (Inr (), s) \<and>
    matched s ''sram'' \<and> matched s ''smem''"
proof -
  have "ascii_printf (\<lambda>_ _. [])" by (simp add: ascii_printf_def)
  moreover have "plain ''pair.csv''" by (simp add: plain_def)
  ultimately show ?thesis
    using watched_session_passes [OF _ demo_init_ok pair_setup pair_facts(1,2) _ _ _ pair_facts(3,4)
        pair_length pair_fits pair_facts(6,5), of "\<lambda>_ _. []" "''pair.csv''" "''pair''" None "''demo''"]
    by simp blast
qed

end
