(* ===== verification/Csv_Text.thy ===== *)
theory Csv_Text
  imports Py_Text
begin

text \<open>
  \<open>csv.reader\<close> with its default dialect (comma, double quote, doubled quotes, not strict), as
  \<open>run_golden.py\<close> and \<open>serial_host.py\<close> use it on a file opened with \<open>newline=''\<close>: the automaton that
  turns the lines of the file into rows of strings. The limit on the length of a field (131072) is
  not modelled.
\<close>

section \<open>The lines of the file\<close>

text \<open>With \<open>newline=''\<close> a line keeps its ending: a newline, a carriage return, or both.\<close>

definition line_end :: "char \<Rightarrow> bool" where
  "line_end c \<longleftrightarrow> c = CHR 0x0A \<or> c = CHR 0x0D"

definition ending :: "string \<Rightarrow> string" where
  "ending s = (if take 2 s = [CHR 0x0D, CHR 0x0A] then take 2 s else take 1 s)"

function raw_lines :: "string \<Rightarrow> string list" where
  "raw_lines s = (if s = [] then []
     else (let body = takeWhile (\<lambda>c. \<not> line_end c) s; rest = dropWhile (\<lambda>c. \<not> line_end c) s
           in (body @ ending rest) # raw_lines (drop (length (ending rest)) rest)))"
  by pat_completeness auto
termination
proof (relation "measure length")
  fix s body rest :: string
  assume s: "s \<noteq> []" and rest: "rest = dropWhile (\<lambda>c. \<not> line_end c) s"
  have le: "length rest \<le> length s" by (simp add: rest length_dropWhile_le)
  show "(drop (length (ending rest)) rest, s) \<in> measure length"
  proof (cases rest)
    case Nil
    with s show ?thesis by simp
  next
    case (Cons c cs)
    then have "1 \<le> length (ending rest)" by (simp add: ending_def)
    moreover have "length rest = Suc (length cs)" by (simp add: Cons)
    ultimately show ?thesis using le unfolding in_measure length_drop by linarith
  qed
qed simp

declare raw_lines.simps [simp del]

lemma raw_lines_Nil [simp]: "raw_lines [] = []"
  by (subst raw_lines.simps) simp

section \<open>The automaton\<close>

datatype csv_mode = StartRecord | StartField | InField | InQuoted | QuoteInQuoted | EatCrnl

record csv_state =
  cs_mode :: csv_mode
  cs_field :: string
  cs_fields :: "string list"

definition csv_start :: csv_state where
  "csv_start = \<lparr>cs_mode = StartRecord, cs_field = [], cs_fields = []\<rparr>"

definition csv_save :: "csv_mode \<Rightarrow> csv_state \<Rightarrow> csv_state" where
  "csv_save md s = s\<lparr>cs_fields := cs_fields s @ [cs_field s], cs_field := [], cs_mode := md\<rparr>"

definition csv_add :: "csv_mode \<Rightarrow> char \<Rightarrow> csv_state \<Rightarrow> csv_state" where
  "csv_add md c s = s\<lparr>cs_field := cs_field s @ [c], cs_mode := md\<rparr>"

text \<open>A field that is not quoted, from its first character on or further; None is the end of the line.\<close>

definition csv_unquoted :: "char option \<Rightarrow> csv_state \<Rightarrow> csv_state" where
  "csv_unquoted c s = (case c of
     None \<Rightarrow> csv_save StartRecord s
   | Some x \<Rightarrow>
       if line_end x then csv_save EatCrnl s
       else if x = CHR '','' then csv_save StartField s
       else csv_add InField x s)"

definition csv_field_start :: "char option \<Rightarrow> csv_state \<Rightarrow> csv_state" where
  "csv_field_start c s = (if c = Some (CHR 0x22) then s\<lparr>cs_mode := InQuoted\<rparr> else csv_unquoted c s)"

definition csv_char :: "char option \<Rightarrow> csv_state \<Rightarrow> csv_state result" where
  "csv_char c s = (case cs_mode s of
     StartRecord \<Rightarrow> (case c of
         None \<Rightarrow> Inr s
       | Some x \<Rightarrow> Inr (if line_end x then s\<lparr>cs_mode := EatCrnl\<rparr> else csv_field_start c s))
   | StartField \<Rightarrow> Inr (csv_field_start c s)
   | InField \<Rightarrow> Inr (csv_unquoted c s)
   | InQuoted \<Rightarrow> (case c of
         None \<Rightarrow> Inr s
       | Some x \<Rightarrow> Inr (if x = CHR 0x22 then s\<lparr>cs_mode := QuoteInQuoted\<rparr> else csv_add InQuoted x s))
   | QuoteInQuoted \<Rightarrow> Inr (if c = Some (CHR 0x22) then csv_add InQuoted (CHR 0x22) s else csv_unquoted c s)
   | EatCrnl \<Rightarrow> (case c of
         None \<Rightarrow> Inr (s\<lparr>cs_mode := StartRecord\<rparr>)
       | Some x \<Rightarrow> if line_end x then Inr s else Inl CsvError))"

fun csv_chars :: "string \<Rightarrow> csv_state \<Rightarrow> csv_state result" where
  "csv_chars [] s = csv_char None s"
| "csv_chars (c # cs) s = res_bind (csv_char (Some c) s) (csv_chars cs)"

text \<open>
  A row is complete when the automaton is back at the start of a record; a quoted field goes on in
  the next line, and what is left of it at the end of the file is a field.
\<close>

fun csv_read :: "string list \<Rightarrow> csv_state \<Rightarrow> string list list result" where
  "csv_read [] s = Inr (if cs_field s \<noteq> [] \<or> cs_mode s = InQuoted then [cs_fields s @ [cs_field s]] else [])"
| "csv_read (l # ls) s = res_bind (csv_chars l s) (\<lambda>t.
     if cs_mode t = StartRecord
     then res_bind (csv_read ls csv_start) (\<lambda>rows. Inr (cs_fields t # rows))
     else csv_read ls t)"

definition csv_rows :: "string \<Rightarrow> string list list result" where
  "csv_rows text = csv_read (raw_lines text) csv_start"

section \<open>Plain rows\<close>

text \<open>Fields without comma, quote or line end, written with commas between them.\<close>

definition plain_field :: "string \<Rightarrow> bool" where
  "plain_field f \<longleftrightarrow> (\<forall>c \<in> set f. c \<noteq> CHR '','' \<and> c \<noteq> CHR 0x22 \<and> \<not> line_end c)"

definition plain_row :: "string list \<Rightarrow> bool" where
  "plain_row row \<longleftrightarrow> row \<noteq> [[]] \<and> (\<forall>f \<in> set row. plain_field f)"

fun comma_join :: "string list \<Rightarrow> string" where
  "comma_join [] = []"
| "comma_join [f] = f"
| "comma_join (f # g # fs) = f @ CHR '','' # comma_join (g # fs)"

definition csv_file :: "string list list \<Rightarrow> string" where
  "csv_file rows = concat (map (\<lambda>row. comma_join row @ newline) rows)"

lemma csv_field:
  assumes "plain_field f" and "cs_mode s \<in> {StartRecord, StartField, InField}" and "f \<noteq> []"
  shows "csv_chars (f @ cs) s = csv_chars cs (s\<lparr>cs_field := cs_field s @ f, cs_mode := InField\<rparr>)"
  using assms
proof (induction f arbitrary: s)
  case Nil
  then show ?case by simp
next
  case (Cons c f)
  have c: "c \<noteq> CHR '',''" "c \<noteq> CHR 0x22" "\<not> line_end c"
    using Cons.prems(1) by (simp_all add: plain_field_def)
  have step: "csv_char (Some c) s = Inr (csv_add InField c s)"
    using Cons.prems(2) by (cases "cs_mode s") (simp_all add: csv_char_def csv_field_start_def csv_unquoted_def c)
  show ?case
  proof (cases "f = []")
    case True
    with step show ?thesis by (simp add: res_bind_def csv_add_def)
  next
    case False
    with Cons.IH [of "csv_add InField c s"] Cons.prems(1) step show ?thesis
      by (simp add: res_bind_def csv_add_def plain_field_def)
  qed
qed

lemma csv_record:
  assumes "\<forall>f \<in> set row. plain_field f" and "row \<noteq> []" and "cs_field s = []"
    and "cs_mode s = StartField \<or> cs_mode s = StartRecord \<and> row \<noteq> [[]]"
  shows "csv_chars (comma_join row @ newline) s
    = Inr \<lparr>cs_mode = StartRecord, cs_field = [], cs_fields = cs_fields s @ row\<rparr>"
  using assms
proof (induction row arbitrary: s rule: comma_join.induct)
  case 1
  then show ?case by simp
next
  case (2 f)
  show ?case
  proof (cases "f = []")
    case True
    with 2 show ?thesis
      by (simp add: csv_char_def csv_field_start_def csv_unquoted_def line_end_def csv_save_def res_bind_def)
  next
    case False
    from 2 have "csv_chars (f @ newline) s = csv_chars newline (s\<lparr>cs_field := f, cs_mode := InField\<rparr>)"
      by (subst csv_field) (auto simp: False)
    then show ?thesis
      by (simp add: csv_char_def csv_unquoted_def line_end_def csv_save_def res_bind_def)
  qed
next
  case (3 f g fs)
  have rest: "csv_chars (comma_join (g # fs) @ newline) t
      = Inr \<lparr>cs_mode = StartRecord, cs_field = [], cs_fields = cs_fields t @ g # fs\<rparr>"
    if "cs_mode t = StartField" "cs_field t = []" for t
    using 3 that by simp
  show ?case
  proof (cases "f = []")
    case True
    have "csv_chars (comma_join (f # g # fs) @ newline) s
        = csv_chars (comma_join (g # fs) @ newline) (csv_save StartField s)"
      using 3 True
      by (auto simp: csv_char_def csv_field_start_def csv_unquoted_def line_end_def res_bind_def)
    also have "\<dots> = Inr \<lparr>cs_mode = StartRecord, cs_field = [], cs_fields = cs_fields s @ f # g # fs\<rparr>"
      using 3 True by (subst rest) (simp_all add: csv_save_def)
    finally show ?thesis .
  next
    case False
    let ?t = "s\<lparr>cs_field := f, cs_mode := InField\<rparr>"
    from 3 have "csv_chars (f @ CHR '','' # comma_join (g # fs) @ newline) s
        = csv_chars (CHR '','' # comma_join (g # fs) @ newline) ?t"
      by (subst csv_field) (auto simp: False)
    also have "\<dots> = csv_chars (comma_join (g # fs) @ newline) (csv_save StartField ?t)"
      by (simp add: csv_char_def csv_unquoted_def line_end_def res_bind_def)
    also have "\<dots> = Inr \<lparr>cs_mode = StartRecord, cs_field = [], cs_fields = cs_fields s @ f # g # fs\<rparr>"
      by (subst rest) (simp_all add: csv_save_def)
    finally show ?thesis by simp
  qed
qed

lemma raw_lines_step:
  assumes "\<forall>c \<in> set l. \<not> line_end c"
  shows "raw_lines (l @ newline @ rest) = (l @ newline) # raw_lines rest"
  using assms
  by (subst raw_lines.simps) (simp add: takeWhile_append dropWhile_append line_end_def ending_def Let_def)

lemma plain_chars: "plain_field f \<Longrightarrow> c \<in> set f \<Longrightarrow> \<not> line_end c"
  by (simp add: plain_field_def)

lemma joined_chars: "\<forall>f \<in> set row. plain_field f \<Longrightarrow> \<forall>c \<in> set (comma_join row). \<not> line_end c"
proof (induction row rule: comma_join.induct)
  case (3 f g fs)
  have "\<not> line_end (CHR '','')" by (simp add: line_end_def)
  with 3 show ?case by (auto dest: plain_chars)
qed (auto dest: plain_chars)

section \<open>Every text is read\<close>

text \<open>A line of a file: characters that end no line, then at most one ending.\<close>

definition raw_line :: "string \<Rightarrow> bool" where
  "raw_line l \<longleftrightarrow> (\<exists>body e. l = body @ e \<and> (\<forall>c \<in> set body. \<not> line_end c) \<and> (\<forall>c \<in> set e. line_end c))"

lemma raw_lines_cons:
  assumes "s \<noteq> []"
  shows "raw_lines s = (takeWhile (\<lambda>c. \<not> line_end c) s @ ending (dropWhile (\<lambda>c. \<not> line_end c) s)) #
    raw_lines (drop (length (ending (dropWhile (\<lambda>c. \<not> line_end c) s))) (dropWhile (\<lambda>c. \<not> line_end c) s))"
  by (subst raw_lines.simps) (simp only: assms if_False Let_def)

lemma first_line: "raw_line (takeWhile (\<lambda>c. \<not> line_end c) s @ ending (dropWhile (\<lambda>c. \<not> line_end c) s))"
proof -
  let ?body = "takeWhile (\<lambda>c. \<not> line_end c) s" and ?rest = "dropWhile (\<lambda>c. \<not> line_end c) s"
  have "\<forall>c \<in> set (ending ?rest). line_end c"
  proof (cases ?rest)
    case Nil
    show ?thesis unfolding Nil by (simp add: ending_def)
  next
    case (Cons c cs)
    then have "line_end c" using hd_dropWhile [of "\<lambda>c. \<not> line_end c" s] by simp
    then show ?thesis unfolding Cons by (auto simp: ending_def line_end_def)
  qed
  moreover have "\<forall>c \<in> set ?body. \<not> line_end c" by (blast dest: set_takeWhileD)
  ultimately show ?thesis
    unfolding raw_line_def by (intro exI [of _ ?body] exI [of _ "ending ?rest"] conjI refl)
qed

lemma raw_lines_lines: "\<forall>l \<in> set (raw_lines s). raw_line l"
proof (induction s rule: raw_lines.induct)
  case (1 s)
  show ?case
  proof (cases "s = []")
    case True
    then show ?thesis by simp
  next
    case False
    note rest = 1 [OF False refl refl]
    show ?thesis
    proof
      fix l assume "l \<in> set (raw_lines s)"
      then have "l = takeWhile (\<lambda>c. \<not> line_end c) s @ ending (dropWhile (\<lambda>c. \<not> line_end c) s) \<or>
          l \<in> set (raw_lines (drop (length (ending (dropWhile (\<lambda>c. \<not> line_end c) s))) (dropWhile (\<lambda>c. \<not> line_end c) s)))"
        by (subst (asm) raw_lines_cons [OF False]) simp
      then show "raw_line l" using first_line rest by (elim disjE) (erule ssubst, assumption, erule rest [THEN bspec])
    qed
  qed
qed

lemma eaten_line: "\<forall>c \<in> set e. line_end c \<Longrightarrow> cs_mode s = EatCrnl \<Longrightarrow> \<exists>t. csv_chars e s = Inr t \<and> cs_mode t \<noteq> EatCrnl"
  by (induction e arbitrary: s) (auto simp: csv_char_def res_bind_def)

lemma ended_line:
  "\<forall>c \<in> set e. line_end c \<Longrightarrow> \<exists>t. csv_chars e s = Inr t \<and> cs_mode t \<noteq> EatCrnl"
proof (induction e arbitrary: s)
  case Nil
  then show ?case
    by (cases "cs_mode s") (auto simp: csv_char_def csv_field_start_def csv_unquoted_def csv_save_def)
next
  case (Cons c e)
  show ?case
  proof (cases "cs_mode s = EatCrnl")
    case True
    from eaten_line [OF Cons.prems True] show ?thesis .
  next
    case False
    then obtain t where "csv_char (Some c) s = Inr t"
      by (cases "cs_mode s") (auto simp: csv_char_def)
    with Cons show ?thesis by (simp add: res_bind_def)
  qed
qed

lemma read_line:
  assumes "raw_line l" and "cs_mode s \<noteq> EatCrnl"
  shows "\<exists>t. csv_chars l s = Inr t \<and> cs_mode t \<noteq> EatCrnl"
proof -
  obtain body e where l: "l = body @ e" "\<forall>c \<in> set body. \<not> line_end c" "\<forall>c \<in> set e. line_end c"
    using assms(1) by (auto simp: raw_line_def)
  from l(2) assms(2) show ?thesis
    unfolding l(1)
  proof (induction body arbitrary: s)
    case Nil
    with ended_line [OF l(3)] show ?case by simp
  next
    case (Cons c body)
    then obtain t where "csv_char (Some c) s = Inr t" "cs_mode t \<noteq> EatCrnl"
      by (cases "cs_mode s")
        (auto simp: csv_char_def csv_field_start_def csv_unquoted_def csv_save_def csv_add_def)
    with Cons show ?case by (simp add: res_bind_def)
  qed
qed

lemma read_lines:
  "\<forall>l \<in> set ls. raw_line l \<Longrightarrow> cs_mode s \<noteq> EatCrnl \<Longrightarrow> \<exists>rows. csv_read ls s = Inr rows"
proof (induction ls arbitrary: s)
  case (Cons l ls)
  obtain t where t: "csv_chars l s = Inr t" "cs_mode t \<noteq> EatCrnl"
    using read_line [of l s] Cons.prems by auto
  obtain rows where "csv_read ls csv_start = Inr rows"
    using Cons.IH [of csv_start] Cons.prems by (auto simp: csv_start_def)
  moreover obtain rows' where "csv_read ls t = Inr rows'"
    using Cons.IH [OF _ t(2)] Cons.prems by auto
  ultimately show ?case using t by (simp add: res_bind_def)
qed simp

lemma csv_total: "\<exists>rows. csv_rows text = Inr rows"
  unfolding csv_rows_def
  by (rule read_lines) (use raw_lines_lines in \<open>auto simp: csv_start_def\<close>)

section \<open>Properties\<close>

text \<open>
  The reader finds the rows that were written: any rows whose fields hold no comma, no quote and no
  line end, empty fields and blank lines included, written with commas and newlines, are what
  \<open>csv.reader\<close> yields (only a row of one empty field cannot be told from a blank line).
\<close>

theorem csv_roundtrip:
  assumes "\<forall>row \<in> set rows. plain_row row"
  shows "csv_rows (csv_file rows) = Inr rows"
  using assms
proof (induction rows)
  case Nil
  then show ?case by (simp add: csv_rows_def csv_file_def csv_start_def)
next
  case (Cons row rows)
  have row: "\<forall>f \<in> set row. plain_field f" "row \<noteq> [[]]" using Cons.prems by (simp_all add: plain_row_def)
  have line: "csv_chars (comma_join row @ newline) csv_start
      = Inr \<lparr>cs_mode = StartRecord, cs_field = [], cs_fields = row\<rparr>"
  proof (cases "row = []")
    case True
    then show ?thesis by (simp add: csv_start_def csv_char_def line_end_def res_bind_def)
  next
    case False
    with csv_record [OF row(1) False, of csv_start] row(2) show ?thesis by (simp add: csv_start_def)
  qed
  have lines: "raw_lines (csv_file (row # rows)) = (comma_join row @ newline) # raw_lines (csv_file rows)"
    using raw_lines_step [OF joined_chars [OF row(1)]] by (simp add: csv_file_def)
  show ?case
    using Cons line lines by (simp add: csv_rows_def res_bind_def)
qed

theorem csv_roundtrip_witness:
  "csv_rows (csv_file [[''op'', ''arg''], [], [''desc'', ''40'', '''', ''2'']])
    = Inr [[''op'', ''arg''], [], [''desc'', ''40'', '''', ''2'']]"
  by (rule csv_roundtrip) (simp add: plain_row_def plain_field_def line_end_def)

end
