(* ===== verification/Golden_Program.thy ===== *)
theory Golden_Program
  imports Csv_Text Scenario "HOL-Library.AList"
begin

text \<open>
  The program around the golden model: the files it reads and writes and \<open>main\<close> of \<open>run_golden.py\<close>.
  The contract of the file system is the locale \<open>file_store\<close>. Files only: directories can always be
  made, an existing file can be read and any file written; texts are ASCII, paths those of POSIX.
\<close>

section \<open>Files\<close>

type_synonym disk = "(string \<times> string) list"

definition disk_get :: "string \<Rightarrow> disk \<Rightarrow> string option" where
  "disk_get p d = map_of d p"

definition disk_put :: "string \<Rightarrow> string \<Rightarrow> disk \<Rightarrow> disk" where
  "disk_put p text d = AList.update p text d"

text \<open>A store whose \<open>put\<close> replaces one file and leaves the others alone.\<close>

locale file_store =
  fixes get :: "'p \<Rightarrow> 's \<Rightarrow> 't option" and put :: "'p \<Rightarrow> 't \<Rightarrow> 's \<Rightarrow> 's"
  assumes get_put: "get q (put p t s) = (if q = p then Some t else get q s)"
begin

lemma get_puts:
  "distinct (map fst fs) \<Longrightarrow>
   get q (fold (\<lambda>(p, t). put p t) fs s) = (case map_of fs q of Some t \<Rightarrow> Some t | None \<Rightarrow> get q s)"
proof (induction fs arbitrary: s)
  case Nil
  then show ?case by simp
next
  case (Cons f fs)
  obtain p t where f: "f = (p, t)" by (cases f)
  with Cons.prems have "map_of fs p = None" by (simp add: map_of_eq_None_iff)
  with Cons f show ?case by (auto simp: get_put split: option.splits)
qed

end

interpretation files: file_store disk_get disk_put
  by unfold_locales (simp add: disk_get_def disk_put_def update_conv')

definition read_file :: "string \<Rightarrow> (disk, string) act" where
  "read_file p = act_read (\<lambda>d. case disk_get p d of None \<Rightarrow> Inl FileNotFoundError | Some t \<Rightarrow> Inr t)"

definition write_file :: "string \<Rightarrow> string \<Rightarrow> (disk, unit) act" where
  "write_file p text = act_modify (disk_put p text)"

text \<open>\<open>os.path.join\<close> of two paths and \<open>os.path.basename\<close>.\<close>

definition path_join :: "string \<Rightarrow> string \<Rightarrow> string" where
  "path_join a b =
     (if take 1 b = ''/'' then b else if a = [] \<or> last a = CHR ''/'' then a @ b else a @ ''/'' @ b)"

definition basename :: "string \<Rightarrow> string" where
  "basename p = rev (takeWhile (\<lambda>c. c \<noteq> CHR ''/'') (rev p))"

lemma path_join_inject:
  "take 1 b \<noteq> ''/'' \<Longrightarrow> take 1 c \<noteq> ''/'' \<Longrightarrow> path_join a b = path_join a c \<longleftrightarrow> b = c"
  by (simp add: path_join_def)

section \<open>The artifacts\<close>

definition read_rows :: "string \<Rightarrow> (disk, string list list) act" where
  "read_rows csv_path = act_bind (read_file csv_path) (\<lambda>text. act_read (\<lambda>_. csv_rows text))"

text \<open>The six files both programs write, in their order.\<close>

definition write_artifacts :: "string \<Rightarrow> string \<Rightarrow> artifacts \<Rightarrow> (disk, unit) act" where
  "write_artifacts csv_path out_dir out =
     act_bind (write_file (path_join out_dir ''stim.txt'') (stim_file (basename csv_path) (stim_lines out))) (\<lambda>_.
     act_bind (write_file (path_join out_dir ''initial_smem.hex'') (hex32_file (initial_smem out))) (\<lambda>_.
     act_bind (write_file (path_join out_dir ''golden_smem.hex'') (hex32_file (final_smem out))) (\<lambda>_.
     act_bind (write_file (path_join out_dir ''initial_sram.hex'') (hex32_file (initial_sram out))) (\<lambda>_.
     act_bind (write_file (path_join out_dir ''golden_sram.hex'') (hex32_file (final_sram out))) (\<lambda>_.
       write_file (path_join out_dir ''golden_descs.hex'') (descs_file (descs_fetched out)))))))"

definition default_scenario :: "string list list \<Rightarrow> artifacts result" where
  "default_scenario rows = run_scenario rows SMEM_WORDS BRAM_SIZE"

text \<open>\<open>main\<close>: \<open>here\<close> is the directory of the script, \<open>argv\<close> its arguments, the script's name first.\<close>

definition golden_main :: "string \<Rightarrow> string list \<Rightarrow> (disk, unit) act" where
  "golden_main here argv =
     (if length argv < 2 then act_raise (SystemExit 1)
      else let csv_path = argv ! 1; out_dir = (if 2 < length argv then argv ! 2 else path_join here ''out'')
      in act_bind (read_rows csv_path) (\<lambda>rows.
         act_bind (act_read (\<lambda>_. default_scenario rows)) (\<lambda>out.
         act_bind (write_artifacts csv_path out_dir out) (\<lambda>_.
           write_file (path_join out_dir ''summary.txt'') (summary_file (descs_fetched out) (stim_lines out))))))"

text \<open>What the interpreter makes of the end of a program: an uncaught exception is status 1.\<close>

fun exit_status :: "'a result \<Rightarrow> int" where
  "exit_status (Inl (SystemExit n)) = n"
| "exit_status (Inl e) = 1"
| "exit_status (Inr x) = 0"

section \<open>What is written\<close>

definition artifact_files :: "string \<Rightarrow> string \<Rightarrow> artifacts \<Rightarrow> (string \<times> string) list" where
  "artifact_files csv_path out_dir out = map (\<lambda>(name, text). (path_join out_dir name, text))
    [(''stim.txt'', stim_file (basename csv_path) (stim_lines out)),
     (''initial_smem.hex'', hex32_file (initial_smem out)), (''golden_smem.hex'', hex32_file (final_smem out)),
     (''initial_sram.hex'', hex32_file (initial_sram out)), (''golden_sram.hex'', hex32_file (final_sram out)),
     (''golden_descs.hex'', descs_file (descs_fetched out))]"

definition summary_files :: "string \<Rightarrow> artifacts \<Rightarrow> (string \<times> string) list" where
  "summary_files out_dir out =
     [(path_join out_dir ''summary.txt'', summary_file (descs_fetched out) (stim_lines out))]"

lemma artifacts_written:
  "write_artifacts csv_path out_dir out d
    = (Inr (), fold (\<lambda>(p, t). disk_put p t) (artifact_files csv_path out_dir out) d)"
  by (simp add: write_artifacts_def write_file_def artifact_files_def act_simps)

lemma artifact_names:
  "distinct (map fst (artifact_files csv_path out_dir out @ summary_files out_dir out))"
  "distinct (map fst (artifact_files csv_path out_dir out))"
  by (simp_all add: artifact_files_def summary_files_def path_join_inject)

lemma rows_read:
  "read_rows csv_path d = (case disk_get csv_path d of None \<Rightarrow> (Inl FileNotFoundError, d)
     | Some text \<Rightarrow> (csv_rows text, d))"
  by (simp add: read_rows_def read_file_def act_bind_def act_read_def split: option.split)

lemma golden_main_result:
  assumes "2 \<le> length argv" and "disk_get (argv ! 1) d = Some text" and "csv_rows text = Inr rows"
  shows "golden_main here argv d = (case default_scenario rows of
      Inl e \<Rightarrow> (Inl e, d)
    | Inr out \<Rightarrow> (Inr (), let out_dir = (if 2 < length argv then argv ! 2 else path_join here ''out'')
        in fold (\<lambda>(p, t). disk_put p t) (artifact_files (argv ! 1) out_dir out @ summary_files out_dir out) d))"
  using assms
  by (auto simp: golden_main_def Let_def act_bind_def rows_read act_read_def artifacts_written
      write_file_def act_modify_def summary_files_def split: sum.split)

section \<open>Properties\<close>

text \<open>
  C22. The golden program either writes all its artifacts or nothing: it fails exactly when it has no
  argument, the CSV file is missing or the scenario raises, with every file as it was; otherwise the
  seven artifacts of the scenario in the file are in the output directory, complete, whatever was
  there before, and every other file is unchanged.
\<close>

theorem golden_main_all_or_nothing:
  "case golden_main here argv d of
     (Inl e, d') \<Rightarrow> d' = d \<and> (length argv < 2 \<and> e = SystemExit 1 \<or>
       2 \<le> length argv \<and> (disk_get (argv ! 1) d = None \<and> e = FileNotFoundError \<or>
         (\<exists>text rows. disk_get (argv ! 1) d = Some text \<and> csv_rows text = Inr rows \<and> default_scenario rows = Inl e)))
   | (Inr _, d') \<Rightarrow> \<exists>text rows out out_dir. disk_get (argv ! 1) d = Some text \<and> csv_rows text = Inr rows \<and>
       default_scenario rows = Inr out \<and> out_dir = (if 2 < length argv then argv ! 2 else path_join here ''out'') \<and>
       (\<forall>p. disk_get p d' = (case map_of (artifact_files (argv ! 1) out_dir out @ summary_files out_dir out) p of
         Some t \<Rightarrow> Some t | None \<Rightarrow> disk_get p d))"
proof (cases "length argv < 2")
  case True
  then show ?thesis by (simp add: golden_main_def act_raise_def)
next
  case False
  then have argv: "2 \<le> length argv" by simp
  show ?thesis
  proof (cases "disk_get (argv ! 1) d")
    case None
    with False show ?thesis by (simp add: golden_main_def Let_def act_bind_def rows_read)
  next
    case (Some csv)
    obtain rows where rows: "csv_rows csv = Inr rows" using csv_total by blast
    show ?thesis
    proof (cases "default_scenario rows")
      case (Inl e)
      with golden_main_result [OF argv Some rows] argv Some rows show ?thesis by simp
    next
      case (Inr out)
      with golden_main_result [OF argv Some rows] Some rows show ?thesis
        by (simp add: Let_def files.get_puts [OF artifact_names(1)] del: fold_append map_of_append)
    qed
  qed
qed

end
