(* ===== verification/Host_Programs.thy ===== *)
theory Host_Programs
  imports Golden_Program Serial_Host "HOL-Library.List_Lexorder" "HOL-Library.Char_ord"
begin

text \<open>
  The two host scripts as programs: what \<open>main\<close> of \<open>serial_host.py\<close> and of \<open>host_runner.py\<close> do once
  their arguments are parsed, on the files and on the serial port. Whether the port opens is a
  parameter: the exception of its constructor, or none.
\<close>

section \<open>The world of a host\<close>

record 'd world =
  world_files :: disk
  world_serial :: "'d serial"

definition on_files :: "(disk, 'a) act \<Rightarrow> ('d world, 'a) act" where
  "on_files = zoom world_files (\<lambda>d w. w\<lparr>world_files := d\<rparr>)"

definition on_port :: "('d serial, 'a) act \<Rightarrow> ('d world, 'a) act" where
  "on_port = zoom world_serial (\<lambda>s w. w\<lparr>world_serial := s\<rparr>)"

interpretation wfiles: lens world_files "\<lambda>d w. w\<lparr>world_files := d\<rparr>"
  by unfold_locales simp_all

interpretation wport: lens world_serial "\<lambda>s w. w\<lparr>world_serial := s\<rparr>"
  by unfold_locales simp_all

text \<open>\<open>reset_input_buffer\<close> and \<open>read_all\<close>: what was received so far is dropped.\<close>

definition drop_input :: "('d serial, unit) act" where
  "drop_input = act_modify (\<lambda>s. s\<lparr>rx := []\<rparr>)"

section \<open>serial_host.py\<close>

definition serial_run_golden :: "string \<Rightarrow> string \<Rightarrow> (disk, artifacts) act" where
  "serial_run_golden scenario_csv out_dir =
     act_bind (read_rows scenario_csv) (\<lambda>rows.
     act_bind (act_read (\<lambda>_. default_scenario rows)) (\<lambda>out.
     act_bind (write_artifacts scenario_csv out_dir out) (\<lambda>_. act_return out)))"

definition dry_run_csv :: "string \<Rightarrow> (disk, bool) act" where
  "dry_run_csv scenario_csv =
     act_bind (read_rows scenario_csv) (\<lambda>rows. act_read (\<lambda>_. dry_run rows SMEM_WORDS BRAM_SIZE))"

text \<open>\<open>sorted(glob.glob(os.path.join(dir, "*.csv")))\<close>: hidden files and subdirectories are not matched.\<close>

definition csv_in :: "string \<Rightarrow> string \<Rightarrow> bool" where
  "csv_in dir p = (let pre = path_join dir []; name = drop (length pre) p
     in take (length pre) p = pre \<and> CHR ''/'' \<notin> set name \<and> take 1 name \<noteq> ''.'' \<and>
        4 \<le> length name \<and> drop (length name - 4) name = ''.csv'')"

definition scenario_csvs :: "string \<Rightarrow> disk \<Rightarrow> string list" where
  "scenario_csvs dir d = sort (filter (csv_in dir) (remdups (map fst d)))"

text \<open>\<open>_find_arty_port\<close>: the first device, in order, of the first pattern that has any.\<close>

definition glob_prefix :: "string \<Rightarrow> disk \<Rightarrow> string list" where
  "glob_prefix pre d = sort (filter (\<lambda>p. take (length pre) p = pre \<and> CHR ''/'' \<notin> set (drop (length pre) p))
     (remdups (map fst d)))"

definition arty_ports :: "disk \<Rightarrow> string list" where
  "arty_ports d = concat (map (\<lambda>pre. take 1 (glob_prefix pre d))
     [''/dev/tty.usbserial-'', ''/dev/cu.usbserial-'', ''/dev/ttyUSB''])"

definition find_arty_port :: "(disk, string option) act" where
  "find_arty_port = act_gets (\<lambda>d. case arty_ports d of [] \<Rightarrow> None | port # _ \<Rightarrow> Some port)"

lemma arty_port_exists:
  assumes "find_arty_port d = (Inr (Some p), d')"
  shows "p \<in> fst ` set d \<and> d' = d"
proof -
  have "set (arty_ports d) \<subseteq> fst ` set d" by (auto simp: arty_ports_def glob_prefix_def dest!: in_set_takeD)
  moreover have "p \<in> set (arty_ports d) \<and> d' = d"
    using assms by (auto simp: find_arty_port_def act_gets_def split: list.splits)
  ultimately show ?thesis by blast
qed

text \<open>Passed and failed; an exception of one scenario counts as a failure of it.\<close>

definition dry_run_all :: "string \<Rightarrow> (disk, int \<times> int) act" where
  "dry_run_all scenarios_dir =
     act_bind (act_gets (scenario_csvs scenarios_dir)) (\<lambda>csvs.
     act_bind (map_each (\<lambda>csv. act_catch (\<lambda>_. True) (dry_run_csv csv) (act_return False)) csvs) (\<lambda>oks.
       act_return (int (length (filter id oks)), int (length (filter Not oks)))))"

text \<open>The parsed arguments, with the paths made absolute; \<open>sa_host\<close> holds the three base addresses.\<close>

record serial_args =
  sa_scenario :: string
  sa_out_dir :: string
  sa_host :: dma_host
  sa_list_ports :: bool
  sa_dry_run :: bool
  sa_dry_run_all :: bool

text \<open>
  The path with the board. The files the session reads were written at its start and nobody else
  writes, so they are read when the \<open>try\<close> is entered.
\<close>

definition fpga_session :: "'d firmware \<Rightarrow> dma_host \<Rightarrow> string \<Rightarrow> int list \<Rightarrow> ('d world, unit) act" where
  "fpga_session fw h out_dir sram_words =
     act_bind (on_files (read_file (path_join out_dir ''initial_smem.hex''))) (\<lambda>init_smem.
     act_bind (on_files (read_file (path_join out_dir ''initial_sram.hex''))) (\<lambda>init_sram.
     act_bind (on_files (read_file (path_join out_dir ''stim.txt''))) (\<lambda>stim.
       on_port (session_body fw h stim init_smem init_sram sram_words))))"

definition fpga_path :: "'d firmware \<Rightarrow> unit result \<Rightarrow> serial_args \<Rightarrow> ('d world, unit) act" where
  "fpga_path fw opened args =
     act_bind (on_files (serial_run_golden (sa_scenario args) (sa_out_dir args))) (\<lambda>_.
     act_bind (on_files (read_file (path_join (sa_out_dir args) ''golden_smem.hex''))) (\<lambda>smem_text.
     act_bind (act_read (\<lambda>_. load_hex32 smem_text)) (\<lambda>smem_words.
     act_bind (on_files (read_file (path_join (sa_out_dir args) ''golden_sram.hex''))) (\<lambda>sram_text.
     act_bind (act_read (\<lambda>_. load_hex32 sram_text)) (\<lambda>sram_words.
     act_bind (act_read (\<lambda>_. crc32_words smem_words)) (\<lambda>_.
     act_bind (act_read (\<lambda>_. crc32_words sram_words)) (\<lambda>_.
     act_bind (act_read (\<lambda>_. opened)) (\<lambda>_.
     act_bind (on_port drop_input) (\<lambda>_.
       act_catch link_error (fpga_session fw (sa_host args) (sa_out_dir args) sram_words)
         (act_raise (SystemExit 1)))))))))))"

definition serial_main :: "'d firmware \<Rightarrow> unit result \<Rightarrow> string \<Rightarrow> serial_args \<Rightarrow> ('d world, unit) act" where
  "serial_main fw opened sim_dir args =
     (if sa_list_ports args then act_return ()
      else if sa_dry_run_all args
      then act_bind (on_files (dry_run_all (path_join sim_dir ''scenarios''))) (\<lambda>(passed, failed).
             act_raise (SystemExit (if failed = 0 then 0 else 1)))
      else if sa_dry_run args
      then act_bind (on_files (dry_run_csv (sa_scenario args))) (\<lambda>ok. act_raise (SystemExit (if ok then 0 else 1)))
      else fpga_path fw opened args)"

section \<open>host_runner.py\<close>

text \<open>A port that cannot be opened ends \<open>main\<close> with a message and a plain return.\<close>

definition runner_main :: "'d firmware \<Rightarrow> unit result \<Rightarrow> bool \<Rightarrow> string \<Rightarrow> ('d world, unit) act" where
  "runner_main fw opened viz stim_path = (case opened of
     Inl e \<Rightarrow> act_return ()
   | Inr _ \<Rightarrow>
       act_bind (on_port drop_input) (\<lambda>_.
       act_bind (on_files (read_file stim_path)) (\<lambda>text.
       act_bind (on_port (host_session fw viz (file_lines (universal_newlines text)))) (\<lambda>code.
         act_raise (SystemExit code)))))"

section \<open>What the session reads\<close>

lemma on_files_apply: "on_files m w = (case m (world_files w) of (r, d) \<Rightarrow> (r, w\<lparr>world_files := d\<rparr>))"
  by (simp add: on_files_def zoom_def)

lemma on_port_apply: "on_port m w = (case m (world_serial w) of (r, s) \<Rightarrow> (r, w\<lparr>world_serial := s\<rparr>))"
  by (simp add: on_port_def zoom_def)

lemma file_read:
  "disk_get p (world_files w) = Some t \<Longrightarrow> act_bind (on_files (read_file p)) f w = f t w"
  by (simp add: act_bind_def on_files_apply read_file_def act_read_def)

definition with_artifacts :: "string \<Rightarrow> string \<Rightarrow> artifacts \<Rightarrow> disk \<Rightarrow> disk" where
  "with_artifacts csv_path out_dir out d = fold (\<lambda>(p, t). disk_put p t) (artifact_files csv_path out_dir out) d"

lemma artifact_get:
  "disk_get (path_join out_dir ''stim.txt'') (with_artifacts c out_dir out d)
    = Some (stim_file (basename c) (stim_lines out))"
  "disk_get (path_join out_dir ''initial_smem.hex'') (with_artifacts c out_dir out d) = Some (hex32_file (initial_smem out))"
  "disk_get (path_join out_dir ''golden_smem.hex'') (with_artifacts c out_dir out d) = Some (hex32_file (final_smem out))"
  "disk_get (path_join out_dir ''initial_sram.hex'') (with_artifacts c out_dir out d) = Some (hex32_file (initial_sram out))"
  "disk_get (path_join out_dir ''golden_sram.hex'') (with_artifacts c out_dir out d) = Some (hex32_file (final_sram out))"
  unfolding with_artifacts_def files.get_puts [OF artifact_names(2)]
  by (simp_all add: artifact_files_def path_join_inject)

lemma serial_golden_result:
  assumes "disk_get c d = Some t" and "csv_rows t = Inr rows"
  shows "serial_run_golden c out_dir d = (case default_scenario rows of
    Inl e \<Rightarrow> (Inl e, d) | Inr out \<Rightarrow> (Inr out, with_artifacts c out_dir out d))"
  using assms
  by (simp add: serial_run_golden_def act_bind_def rows_read act_read_def artifacts_written act_return_def
      with_artifacts_def split: sum.split)

lemma session_fresh:
  assumes "world_files w = with_artifacts c out_dir out d"
  shows "fpga_session fw h out_dir sram_words w
    = on_port (session_body fw h (stim_file (basename c) (stim_lines out)) (hex32_file (initial_smem out))
        (hex32_file (initial_sram out)) sram_words) w"
  unfolding fpga_session_def by (simp add: file_read artifact_get assms)

lemma catch_same: "m s = n s \<Longrightarrow> act_catch p m h s = act_catch p n h s"
  by (simp add: act_catch_def)

lemma input_dropped: "on_port drop_input w = (Inr (), w\<lparr>world_serial := (world_serial w)\<lparr>rx := []\<rparr>\<rparr>)"
  by (simp add: on_port_apply drop_input_def act_modify_def)

text \<open>What \<open>main\<close> does with a fresh board session: the artifacts are those of the scenario it names.\<close>

lemma fpga_fresh:
  assumes "disk_get (sa_scenario args) (world_files w) = Some t" and "csv_rows t = Inr rows"
  shows "fpga_path fw opened args w = (case default_scenario rows of
      Inl e \<Rightarrow> (Inl e, w)
    | Inr out \<Rightarrow>
        let w' = w\<lparr>world_files := with_artifacts (sa_scenario args) (sa_out_dir args) out (world_files w)\<rparr>
        in case opened of Inl e \<Rightarrow> (Inl e, w')
           | Inr _ \<Rightarrow> on_port (act_bind drop_input (\<lambda>_.
               board_session fw (sa_host args) (basename (sa_scenario args)) out)) w')"
proof (cases "default_scenario rows")
  case (Inl e)
  with assms show ?thesis
    by (simp add: fpga_path_def act_bind_def on_files_apply serial_golden_result)
next
  case (Inr out)
  let ?w = "w\<lparr>world_files := with_artifacts (sa_scenario args) (sa_out_dir args) out (world_files w)\<rparr>"
  have golden: "act_bind (on_files (serial_run_golden (sa_scenario args) (sa_out_dir args))) f w = f out ?w" for f :: "artifacts \<Rightarrow> _"
    using assms Inr by (simp add: act_bind_def on_files_apply serial_golden_result)
  let ?body = "session_body fw (sa_host args) (stim_file (basename (sa_scenario args)) (stim_lines out))
      (hex32_file (initial_smem out)) (hex32_file (initial_sram out)) (map (\<lambda>w. w AND 0xFFFFFFFF) (final_sram out))"
  have body: "act_catch link_error (fpga_session fw (sa_host args) (sa_out_dir args)
        (map (\<lambda>w. w AND 0xFFFFFFFF) (final_sram out))) (act_raise (SystemExit 1)) v
      = on_port (act_catch link_error ?body (act_raise (SystemExit 1))) v"
    if "world_files v = world_files ?w" for v
    unfolding on_port_def wport.zoom_catch wport.zoom_raise
    by (rule catch_same) (simp add: session_fresh [where w = v, unfolded on_port_def] that)
  have main: "fpga_path fw opened args w = act_bind (act_read (\<lambda>_. opened)) (\<lambda>_. act_bind (on_port drop_input)
      (\<lambda>_. act_catch link_error (fpga_session fw (sa_host args) (sa_out_dir args)
        (map (\<lambda>w. w AND 0xFFFFFFFF) (final_sram out))) (act_raise (SystemExit 1)))) ?w"
    unfolding fpga_path_def golden
    by (simp add: file_read artifact_get load_hex32_file known_read crc32_words_ok [OF masked_u32s])
  have board: "board_session fw (sa_host args) (basename (sa_scenario args)) out
      = act_catch link_error ?body (act_raise (SystemExit 1))"
    unfolding board_session_def load_hex32_file known_read crc32_words_ok [OF masked_u32s] ..
  show ?thesis
    unfolding main Inr
    by (cases opened)
      (simp_all add: act_simps input_dropped body, simp add: on_port_apply act_bind_def drop_input_def act_modify_def board split: prod.split)
qed

section \<open>Running every scenario\<close>

lemma dry_run_keeps: "dry_run_csv c d = (fst (dry_run_csv c d), d)"
  by (simp add: dry_run_csv_def act_bind_def rows_read act_read_def split: option.split sum.split)

lemma dry_run_on_files: "on_files (dry_run_csv c) w = (fst (dry_run_csv c (world_files w)), w)"
  by (subst on_files_apply, subst dry_run_keeps) simp

lemma dry_runs:
  "map_each (\<lambda>csv. act_catch (\<lambda>_. True) (dry_run_csv csv) (act_return False)) csvs d
    = (Inr (map (\<lambda>csv. fst (dry_run_csv csv d) = Inr True) csvs), d)"
proof (rule map_each_reads)
  fix csv
  show "act_catch (\<lambda>_. True) (dry_run_csv csv) (act_return False) d = (Inr (fst (dry_run_csv csv d) = Inr True), d)"
    by (subst act_catch_def, subst dry_run_keeps) (auto simp: act_return_def split: sum.split)
qed

lemma dry_run_all_result:
  "dry_run_all dir d = (Inr (int (length (filter id (map (\<lambda>csv. fst (dry_run_csv csv d) = Inr True) (scenario_csvs dir d)))),
     int (length (filter Not (map (\<lambda>csv. fst (dry_run_csv csv d) = Inr True) (scenario_csvs dir d))))), d)"
  by (simp add: dry_run_all_def act_simps dry_runs)

section \<open>Properties\<close>

text \<open>
  C24. \<open>--dry-run-all\<close> ends with status 0 exactly when the self-check passes for every CSV file of the
  scenario directory; a missing row, a scenario that raises or a mismatch in one of them makes it 1,
  and no file is written.
\<close>

theorem dry_run_all_status:
  assumes "sa_dry_run_all args" and "\<not> sa_list_ports args"
  shows "snd (serial_main fw opened sim_dir args w) = w \<and>
    exit_status (fst (serial_main fw opened sim_dir args w)) = (if \<forall>p text. csv_in (path_join sim_dir ''scenarios'') p \<and>
      disk_get p (world_files w) = Some text \<longrightarrow> fst (dry_run_csv p (world_files w)) = Inr True then 0 else 1)"
proof -
  let ?d = "world_files w" and ?dir = "path_join sim_dir ''scenarios''"
  have main: "serial_main fw opened sim_dir args w
      = (Inl (SystemExit (if \<forall>p \<in> set (scenario_csvs ?dir ?d). fst (dry_run_csv p ?d) = Inr True then 0 else 1)), w)"
    using assms
    by (auto simp: serial_main_def act_bind_def on_files_apply dry_run_all_result act_raise_def filter_empty_conv)
  have "p \<in> set (scenario_csvs ?dir ?d) \<longleftrightarrow> csv_in ?dir p \<and> (\<exists>t. disk_get p ?d = Some t)" for p
    by (auto simp: scenario_csvs_def disk_get_def simp flip: dom_map_of_conv_image_fst)
  then show ?thesis unfolding main by auto
qed

theorem dry_run_all_status_witness:
  "exit_status (fst (serial_main (\<lambda>_ d. ([], d)) (Inr ()) ''/sim'' \<lparr>sa_scenario = ''x'', sa_out_dir = ''/out'',
     sa_host = \<lparr>csr_base_addr = CSR_BASE, smem_base_addr = 0, sram_base_addr = 0, ack_polls = 9, dma_polls = 9\<rparr>,
     sa_list_ports = False, sa_dry_run = False, sa_dry_run_all = True\<rparr>
     \<lparr>world_files = [(''/sim/scenarios/bad.csv'', ''foo,1'')], world_serial = \<lparr>rx = [], tx = [], device = ()\<rparr>\<rparr>)) = 1"
proof -
  let ?d = "[(''/sim/scenarios/bad.csv'', ''foo,1'')]"
  have "csv_in (path_join ''/sim'' ''scenarios'') ''/sim/scenarios/bad.csv''" by code_simp
  moreover have "disk_get ''/sim/scenarios/bad.csv'' ?d = Some ''foo,1''" by (simp add: disk_get_def)
  moreover have "fst (dry_run_csv ''/sim/scenarios/bad.csv'' ?d) \<noteq> Inr True" by code_simp
  ultimately have "\<not> (\<forall>p text. csv_in (path_join ''/sim'' ''scenarios'') p \<and> disk_get p ?d = Some text \<longrightarrow>
      fst (dry_run_csv p ?d) = Inr True)" by blast
  then show ?thesis by (subst dry_run_all_status [THEN conjunct2]) simp_all
qed

text \<open>
  C21. What an earlier run left in the output directory or in the port's buffer never reaches a
  session: two worlds with the same scenario file and the same firmware state give the same
  outcome, send the same bytes and leave the firmware in the same state, whatever other files
  they hold.
\<close>

theorem stale_artifacts_ignored:
  assumes "\<not> sa_dry_run_all args"
    and "disk_get (sa_scenario args) (world_files w) = disk_get (sa_scenario args) (world_files v)"
    and "(world_serial w)\<lparr>rx := []\<rparr> = (world_serial v)\<lparr>rx := []\<rparr>"
  shows "fst (serial_main fw opened sim_dir args w) = fst (serial_main fw opened sim_dir args v) \<and>
    (world_serial (snd (serial_main fw opened sim_dir args w)))\<lparr>rx := []\<rparr>
      = (world_serial (snd (serial_main fw opened sim_dir args v)))\<lparr>rx := []\<rparr>"
proof -
  have fpga: "fst (fpga_path fw opened args w) = fst (fpga_path fw opened args v) \<and>
      (world_serial (snd (fpga_path fw opened args w)))\<lparr>rx := []\<rparr> = (world_serial (snd (fpga_path fw opened args v)))\<lparr>rx := []\<rparr>"
  proof (cases "disk_get (sa_scenario args) (world_files v)")
    case None
    with assms show ?thesis
      by (simp add: fpga_path_def act_bind_def on_files_apply serial_run_golden_def rows_read)
  next
    case (Some csv)
    obtain rows where "csv_rows csv = Inr rows" using csv_total by blast
    note fresh = fpga_fresh [of args _ csv, OF _ this, of _ fw opened]
    show ?thesis
    proof (cases "default_scenario rows")
      case (Inl e)
      with fresh [of w] fresh [of v] Some assms(2,3) show ?thesis by simp
    next
      case (Inr out)
      with fresh [of w] fresh [of v] Some assms(2,3) show ?thesis
        by (cases opened)
          (simp_all add: Let_def on_port_apply act_bind_def drop_input_def act_modify_def split: prod.split)
    qed
  qed
  show ?thesis
  proof (cases "sa_list_ports args \<or> \<not> sa_dry_run args")
    case True
    with fpga assms show ?thesis by (auto simp: serial_main_def act_return_def)
  next
    case False
    have dry: "fst (dry_run_csv (sa_scenario args) (world_files w)) = fst (dry_run_csv (sa_scenario args) (world_files v))"
      using assms(2) by (simp add: dry_run_csv_def act_bind_def rows_read act_read_def split: option.split sum.split)
    with False assms(1,3) show ?thesis
      by (auto simp: serial_main_def act_bind_def act_raise_def dry_run_on_files split: sum.split)
  qed
qed

theorem stale_artifacts_ignored_witness:
  "fst (serial_main (\<lambda>_ d. (sync_bytes @ [0xAA, 1, 2, 3, 4], d)) (Inr ()) ''/sim'' \<lparr>sa_scenario = ''/sim/a.csv'', sa_out_dir = ''/out'',
     sa_host = \<lparr>csr_base_addr = CSR_BASE, smem_base_addr = 0, sram_base_addr = 0, ack_polls = 9, dma_polls = 9\<rparr>,
     sa_list_ports = False, sa_dry_run = False, sa_dry_run_all = False\<rparr>
     \<lparr>world_files = [(''/out/stim.txt'', ''csv_write 00 1''), (''/sim/a.csv'', ''smem,3,7'')],
      world_serial = \<lparr>rx = [7], tx = [], device = ()\<rparr>\<rparr>)
   = fst (serial_main (\<lambda>_ d. (sync_bytes @ [0xAA, 1, 2, 3, 4], d)) (Inr ()) ''/sim'' \<lparr>sa_scenario = ''/sim/a.csv'', sa_out_dir = ''/out'',
     sa_host = \<lparr>csr_base_addr = CSR_BASE, smem_base_addr = 0, sram_base_addr = 0, ack_polls = 9, dma_polls = 9\<rparr>,
     sa_list_ports = False, sa_dry_run = False, sa_dry_run_all = False\<rparr>
     \<lparr>world_files = [(''/sim/a.csv'', ''smem,3,7'')], world_serial = \<lparr>rx = [], tx = [], device = ()\<rparr>\<rparr>)"
  by (rule stale_artifacts_ignored [THEN conjunct1]) (simp_all add: disk_get_def)

text \<open>
  C23. The session program ends with an exit status: when the scenario runs and the port opens, then
  whatever the firmware answers the program returns or exits with status 1, and the artifacts of
  the scenario are on the disk.
\<close>

theorem serial_main_exits:
  assumes "\<not> sa_list_ports args" and "\<not> sa_dry_run_all args" and "\<not> sa_dry_run args"
    and "disk_get (sa_scenario args) (world_files w) = Some t" and "csv_rows t = Inr rows"
    and "default_scenario rows = Inr out" and "plain (basename (sa_scenario args))"
  shows "fst (serial_main fw (Inr ()) sim_dir args w) \<in> {Inr (), Inl (SystemExit 1)} \<and>
    world_files (snd (serial_main fw (Inr ()) sim_dir args w))
      = with_artifacts (sa_scenario args) (sa_out_dir args) out (world_files w)"
proof -
  let ?s = "(world_serial w)\<lparr>rx := []\<rparr>" and ?name = "basename (sa_scenario args)"
  have board: "fst (board_session fw (sa_host args) ?name out ?s) \<in> {Inr (), Inl (SystemExit 1)}"
    using raises_onlyD [OF board_errors, of out ?name fw "sa_host args" ?s]
      scenario_stim [OF assms(6) [unfolded default_scenario_def]] assms(7)
    by (cases "board_session fw (sa_host args) ?name out ?s"; cases "fst (board_session fw (sa_host args) ?name out ?s)") auto
  have "serial_main fw (Inr ()) sim_dir args w = fpga_path fw (Inr ()) args w"
    using assms(1-3) by (simp add: serial_main_def)
  with board show ?thesis
    using fpga_fresh [OF assms(4,5), of fw "Inr ()"] assms(6)
    by (cases "board_session fw (sa_host args) ?name out ?s")
      (simp add: on_port_apply act_bind_def drop_input_def act_modify_def)
qed

theorem serial_main_exits_witness:
  "fst (serial_main (\<lambda>_ d. ([0x55, 0xAA], d)) (Inr ()) ''/sim'' \<lparr>sa_scenario = ''/sim/a.csv'', sa_out_dir = ''/out'',
     sa_host = \<lparr>csr_base_addr = CSR_BASE, smem_base_addr = 0, sram_base_addr = 0, ack_polls = 9, dma_polls = 9\<rparr>,
     sa_list_ports = False, sa_dry_run = False, sa_dry_run_all = False\<rparr>
     \<lparr>world_files = [(''/sim/a.csv'', ''smem,3,7'')], world_serial = \<lparr>rx = [], tx = [], device = ()\<rparr>\<rparr>)
   \<in> {Inr (), Inl (SystemExit 1)}"
proof -
  have "\<not> isl (default_scenario [[''smem'', ''3'', ''7'']])" by code_simp
  then obtain out where out: "default_scenario [[''smem'', ''3'', ''7'']] = Inr out"
    by (cases "default_scenario [[''smem'', ''3'', ''7'']]") auto
  have rows: "csv_rows ''smem,3,7'' = Inr [[''smem'', ''3'', ''7'']]" by code_simp
  show ?thesis
    by (rule serial_main_exits [OF _ _ _ _ rows out, THEN conjunct1]) (simp_all add: disk_get_def plain_def basename_def)
qed

end
