(* ===== verification/Serial_Session.thy ===== *)
theory Serial_Session
  imports Bring_Up Serial_Host
begin

text \<open>
  The session of \<open>serial_host.py\<close> on the board of \<open>Board\<close>: each operation of \<open>DMASerialHost\<close> as a step
  on what is visible of the board, the session as their sequence, and its verdict. The waits of this
  host end by the clock, so its polls have to outlast what the firmware prints in front of an
  acknowledgement (\<open>host_fits\<close>).
\<close>

section \<open>Polling for an acknowledgement\<close>

definition terse :: "nat \<Rightarrow> printf \<Rightarrow> bool" where
  "terse k say \<longleftrightarrow> (\<forall>f xs. length (say f xs) \<le> k)"

lemma spoken_length: "terse k say \<Longrightarrow> spoken say said \<Longrightarrow> length said \<le> 2 * k"
  by (auto simp: spoken_def terse_def mult_2 intro: trans_le_add1) (simp add: add_mono)

lemma same_packet: "host_send_packet = send_packet"
  by (intro ext) (simp add: host_send_packet_def send_packet_def)

lemma polled_ack:
  assumes "on_board s b" and "rx s = []" and "answers bus say opcode addr payload b CMD_ACK data b'"
    and "ascii_printf say" and "terse k say" and "2 * k + 5 + length data < polls"
  shows "\<exists>s1. host_send_packet (uart_firmware bus say) opcode addr payload s = (Inr (), s1) \<and>
    host_wait_for_ack polls s1 = (Inr (), s1\<lparr>rx := data\<rparr>) \<and> on_board (s1\<lparr>rx := []\<rparr>) b'"
proof -
  obtain s1 said where s1: "send_packet (uart_firmware bus say) opcode addr payload s = (Inr (), s1)"
      "wait_for_ack s1 = (Inr True, s1\<lparr>rx := data\<rparr>)" "on_board (s1\<lparr>rx := []\<rparr>) b'"
      "spoken say said" "rx s1 = rx s @ said @ send_ack CMD_ACK @ data"
    using exchange [OF assms(1,3,4)] by auto
  have "length (rx s1) < polls"
    using spoken_length [OF assms(5) s1(4)] assms(2,6) by (simp add: s1(5) send_ack_def)
  from poll_scan [OF this, of 0] s1(2)
  have "host_wait_for_ack polls s1 = (Inr (), s1\<lparr>rx := data\<rparr>)"
    by (cases "ack_poll polls 0 (rx s1)"; cases "ack_scan 0 (rx s1)")
      (auto simp: host_wait_for_ack_def wait_for_ack_def, (metis serial.select_convs(1) serial.surjective serial.update_convs(1))?)
  with s1(1,3) show ?thesis by (auto simp: same_packet)
qed

section \<open>The operations on the board\<close>

text \<open>A host with the default base addresses whose waits outlast every answer.\<close>

definition host_fits :: "printf \<Rightarrow> dma_host \<Rightarrow> bool" where
  "host_fits say h \<longleftrightarrow> ascii_printf say \<and>
     (\<exists>k. terse k say \<and> 2 * k + 9 < ack_polls h \<and> 2 * k + 9 < dma_polls h) \<and>
     csr_base_addr h = CSR_BASE \<and> smem_base_addr h = 0 \<and> sram_base_addr h = 0"

text \<open>Nothing is left unread, and the board looks like this.\<close>

definition quiet_board :: "dma_board uart_fw serial \<Rightarrow> board_view \<Rightarrow> bool" where
  "quiet_board s v \<longleftrightarrow> rx s = [] \<and> board_stands s v"

lemma quiet_boardE:
  assumes "quiet_board s v"
  obtains b where "rx s = []" and "on_board s b" and "board_ready b" and "board_view_of b = v"
  using assms unfolding quiet_board_def board_stands_def stands_def by blast

lemma quiet_boardI:
  "on_board (s\<lparr>rx := []\<rparr>) b \<Longrightarrow> board_ready b \<Longrightarrow> board_view_of b = v \<Longrightarrow> quiet_board (s\<lparr>rx := []\<rparr>) v"
  unfolding quiet_board_def board_stands_def by (auto intro: standsI)

text \<open>The port with nothing unread, and the board behind it.\<close>

definition quiet_at :: "dma_board uart_fw serial \<Rightarrow> dma_board \<Rightarrow> bool" where
  "quiet_at s b \<longleftrightarrow> rx s = [] \<and> on_board s b"

lemma host_writes_at:
  assumes "host_fits say h" and "quiet_at s b" and "0 \<le> w" and "w < 2 ^ 32"
    and "answers board_bus say opcode addr (le32 w) b CMD_ACK [] b'"
  shows "\<exists>s'. host_write (uart_firmware board_bus say) h opcode addr w s = (Inr (), s') \<and> quiet_at s' b'"
proof -
  obtain k where k: "ascii_printf say" "terse k say" "2 * k + 9 < ack_polls h"
    using assms(1) by (auto simp: host_fits_def)
  obtain s1 where "host_send_packet (uart_firmware board_bus say) opcode addr (le32 w) s = (Inr (), s1)"
      "host_wait_for_ack (ack_polls h) s1 = (Inr (), s1\<lparr>rx := []\<rparr>)" "on_board (s1\<lparr>rx := []\<rparr>) b'"
    using polled_ack [OF _ _ assms(5) k(1,2), of s "ack_polls h"] assms(2) k(3) by (auto simp: quiet_at_def)
  moreover have "pack_u32 (w AND 0xFFFFFFFF) = Inr (le32 w)" using assms(3,4) by (simp add: masked_packs)
  ultimately show ?thesis
    by (auto simp: host_write_def act_simps act_bind_def quiet_at_def)
qed

lemma host_replies_at:
  assumes "host_fits say h" and "quiet_at s b" and "0 \<le> x" and "x < 2 ^ 32"
    and "answers board_bus say opcode addr payload b CMD_ACK (le32 x) b'"
  shows "\<exists>s'. act_bind (host_send_packet (uart_firmware board_bus say) opcode addr payload) (\<lambda>_. host_reply h) s
    = (Inr x, s') \<and> quiet_at s' b'"
proof -
  obtain k where k: "ascii_printf say" "terse k say" "2 * k + 9 < ack_polls h"
    using assms(1) by (auto simp: host_fits_def)
  obtain s1 where s1: "host_send_packet (uart_firmware board_bus say) opcode addr payload s = (Inr (), s1)"
      "host_wait_for_ack (ack_polls h) s1 = (Inr (), s1\<lparr>rx := le32 x\<rparr>)" "on_board (s1\<lparr>rx := []\<rparr>) b'"
    using polled_ack [OF _ _ assms(5) k(1,2), of s "ack_polls h"] assms(2) k(3) by (auto simp: quiet_at_def)
  have "host_reply h s1 = (Inr x, s1\<lparr>rx := []\<rparr>)"
    using assms(3,4) by (simp add: host_reply_def act_bind_def s1(2) ser_read_def act_return_def unpack_le32)
  with s1 show ?thesis by (auto simp: act_bind_def quiet_at_def)
qed

lemma quiet_atE:
  assumes "quiet_board s v"
  obtains b where "quiet_at s b" and "board_ready b" and "board_view_of b = v"
  using assms by (auto simp: quiet_at_def elim!: quiet_boardE)

lemma quiet_atI: "quiet_at s b \<Longrightarrow> board_ready b \<Longrightarrow> board_view_of b = v \<Longrightarrow> quiet_board s v"
  unfolding quiet_at_def quiet_board_def board_stands_def by (auto intro: standsI)

lemma host_writes:
  assumes "host_fits say h" and "quiet_board s v" and "0 \<le> w" and "w < 2 ^ 32"
    and "\<And>b. board_ready b \<Longrightarrow> board_view_of b = v \<Longrightarrow>
      \<exists>b'. answers board_bus say opcode addr (le32 w) b CMD_ACK [] b' \<and> board_ready b' \<and> board_view_of b' = v'"
  shows "\<exists>s'. host_write (uart_firmware board_bus say) h opcode addr w s = (Inr (), s') \<and> quiet_board s' v'"
proof -
  obtain b where b: "quiet_at s b" "board_ready b" "board_view_of b = v" using assms(2) by (rule quiet_atE)
  obtain b' where "answers board_bus say opcode addr (le32 w) b CMD_ACK [] b'" "board_ready b'"
    "board_view_of b' = v'" using assms(5) [OF b(2,3)] by blast
  with host_writes_at [OF assms(1) b(1) assms(3,4)] show ?thesis using quiet_atI by blast
qed

lemma host_replies_some:
  assumes "host_fits say h" and "quiet_board s v"
    and "\<And>b. board_ready b \<Longrightarrow> board_view_of b = v \<Longrightarrow>
      \<exists>x b'. P x \<and> 0 \<le> x \<and> x < 2 ^ 32 \<and> answers board_bus say opcode addr payload b CMD_ACK (le32 x) b' \<and>
        board_ready b' \<and> board_view_of b' = v"
  shows "\<exists>x s'. P x \<and> act_bind (host_send_packet (uart_firmware board_bus say) opcode addr payload) (\<lambda>_. host_reply h) s
    = (Inr x, s') \<and> quiet_board s' v"
proof -
  obtain b where b: "quiet_at s b" "board_ready b" "board_view_of b = v" using assms(2) by (rule quiet_atE)
  obtain x b' where "P x" "0 \<le> x" "x < 2 ^ 32"
    "answers board_bus say opcode addr payload b CMD_ACK (le32 x) b'" "board_ready b'" "board_view_of b' = v"
    using assms(3) [OF b(2,3)] by blast
  with host_replies_at [OF assms(1) b(1)] show ?thesis using quiet_atI by blast
qed

lemma host_replies:
  assumes "host_fits say h" and "quiet_board s v" and "0 \<le> x" and "x < 2 ^ 32"
    and "\<And>b. board_ready b \<Longrightarrow> board_view_of b = v \<Longrightarrow>
      \<exists>b'. answers board_bus say opcode addr payload b CMD_ACK (le32 x) b' \<and> board_ready b' \<and> board_view_of b' = v"
  shows "\<exists>s'. act_bind (host_send_packet (uart_firmware board_bus say) opcode addr payload) (\<lambda>_. host_reply h) s
    = (Inr x, s') \<and> quiet_board s' v"
proof -
  have "\<exists>y b'. y = x \<and> 0 \<le> y \<and> y < 2 ^ 32 \<and> answers board_bus say opcode addr payload b CMD_ACK (le32 y) b' \<and>
      board_ready b' \<and> board_view_of b' = v" if "board_ready b" "board_view_of b = v" for b
    using assms(3,4) assms(5) [OF that] by simp
  from host_replies_some [OF assms(1,2) this] show ?thesis by simp
qed

lemma address:
  assumes "host_fits say h" and "holds a m"
  shows "(smem_base_addr h + a) AND 0xFFFFFFFF = a" and "(sram_base_addr h + a) AND 0xFFFFFFFF = a"
  using assms by (simp_all add: host_fits_def holds_def bits)

lemma quiet_words:
  assumes "quiet_board s v"
  shows "u32s (v_sys v)" and "u32s (v_ram v)"
  using assms board_mem.sys.cells_u32 board_mem.ram.cells_u32 by (auto elim!: quiet_boardE)

lemma writes_sys:
  assumes "host_fits say h" and "quiet_board s v" and "holds a (v_sys v)" and "0 \<le> w" and "w < 2 ^ 32"
  shows "\<exists>s'. smem_write (uart_firmware board_bus say) h a w s = (Inr (), s') \<and>
    quiet_board s' (v\<lparr>v_sys := (v_sys v)[cell a := w]\<rparr>)"
proof -
  have "\<exists>b'. answers board_bus say CMD_WRITE_SYSMEM a (le32 w) b CMD_ACK [] b' \<and> board_ready b' \<and>
      board_view_of b' = v\<lparr>v_sys := (v_sys v)[cell a := w]\<rparr>" if "board_ready b" "board_view_of b = v" for b
    using board_mem.sys.write_answer [OF that(1) _ assms(4,5), of a say] assms(3) that(2) by simp
  from host_writes [OF assms(1,2,4,5) this] show ?thesis
    unfolding smem_write_def address [OF assms(1,3)] .
qed

lemma writes_ram:
  assumes "host_fits say h" and "quiet_board s v" and "holds a (v_ram v)" and "0 \<le> w" and "w < 2 ^ 32"
  shows "\<exists>s'. sram_write (uart_firmware board_bus say) h a w s = (Inr (), s') \<and>
    quiet_board s' (v\<lparr>v_ram := (v_ram v)[cell a := w]\<rparr>)"
proof -
  have "\<exists>b'. answers board_bus say CMD_WRITE_SRAM a (le32 w) b CMD_ACK [] b' \<and> board_ready b' \<and>
      board_view_of b' = v\<lparr>v_ram := (v_ram v)[cell a := w]\<rparr>" if "board_ready b" "board_view_of b = v" for b
    using board_mem.ram.write_answer [OF that(1) _ assms(4,5), of a say] assms(3) that(2) by simp
  from host_writes [OF assms(1,2,4,5) this] show ?thesis
    unfolding sram_write_def address [OF assms(1,3)] .
qed

lemma reads_sys:
  assumes "host_fits say h" and "quiet_board s v" and "holds a (v_sys v)"
  shows "\<exists>s'. read_smem (uart_firmware board_bus say) h a s = (Inr (v_sys v ! cell a), s') \<and> quiet_board s' v"
proof -
  have word: "0 \<le> v_sys v ! cell a" "v_sys v ! cell a < 2 ^ 32"
    using u32s_nth [OF quiet_words(1) [OF assms(2)]] assms(3) by (simp_all add: holds_def)
  have "\<exists>b'. answers board_bus say CMD_READ_SYSMEM a [] b CMD_ACK (le32 (v_sys v ! cell a)) b' \<and> board_ready b' \<and>
      board_view_of b' = v" if "board_ready b" "board_view_of b = v" for b
    using board_mem.sys.read_answer [OF that(1), of a say] assms(3) that(2) by simp
  from host_replies [OF assms(1,2) word this] show ?thesis
    unfolding read_smem_def Let_def address [OF assms(1,3)] .
qed

lemma reads_ram:
  assumes "host_fits say h" and "quiet_board s v" and "holds a (v_ram v)"
  shows "\<exists>s'. read_sram (uart_firmware board_bus say) h a s = (Inr (v_ram v ! cell a), s') \<and> quiet_board s' v"
proof -
  have word: "0 \<le> v_ram v ! cell a" "v_ram v ! cell a < 2 ^ 32"
    using u32s_nth [OF quiet_words(2) [OF assms(2)]] assms(3) by (simp_all add: holds_def)
  have "\<exists>b'. answers board_bus say CMD_READ_SRAM a [] b CMD_ACK (le32 (v_ram v ! cell a)) b' \<and> board_ready b' \<and>
      board_view_of b' = v" if "board_ready b" "board_view_of b = v" for b
    using board_mem.ram.read_answer [OF that(1), of a say] assms(3) that(2) by simp
  from host_replies [OF assms(1,2) word this] show ?thesis
    unfolding read_sram_def Let_def address [OF assms(1,3)] .
qed

lemma requests_sys:
  assumes "host_fits say h" and "quiet_board s v" and "range_ok a n (v_sys v)" and "0 < n" and "int n * 4 < 2 ^ 32"
  shows "\<exists>s'. smem_crc (uart_firmware board_bus say) h a (int n * 4) s
    = (Inr (block_crc (load_block (v_sys v) (cell a) n)), s') \<and> quiet_board s' v"
proof -
  let ?crc = "block_crc (load_block (v_sys v) (cell a) n)"
  have word: "0 \<le> ?crc" "?crc < 2 ^ 32" using block_crc_u32 by simp_all
  have "\<exists>b'. answers board_bus say CMD_CRC_SYSMEM a (le32 (int n * 4)) b CMD_ACK (le32 ?crc) b' \<and> board_ready b' \<and>
      board_view_of b' = v" if "board_ready b" "board_view_of b = v" for b
    using board_mem.sys.crc_answer [OF that(1) _ assms(4,5), of a say] assms(3) that(2) by simp
  from host_replies [OF assms(1,2) word this] show ?thesis
    using assms(5) unfolding smem_crc_def Let_def address [OF assms(1) range_holds [OF assms(3,4)]]
    by (simp add: masked_packs act_simps)
qed

lemma requests_ram:
  assumes "host_fits say h" and "quiet_board s v" and "range_ok a n (v_ram v)" and "0 < n" and "int n * 4 < 2 ^ 32"
  shows "\<exists>s'. sram_crc (uart_firmware board_bus say) h a (int n * 4) s
    = (Inr (block_crc (load_block (v_ram v) (cell a) n)), s') \<and> quiet_board s' v"
proof -
  let ?crc = "block_crc (load_block (v_ram v) (cell a) n)"
  have word: "0 \<le> ?crc" "?crc < 2 ^ 32" using block_crc_u32 by simp_all
  have "\<exists>b'. answers board_bus say CMD_CRC_SRAM a (le32 (int n * 4)) b CMD_ACK (le32 ?crc) b' \<and> board_ready b' \<and>
      board_view_of b' = v" if "board_ready b" "board_view_of b = v" for b
    using board_mem.ram.crc_answer [OF that(1) _ assms(4,5), of a say] assms(3) that(2) by simp
  from host_replies [OF assms(1,2) word this] show ?thesis
    using assms(5) unfolding sram_crc_def Let_def address [OF assms(1) range_holds [OF assms(3,4)]]
    by (simp add: masked_packs act_simps)
qed

lemma csr_address:
  assumes "host_fits say h" and "0 \<le> off" and "off < 256"
  shows "(csr_base_addr h + off) AND 0xFFFFFFFF = CSR_BASE + off"
  using assms by (simp add: host_fits_def bits CSR_BASE_def)

lemma stores_csr:
  assumes "host_fits say h" and "quiet_at s b" and "0 \<le> off" and "off < 256" and "0 \<le> x" and "x < 2 ^ 32"
  shows "\<exists>s'. host_csr_write (uart_firmware board_bus say) h off x s = (Inr (), s') \<and> quiet_at s' (csr_store off x b)"
  using host_writes_at [OF assms(1,2,5,6) csr_store_answer [OF assms(3-6)]]
  unfolding host_csr_write_def csr_address [OF assms(1,3,4)] .

lemma loads_csr:
  assumes "host_fits say h" and "quiet_at s b" and "0 \<le> off" and "off < 256" and "board_ready b"
  shows "\<exists>s'. host_csr_read (uart_firmware board_bus say) h off s = (Inr (reg (g_csr (hw b)) off), s') \<and> quiet_at s' b"
  using host_replies_at [OF assms(1,2) _ _ csr_read_answer(1) [OF assms(5,3,4)]] csr_read_answer(2) [OF assms(5,3,4)]
  unfolding host_csr_read_def Let_def csr_address [OF assms(1,3,4)] by blast

lemma writes_csr:
  assumes "host_fits say h" and "quiet_board s v" and "0 \<le> x" and "x < 2 ^ 32"
    and "off = REG_BASEADDR \<and> v' = v\<lparr>v_base := x\<rparr> \<or> off = REG_RINGLEN \<and> v' = v\<lparr>v_len := x\<rparr> \<or>
      off = REG_TAIL \<and> v' = v\<lparr>v_tail := x\<rparr>"
  shows "\<exists>s'. host_csr_write (uart_firmware board_bus say) h off x s = (Inr (), s') \<and> quiet_board s' v'"
proof -
  have off: "0 \<le> off" "off < 256" using assms(5) by (auto simp: reg_offsets)
  have "\<exists>b'. answers board_bus say CMD_WRITE_CSR (CSR_BASE + off) (le32 x) b CMD_ACK [] b' \<and> board_ready b' \<and>
      board_view_of b' = v'" if "board_ready b" "board_view_of b = v" for b
    using csr_write_answer [OF that(1) assms(3,4)] assms(5) that(2) by blast
  from host_writes [OF assms(1-4) this] show ?thesis
    unfolding host_csr_write_def csr_address [OF assms(1) off] .
qed

lemma reads_csr:
  assumes "host_fits say h" and "quiet_board s v" and "0 \<le> off" and "off < 256"
  shows "\<exists>x s'. host_csr_read (uart_firmware board_bus say) h off s = (Inr x, s') \<and> quiet_board s' v"
proof -
  have "\<exists>x b'. True \<and> 0 \<le> x \<and> x < 2 ^ 32 \<and> answers board_bus say CMD_READ_CSR (CSR_BASE + off) [] b CMD_ACK (le32 x) b' \<and>
      board_ready b' \<and> board_view_of b' = v" if "board_ready b" "board_view_of b = v" for b
    using csr_read_answer [OF that(1) assms(3,4)] that by blast
  from host_replies_some [OF assms(1,2) this] show ?thesis
    unfolding host_csr_read_def Let_def csr_address [OF assms(1,3,4)] by simp
qed

lemma dumps_csr:
  assumes "host_fits say h" and "quiet_board s v"
  shows "\<exists>s'. host_dump_csr_status (uart_firmware board_bus say) h s = (Inr (), s') \<and> quiet_board s' v"
proof -
  let ?fw = "uart_firmware board_bus say"
  obtain x1 s1 where s1: "host_csr_read ?fw h 0x14 s = (Inr x1, s1)" "quiet_board s1 v"
    using reads_csr [OF assms, of "0x14"] by auto
  obtain x2 s2 where s2: "host_csr_read ?fw h 0x18 s1 = (Inr x2, s2)" "quiet_board s2 v"
    using reads_csr [OF assms(1) s1(2), of "0x18"] by auto
  obtain x3 s3 where s3: "host_csr_read ?fw h 0x08 s2 = (Inr x3, s3)" "quiet_board s3 v"
    using reads_csr [OF assms(1) s2(2), of "0x08"] by auto
  obtain x4 s4 where s4: "host_csr_read ?fw h 0x0C s3 = (Inr x4, s4)" "quiet_board s4 v"
    using reads_csr [OF assms(1) s3(2), of "0x0C"] by auto
  show ?thesis
    using s1 s2 s3 s4 by (simp add: host_dump_csr_status_def act_catch_def act_bind_def act_return_def)
qed

lemma starts_dma:
  assumes "host_fits say h" and "quiet_board s v" and "runnable v" and "v_tail v \<noteq> 0"
  shows "\<exists>s'. run_dma (uart_firmware board_bus say) h s = (Inr (), s') \<and> quiet_board s' (after_run v)"
proof -
  obtain b where b: "rx s = []" "on_board s b" "board_ready b" "board_view_of b = v"
    using assms(2) by (rule quiet_boardE)
  obtain b' where b': "answers board_bus say CMD_RUN_DMA 0 [] b CMD_ACK [] b'" "board_ready b'"
    "board_view_of b' = after_run v" using run_answer [OF b(3)] assms(3,4) b(4) by blast
  obtain k where k: "ascii_printf say" "terse k say" "2 * k + 9 < dma_polls h"
    using assms(1) by (auto simp: host_fits_def)
  obtain s1 where "host_send_packet (uart_firmware board_bus say) CMD_RUN_DMA 0 [] s = (Inr (), s1)"
      "host_wait_for_ack (dma_polls h) s1 = (Inr (), s1\<lparr>rx := []\<rparr>)" "on_board (s1\<lparr>rx := []\<rparr>) b'"
    using polled_ack [OF b(2,1) b'(1) k(1,2), of "dma_polls h"] k(3) by auto
  with b'(2,3) show ?thesis using quiet_boardI by (fastforce simp: run_dma_def act_bind_def)
qed

section \<open>Loading the board\<close>

text \<open>Every word of an image is written, so nothing of what a memory held before is left.\<close>

lemma writes_all:
  assumes "\<And>i w s v. i < length ws \<Longrightarrow> w = ws ! i \<Longrightarrow> quiet_board s v \<Longrightarrow> length (cells v) = length ws \<Longrightarrow>
      \<exists>s'. wr (int i * 4) w s = (Inr (), s') \<and> quiet_board s' (put ((cells v)[i := w]) v)"
    and "\<And>m v. cells (put m v) = m" and "\<And>m m' v. put m (put m' v) = put m v" and "\<And>v. put (cells v) v = v"
    and "quiet_board s v" and "length (cells v) = length ws"
  shows "\<exists>s'. for_each (\<lambda>(i, w). wr (i * 4) w) (indexed ws) s = (Inr (), s') \<and> quiet_board s' (put ws v)"
proof -
  have "\<exists>s'. for_each (\<lambda>(i, w). wr (i * 4) w) (take n (indexed ws)) s = (Inr (), s') \<and>
      quiet_board s' (put (take n ws @ drop n (cells v)) v)" if "n \<le> length ws" for n
    using that
  proof (induction n)
    case 0
    with assms(4,5) show ?case by (simp add: act_simps)
  next
    case (Suc n)
    then obtain s1 where s1: "for_each (\<lambda>(i, w). wr (i * 4) w) (take n (indexed ws)) s = (Inr (), s1)"
        "quiet_board s1 (put (take n ws @ drop n (cells v)) v)" by auto
    have item: "take (Suc n) (indexed ws) = take n (indexed ws) @ [(int n, ws ! n)]"
      using Suc.prems by (simp add: indexed_def take_Suc_conv_app_nth py_range_def)
    have upd: "(take n ws @ drop n (cells v))[n := ws ! n] = take (Suc n) ws @ drop (Suc n) (cells v)"
      using Suc.prems assms(6) by (simp add: list_update_append take_Suc_conv_app_nth Cons_nth_drop_Suc [symmetric])
    obtain s2 where "wr (int n * 4) (ws ! n) s1 = (Inr (), s2)"
        "quiet_board s2 (put (take (Suc n) ws @ drop (Suc n) (cells v)) v)"
      using assms(1) [OF _ refl s1(2), of n] Suc.prems assms(6) upd by (auto simp: assms(2,3))
    with s1(1) show ?case by (auto simp: item for_each_append act_bind_def act_return_def)
  qed
  from this [of "length ws"] assms(6) show ?thesis by (simp add: indexed_def)
qed

text \<open>What the lines of a stimulus file make of a board: the images laid over what was there.\<close>

definition over :: "(int \<Rightarrow> int option) \<Rightarrow> int list \<Rightarrow> int list" where
  "over f m = map (\<lambda>i. case f (4 * int i) of None \<Rightarrow> m ! i | Some x \<Rightarrow> x) [0..<length m]"

definition overlay :: "images \<Rightarrow> board_view \<Rightarrow> board_view" where
  "overlay im v = v\<lparr>v_sys := over (sysmem_image im) (v_sys v), v_ram := over (sram_image im) (v_ram v),
     v_base := (case csr_writes im REG_BASEADDR of None \<Rightarrow> v_base v | Some x \<Rightarrow> x),
     v_len := (case csr_writes im REG_RINGLEN of None \<Rightarrow> v_len v | Some x \<Rightarrow> x),
     v_tail := (case csr_writes im REG_TAIL of None \<Rightarrow> v_tail v | Some x \<Rightarrow> x)\<rparr>"

lemma length_over [simp]: "length (over f m) = length m"
  by (simp add: over_def)

lemma over_update: "over (f(4 * int i \<mapsto> d)) m = (over f m)[i := d]"
  by (rule nth_equalityI) (auto simp: over_def nth_list_update)

lemma over_none [simp]: "over (\<lambda>_. None) m = m"
  by (simp add: over_def map_nth)

lemma overlay_line:
  "overlay (im\<lparr>sysmem_image := (sysmem_image im)(4 * int i \<mapsto> d)\<rparr>) v
    = (overlay im v)\<lparr>v_sys := (v_sys (overlay im v))[i := d]\<rparr>"
  "overlay (im\<lparr>sram_image := (sram_image im)(4 * int i \<mapsto> d)\<rparr>) v
    = (overlay im v)\<lparr>v_ram := (v_ram (overlay im v))[i := d]\<rparr>"
  by (simp_all add: overlay_def over_update)

lemma line_sent:
  assumes "host_fits say h" and "quiet_board s (overlay im v)" and "stim_ok (length (v_sys v)) (length (v_ram v)) line"
    and "length (v_sys v) \<le> 2 ^ 30" and "length (v_ram v) \<le> 2 ^ 30"
  shows "\<exists>ok s'. send_line (uart_firmware board_bus say) h line s = (Inr ok, s') \<and>
    quiet_board s' (overlay (line_images line im) v)"
proof -
  let ?fw = "uart_firmware board_bus say" and ?v = "overlay im v"
  have len: "length (v_sys ?v) = length (v_sys v)" "length (v_ram ?v) = length (v_ram v)" by (simp_all add: overlay_def)
  have at: "cell (4 * int i) = i" for i by (simp add: cell_def)
  consider (sys) i d where "i < length (v_sys v)" "0 \<le> d" "d < 2 ^ 32" "line = sysmem_line (4 * int i) d"
    | (ram) i d where "i < length (v_ram v)" "0 \<le> d" "d < 2 ^ 32" "line = sram_line (4 * int i) d"
    | (csr) off d where "off \<in> {REG_BASEADDR, REG_RINGLEN, REG_TAIL}" "0 \<le> d" "d < 2 ^ 32" "line = csr_line off d"
    using assms(3) unfolding stim_ok_def by blast
  then show ?thesis
  proof cases
    case sys
    then have "holds (4 * int i) (v_sys ?v)" using assms(4) len by (simp add: holds_def at)
    from writes_sys [OF assms(1,2) this sys(2,3)] show ?thesis
      unfolding sys(4) send_emitted emitted_images overlay_line at by (auto simp: act_bind_def act_return_def)
  next
    case ram
    then have "holds (4 * int i) (v_ram ?v)" using assms(5) len by (simp add: holds_def at)
    from writes_ram [OF assms(1,2) this ram(2,3)] show ?thesis
      unfolding ram(4) send_emitted emitted_images overlay_line at by (auto simp: act_bind_def act_return_def)
  next
    case csr
    define v' where "v' = overlay (im\<lparr>csr_writes := (csr_writes im)(off \<mapsto> d)\<rparr>) v"
    have "off = REG_BASEADDR \<and> v' = ?v\<lparr>v_base := d\<rparr> \<or> off = REG_RINGLEN \<and> v' = ?v\<lparr>v_len := d\<rparr> \<or>
      off = REG_TAIL \<and> v' = ?v\<lparr>v_tail := d\<rparr>"
      using csr(1) by (auto simp: v'_def overlay_def reg_apart)
    from writes_csr [OF assms(1,2) csr(2,3) this]
    obtain s' where "host_csr_write ?fw h off d s = (Inr (), s')" "quiet_board s' v'" by blast
    moreover have "off \<noteq> 0x10" using csr(1) by (auto simp: reg_offsets)
    ultimately show ?thesis
      unfolding csr(4) send_emitted emitted_images v'_def by (auto simp: act_bind_def act_return_def)
  qed
qed

lemma lines_sent:
  assumes "host_fits say h" and "\<forall>line \<in> set lines. stim_ok (length (v_sys v)) (length (v_ram v)) line"
    and "length (v_sys v) \<le> 2 ^ 30" and "length (v_ram v) \<le> 2 ^ 30" and "quiet_board s (overlay im v)"
  shows "\<exists>oks s'. map_each (send_line (uart_firmware board_bus say) h) lines s = (Inr oks, s') \<and>
    quiet_board s' (overlay (fold line_images lines im) v)"
  using assms(2,5)
proof (induction lines arbitrary: s im)
  case Nil
  then show ?case by (simp add: act_simps)
next
  case (Cons line lines)
  obtain ok s1 where "send_line (uart_firmware board_bus say) h line s = (Inr ok, s1)"
      "quiet_board s1 (overlay (line_images line im) v)"
    using line_sent [OF assms(1) Cons.prems(2) _ assms(3,4), of line] Cons.prems(1) by auto
  with Cons.IH [of s1 "line_images line im"] Cons.prems(1) show ?case by (auto simp: act_bind_def act_return_def)
qed

lemma over_loaded:
  assumes "\<forall>i < length m. dict_get f (4 * int i) = m ! i"
  shows "over f m = m"
  by (rule nth_equalityI) (use assms in \<open>auto simp: over_def dict_get_def split: option.split\<close>)

lemma stim_sent:
  assumes "host_fits say h" and "golden_init sw bw = Inr g0" and "for_each (run_row sw bw) rows g0 = (Inr (), g)"
    and "rows_fine sw bw rows g0" and "\<forall>row \<in> set rows. ringlen_fine row" and "plain csv_name"
    and "sw \<le> 2 ^ 30" and "bw \<le> 2 ^ 30"
    and "quiet_board s \<lparr>v_sys = smem g, v_ram = bram g, v_base = 0, v_len = 0, v_head = 0, v_tail = 0\<rparr>"
  shows "\<exists>n s'. send_stim (uart_firmware board_bus say) h (stim_file csv_name (gd_stim g)) s = (Inr n, s') \<and>
    quiet_board s' (golden_view g)"
proof -
  let ?v = "\<lparr>v_sys = smem g, v_ram = bram g, v_base = 0, v_len = 0, v_head = 0, v_tail = 0\<rparr>"
  have sizes: "length (smem g) \<le> 2 ^ 30" "length (bram g) \<le> 2 ^ 30"
    using setup_sized [OF assms(2), of rows] assms(3,7,8) by (simp_all add: sized_def nat_le_iff)
  have send: "sendable g"
    by (rule rows_sendable [OF assms(3,4,5)]) (rule sendable_init [OF assms(2)])
  have load: "loaded g (replayed g)"
    by (rule rows_loaded [OF assms(3,4)]) (rule loaded_init [OF assms(2)])
  have lines: "file_lines (universal_newlines (stim_file csv_name (gd_stim g)))
      = (''# generated from '' @ csv_name) # gd_stim g"
    by (rule stim_file_lines [OF setup_shaped [OF assms(2,3)] assms(6)])
  have start: "quiet_board s (overlay no_images ?v)" using assms(9) by (simp add: overlay_def no_images_def)
  obtain oks s' where "map_each (send_line (uart_firmware board_bus say) h) (gd_stim g) s = (Inr oks, s')"
      "quiet_board s' (overlay (replayed g) ?v)"
    using lines_sent [OF assms(1) _ _ _ start, of "gd_stim g"] send sizes by (auto simp: sendable_def)
  moreover have "overlay (replayed g) ?v = golden_view g"
    using load send setup_head [OF assms(2,3)]
    by (auto simp: overlay_def golden_view_def loaded_def sendable_def over_loaded dict_get_def split: option.splits)
  ultimately show ?thesis
    by (auto simp: send_stim_def lines send_comment act_bind_def act_return_def)
qed

section \<open>The checks\<close>

lemma spots_read:
  assumes "\<And>off s. off \<in> set offs \<Longrightarrow> quiet_board s v \<Longrightarrow> \<exists>x s'. rd off s = (Inr x, s') \<and> quiet_board s' v"
    and "quiet_board s v"
  shows "\<exists>s'. spot_checks rd offs s = (Inr (), s') \<and> quiet_board s' v"
  using assms
proof (induction offs arbitrary: s)
  case Nil
  then show ?case by (simp add: spot_checks_def act_simps)
next
  case (Cons off offs)
  obtain x s1 where s1: "rd off s = (Inr x, s1)" "quiet_board s1 v" using Cons.prems by fastforce
  obtain s2 where "spot_checks rd offs s1 = (Inr (), s2)" "quiet_board s2 v"
    using Cons.IH [OF _ s1(2)] Cons.prems(1) by fastforce
  with s1(1) show ?case by (simp add: spot_checks_def act_bind_def act_return_def)
qed

text \<open>The words from the first to the last of the given indices.\<close>

definition span :: "int list \<Rightarrow> int list \<Rightarrow> int list" where
  "span ws idxs = (let lo = Min (set idxs); hi = Max (set idxs) + 1 in take (nat (hi - lo)) (drop (nat lo) ws))"

lemma span_checked:
  assumes "\<And>a n. range_ok a n (cells v) \<Longrightarrow> 0 < n \<Longrightarrow> int n * 4 < 2 ^ 32 \<Longrightarrow>
      \<exists>s'. crc a (int n * 4) s = (Inr (block_crc (load_block (cells v) (cell a) n)), s') \<and> quiet_board s' v"
    and "idxs \<noteq> []" and "\<forall>i \<in> set idxs. 0 \<le> i \<and> i < int (length ws)" and "u32s ws"
    and "length (cells v) = length ws" and "length ws < 2 ^ 30"
  shows "\<exists>s'. span_check crc ws idxs s = (Inr (block_crc (span (cells v) idxs) = block_crc (span ws idxs)), s') \<and>
    quiet_board s' v"
proof -
  define lo where "lo = Min (set idxs)"
  define hi where "hi = Max (set idxs) + 1"
  have mem: "lo \<in> set idxs" "hi - 1 \<in> set idxs" using assms(2) by (simp_all add: lo_def hi_def)
  have le: "lo \<le> hi - 1" using assms(2) by (simp add: lo_def hi_def)
  have b: "0 \<le> lo" "hi \<le> int (length ws)" "lo < hi" using mem assms(3) le by force+
  let ?n = "nat (hi - lo)"
  have cell: "cell (lo * 4) = nat lo" by (simp add: cell_def)
  have range: "range_ok (lo * 4) ?n (cells v)" using b assms(5,6) by (simp add: range_ok_def cell)
  have n: "0 < ?n" "int ?n * 4 < 2 ^ 32" "int ?n = hi - lo" using b assms(6) by simp_all
  obtain s' where "crc (lo * 4) ((hi - lo) * 4) s = (Inr (block_crc (load_block (cells v) (nat lo) ?n)), s')"
      "quiet_board s' v"
    using assms(1) [OF range n(1,2)] unfolding n(3) cell by blast
  moreover have "crc32_words (take ?n (drop (nat lo) ws)) = Inr (block_crc (take ?n (drop (nat lo) ws)))"
    using compute_crc32_words [OF u32s_slice [OF assms(4)], of ?n "nat lo"]
    by (simp add: crc32_words_def compute_crc32_def block_crc_def)
  ultimately show ?thesis
    by (simp add: span_check_def Let_def span_def act_simps act_bind_def load_block_def flip: lo_def hi_def)
qed

lemma set_indexed: "set (indexed xs) = {(int i, xs ! i) |i. i < length xs}"
proof -
  have "set (indexed xs) = {(map int [0..<length xs] ! i, xs ! i) |i. i < length xs}"
    by (simp add: indexed_def py_range_def set_zip)
  also have "\<dots> = {(int i, xs ! i) |i. i < length xs}"
    by (rule Collect_cong) (metis add_0 nth_map_upt diff_zero)
  finally show ?thesis .
qed

lemma words_indices:
  "\<forall>i \<in> set (changed_words before after). 0 \<le> i \<and> i < int (min (length before) (length after))"
  "\<forall>i \<in> set (nonzero_words ws). 0 \<le> i \<and> i < int (length ws)"
  by (auto simp: changed_words_def nonzero_words_def set_indexed)

text \<open>
  When the session passes: some word of the SRAM changed, and the checksum over the span of the
  non-zero words of the initial system memory is still the same.
\<close>

definition session_passes :: "artifacts \<Rightarrow> bool" where
  "session_passes out \<longleftrightarrow> final_sram out \<noteq> initial_sram out \<and>
     (let idxs = nonzero_words (initial_smem out) in
      idxs = [] \<or> block_crc (span (final_smem out) idxs) = block_crc (span (initial_smem out) idxs))"

lemma changed_none:
  assumes "length before = length after"
  shows "changed_words before after = [] \<longleftrightarrow> after = before"
proof -
  have item: "(int i, before ! i, after ! i) \<in> set (indexed (zip before after))" if "i < length before" for i
    using that assms by (auto simp: set_indexed)
  have "changed_words before after = [] \<longleftrightarrow> (\<forall>i < length before. before ! i = after ! i)"
  proof
    assume none: "changed_words before after = []"
    show "\<forall>i < length before. before ! i = after ! i"
    proof (intro allI impI)
      fix i assume "i < length before"
      from none item [OF this] show "before ! i = after ! i"
        unfolding changed_words_def by (auto simp: filter_empty_conv)
    qed
  next
    assume "\<forall>i < length before. before ! i = after ! i"
    then have "\<forall>x \<in> set (indexed (zip before after)). \<not> (case x of (i, a, b) \<Rightarrow> a \<noteq> b)"
      by (auto simp: set_indexed assms)
    then show "changed_words before after = []" by (simp add: changed_words_def filter_False)
  qed
  also have "\<dots> \<longleftrightarrow> after = before" using assms by (auto simp: list_eq_iff_nth_eq)
  finally show ?thesis .
qed

section \<open>The session\<close>

lemma images_written:
  assumes "host_fits say h" and "quiet_board s v" and "u32s m" and "u32s r"
    and "length (v_sys v) = length m" and "length (v_ram v) = length r" and "length m \<le> 2 ^ 30" and "length r \<le> 2 ^ 30"
  shows "\<exists>s1 s2. for_each (\<lambda>(i, w). smem_write (uart_firmware board_bus say) h (i * 4) w) (indexed m) s = (Inr (), s1) \<and>
    for_each (\<lambda>(i, w). sram_write (uart_firmware board_bus say) h (i * 4) w) (indexed r) s1 = (Inr (), s2) \<and>
    quiet_board s2 (v\<lparr>v_sys := m, v_ram := r\<rparr>)"
proof -
  let ?fw = "uart_firmware board_bus say"
  have cells: "cell (int i * 4) = i" for i by (simp add: cell_def)
  have puts: "v_sys (u\<lparr>v_sys := x\<rparr>) = x" "u\<lparr>v_sys := x, v_sys := y\<rparr> = u\<lparr>v_sys := y\<rparr>" "u\<lparr>v_sys := v_sys u\<rparr> = u"
    "v_ram (u\<lparr>v_ram := x\<rparr>) = x" "u\<lparr>v_ram := x, v_ram := y\<rparr> = u\<lparr>v_ram := y\<rparr>" "u\<lparr>v_ram := v_ram u\<rparr> = u"
    for x y and u :: board_view by simp_all
  have len: "length (v_ram (v\<lparr>v_sys := m\<rparr>)) = length r" using assms(6) by simp
  have "\<exists>s'. smem_write ?fw h (int i * 4) w t = (Inr (), s') \<and> quiet_board s' (u\<lparr>v_sys := (v_sys u)[i := w]\<rparr>)"
    if "i < length m" "w = m ! i" "quiet_board t u" "length (v_sys u) = length m" for i w t u
    using writes_sys [OF assms(1) that(3), of "int i * 4" w] that assms(3,7) u32s_nth [OF assms(3) that(1)]
    by (simp add: holds_def cells)
  note sys = writes_all [where wr = "smem_write ?fw h" and cells = v_sys and put = "\<lambda>m v. v\<lparr>v_sys := m\<rparr>",
      OF this puts(1,2,3) assms(2,5)]
  then obtain s1 where s1: "for_each (\<lambda>(i, w). smem_write ?fw h (i * 4) w) (indexed m) s = (Inr (), s1)"
    "quiet_board s1 (v\<lparr>v_sys := m\<rparr>)" by blast
  have "\<exists>s'. sram_write ?fw h (int i * 4) w t = (Inr (), s') \<and> quiet_board s' (u\<lparr>v_ram := (v_ram u)[i := w]\<rparr>)"
    if "i < length r" "w = r ! i" "quiet_board t u" "length (v_ram u) = length r" for i w t u
    using writes_ram [OF assms(1) that(3), of "int i * 4" w] that assms(4,8) u32s_nth [OF assms(4) that(1)]
    by (simp add: holds_def cells)
  note ram = writes_all [where wr = "sram_write ?fw h" and cells = v_ram and put = "\<lambda>m v. v\<lparr>v_ram := m\<rparr>",
      OF this puts(4,5,6) s1(2) len]
  then obtain s2 where "for_each (\<lambda>(i, w). sram_write ?fw h (i * 4) w) (indexed r) s1 = (Inr (), s2)"
    "quiet_board s2 (v\<lparr>v_sys := m, v_ram := r\<rparr>)" by blast
  with s1(1) show ?thesis by blast
qed

lemma spots_sys:
  assumes "host_fits say h" and "quiet_board s v" and "68 \<le> length (v_sys v)"
    and "\<forall>off \<in> set offs. 0 \<le> off \<and> off \<le> 0x10C \<and> off mod 4 = 0"
  shows "\<exists>s'. spot_checks (read_smem (uart_firmware board_bus say) h) offs s = (Inr (), s') \<and> quiet_board s' v"
proof (rule spots_read [OF _ assms(2)])
  fix off t assume "off \<in> set offs" "quiet_board t v"
  moreover from this assms(4) have "0 \<le> off" "off \<le> 0x10C" "off mod 4 = 0" by auto
  then have "holds off (v_sys v)" using assms(3) by (simp add: holds_def cell_def)
  ultimately show "\<exists>x s'. read_smem (uart_firmware board_bus say) h off t = (Inr x, s') \<and> quiet_board s' v"
    using reads_sys [OF assms(1)] by blast
qed

lemma spots_ram:
  assumes "host_fits say h" and "quiet_board s v" and "68 \<le> length (v_ram v)"
    and "\<forall>off \<in> set offs. 0 \<le> off \<and> off \<le> 0x10C \<and> off mod 4 = 0"
  shows "\<exists>s'. spot_checks (read_sram (uart_firmware board_bus say) h) offs s = (Inr (), s') \<and> quiet_board s' v"
proof (rule spots_read [OF _ assms(2)])
  fix off t assume "off \<in> set offs" "quiet_board t v"
  moreover from this assms(4) have "0 \<le> off" "off \<le> 0x10C" "off mod 4 = 0" by auto
  then have "holds off (v_ram v)" using assms(3) by (simp add: holds_def cell_def)
  ultimately show "\<exists>x s'. read_sram (uart_firmware board_bus say) h off t = (Inr x, s') \<and> quiet_board s' v"
    using reads_ram [OF assms(1)] by blast
qed

lemma ram_checked:
  assumes "host_fits say h" and "quiet_board s v" and "u32s r1" and "length r1 = length r0" and "v_ram v = r1"
    and "length r0 < 2 ^ 30"
  shows "\<exists>t. (if changed_words r0 r1 = [] then act_return False
      else span_check (sram_crc (uart_firmware board_bus say) h) r1 (changed_words r0 r1)) s = (Inr (r1 \<noteq> r0), t) \<and> quiet_board t v"
proof (cases "changed_words r0 r1 = []")
  case True
  with assms(2) changed_none [OF assms(4) [symmetric]] show ?thesis by (simp add: act_return_def)
next
  case False
  have "\<exists>t. sram_crc (uart_firmware board_bus say) h a (int k * 4) s = (Inr (block_crc (load_block (v_ram v) (cell a) k)), t) \<and> quiet_board t v"
    if "range_ok a k (v_ram v)" "0 < k" "int k * 4 < 2 ^ 32" for a k
    using requests_ram [OF assms(1,2) that] .
  from span_checked [where cells = v_ram and crc = "sram_crc (uart_firmware board_bus say) h" and s = s, OF this False _ assms(3)]
    words_indices(1) [of r0 r1] assms(4-6)
  show ?thesis using False changed_none [OF assms(4) [symmetric]] by simp
qed

lemma sys_checked:
  assumes "host_fits say h" and "quiet_board s v" and "u32s m0" and "length (v_sys v) = length m0" and "length m0 < 2 ^ 30"
  shows "\<exists>t. (if nonzero_words m0 = [] then act_return True
      else span_check (smem_crc (uart_firmware board_bus say) h) m0 (nonzero_words m0)) s
    = (Inr (nonzero_words m0 = [] \<or> block_crc (span (v_sys v) (nonzero_words m0)) = block_crc (span m0 (nonzero_words m0))), t) \<and>
    quiet_board t v"
proof (cases "nonzero_words m0 = []")
  case True
  with assms(2) show ?thesis by (simp add: act_return_def)
next
  case False
  have "\<exists>t. smem_crc (uart_firmware board_bus say) h a (int k * 4) s = (Inr (block_crc (load_block (v_sys v) (cell a) k)), t) \<and> quiet_board t v"
    if "range_ok a k (v_sys v)" "0 < k" "int k * 4 < 2 ^ 32" for a k
    using requests_sys [OF assms(1,2) that] .
  from span_checked [where cells = v_sys and crc = "smem_crc (uart_firmware board_bus say) h" and s = s, OF this False _ assms(3-5)]
    words_indices(2) [of m0]
  show ?thesis using False by simp
qed

text \<open>The body of the session once the board is loaded with \<open>v\<close>: the run, the dumps and the two checks.\<close>

lemma body_verdict:
  assumes "host_fits say h" and "load_hex32 smem_text = Inr m0" and "load_hex32 sram_text = Inr r0"
    and "for_each (\<lambda>(i, w). smem_write (uart_firmware board_bus say) h (i * 4) w) (indexed m0) s = (Inr (), s1)"
    and "for_each (\<lambda>(i, w). sram_write (uart_firmware board_bus say) h (i * 4) w) (indexed r0) s1 = (Inr (), s2)"
    and "send_stim (uart_firmware board_bus say) h stim_text s2 = (Inr n, s3)" and "quiet_board s3 v"
    and "runnable v" and "v_tail v \<noteq> 0" and "u32s m0"
    and "length (v_sys v) = length m0" and "length (v_ram v) = length r0" and "length r1 = length r0"
    and "length (v_sys (after_run v)) = length m0" and "v_ram (after_run v) = r1"
    and "68 \<le> length m0" and "68 \<le> length r0" and "length m0 < 2 ^ 30" and "length r0 < 2 ^ 30"
  defines "ok \<equiv> r1 \<noteq> r0 \<and> (nonzero_words m0 = [] \<or>
      block_crc (span (v_sys (after_run v)) (nonzero_words m0)) = block_crc (span m0 (nonzero_words m0)))"
  shows "\<exists>s'. session_body (uart_firmware board_bus say) h stim_text smem_text sram_text r1 s
      = (if ok then Inr () else Inl (SystemExit 1), s') \<and> quiet_board s' (after_run v)"
proof -
  let ?fw = "uart_firmware board_bus say" and ?w = "after_run v"
  obtain s4 where s4: "spot_checks (read_smem ?fw h) [0x000, 0x004, 0x008, 0x00C, 0x100, 0x104, 0x108, 0x10C] s3 = (Inr (), s4)"
    "quiet_board s4 v" using spots_sys [OF assms(1,7), of "[0x000, 0x004, 0x008, 0x00C, 0x100, 0x104, 0x108, 0x10C]"] assms(11,16) by auto
  obtain s5 where s5: "run_dma ?fw h s4 = (Inr (), s5)" "quiet_board s5 ?w"
    using starts_dma [OF assms(1) s4(2) assms(8,9)] by blast
  have run: "act_catch runtime_error (act_bind (run_dma ?fw h) (\<lambda>_. act_return True)) (act_return False) s4 = (Inr True, s5)"
    by (simp add: act_catch_def act_bind_def act_return_def s5(1))
  obtain s6 where s6: "host_dump_csr_status ?fw h s5 = (Inr (), s6)" "quiet_board s6 ?w"
    using dumps_csr [OF assms(1) s5(2)] by blast
  obtain s7 where s7: "spot_checks (read_sram ?fw h) [0x100, 0x104, 0x108, 0x10C] s6 = (Inr (), s7)" "quiet_board s7 ?w"
    using spots_ram [OF assms(1) s6(2), of "[0x100, 0x104, 0x108, 0x10C]"] assms(13,15,17) by auto
  obtain s8 where s8: "spot_checks (read_smem ?fw h) [0x100, 0x104, 0x108, 0x10C] s7 = (Inr (), s8)" "quiet_board s8 ?w"
    using spots_sys [OF assms(1) s7(2), of "[0x100, 0x104, 0x108, 0x10C]"] assms(14,16) by auto
  obtain s9 where s9: "spot_checks (read_smem ?fw h) [0x000, 0x004, 0x008, 0x00C] s8 = (Inr (), s9)" "quiet_board s9 ?w"
    using spots_sys [OF assms(1) s8(2), of "[0x000, 0x004, 0x008, 0x00C]"] assms(14,16) by auto
  have words: "u32s r1" using quiet_words(2) [OF s9(2)] assms(15) by simp
  obtain s10 where s10: "(if changed_words r0 r1 = [] then act_return False
      else span_check (sram_crc ?fw h) r1 (changed_words r0 r1)) s9 = (Inr (r1 \<noteq> r0), s10)" "quiet_board s10 ?w"
    using ram_checked [OF assms(1) s9(2) words assms(13,15,19)] by blast
  obtain s11 where s11: "(if nonzero_words m0 = [] then act_return True
      else span_check (smem_crc ?fw h) m0 (nonzero_words m0)) s10 = (Inr (nonzero_words m0 = [] \<or>
        block_crc (span (v_sys ?w) (nonzero_words m0)) = block_crc (span m0 (nonzero_words m0))), s11)"
    "quiet_board s11 ?w" using sys_checked [OF assms(1) s10(2) assms(10,14,18)] by blast
  have "session_body ?fw h stim_text smem_text sram_text r1 s
      = (if ok then act_return () else act_raise (SystemExit 1)) s11"
    by (simp only: session_body_def assms(2,3) known_read Let_def act_bind_Inr assms(4-6) s4(1) run s6(1)
        not_True_eq_False if_False s7(1) s8(1) s9(1) s10(1) s11(1) ok_def)
  with s11(2) show ?thesis by (simp add: act_return_def act_raise_def)
qed

lemma session_on_golden_board:
  assumes "host_fits say h" and "golden_init sw bw = Inr g0" and "for_each (run_row sw bw) rows g0 = (Inr (), g)"
    and "rows_fine sw bw rows g0" and "\<forall>row \<in> set rows. ringlen_fine row" and "plain csv_name"
    and "68 \<le> sw" and "sw < 2 ^ 30" and "68 \<le> bw" and "bw < 2 ^ 30"
    and "ring_ok (gd_ring g)" and "pending (gd_ring g) \<noteq> []" and "length (pending (gd_ring g)) < MAX_ITERS"
    and "\<forall>d \<in> set (pending (gd_ring g)). dma_fits MID_DEPTH d (smem g, bram g) \<and>
      spares_ring (csr_baseaddr (g_csr g)) (csr_ringlen (g_csr g)) d"
    and "is_enabled (g_csr g)" and "length m = nat sw" and "length r = nat bw"
    and "quiet_board s \<lparr>v_sys = m, v_ram = r, v_base = 0, v_len = 0, v_head = 0, v_tail = 0\<rparr>"
  shows "\<exists>out s'. run_scenario rows sw bw = Inr out \<and>
    board_session (uart_firmware board_bus say) h csv_name out s
      = (if session_passes out then Inr () else Inl (SystemExit 1), s') \<and>
    smem (hw (board (device s'))) = final_smem out \<and> bram (hw (board (device s'))) = final_sram out"
proof -
  let ?fw = "uart_firmware board_bus say" and ?p = "pending (gd_ring g)" and ?v = "golden_view g"
  let ?after = "fold dma_move ?p (smem g, bram g)"
  let ?out = "\<lparr>stim_lines = gd_stim g, initial_smem = smem g, final_smem = fst ?after,
      initial_sram = bram g, final_sram = snd ?after, descs_fetched = map pack ?p\<rparr>"
  have gok: "setup_ok g" using setup_run_ok [OF golden_init_ok [OF assms(2)], of sw bw rows] assms(3) by simp
  have words: "u32s (smem g)" "u32s (bram g)" using setup_ok_words [OF gok] by simp_all
  have sizes: "length (smem g) = nat sw" "length (bram g) = nat bw"
    using setup_sized [OF assms(2), of rows] assms(3) by (simp_all add: sized_def)
  have run: "run_scenario rows sw bw = Inr ?out" by (rule scenario_result [OF assms(2,3,11,15,13,14)])
  have after: "after_run ?v = ?v\<lparr>v_sys := fst ?after, v_ram := snd ?after, v_head := tail_of (gd_ring g)\<rparr>"
    by (simp add: after_run_def pending_view [symmetric] Let_def) (simp add: golden_view_def)
  have inr: "\<forall>d \<in> set ?p. in_range (smem g, bram g) d"
    using assms(14) fits_inside by (force simp: in_range_def)
  obtain s1 s2 where s2: "for_each (\<lambda>(i, w). smem_write ?fw h (i * 4) w) (indexed (smem g)) s = (Inr (), s1)"
      "for_each (\<lambda>(i, w). sram_write ?fw h (i * 4) w) (indexed (bram g)) s1 = (Inr (), s2)"
      "quiet_board s2 \<lparr>v_sys = smem g, v_ram = bram g, v_base = 0, v_len = 0, v_head = 0, v_tail = 0\<rparr>"
    using images_written [OF assms(1,18) words] sizes assms(8,10,16,17) by fastforce
  obtain n s3 where s3: "send_stim ?fw h (stim_file csv_name (gd_stim g)) s2 = (Inr n, s3)" "quiet_board s3 ?v"
    using stim_sent [OF assms(1-6) _ _ s2(3)] assms(8,10) by auto
  have runnable: "runnable ?v" by (rule loaded_runnable [OF gok assms(11,13,14)])
  have tail: "v_tail ?v \<noteq> 0" by (rule loaded_tail [OF assms(2,3,12)])
  have hw: "quiet_board t (after_run ?v) \<Longrightarrow> smem (hw (board (device t))) = fst ?after \<and> bram (hw (board (device t))) = snd ?after" for t
    unfolding after quiet_board_def using board_memories [of t] by fastforce
  have "\<exists>s'. session_body ?fw h (stim_file csv_name (gd_stim g)) (hex32_file (smem g)) (hex32_file (bram g)) (snd ?after) s
      = (if session_passes ?out then Inr () else Inl (SystemExit 1), s') \<and> quiet_board s' (after_run ?v)"
    using body_verdict [OF assms(1) load_hex32_words [OF words(1)] load_hex32_words [OF words(2)] s2(1,2) s3 runnable tail words(1),
        of "snd ?after"] moves_lengths [OF inr] sizes assms(7-10)
    unfolding after by (simp add: session_passes_def Let_def golden_view_def)
  then obtain s' where s': "session_body ?fw h (stim_file csv_name (gd_stim g)) (hex32_file (smem g)) (hex32_file (bram g)) (snd ?after) s
      = (if session_passes ?out then Inr () else Inl (SystemExit 1), s')" "quiet_board s' (after_run ?v)" by blast
  have end_words: "u32s (fst ?after)" "u32s (snd ?after)" using quiet_words [OF s'(2)] unfolding after by simp_all
  have "board_session ?fw h csv_name ?out s = (if session_passes ?out then Inr () else Inl (SystemExit 1), s')"
    unfolding board_session_def
    by (simp add: load_hex32_words [OF end_words(1)] load_hex32_words [OF end_words(2)] known_read
        crc32_words_ok [OF end_words(1)] crc32_words_ok [OF end_words(2)] act_catch_def s'(1))
  with run hw [OF s'(2)] show ?thesis by auto
qed

section \<open>A scenario at full size\<close>

text \<open>The model with the sizes of \<open>run_golden.py\<close>, and two independent transfers loaded into it.\<close>

definition full_init :: golden where
  "full_init = projr (golden_init SMEM_WORDS BRAM_SIZE)"

definition full_loaded :: golden where
  "full_loaded = snd (for_each (run_row SMEM_WORDS BRAM_SIZE) pair_rows full_init)"

lemma full_init_ok: "golden_init SMEM_WORDS BRAM_SIZE = Inr full_init"
  by (simp add: full_init_def golden_init_def system_memory_init_def sram_init_def fifo_init_def SMEM_WORDS_def
      BRAM_SIZE_def FIFO_DEPTH_def DM_DEPTH_def MID_DEPTH_def)

lemma full_setup: "for_each (run_row SMEM_WORDS BRAM_SIZE) pair_rows full_init = (Inr (), full_loaded)"
proof -
  have "\<not> isl (fst (for_each (run_row SMEM_WORDS BRAM_SIZE) pair_rows full_init))" by code_simp
  then show ?thesis
    unfolding full_loaded_def
    by (cases "for_each (run_row SMEM_WORDS BRAM_SIZE) pair_rows full_init";
        cases "fst (for_each (run_row SMEM_WORDS BRAM_SIZE) pair_rows full_init)") auto
qed

lemma loaded_pending: "pending (gd_ring full_loaded) =
    [\<lparr>w0 = 0x40, w1 = 0, w2 = 2, w3 = 1\<rparr>, \<lparr>w0 = 0x48, w1 = 8, w2 = 2, w3 = 1\<rparr>]"
  by code_simp

lemma full_ring: "ring_ok (gd_ring full_loaded) \<and> is_enabled (g_csr full_loaded)"
  by code_simp

lemma full_fine: "rows_fine SMEM_WORDS BRAM_SIZE pair_rows full_init"
  by code_simp

lemma full_lengths: "length (smem full_loaded) = 1024" "length (bram full_loaded) = 1024"
  using setup_sized [OF full_init_ok, of pair_rows]
  by (simp_all add: sized_def full_loaded_def SMEM_WORDS_def BRAM_SIZE_def)

lemma full_few: "length (pending (gd_ring full_loaded)) < MAX_ITERS"
  by (simp add: loaded_pending MAX_ITERS_def)

lemma full_fits:
  "\<forall>d \<in> set (pending (gd_ring full_loaded)).
     dma_fits MID_DEPTH d (smem full_loaded, bram full_loaded) \<and> word_aligned d \<and>
     spares_ring (csr_baseaddr (g_csr full_loaded)) (csr_ringlen (g_csr full_loaded)) d"
  by (simp add: loaded_pending full_lengths dma_fits_def dma_beats_def word_aligned_def spares_ring_def MID_DEPTH_def)

lemma full_spares:
  "\<forall>d \<in> set (pending (gd_ring full_loaded)). dma_fits MID_DEPTH d (smem full_loaded, bram full_loaded) \<and>
     spares_ring (csr_baseaddr (g_csr full_loaded)) (csr_ringlen (g_csr full_loaded)) d"
  using full_fits by blast

lemma full_independent: "independent (pending (gd_ring full_loaded))"
  unfolding loaded_pending by code_simp

lemma full_moves:
  "fst (fold dma_move (pending (gd_ring full_loaded)) (smem full_loaded, bram full_loaded)) = smem full_loaded"
  "snd (fold dma_move (pending (gd_ring full_loaded)) (smem full_loaded, bram full_loaded)) \<noteq> bram full_loaded"
proof -
  show "fst (fold dma_move (pending (gd_ring full_loaded)) (smem full_loaded, bram full_loaded)) = smem full_loaded"
    by (simp add: loaded_pending dma_move_def)
  have word: "bram full_loaded ! 0 = 0 \<and> smem full_loaded ! 16 = 11" by code_simp
  let ?m = "snd (fold dma_move (pending (gd_ring full_loaded)) (smem full_loaded, bram full_loaded))"
  have "?m ! 0 = 11"
    using full_lengths word
    by (simp add: loaded_pending dma_move_def dma_beats_def store_block_nth load_block_nth)
  with word show "?m \<noteq> bram full_loaded" by auto
qed

lemma full_passes:
  assumes "run_scenario pair_rows SMEM_WORDS BRAM_SIZE = Inr out"
  shows "session_passes out"
  using assms scenario_result [OF full_init_ok full_setup full_ring [THEN conjunct1] full_ring [THEN conjunct2] full_few full_spares]
    full_moves by (auto simp: session_passes_def Let_def)

text \<open>The port of a board that was just switched on, after the host has emptied its buffer.\<close>

lemma fresh_quiet:
  assumes "ascii_printf say" and "golden_init sw bw = Inr g0"
  shows "quiet_board ((fresh_link say g0)\<lparr>rx := []\<rparr>) (golden_view g0)"
proof -
  obtain b where "on_board (fresh_link say g0) b" "board_ready b" "board_view_of b = golden_view g0"
    using fresh_link_stands [OF assms] unfolding board_stands_def by (rule standsE)
  then show ?thesis by (intro quiet_boardI) (simp_all add: on_board_def)
qed

section \<open>Properties\<close>

text \<open>
  C20. The verdict of the session of \<open>serial_host.py\<close> on a board whose engine is the golden model and
  whose memories held anything before: for every scenario that leaves an enabled well-formed
  ring of transfers that fit, chained or not, it loads the board, runs the engine and leaves the
  golden images in both memories; it passes exactly when some SRAM word changed and the checksum of
  the span of the initially non-zero system memory words did not, and exits with status 1 otherwise.
\<close>

theorem serial_session_verdict:
  assumes "host_fits say h" and "golden_init sw bw = Inr g0" and "for_each (run_row sw bw) rows g0 = (Inr (), g)"
    and "rows_fine sw bw rows g0" and "\<forall>row \<in> set rows. ringlen_fine row" and "plain csv_name"
    and "68 \<le> sw" and "sw < 2 ^ 30" and "68 \<le> bw" and "bw < 2 ^ 30"
    and "ring_ok (gd_ring g)" and "pending (gd_ring g) \<noteq> []" and "length (pending (gd_ring g)) < MAX_ITERS"
    and "\<forall>d \<in> set (pending (gd_ring g)). dma_fits MID_DEPTH d (smem g, bram g) \<and>
      spares_ring (csr_baseaddr (g_csr g)) (csr_ringlen (g_csr g)) d"
    and "is_enabled (g_csr g)" and "length m = nat sw" and "length r = nat bw"
    and "quiet_board s \<lparr>v_sys = m, v_ram = r, v_base = 0, v_len = 0, v_head = 0, v_tail = 0\<rparr>"
  shows "\<exists>out s'. run_scenario rows sw bw = Inr out \<and>
    board_session (uart_firmware board_bus say) h csv_name out s
      = (if session_passes out then Inr () else Inl (SystemExit 1), s') \<and>
    smem (hw (board (device s'))) = final_smem out \<and> bram (hw (board (device s'))) = final_sram out"
  by (rule session_on_golden_board [OF assms])

theorem serial_session_verdict_witness:
  "\<exists>out s'. run_scenario pair_rows SMEM_WORDS BRAM_SIZE = Inr out \<and>
    board_session (uart_firmware board_bus (\<lambda>_ _. [])) \<lparr>csr_base_addr = CSR_BASE, smem_base_addr = 0,
      sram_base_addr = 0, ack_polls = 20, dma_polls = 20\<rparr> ''pair.csv'' out ((fresh_link (\<lambda>_ _. []) full_init)\<lparr>rx := []\<rparr>)
      = (Inr (), s') \<and> bram (hw (board (device s'))) = final_sram out"
proof -
  let ?h = "\<lparr>csr_base_addr = CSR_BASE, smem_base_addr = 0, sram_base_addr = 0, ack_polls = 20, dma_polls = 20\<rparr>"
  let ?say = "\<lambda>(_::string) (_::int list). ([] :: bytes)"
  have fits: "host_fits ?say ?h" by (simp add: host_fits_def ascii_printf_def terse_def exI [of _ 0])
  have plain: "plain ''pair.csv''" by (simp add: plain_def)
  have "ascii_printf ?say" by (simp add: ascii_printf_def)
  from fresh_quiet [OF this full_init_ok]
  have start: "quiet_board ((fresh_link ?say full_init)\<lparr>rx := []\<rparr>) \<lparr>v_sys = replicate 1024 0, v_ram = replicate 1024 0,
      v_base = 0, v_len = 0, v_head = 0, v_tail = 0\<rparr>"
    unfolding setup_view(2) [OF full_init_ok] by (simp add: SMEM_WORDS_def BRAM_SIZE_def)
  have size: "68 \<le> SMEM_WORDS" "SMEM_WORDS < 2 ^ 30" "68 \<le> BRAM_SIZE" "BRAM_SIZE < 2 ^ 30"
    "length (replicate 1024 (0 :: int)) = nat SMEM_WORDS" "length (replicate 1024 (0 :: int)) = nat BRAM_SIZE"
    by (simp_all add: SMEM_WORDS_def BRAM_SIZE_def)
  have some: "pending (gd_ring full_loaded) \<noteq> []" by (simp add: loaded_pending)
  obtain out s' where out: "run_scenario pair_rows SMEM_WORDS BRAM_SIZE = Inr out"
      "board_session (uart_firmware board_bus ?say) ?h ''pair.csv'' out ((fresh_link ?say full_init)\<lparr>rx := []\<rparr>)
        = (if session_passes out then Inr () else Inl (SystemExit 1), s')" "bram (hw (board (device s'))) = final_sram out"
    using serial_session_verdict [OF fits full_init_ok full_setup full_fine pair_facts(2) plain size(1-4)
        full_ring [THEN conjunct1] some full_few full_spares full_ring [THEN conjunct2] size(5,6) start] by blast
  have "session_passes out" by (rule full_passes [OF out(1)])
  with out show ?thesis by (intro exI conjI) auto
qed

end
