(* ===== verification/Whole_Run.thy ===== *)
theory Whole_Run
  imports Host_Programs Serial_Session
begin

text \<open>
  The programs one after the other, on one disk and one board: \<open>run_golden.py\<close> writes its artifacts and
  \<open>host_runner.py\<close> replays them on the board; or \<open>serial_host.py\<close> does both.
\<close>

section \<open>Scenarios the board can run\<close>

text \<open>
  The rows succeed, with plain indices and a ring length of 32 bits, and leave an enabled
  well-formed ring of at least one transfer, each of which fits and spares the ring.
\<close>

definition runs_on_board :: "string list list \<Rightarrow> golden \<Rightarrow> bool" where
  "runs_on_board rows g \<longleftrightarrow> for_each (run_row SMEM_WORDS BRAM_SIZE) rows full_init = (Inr (), g) \<and>
     rows_fine SMEM_WORDS BRAM_SIZE rows full_init \<and> (\<forall>row \<in> set rows. ringlen_fine row) \<and>
     ring_ok (gd_ring g) \<and> is_enabled (g_csr g) \<and> pending (gd_ring g) \<noteq> [] \<and>
     length (pending (gd_ring g)) < MAX_ITERS \<and>
     (\<forall>d \<in> set (pending (gd_ring g)). dma_fits MID_DEPTH d (smem g, bram g) \<and>
       spares_ring (csr_baseaddr (g_csr g)) (csr_ringlen (g_csr g)) d)"

lemma board_sizes: "SMEM_WORDS \<le> 2 ^ 30" "BRAM_SIZE \<le> 2 ^ 30" "68 \<le> SMEM_WORDS" "SMEM_WORDS < 2 ^ 30"
  "68 \<le> BRAM_SIZE" "BRAM_SIZE < 2 ^ 30"
  by (simp_all add: SMEM_WORDS_def BRAM_SIZE_def)

lemma runs_on_boardD:
  assumes "runs_on_board rows g"
  shows "for_each (run_row SMEM_WORDS BRAM_SIZE) rows full_init = (Inr (), g)"
    and "rows_fine SMEM_WORDS BRAM_SIZE rows full_init" and "\<forall>row \<in> set rows. ringlen_fine row"
    and "ring_ok (gd_ring g)" and "is_enabled (g_csr g)" and "pending (gd_ring g) \<noteq> []"
    and "length (pending (gd_ring g)) < MAX_ITERS"
    and "\<forall>d \<in> set (pending (gd_ring g)). dma_fits MID_DEPTH d (smem g, bram g) \<and>
       spares_ring (csr_baseaddr (g_csr g)) (csr_ringlen (g_csr g)) d"
  using assms unfolding runs_on_board_def by auto

lemma full_runs: "runs_on_board pair_rows full_loaded"
  unfolding runs_on_board_def
  using full_setup full_fine pair_facts(2) full_ring full_few full_spares by (simp add: loaded_pending)

lemma pair_csv: "csv_rows (csv_file pair_rows) = Inr pair_rows"
  by code_simp

section \<open>The golden program and the host\<close>

lemma runner_opened:
  assumes "disk_get p (world_files w) = Some t"
  shows "runner_main fw (Inr ()) viz p w =
    (case host_session fw viz (file_lines (universal_newlines t)) ((world_serial w)\<lparr>rx := []\<rparr>) of
       (Inl e, s) \<Rightarrow> (Inl e, w\<lparr>world_serial := s\<rparr>)
     | (Inr n, s) \<Rightarrow> (Inl (SystemExit n), w\<lparr>world_serial := s\<rparr>))"
  using assms
  by (simp add: runner_main_def act_bind_Inr [OF input_dropped] file_read)
    (simp add: act_bind_def on_port_apply act_raise_def split: prod.split sum.split)

lemma stands_words:
  assumes "board_stands s v"
  shows "u32s (v_sys v)" and "u32s (v_ram v)"
  using assms board_mem.sys.cells_u32 board_mem.ram.cells_u32 unfolding board_stands_def by (auto elim!: standsE)

text \<open>The files of the golden program, as the host and a reader of the images find them.\<close>

lemma golden_artifact_get:
  assumes "d' = fold (\<lambda>(p, t). disk_put p t) (artifact_files c out_dir out @ summary_files out_dir out) d"
  shows "disk_get (path_join out_dir ''stim.txt'') d' = Some (stim_file (basename c) (stim_lines out))"
    and "disk_get (path_join out_dir ''golden_smem.hex'') d' = Some (hex32_file (final_smem out))"
    and "disk_get (path_join out_dir ''golden_sram.hex'') d' = Some (hex32_file (final_sram out))"
  unfolding assms files.get_puts [OF artifact_names(1)]
  by (simp_all add: artifact_files_def summary_files_def path_join_inject)

section \<open>Properties\<close>

text \<open>
  C1. From the CSV file to the verified board: for every scenario of independent, aligned transfers the
  board can run, the golden program writes its artifacts, and the host program, started afterwards
  on the stimulus file and a board that was just switched on, ends with status 0, with the words of
  the two golden image files in the memories of the board and the disk as it was.
\<close>

theorem golden_then_host:
  assumes "ascii_printf say" and "disk_get csv_path d = Some t" and "csv_rows t = Inr rows"
    and "runs_on_board rows g" and "\<forall>d \<in> set (pending (gd_ring g)). word_aligned d"
    and "independent (pending (gd_ring g))" and "plain (basename csv_path)"
  shows "\<exists>d' w m r. golden_main here [script, csv_path, out_dir] d = (Inr (), d') \<and>
    runner_main (uart_firmware board_bus say) (Inr ()) viz (path_join out_dir ''stim.txt'')
      \<lparr>world_files = d', world_serial = fresh_link say full_init\<rparr> = (Inl (SystemExit 0), w) \<and>
    world_files w = d' \<and> disk_get (path_join out_dir ''golden_smem.hex'') d' = Some m \<and>
    disk_get (path_join out_dir ''golden_sram.hex'') d' = Some r \<and>
    load_hex32 m = Inr (smem (hw (board (device (world_serial w))))) \<and>
    load_hex32 r = Inr (bram (hw (board (device (world_serial w)))))"
proof -
  note ok = runs_on_boardD [OF assms(4)]
  let ?fw = "uart_firmware board_bus say" and ?s = "(fresh_link say full_init)\<lparr>rx := []\<rparr>"
  let ?p = "pending (gd_ring g)" and ?after = "fold dma_move (pending (gd_ring g)) (smem g, bram g)"
  let ?out = "\<lparr>stim_lines = gd_stim g, initial_smem = smem g, final_smem = fst ?after,
      initial_sram = bram g, final_sram = snd ?after, descs_fetched = map pack ?p\<rparr>"
  let ?lines = "file_lines (universal_newlines (stim_file (basename csv_path) (gd_stim g)))"
  define d' where "d' = fold (\<lambda>(p, t). disk_put p t) (artifact_files csv_path out_dir ?out @ summary_files out_dir ?out) d"
  have "default_scenario rows = Inr ?out"
    unfolding default_scenario_def by (rule scenario_result [OF full_init_ok ok(1,4,5,7,8)])
  with golden_main_result [of "[script, csv_path, out_dir]" d t rows here] assms(2,3)
  have golden: "golden_main here [script, csv_path, out_dir] d = (Inr (), d')" by (simp add: d'_def Let_def)
  have fits: "\<forall>d \<in> set ?p. dma_fits MID_DEPTH d (smem g, bram g) \<and> word_aligned d \<and>
      spares_ring (csr_baseaddr (g_csr g)) (csr_ringlen (g_csr g)) d" using ok(8) assms(5) by blast
  have start: "board_stands ?s (golden_view full_init)"
    using fresh_quiet [OF assms(1) full_init_ok] by (simp add: quiet_board_def)
  have good: "\<forall>t \<in> set (map (expected_transfer (smem g, bram g)) ?p).
      verdict (if direction t = 1 then snd ?after else fst ?after) (if direction t = 1 then fst ?after else snd ?after) t"
    using independent_accepted [OF full_init_ok ok(1) board_sizes(1,2) fits assms(6)] .
  obtain s1 s2 s3 s4 where s: "parse_stimulus ?fw ?lines CSR_BASE ?s = (Inr (map (expected_transfer (smem g, bram g)) ?p), s1)"
    "run_dma_command ?fw s1 = (Inr True, s2)" "dump_csr_status ?fw s2 = (Inr (), s3)"
    "verify_dma_result ?fw viz (map (expected_transfer (smem g, bram g)) ?p) s3 = (Inr True, s4)"
    "board_stands s4 ((golden_view g)\<lparr>v_sys := fst ?after, v_ram := snd ?after, v_head := tail_of (gd_ring g)\<rparr>)"
    using session_on_board [OF assms(1) full_init_ok ok(1-3) assms(7) board_sizes(1,2) ok(4,6,7) fits start, of viz] good by auto
  have "host_session ?fw viz ?lines ?s = (Inr 0, s4)" by (rule session_exit [OF s(1-4)])
  then have "runner_main ?fw (Inr ()) viz (path_join out_dir ''stim.txt'') \<lparr>world_files = d', world_serial = fresh_link say full_init\<rparr>
      = (Inl (SystemExit 0), \<lparr>world_files = d', world_serial = s4\<rparr>)"
    using golden_artifact_get(1) [OF d'_def] by (simp add: runner_opened)
  moreover have "smem (hw (board (device s4))) = fst ?after" "bram (hw (board (device s4))) = snd ?after"
    using board_memories [OF s(5)] by simp_all
  moreover have "u32s (fst ?after)" "u32s (snd ?after)" using stands_words [OF s(5)] by simp_all
  ultimately show ?thesis
    using golden golden_artifact_get(2,3) [OF d'_def] by (auto simp: load_hex32_words)
qed

theorem golden_then_host_witness:
  "\<exists>d' w m. golden_main ''/sim'' [''run_golden.py'', ''/sim/pair.csv'', ''/out''] [(''/sim/pair.csv'', csv_file pair_rows)] = (Inr (), d') \<and>
    runner_main (uart_firmware board_bus (\<lambda>_ _. [])) (Inr ()) False (path_join ''/out'' ''stim.txt'')
      \<lparr>world_files = d', world_serial = fresh_link (\<lambda>_ _. []) full_init\<rparr> = (Inl (SystemExit 0), w) \<and>
    disk_get (path_join ''/out'' ''golden_sram.hex'') d' = Some m \<and>
    load_hex32 m = Inr (bram (hw (board (device (world_serial w)))))"
proof -
  have say: "ascii_printf (\<lambda>_ _. [])" by (simp add: ascii_printf_def)
  have stored: "disk_get ''/sim/pair.csv'' [(''/sim/pair.csv'', csv_file pair_rows)] = Some (csv_file pair_rows)"
    by (simp add: disk_get_def)
  have aligned: "\<forall>d \<in> set (pending (gd_ring full_loaded)). word_aligned d" using full_fits by blast
  have name: "plain (basename ''/sim/pair.csv'')" by (simp add: plain_def basename_def)
  show ?thesis
    using golden_then_host [OF say stored pair_csv full_runs aligned full_independent name, of "''/sim''" "''run_golden.py''" "''/out''" False]
    by blast
qed

text \<open>
  C2. The session program on its own, on a board that was just switched on: for every scenario the
  board can run it regenerates the artifacts, drives the board with them and leaves the golden
  images in its memories; it returns (status 0) exactly when the scenario is one the session
  can pass, and exits with status 1 otherwise. What the output directory held does not matter.
\<close>

theorem serial_main_on_board:
  assumes "host_fits say (sa_host args)" and "\<not> sa_list_ports args" and "\<not> sa_dry_run_all args" and "\<not> sa_dry_run args"
    and "disk_get (sa_scenario args) (world_files w) = Some t" and "csv_rows t = Inr rows"
    and "runs_on_board rows g" and "plain (basename (sa_scenario args))" and "world_serial w = fresh_link say full_init"
  shows "\<exists>out w'. default_scenario rows = Inr out \<and>
    serial_main (uart_firmware board_bus say) (Inr ()) sim_dir args w
      = (if session_passes out then Inr () else Inl (SystemExit 1), w') \<and>
    world_files w' = with_artifacts (sa_scenario args) (sa_out_dir args) out (world_files w) \<and>
    smem (hw (board (device (world_serial w')))) = final_smem out \<and>
    bram (hw (board (device (world_serial w')))) = final_sram out"
proof -
  note ok = runs_on_boardD [OF assms(7)]
  let ?fw = "uart_firmware board_bus say" and ?s = "(fresh_link say full_init)\<lparr>rx := []\<rparr>" and ?name = "basename (sa_scenario args)"
  have say: "ascii_printf say" using assms(1) by (simp add: host_fits_def)
  have start: "quiet_board ?s \<lparr>v_sys = replicate (nat SMEM_WORDS) 0, v_ram = replicate (nat BRAM_SIZE) 0,
      v_base = 0, v_len = 0, v_head = 0, v_tail = 0\<rparr>"
    using fresh_quiet [OF say full_init_ok] unfolding setup_view(2) [OF full_init_ok] .
  obtain out s' where out: "default_scenario rows = Inr out" "board_session ?fw (sa_host args) ?name out ?s
      = (if session_passes out then Inr () else Inl (SystemExit 1), s')"
    "smem (hw (board (device s'))) = final_smem out" "bram (hw (board (device s'))) = final_sram out"
    using session_on_golden_board [OF assms(1) full_init_ok ok(1-3) assms(8) board_sizes(3-6) ok(4,6,7,8,5) _ _ start]
    unfolding default_scenario_def by auto
  have "serial_main ?fw (Inr ()) sim_dir args w = fpga_path ?fw (Inr ()) args w"
    using assms(2-4) by (simp add: serial_main_def)
  then show ?thesis
    using fpga_fresh [OF assms(5,6), of ?fw "Inr ()"] out assms(9)
    by (simp add: on_port_apply act_bind_def drop_input_def act_modify_def)
qed

theorem serial_main_on_board_witness:
  "\<exists>out w'. default_scenario pair_rows = Inr out \<and>
    serial_main (uart_firmware board_bus (\<lambda>_ _. [])) (Inr ()) ''/sim'' \<lparr>sa_scenario = ''/sim/pair.csv'', sa_out_dir = ''/out'',
        sa_host = \<lparr>csr_base_addr = CSR_BASE, smem_base_addr = 0, sram_base_addr = 0, ack_polls = 20, dma_polls = 20\<rparr>,
        sa_list_ports = False, sa_dry_run = False, sa_dry_run_all = False\<rparr>
      \<lparr>world_files = [(''/out/stim.txt'', ''csv_write 00 1''), (''/sim/pair.csv'', csv_file pair_rows)],
       world_serial = fresh_link (\<lambda>_ _. []) full_init\<rparr> = (Inr (), w') \<and>
    bram (hw (board (device (world_serial w')))) = final_sram out"
proof -
  let ?h = "\<lparr>csr_base_addr = CSR_BASE, smem_base_addr = 0, sram_base_addr = 0, ack_polls = 20, dma_polls = 20\<rparr>"
  let ?args = "\<lparr>sa_scenario = ''/sim/pair.csv'', sa_out_dir = ''/out'', sa_host = ?h, sa_list_ports = False,
      sa_dry_run = False, sa_dry_run_all = False\<rparr>"
  let ?w = "\<lparr>world_files = [(''/out/stim.txt'', ''csv_write 00 1''), (''/sim/pair.csv'', csv_file pair_rows)],
      world_serial = fresh_link (\<lambda>_ _. []) full_init\<rparr>"
  have fits: "host_fits (\<lambda>_ _. []) (sa_host ?args)" by (simp add: host_fits_def ascii_printf_def terse_def exI [of _ 0])
  have stored: "disk_get (sa_scenario ?args) (world_files ?w) = Some (csv_file pair_rows)" by (simp add: disk_get_def)
  have name: "plain (basename (sa_scenario ?args))" by (simp add: plain_def basename_def)
  obtain out w' where out: "default_scenario pair_rows = Inr out"
    "serial_main (uart_firmware board_bus (\<lambda>_ _. [])) (Inr ()) ''/sim'' ?args ?w
      = (if session_passes out then Inr () else Inl (SystemExit 1), w')"
    "bram (hw (board (device (world_serial w')))) = final_sram out"
    using serial_main_on_board [OF fits _ _ _ stored pair_csv full_runs name, of "''/sim''"] by auto
  have "session_passes out" using full_passes out(1) by (simp add: default_scenario_def)
  with out show ?thesis by (intro exI conjI) auto
qed

end
