(* ===== verification/Bench_Script.thy ===== *)
theory Bench_Script
  imports Host_Programs Serial_Session
begin

text \<open>
  The bench script \<open>sim/test_esp32.py\<close>: known values through every command of \<open>serial_host.py\<close>, then
  every scenario. Its counters \<open>_passed\<close> and \<open>_failed\<close> stand beside the world of a host. The import
  of \<open>serial_host\<close>, which lies in another directory, is taken to succeed; printing is left out.
\<close>

section \<open>The script\<close>

record 'd bench =
  bench_world :: "'d world"
  n_passed :: int
  n_failed :: int

definition on_world :: "('d world, 'a) act \<Rightarrow> ('d bench, 'a) act" where
  "on_world = zoom bench_world (\<lambda>w b. b\<lparr>bench_world := w\<rparr>)"

interpretation bworld: lens bench_world "\<lambda>w b. b\<lparr>bench_world := w\<rparr>"
  by unfold_locales simp_all

abbreviation on_link :: "('d serial, 'a) act \<Rightarrow> ('d bench, 'a) act" where
  "on_link m \<equiv> on_world (on_port m)"

definition test_ok :: "('d bench, unit) act" where
  "test_ok = act_modify (\<lambda>b. b\<lparr>n_passed := n_passed b + 1\<rparr>)"

definition test_fail :: "('d bench, unit) act" where
  "test_fail = act_modify (\<lambda>b. b\<lparr>n_failed := n_failed b + 1\<rparr>)"

definition test_check :: "'v \<Rightarrow> 'v \<Rightarrow> ('d bench, unit) act" where
  "test_check got expected = (if got = expected then test_ok else test_fail)"

text \<open>The two checksum methods take an address and a length, and are called without either.\<close>

definition test_protocol :: "'d firmware \<Rightarrow> dma_host \<Rightarrow> ('d bench, unit) act" where
  "test_protocol fw h =
     act_bind (on_link (host_csr_write fw h 0x00 0xDEADBEEF)) (\<lambda>_.
     act_bind (on_link (host_csr_read fw h 0x00)) (\<lambda>val.
     act_bind (test_check val 0xDEADBEEF) (\<lambda>_.
     act_bind (on_link (host_csr_write fw h 0x04 0x00000004)) (\<lambda>_.
     act_bind (on_link (host_csr_read fw h 0x04)) (\<lambda>val.
     act_bind (test_check val 0x00000004) (\<lambda>_.
     act_bind (on_link (host_csr_read fw h 0x14)) (\<lambda>status.
     act_bind (test_check (drop_bit 1 status AND 1 \<noteq> 0) True) (\<lambda>_.
     act_bind (test_check (drop_bit 0 status AND 1 \<noteq> 0) False) (\<lambda>_.
     act_bind (on_link (host_csr_read fw h 0x18)) (\<lambda>irq.
     act_bind (test_check irq 0) (\<lambda>_.
     act_bind (on_link (smem_write fw h 0x00 0x12345678)) (\<lambda>_.
     act_bind (on_link (smem_write fw h 0x04 0xAABBCCDD)) (\<lambda>_.
     act_bind (on_link (sram_write fw h 0x00 0xCAFEBABE)) (\<lambda>_.
     act_bind (on_link (sram_write fw h 0x04 0x0BADF00D)) (\<lambda>_.
     act_bind (act_read (\<lambda>_. crc32_words ((replicate 1024 0)[0 := 0x12345678, 1 := 0xAABBCCDD]))) (\<lambda>exp_smem_crc.
     act_bind (act_raise TypeError) (\<lambda>got_smem_crc.
     act_bind (test_check got_smem_crc exp_smem_crc) (\<lambda>_.
     act_bind (act_read (\<lambda>_. crc32_words ((replicate 1024 0)[0 := 0xCAFEBABE, 1 := 0x0BADF00D]))) (\<lambda>exp_sram_crc.
     act_bind (act_raise TypeError) (\<lambda>got_sram_crc.
       test_check got_sram_crc exp_sram_crc))))))))))))))))))))"

text \<open>What \<open>except Exception\<close> catches.\<close>

fun ordinary :: "exn \<Rightarrow> bool" where
  "ordinary (SystemExit n) \<longleftrightarrow> False"
| "ordinary _ \<longleftrightarrow> True"

text \<open>A method of the host that is given a path: it reads the file first.\<close>

definition with_text :: "string \<Rightarrow> (string \<Rightarrow> ('d serial, 'a) act) \<Rightarrow> ('d bench, 'a) act" where
  "with_text path m = act_bind (on_world (on_files (read_file path))) (\<lambda>content. on_link (m content))"

definition scenario_checks :: "'d firmware \<Rightarrow> dma_host \<Rightarrow> string \<Rightarrow> ('d bench, unit) act" where
  "scenario_checks fw h out_dir =
     (let smem_path = path_join out_dir ''initial_smem.hex'';
          sram_path = path_join out_dir ''initial_sram.hex'';
          stim_path = path_join out_dir ''stim.txt''
      in act_bind (with_text smem_path (send_initial_smem fw h)) (\<lambda>_.
         act_bind (with_text smem_path (verify_smem_crc fw h)) (\<lambda>_.
         act_bind test_ok (\<lambda>_.
         act_bind (with_text sram_path (send_initial_sram fw h)) (\<lambda>_.
         act_bind (with_text sram_path (verify_sram_crc fw h)) (\<lambda>_.
         act_bind test_ok (\<lambda>_.
         act_bind (with_text stim_path (send_stim fw h)) (\<lambda>_.
         act_bind (on_link wait_done) (\<lambda>_.
         act_bind test_ok (\<lambda>_.
         act_bind (on_link check_irq) (\<lambda>_.
           test_ok)))))))))))"

definition test_scenario :: "'d firmware \<Rightarrow> dma_host \<Rightarrow> string \<Rightarrow> string \<Rightarrow> ('d bench, unit) act" where
  "test_scenario fw h scenario_csv out_dir =
     act_bind (act_catch ordinary
       (act_bind (on_world (on_files (serial_run_golden scenario_csv out_dir))) (\<lambda>_. act_return True))
       (act_bind test_fail (\<lambda>_. act_return False))) (\<lambda>golden.
     if \<not> golden then act_return ()
     else act_catch ordinary (scenario_checks fw h out_dir) test_fail)"

text \<open>The parsed arguments, with the output directory made absolute.\<close>

record esp32_args =
  te_port :: "string option"
  te_scenario :: "string option"
  te_out_dir :: string
  te_list_ports :: bool

definition given :: "string option \<Rightarrow> bool" where
  "given x \<longleftrightarrow> x \<noteq> None \<and> x \<noteq> Some []"

text \<open>The port in use: the argument, or the first likely one. \<open>here\<close> is the directory of the script.\<close>

definition esp32_main ::
  "'d firmware \<Rightarrow> (string \<Rightarrow> unit result) \<Rightarrow> dma_host \<Rightarrow> string \<Rightarrow> esp32_args \<Rightarrow> ('d bench, unit) act" where
  "esp32_main fw opened h here args =
     (if te_list_ports args then act_return ()
      else
     act_bind (if given (te_port args) then act_return (te_port args) else on_world (on_files find_arty_port)) (\<lambda>port.
       if \<not> given port then act_raise (SystemExit 1)
       else
     act_bind (act_read (\<lambda>_. opened (the port))) (\<lambda>_.
     act_bind (on_link drop_input) (\<lambda>_.
     act_bind (test_protocol fw h) (\<lambda>_.
     act_bind (if given (te_scenario args) then test_scenario fw h (the (te_scenario args)) (te_out_dir args)
       else act_bind (on_world (on_files (act_gets (scenario_csvs (path_join here ''scenarios''))))) (\<lambda>csvs.
            for_each (\<lambda>csv. test_scenario fw h csv (te_out_dir args))
              (filter (\<lambda>c. take 6 (basename c) \<noteq> ''error_'') csvs))) (\<lambda>_.
     act_bind (act_gets n_failed) (\<lambda>failed.
       act_raise (SystemExit (if failed = 0 then 0 else 1)))))))))"

section \<open>What every firmware makes of it\<close>

lemma on_world_apply: "on_world m b = (case m (bench_world b) of (r, w) \<Rightarrow> (r, b\<lparr>bench_world := w\<rparr>))"
  by (simp add: on_world_def zoom_def)

lemma on_link_apply: "on_link m b = (case m (world_serial (bench_world b)) of
    (r, s) \<Rightarrow> (r, b\<lparr>bench_world := (bench_world b)\<lparr>world_serial := s\<rparr>\<rparr>))"
  by (simp add: on_world_apply on_port_apply split: prod.split)

text \<open>An action that always ends in one of the given exceptions and leaves the files alone.\<close>

definition ends_in :: "(exn \<Rightarrow> bool) \<Rightarrow> ('d bench, 'a) act \<Rightarrow> bool" where
  "ends_in P m \<longleftrightarrow> (\<forall>b. \<exists>e b'. m b = (Inl e, b') \<and> P e \<and> world_files (bench_world b') = world_files (bench_world b))"

definition keeps_files :: "(exn \<Rightarrow> bool) \<Rightarrow> ('d bench, 'a) act \<Rightarrow> bool" where
  "keeps_files P m \<longleftrightarrow> raises_only P m \<and> (\<forall>b. world_files (bench_world (snd (m b))) = world_files (bench_world b))"

lemma ends_bind:
  assumes "keeps_files P m" and "\<And>x. ends_in P (f x)"
  shows "ends_in P (act_bind m f)"
  unfolding ends_in_def
proof
  fix b
  obtain r b1 where m: "m b = (r, b1)" by (cases "m b")
  then have same: "world_files (bench_world b1) = world_files (bench_world b)"
    using assms(1) unfolding keeps_files_def by (metis snd_conv)
  show "\<exists>e b'. act_bind m f b = (Inl e, b') \<and> P e \<and> world_files (bench_world b') = world_files (bench_world b)"
  proof (cases r)
    case (Inl e)
    with m same assms(1) show ?thesis by (auto simp: act_bind_def keeps_files_def raises_only_def)
  next
    case (Inr x)
    obtain e b2 where "f x b1 = (Inl e, b2)" "P e" "world_files (bench_world b2) = world_files (bench_world b1)"
      using assms(2) unfolding ends_in_def by blast
    with m same Inr show ?thesis by (simp add: act_bind_def)
  qed
qed

lemma ends_then: "ends_in P m \<Longrightarrow> ends_in P (act_bind m f)"
  unfolding ends_in_def act_bind_def
  by (metis (mono_tags, lifting) case_prod_conv sum.case(1))

lemma ends_raise: "P e \<Longrightarrow> ends_in P (act_bind (act_raise e) f)"
  by (simp add: ends_in_def act_bind_def act_raise_def)

lemma keeps_link: "raises_only P m \<Longrightarrow> keeps_files P (on_link m)"
  by (auto simp: keeps_files_def raises_only_def on_link_apply split: prod.split)

lemma keeps_check: "keeps_files P (test_check x y)"
  by (simp add: keeps_files_def raises_only_def test_check_def test_ok_def test_fail_def act_modify_def)

lemma keeps_crc: "u32s ws \<Longrightarrow> keeps_files P (act_read (\<lambda>_. crc32_words ws))"
  by (simp add: keeps_files_def raises_only_def act_read_def crc32_words_ok)

lemma link_ordinary: "raises_only link_error m \<Longrightarrow> raises_only ordinary m"
  by (erule raises_weaken) (erule link_error.elims, simp_all)

lemma ordinary_status: "ordinary e \<Longrightarrow> exit_status (Inl e) = 1"
  by (cases e) simp_all

lemma two_words:
  assumes "0 \<le> a" "a < 2 ^ 32" "0 \<le> b" "b < 2 ^ 32"
  shows "u32s ((replicate n 0)[0 := a, Suc 0 := b])"
  using assms by (intro u32s_set) (simp_all add: u32s_def)

lemma protocol_ends: "ends_in ordinary (test_protocol fw h)"
  unfolding test_protocol_def
  by (intro ends_raise ends_bind keeps_link keeps_check link_ordinary host_errors keeps_crc)
    (simp_all add: two_words)

text \<open>The errors of a scenario are ordinary ones, so none of them leaves the script.\<close>

lemma raises_files [errs]: "raises_only P m \<Longrightarrow> raises_only P (on_world (on_files m))"
  by (auto simp: raises_only_def on_world_apply on_files_apply split: prod.splits)

lemma raises_link [errs]: "raises_only P m \<Longrightarrow> raises_only P (on_link m)"
  by (auto simp: raises_only_def on_link_apply split: prod.splits)

lemma result_errors:
  "load_lines ls = Inl e \<Longrightarrow> ordinary e"
  "crc32_words ws = Inl e \<Longrightarrow> ordinary e"
  "hex_field parts i = Inl e \<Longrightarrow> ordinary e"
  "(case disk_get p d of None \<Rightarrow> Inl FileNotFoundError | Some t \<Rightarrow> Inr t) = Inl e \<Longrightarrow> ordinary e"
proof -
  show "load_lines ls = Inl e \<Longrightarrow> ordinary e"
    by (induction ls) (auto simp: Let_def res_bind_def split: if_splits option.splits sum.splits)
  have "pack_words ws = Inl x \<Longrightarrow> x = StructError" for x
    by (induction ws) (auto simp: res_bind_def pack_u32_def split: if_splits sum.splits)
  then show "crc32_words ws = Inl e \<Longrightarrow> ordinary e"
    by (auto simp: crc32_words_def res_bind_def split: sum.splits)
qed (auto simp: hex_field_def split: if_splits option.splits)

lemma method_errors [errs]:
  "raises_only ordinary (read_file p)"
  "raises_only ordinary (send_initial_smem fw h t)"
  "raises_only ordinary (send_initial_sram fw h t)"
  "raises_only ordinary (verify_smem_crc fw h t)"
  "raises_only ordinary (verify_sram_crc fw h t)"
  "raises_only ordinary (send_stim fw h t)"
  "raises_only ordinary wait_done"
  "raises_only ordinary check_irq"
  unfolding read_file_def send_initial_smem_def send_initial_sram_def verify_smem_crc_def verify_sram_crc_def
    send_stim_def send_line_def load_hex32_def wait_done_def check_irq_def Let_def
  by (auto intro!: errs host_errors [THEN link_ordinary] dest: result_errors split: prod.splits)

lemma scenario_errors: "raises_only ordinary (scenario_checks fw h out_dir)"
  unfolding scenario_checks_def Let_def with_text_def test_ok_def by (intro errs)

lemma port_raise: "on_port (act_raise e) w = (Inl e, w)"
  by (simp add: on_port_apply act_raise_def)

lemma scenario_outcome:
  "\<exists>e b'. scenario_checks fw h out_dir b = (Inl e, b') \<and>
    n_failed b' = n_failed b \<and> n_passed b' \<in> {n_passed b .. n_passed b + 2}"
  unfolding scenario_checks_def Let_def with_text_def
  by (auto simp: act_bind_def on_world_apply test_ok_def act_modify_def wait_done_def port_raise
      split: prod.split sum.split)

lemma scenario_counted:
  assumes "disk_get csv (world_files (bench_world b)) = Some t" and "csv_rows t = Inr rows"
    and "default_scenario rows = Inr out"
  shows "\<exists>b'. test_scenario fw h csv out_dir b = (Inr (), b') \<and>
    n_failed b' = n_failed b + 1 \<and> n_passed b' \<in> {n_passed b .. n_passed b + 2}"
proof -
  obtain b1 where b1: "on_world (on_files (serial_run_golden csv out_dir)) b = (Inr out, b1)"
      "n_failed b1 = n_failed b" "n_passed b1 = n_passed b"
    using serial_golden_result [OF assms(1,2), of out_dir] assms(3)
    by (simp add: on_world_apply on_files_apply)
  obtain e b2 where b2: "scenario_checks fw h out_dir b1 = (Inl e, b2)" "n_failed b2 = n_failed b1"
      "n_passed b2 \<in> {n_passed b1 .. n_passed b1 + 2}" using scenario_outcome by blast
  have "ordinary e" using raises_onlyD [OF scenario_errors b2(1)] .
  with b1 b2 show ?thesis
    by (simp add: test_scenario_def act_bind_def act_catch_def act_return_def test_fail_def act_modify_def)
qed

section \<open>On the board\<close>


lemma store_irq_status:
  "board_ready b \<Longrightarrow> off = REG_BASEADDR \<or> off = REG_RINGLEN \<Longrightarrow>
   reg (g_csr (hw (csr_store off x b))) REG_IRQ_STATUS = reg (g_csr (hw b)) REG_IRQ_STATUS"
  by (auto simp: store_regs reg_apart reg_csr_write_plain)

lemma store_empty:
  assumes "board_ready b" and "off = REG_BASEADDR \<or> off = REG_RINGLEN"
    and "v_head (board_view_of b) = v_tail (board_view_of b)"
  shows "bit (reg (g_csr (hw (csr_store off x b))) REG_STATUS) 1"
  using assms(2,3)
  by (auto simp: store_quiet [OF assms(1)] settle_status ring_is_empty_def board_views csr_read_def
      on_csr_def ring_head_def ring_tail_def
      reg_csr_write_plain reg_apart)

lemma status_flags: "(drop_bit 1 x AND 1 \<noteq> 0) = bit x 1" "(drop_bit 0 x AND 1 \<noteq> 0) = bit x 0" for x :: int
  by (simp_all add: bit_iff_odd_drop_bit and_one_eq odd_iff_mod_2_eq_one)

text \<open>The register part of the protocol test, on a board whose ring is empty and which has no interrupt.\<close>

lemma registers_checked:
  assumes "host_fits say h" and "quiet_at s b" and "board_ready b"
    and "v_head (board_view_of b) = v_tail (board_view_of b)" and "reg (g_csr (hw b)) REG_IRQ_STATUS = 0"
  defines "fw \<equiv> uart_firmware board_bus say"
  shows "\<exists>s1 s2 s3 s4 s5 s6 x b'. host_csr_write fw h 0x00 0xDEADBEEF s = (Inr (), s1) \<and>
    host_csr_read fw h 0x00 s1 = (Inr 0xDEADBEEF, s2) \<and> host_csr_write fw h 0x04 4 s2 = (Inr (), s3) \<and>
    host_csr_read fw h 0x04 s3 = (Inr 4, s4) \<and> host_csr_read fw h 0x14 s4 = (Inr x, s5) \<and>
    bit x 1 \<and> \<not> bit x 0 \<and> host_csr_read fw h 0x18 s5 = (Inr 0, s6) \<and> quiet_at s6 b' \<and> board_ready b' \<and>
    board_view_of b' = (board_view_of b)\<lparr>v_base := 0xDEADBEEF, v_len := 4\<rparr>"
proof -
  let ?b1 = "csr_store REG_BASEADDR 0xDEADBEEF b"
  let ?b2 = "csr_store REG_RINGLEN 4 ?b1"
  have r1: "board_ready ?b1" by (rule store_quiet(2) [OF assms(3)])
  have r2: "board_ready ?b2" by (rule store_quiet(2) [OF r1])
  have v1: "board_view_of ?b1 = (board_view_of b)\<lparr>v_base := 0xDEADBEEF\<rparr>" by (rule store_view(1) [OF assms(3)]) simp_all
  have v2: "board_view_of ?b2 = (board_view_of b)\<lparr>v_base := 0xDEADBEEF, v_len := 4\<rparr>"
    using store_view(2) [OF r1, of 4] v1 by simp
  have base: "reg (g_csr (hw ?b1)) REG_BASEADDR = 0xDEADBEEF" and len: "reg (g_csr (hw ?b2)) REG_RINGLEN = 4"
    using v1 v2 by (simp_all add: board_view_of_def golden_view_def)
  have irq: "reg (g_csr (hw ?b2)) REG_IRQ_STATUS = 0"
    using assms(5) by (simp add: store_irq_status r1 assms(3))
  have status: "bit (reg (g_csr (hw ?b2)) REG_STATUS) 1" "\<not> bit (reg (g_csr (hw ?b2)) REG_STATUS) 0"
    using store_empty [OF r1, of REG_RINGLEN 4] v1 assms(4) r2 by (simp_all add: board_ready_def BUSY_BIT_def)
  obtain s1 where s1: "host_csr_write fw h 0x00 0xDEADBEEF s = (Inr (), s1)" "quiet_at s1 ?b1"
    using stores_csr [OF assms(1,2), of REG_BASEADDR "0xDEADBEEF"] by (auto simp: fw_def reg_offsets)
  obtain s2 where s2: "host_csr_read fw h 0x00 s1 = (Inr 0xDEADBEEF, s2)" "quiet_at s2 ?b1"
    using loads_csr [OF assms(1) s1(2) _ _ r1, of REG_BASEADDR] base by (auto simp: fw_def reg_offsets)
  obtain s3 where s3: "host_csr_write fw h 0x04 4 s2 = (Inr (), s3)" "quiet_at s3 ?b2"
    using stores_csr [OF assms(1) s2(2), of REG_RINGLEN 4] by (auto simp: fw_def reg_offsets)
  obtain s4 where s4: "host_csr_read fw h 0x04 s3 = (Inr 4, s4)" "quiet_at s4 ?b2"
    using loads_csr [OF assms(1) s3(2) _ _ r2, of REG_RINGLEN] len by (auto simp: fw_def reg_offsets)
  obtain s5 where s5: "host_csr_read fw h 0x14 s4 = (Inr (reg (g_csr (hw ?b2)) REG_STATUS), s5)" "quiet_at s5 ?b2"
    using loads_csr [OF assms(1) s4(2) _ _ r2, of REG_STATUS] by (auto simp: fw_def reg_offsets)
  obtain s6 where s6: "host_csr_read fw h 0x18 s5 = (Inr 0, s6)" "quiet_at s6 ?b2"
    using loads_csr [OF assms(1) s5(2) _ _ r2, of REG_IRQ_STATUS] irq by (auto simp: fw_def reg_offsets)
  show ?thesis using s1(1) s2(1) s3(1) s4(1) s5(1) status s6 r2 v2 by blast
qed

text \<open>The memory part.\<close>

lemma words_stored:
  assumes "host_fits say h" and "quiet_board s v" and "2 \<le> length (v_sys v)" and "2 \<le> length (v_ram v)"
  defines "fw \<equiv> uart_firmware board_bus say"
  shows "\<exists>s1 s2 s3 s4. smem_write fw h 0x00 0x12345678 s = (Inr (), s1) \<and> smem_write fw h 0x04 0xAABBCCDD s1 = (Inr (), s2) \<and>
    sram_write fw h 0x00 0xCAFEBABE s2 = (Inr (), s3) \<and> sram_write fw h 0x04 0x0BADF00D s3 = (Inr (), s4) \<and>
    quiet_board s4 (v\<lparr>v_sys := (v_sys v)[0 := 0x12345678, 1 := 0xAABBCCDD], v_ram := (v_ram v)[0 := 0xCAFEBABE, 1 := 0x0BADF00D]\<rparr>)"
proof -
  have in0: "holds 0 (m :: int list)" and in4: "holds 4 m" and cells: "cell 0 = 0" "cell 4 = 1" if "2 \<le> length m" for m
    using that by (auto simp: holds_def cell_def)
  let ?v1 = "v\<lparr>v_sys := (v_sys v)[0 := 0x12345678]\<rparr>"
  let ?v2 = "v\<lparr>v_sys := (v_sys v)[0 := 0x12345678, 1 := 0xAABBCCDD]\<rparr>"
  obtain s1 where s1: "smem_write fw h 0x00 0x12345678 s = (Inr (), s1)" "quiet_board s1 ?v1"
    using writes_sys [OF assms(1,2) in0, of "0x12345678"] assms(3) cells by (auto simp: fw_def)
  obtain s2 where s2: "smem_write fw h 0x04 0xAABBCCDD s1 = (Inr (), s2)" "quiet_board s2 ?v2"
    using writes_sys [OF assms(1) s1(2) in4, of "0xAABBCCDD"] assms(3) cells by (auto simp: fw_def)
  obtain s3 where s3: "sram_write fw h 0x00 0xCAFEBABE s2 = (Inr (), s3)"
      "quiet_board s3 (?v2\<lparr>v_ram := (v_ram v)[0 := 0xCAFEBABE]\<rparr>)"
    using writes_ram [OF assms(1) s2(2) in0, of "0xCAFEBABE"] assms(4) cells by (auto simp: fw_def)
  obtain s4 where "sram_write fw h 0x04 0x0BADF00D s3 = (Inr (), s4)"
      "quiet_board s4 (?v2\<lparr>v_ram := (v_ram v)[0 := 0xCAFEBABE, 1 := 0x0BADF00D]\<rparr>)"
    using writes_ram [OF assms(1) s3(2) in4, of "0x0BADF00D"] assms(4) cells by (auto simp: fw_def)
  with s1(1) s2(1) s3(1) show ?thesis by auto
qed

lemma protocol_run:
  assumes "host_csr_write fw h 0x00 0xDEADBEEF (world_serial (bench_world b)) = (Inr (), s1)"
    and "host_csr_read fw h 0x00 s1 = (Inr 0xDEADBEEF, s2)" and "host_csr_write fw h 0x04 4 s2 = (Inr (), s3)"
    and "host_csr_read fw h 0x04 s3 = (Inr 4, s4)" and "host_csr_read fw h 0x14 s4 = (Inr x, s5)"
    and "bit x 1" and "\<not> bit x 0" and "host_csr_read fw h 0x18 s5 = (Inr 0, s6)"
    and "smem_write fw h 0x00 0x12345678 s6 = (Inr (), t1)" and "smem_write fw h 0x04 0xAABBCCDD t1 = (Inr (), t2)"
    and "sram_write fw h 0x00 0xCAFEBABE t2 = (Inr (), t3)" and "sram_write fw h 0x04 0x0BADF00D t3 = (Inr (), t4)"
  shows "test_protocol fw h b
    = (Inl TypeError, b\<lparr>bench_world := (bench_world b)\<lparr>world_serial := t4\<rparr>, n_passed := n_passed b + 5\<rparr>)"
proof -
  have "drop_bit (Suc 0) x AND 1 \<noteq> 0" "x AND 1 = 0" using assms(6,7) status_flags [of x] by simp_all
  then show ?thesis
    by (simp add: test_protocol_def act_bind_def on_link_apply test_check_def test_ok_def act_modify_def
        crc32_words_ok two_words act_read_def act_raise_def assms(1-5) assms(8-12))
qed

section \<open>Properties\<close>

text \<open>
  C39. On the board that was just switched on the protocol test passes its five register checks,
  writes its words to both memories, and then ends in the TypeError of a checksum call without
  arguments, so that no checksum and no scenario is ever tested.
\<close>

theorem protocol_test_on_board:
  assumes "host_fits say h" and "golden_init sw bw = Inr g0" and "2 \<le> sw" and "2 \<le> bw"
    and "world_serial (bench_world b) = (fresh_link say g0)\<lparr>rx := []\<rparr>"
  shows "\<exists>b'. test_protocol (uart_firmware board_bus say) h b = (Inl TypeError, b') \<and>
    n_passed b' = n_passed b + 5 \<and> n_failed b' = n_failed b \<and>
    (let g = hw (board (device (world_serial (bench_world b')))) in
      smem g = (smem g0)[0 := 0x12345678, 1 := 0xAABBCCDD] \<and> bram g = (bram g0)[0 := 0xCAFEBABE, 1 := 0x0BADF00D] \<and>
      csr_baseaddr (g_csr g) = 0xDEADBEEF \<and> csr_ringlen (g_csr g) = 4)"
proof -
  let ?fw = "uart_firmware board_bus say" and ?s = "(fresh_link say g0)\<lparr>rx := []\<rparr>"
  have reg0: "reg (g_csr g0) k = 0" for k
    using assms(2) by (auto simp: golden_init_def reg_csr_init res_bind_def split: sum.splits)
  have start: "quiet_at ?s (power_on g0)" "board_ready (power_on g0)" "board_view_of (power_on g0) = golden_view g0"
    "reg (g_csr (hw (power_on g0))) REG_IRQ_STATUS = 0"
    using assms(1) reg0 setup_view(1) [OF assms(2)]
    by (simp_all add: quiet_at_def fresh_link_def fw_boot_def on_board_def fw_idle_def host_fits_def power_on_def
        board_ready_def settle_ok settle_status board_view_of_def BUSY_BIT_def settle_regs reg_apart)
  have head: "v_head (board_view_of (power_on g0)) = v_tail (board_view_of (power_on g0))"
    using start(3) setup_view(2) [OF assms(2)] by simp
  obtain s1 s2 s3 s4 s5 s6 x b1 where r: "host_csr_write ?fw h 0x00 0xDEADBEEF ?s = (Inr (), s1)"
      "host_csr_read ?fw h 0x00 s1 = (Inr 0xDEADBEEF, s2)" "host_csr_write ?fw h 0x04 4 s2 = (Inr (), s3)"
      "host_csr_read ?fw h 0x04 s3 = (Inr 4, s4)" "host_csr_read ?fw h 0x14 s4 = (Inr x, s5)"
      "bit x 1" "\<not> bit x 0" "host_csr_read ?fw h 0x18 s5 = (Inr 0, s6)"
    and b1: "quiet_at s6 b1" "board_ready b1" "board_view_of b1 = (golden_view g0)\<lparr>v_base := 0xDEADBEEF, v_len := 4\<rparr>"
    using registers_checked [OF assms(1) start(1,2) head start(4)] start(3) by auto
  let ?v = "(golden_view g0)\<lparr>v_base := 0xDEADBEEF, v_len := 4\<rparr>"
  have quiet: "quiet_board s6 ?v"
    using b1 by (auto simp: quiet_at_def quiet_board_def board_stands_def intro: standsI)
  have sizes: "2 \<le> length (v_sys ?v)" "2 \<le> length (v_ram ?v)"
    using setup_view(2) [OF assms(2)] assms(3,4) by simp_all
  obtain t1 t2 t3 t4 where t: "smem_write ?fw h 0x00 0x12345678 s6 = (Inr (), t1)"
      "smem_write ?fw h 0x04 0xAABBCCDD t1 = (Inr (), t2)" "sram_write ?fw h 0x00 0xCAFEBABE t2 = (Inr (), t3)"
      "sram_write ?fw h 0x04 0x0BADF00D t3 = (Inr (), t4)"
    and end_view: "quiet_board t4 (?v\<lparr>v_sys := (v_sys ?v)[0 := 0x12345678, 1 := 0xAABBCCDD],
      v_ram := (v_ram ?v)[0 := 0xCAFEBABE, 1 := 0x0BADF00D]\<rparr>)"
    using words_stored [OF assms(1) quiet sizes] by blast
  have "test_protocol ?fw h b = (Inl TypeError,
      b\<lparr>bench_world := (bench_world b)\<lparr>world_serial := t4\<rparr>, n_passed := n_passed b + 5\<rparr>)"
    by (rule protocol_run [OF _ r(2-8) t]) (simp add: assms(5) r(1))
  with end_view show ?thesis
    by (intro exI [of _ "b\<lparr>bench_world := (bench_world b)\<lparr>world_serial := t4\<rparr>, n_passed := n_passed b + 5\<rparr>"])
      (auto simp: quiet_board_def board_stands_def stands_def on_board_def board_views csr_baseaddr_def csr_ringlen_def csr_read_def Let_def)
qed

theorem protocol_test_on_board_witness:
  "\<exists>b'. test_protocol (uart_firmware board_bus (\<lambda>_ _. [])) \<lparr>csr_base_addr = CSR_BASE, smem_base_addr = 0,
      sram_base_addr = 0, ack_polls = 20, dma_polls = 20\<rparr>
      \<lparr>bench_world = \<lparr>world_files = [], world_serial = (fresh_link (\<lambda>_ _. []) full_init)\<lparr>rx := []\<rparr>\<rparr>, n_passed = 0, n_failed = 0\<rparr>
    = (Inl TypeError, b') \<and> n_passed b' = 5"
proof -
  let ?h = "\<lparr>csr_base_addr = CSR_BASE, smem_base_addr = 0, sram_base_addr = 0, ack_polls = 20, dma_polls = 20\<rparr>"
  have "host_fits (\<lambda>_ _. []) ?h" by (simp add: host_fits_def ascii_printf_def terse_def exI [of _ 0])
  from protocol_test_on_board [OF this full_init_ok, of "\<lparr>bench_world = \<lparr>world_files = [],
      world_serial = (fresh_link (\<lambda>_ _. []) full_init)\<lparr>rx := []\<rparr>\<rparr>, n_passed = 0, n_failed = 0\<rparr>"]
  show ?thesis by (auto simp: SMEM_WORDS_def BRAM_SIZE_def)
qed

text \<open>
  C40. Whatever stands at the other end of the link, the bench script ends with exit status 1 before
  any scenario is run, and writes no file, unless it only lists the ports; and had a scenario been
  reached, it would count exactly one failure and at most its two preload checks as passed.
\<close>

theorem bench_never_passes:
  assumes "\<not> te_list_ports args" and "\<And>p e. opened p = Inl e \<Longrightarrow> ordinary e"
    and "disk_get csv (world_files (bench_world b)) = Some t" and "csv_rows t = Inr rows"
    and "default_scenario rows = Inr out"
  shows "exit_status (fst (esp32_main fw opened h here args b)) = 1 \<and>
    world_files (bench_world (snd (esp32_main fw opened h here args b))) = world_files (bench_world b) \<and>
    (\<exists>b'. test_scenario fw h csv out_dir b = (Inr (), b') \<and>
      n_failed b' = n_failed b + 1 \<and> n_passed b' \<in> {n_passed b .. n_passed b + 2})"
proof -
  have "\<exists>port. (if given (te_port args) then act_return (te_port args)
      else on_world (on_files find_arty_port)) b = (Inr port, b)"
    by (simp add: act_return_def find_arty_port_def act_gets_def on_world_apply on_files_apply)
  then obtain port where port: "(if given (te_port args) then act_return (te_port args)
      else on_world (on_files find_arty_port)) b = (Inr port, b)" ..
  then have found: "act_bind (if given (te_port args) then act_return (te_port args)
      else on_world (on_files find_arty_port)) g b = g port b" for g :: "string option \<Rightarrow> ('a bench, unit) act"
    by (simp add: act_bind_def)
  let ?run = "\<lambda>f. act_bind (act_read (\<lambda>_. opened (the port))) (\<lambda>_. act_bind (on_link drop_input) (\<lambda>_.
      act_bind (test_protocol fw h) f))"
  have runs: "ends_in ordinary (?run f)" for f :: "unit \<Rightarrow> ('a bench, unit) act"
    by (intro ends_bind ends_then keeps_link protocol_ends)
      (auto simp: keeps_files_def raises_only_def act_read_def drop_input_def act_modify_def dest: assms(2))
  have "\<exists>e b'. esp32_main fw opened h here args b = (Inl e, b') \<and> exit_status (Inl e :: unit result) = 1 \<and>
      world_files (bench_world b') = world_files (bench_world b)"
  proof (cases "given port")
    case True
    then obtain f where "esp32_main fw opened h here args b = ?run f b"
      using assms(1) by (simp add: esp32_main_def found)
    with runs [of f] ordinary_status show ?thesis unfolding ends_in_def by metis
  next
    case False
    with assms(1) show ?thesis by (simp add: esp32_main_def found act_raise_def)
  qed
  with scenario_counted [OF assms(3-5)] show ?thesis by force
qed

theorem bench_never_passes_witness:
  "exit_status (fst (esp32_main (\<lambda>_ d. (sync_bytes @ [0xAA, 0, 0, 0, 0], d)) (\<lambda>_. Inr ()) \<lparr>csr_base_addr = CSR_BASE,
      smem_base_addr = 0, sram_base_addr = 0, ack_polls = 20, dma_polls = 20\<rparr> ''/sim''
      \<lparr>te_port = Some ''COM5'', te_scenario = None, te_out_dir = ''/out'', te_list_ports = False\<rparr>
      \<lparr>bench_world = \<lparr>world_files = [(''/sim/scenarios/a.csv'', ''smem,3,7'')],
        world_serial = \<lparr>rx = [], tx = [], device = ()\<rparr>\<rparr>, n_passed = 0, n_failed = 0\<rparr>)) = 1"
proof -
  have "\<not> isl (default_scenario [[''smem'', ''3'', ''7'']])" by code_simp
  then obtain out where out: "default_scenario [[''smem'', ''3'', ''7'']] = Inr out"
    by (cases "default_scenario [[''smem'', ''3'', ''7'']]") auto
  have rows: "csv_rows ''smem,3,7'' = Inr [[''smem'', ''3'', ''7'']]" by code_simp
  show ?thesis
    by (rule bench_never_passes [OF _ _ _ rows out, THEN conjunct1]) (simp_all add: disk_get_def)
qed

end
