(* ===== verification/Rtl_Fifo.thy ===== *)
theory Rtl_Fifo
  imports Fifo_Queue
begin

text \<open>
  The FIFO of the hardware, \<open>rtl/fifo.sv\<close>, with both ports on one clock as every instance has them:
  one clock edge as a function from the inputs and the registers to the registers. The reset is
  sampled at the edge. The locale \<open>clocked_fifo\<close> is what the modules around it rely on; the
  interpretation \<open>hwq\<close> shows that pointers with a wrap bit, the registered output and the registered
  empty flag provide it.
\<close>

section \<open>The interface\<close>

text \<open>
  The flag \<open>empty\<close> may be late by one clock after a write, but while it is low \<open>dout\<close> is the oldest
  item. A write into a full FIFO and a read of an empty one are ignored.
\<close>

definition popped :: "bool \<Rightarrow> 'a list \<Rightarrow> 'a list" where
  "popped rd_en xs = (if rd_en then tl xs else xs)"

text \<open>
  A run of clocks: the words accepted (written while \<open>full\<close> is low), the words on the port \<open>dout\<close> in the
  clocks with a read, and the state at the end.
\<close>

fun fifo_run :: "(bool \<Rightarrow> 'a \<Rightarrow> bool \<Rightarrow> 'q \<Rightarrow> 'q) \<Rightarrow> ('q \<Rightarrow> bool) \<Rightarrow> ('q \<Rightarrow> 'a) \<Rightarrow>
    (bool \<times> 'a \<times> bool) list \<Rightarrow> 'q \<Rightarrow> 'a list \<times> 'a list \<times> 'q" where
  "fifo_run clock full dout [] q = ([], [], q)"
| "fifo_run clock full dout ((wr_en, din, rd_en) # cs) q =
     (case fifo_run clock full dout cs (clock wr_en din rd_en q) of (ins, outs, q') \<Rightarrow>
       ((if wr_en \<and> \<not> full q then [din] else []) @ ins, (if rd_en then [dout q] else []) @ outs, q'))"

text \<open>The reader only reads while \<open>empty\<close> is low.\<close>

fun reads_shown :: "(bool \<Rightarrow> 'a \<Rightarrow> bool \<Rightarrow> 'q \<Rightarrow> 'q) \<Rightarrow> ('q \<Rightarrow> bool) \<Rightarrow> (bool \<times> 'a \<times> bool) list \<Rightarrow> 'q \<Rightarrow> bool" where
  "reads_shown clock none [] q \<longleftrightarrow> True"
| "reads_shown clock none ((wr_en, din, rd_en) # cs) q \<longleftrightarrow>
     (rd_en \<longrightarrow> \<not> none q) \<and> reads_shown clock none cs (clock wr_en din rd_en q)"

locale clocked_fifo =
  fixes clock :: "bool \<Rightarrow> 'a \<Rightarrow> bool \<Rightarrow> 'q \<Rightarrow> 'q"
    and items :: "'q \<Rightarrow> 'a list"
    and full :: "'q \<Rightarrow> bool"
    and empty :: "'q \<Rightarrow> bool"
    and dout :: "'q \<Rightarrow> 'a"
    and depth :: "'q \<Rightarrow> nat"
    and ok :: "'q \<Rightarrow> bool"
  assumes items_clock: "ok q \<Longrightarrow> items (clock wr_en din rd_en q)
      = popped rd_en (items q) @ (if wr_en \<and> \<not> full q then [din] else [])"
    and empty_clock: "ok q \<Longrightarrow> empty (clock wr_en din rd_en q) \<longleftrightarrow> popped rd_en (items q) = []"
    and dout_head: "ok q \<Longrightarrow> \<not> empty q \<Longrightarrow> items q \<noteq> [] \<and> dout q = hd (items q)"
    and full_iff: "ok q \<Longrightarrow> full q \<longleftrightarrow> length (items q) = depth q"
    and depth_clock: "depth (clock wr_en din rd_en q) = depth q"
    and ok_clock: "ok q \<Longrightarrow> ok (clock wr_en din rd_en q)"
begin

abbreviation run :: "(bool \<times> 'a \<times> bool) list \<Rightarrow> 'q \<Rightarrow> 'a list \<times> 'a list \<times> 'q" where
  "run \<equiv> fifo_run clock full dout"

lemma run_ok: "ok q \<Longrightarrow> run cs q = (ins, outs, q') \<Longrightarrow> ok q'"
proof (induction cs arbitrary: q ins outs)
  case (Cons c cs)
  obtain wr_en din rd_en where c: "c = (wr_en, din, rd_en)" by (cases c)
  obtain ins1 outs1 where "run cs (clock wr_en din rd_en q) = (ins1, outs1, q')"
    using Cons.prems(2) by (auto simp: c split: prod.splits)
  then show ?case by (rule Cons.IH [OF ok_clock [OF Cons.prems(1)]])
qed simp

text \<open>What came out, then what is still there, is what was there, then what went in.\<close>

lemma run_depth: "run cs q = (ins, outs, q') \<Longrightarrow> depth q' = depth q"
proof (induction cs arbitrary: q ins outs)
  case (Cons c cs)
  obtain wr_en din rd_en where c: "c = (wr_en, din, rd_en)" by (cases c)
  obtain ins1 outs1 where "run cs (clock wr_en din rd_en q) = (ins1, outs1, q')"
    using Cons.prems by (auto simp: c split: prod.splits)
  from Cons.IH [OF this] show ?case by (simp add: depth_clock)
qed simp

lemma first_in_first_out:
  "ok q \<Longrightarrow> reads_shown clock empty cs q \<Longrightarrow> run cs q = (ins, outs, q') \<Longrightarrow> outs @ items q' = items q @ ins"
proof (induction cs arbitrary: q ins outs)
  case (Cons c cs)
  obtain wr_en din rd_en where c: "c = (wr_en, din, rd_en)" by (cases c)
  obtain ins1 outs1 where r: "run cs (clock wr_en din rd_en q) = (ins1, outs1, q')"
    using Cons.prems(3) by (auto simp: c split: prod.splits)
  have "outs1 @ items q' = items (clock wr_en din rd_en q) @ ins1"
    using Cons.IH [OF ok_clock [OF Cons.prems(1)] _ r] Cons.prems(2) by (simp add: c)
  moreover have "rd_en \<Longrightarrow> items q = dout q # tl (items q)"
    using dout_head [OF Cons.prems(1)] Cons.prems(2) by (cases "items q") (auto simp: c)
  ultimately show ?case
    using Cons.prems(1,3) r by (auto simp: c items_clock popped_def split: if_splits)
qed simp

end

section \<open>The module\<close>

fun clog2 :: "nat \<Rightarrow> nat" where
  "clog2 n = (if n \<le> 1 then 0 else Suc (clog2 ((n + 1) div 2)))"

declare clog2.simps [simp del]

record 'a rtl_fifo =
  rf_buf :: "'a list"
  rf_wr_addr :: nat
  rf_rd_addr :: nat
  rf_dout :: 'a
  rf_empty :: bool

definition rf_addr_width :: "'a rtl_fifo \<Rightarrow> nat" where
  "rf_addr_width f = clog2 (length (rf_buf f)) + 1"

text \<open>The address part of a pointer, and its wrap bit.\<close>

definition rf_index :: "'a rtl_fifo \<Rightarrow> nat \<Rightarrow> nat" where
  "rf_index f p = take_bit (rf_addr_width f - 1) p"

definition rf_wrap :: "'a rtl_fifo \<Rightarrow> nat \<Rightarrow> bool" where
  "rf_wrap f p = bit p (rf_addr_width f - 1)"

definition rf_empty_t :: "'a rtl_fifo \<Rightarrow> bool" where
  "rf_empty_t f \<longleftrightarrow> rf_wr_addr f = rf_rd_addr f"

definition rf_full :: "'a rtl_fifo \<Rightarrow> bool" where
  "rf_full f \<longleftrightarrow> rf_index f (rf_wr_addr f) = rf_index f (rf_rd_addr f) \<and>
     rf_wrap f (rf_wr_addr f) \<noteq> rf_wrap f (rf_rd_addr f)"

definition rf_rd_addr_t :: "bool \<Rightarrow> 'a rtl_fifo \<Rightarrow> nat" where
  "rf_rd_addr_t rd_en f =
     (if rd_en \<and> \<not> rf_empty_t f then take_bit (rf_addr_width f) (rf_rd_addr f + 1) else rf_rd_addr f)"

definition rf_wr_addr_t :: "bool \<Rightarrow> 'a rtl_fifo \<Rightarrow> nat" where
  "rf_wr_addr_t wr_en f =
     (if wr_en \<and> \<not> rf_full f then take_bit (rf_addr_width f) (rf_wr_addr f + 1) else rf_wr_addr f)"

text \<open>Neither the buffer nor \<open>dout\<close> is reset.\<close>

definition rf_clock :: "bool \<Rightarrow> bool \<Rightarrow> 'a \<Rightarrow> bool \<Rightarrow> 'a rtl_fifo \<Rightarrow> 'a rtl_fifo" where
  "rf_clock reset wr_en din rd_en f = \<lparr>
     rf_buf = (if wr_en \<and> \<not> rf_full f then (rf_buf f)[rf_index f (rf_wr_addr f) := din] else rf_buf f),
     rf_wr_addr = (if reset then 0 else rf_wr_addr_t wr_en f),
     rf_rd_addr = (if reset then 0 else rf_rd_addr_t rd_en f),
     rf_dout = rf_buf f ! rf_index f (rf_rd_addr_t rd_en f),
     rf_empty = (if reset then True else rf_wr_addr f = rf_rd_addr_t rd_en f)\<rparr>"

section \<open>What is in it\<close>

abbreviation rf_depth :: "'a rtl_fifo \<Rightarrow> nat" where
  "rf_depth f \<equiv> length (rf_buf f)"

definition rf_count :: "'a rtl_fifo \<Rightarrow> nat" where
  "rf_count f = (if rf_rd_addr f \<le> rf_wr_addr f then rf_wr_addr f - rf_rd_addr f
     else rf_wr_addr f + 2 * rf_depth f - rf_rd_addr f)"

definition rf_items :: "'a rtl_fifo \<Rightarrow> 'a list" where
  "rf_items f = map (\<lambda>i. rf_buf f ! ((rf_rd_addr f + i) mod rf_depth f)) [0..<rf_count f]"

text \<open>The depth is a power of two, as the address arithmetic needs.\<close>

definition rf_ok :: "'a rtl_fifo \<Rightarrow> bool" where
  "rf_ok f \<longleftrightarrow> (\<exists>k. rf_depth f = 2 ^ k) \<and> rf_wr_addr f < 2 * rf_depth f \<and> rf_rd_addr f < 2 * rf_depth f \<and>
     rf_count f \<le> rf_depth f \<and> (\<not> rf_empty f \<longrightarrow> rf_items f \<noteq> [] \<and> rf_dout f = hd (rf_items f))"

lemma clog2_power: "clog2 (2 ^ k) = k"
proof (induction k)
  case 0
  then show ?case by (simp add: clog2.simps)
next
  case (Suc k)
  have "2 ^ Suc k > (1 :: nat)" by (rule one_less_power) simp_all
  moreover have "(2 ^ Suc k + 1) div 2 = (2 ^ k :: nat)" by simp
  ultimately show ?case using Suc by (subst clog2.simps) simp
qed

lemma rf_width: "rf_ok f \<Longrightarrow> 2 ^ clog2 (rf_depth f) = rf_depth f \<and> rf_addr_width f = Suc (clog2 (rf_depth f))"
  by (auto simp: rf_ok_def rf_addr_width_def clog2_power)

lemma rf_bits:
  assumes "rf_ok f"
  shows "rf_index f p = p mod rf_depth f"
    and "take_bit (rf_addr_width f) p = p mod (2 * rf_depth f)"
    and "p < 2 * rf_depth f \<Longrightarrow> rf_wrap f p \<longleftrightarrow> rf_depth f \<le> p"
proof -
  have w: "2 ^ clog2 (rf_depth f) = rf_depth f" "rf_addr_width f = Suc (clog2 (rf_depth f))"
    using rf_width [OF assms] by simp_all
  show "rf_index f p = p mod rf_depth f" by (simp add: rf_index_def take_bit_eq_mod w)
  show "take_bit (rf_addr_width f) p = p mod (2 * rf_depth f)" by (simp add: take_bit_eq_mod w)
  assume p: "p < 2 * rf_depth f"
  have pos: "0 < rf_depth f" using w(1) by (metis zero_less_numeral zero_less_power)
  have "rf_wrap f p \<longleftrightarrow> odd (p div rf_depth f)" by (simp add: rf_wrap_def bit_iff_odd w)
  also have "\<dots> \<longleftrightarrow> rf_depth f \<le> p"
  proof (cases "rf_depth f \<le> p")
    case True
    then have "p div rf_depth f = 1" using p by (simp add: div_nat_eqI)
    with True show ?thesis by simp
  qed simp
  finally show "rf_wrap f p \<longleftrightarrow> rf_depth f \<le> p" .
qed

lemma mod_twice: "0 < d \<Longrightarrow> x < 2 * d \<Longrightarrow> x mod d = (if x < d then x else x - d)" for x d :: nat
  by (simp add: mod_if)

lemma rf_pos: "rf_ok f \<Longrightarrow> 0 < rf_depth f"
  using rf_width by (metis zero_less_numeral zero_less_power)

lemma rf_bounds: "rf_ok f \<Longrightarrow> rf_wr_addr f < 2 * rf_depth f \<and> rf_rd_addr f < 2 * rf_depth f \<and> rf_count f \<le> rf_depth f"
  by (simp add: rf_ok_def)

lemma rf_full_count:
  assumes "rf_ok f"
  shows "rf_full f \<longleftrightarrow> rf_count f = rf_depth f"
  using rf_bounds [OF assms] rf_pos [OF assms]
  by (auto simp: rf_full_def rf_bits [OF assms] rf_count_def mod_twice [OF rf_pos [OF assms]] split: if_splits)

lemma rf_empty_count: "rf_ok f \<Longrightarrow> rf_empty_t f \<longleftrightarrow> rf_count f = 0"
  using rf_bounds [of f] by (auto simp: rf_empty_t_def rf_count_def)

lemma rf_items_Nil: "rf_items f = [] \<longleftrightarrow> rf_count f = 0"
  by (simp add: rf_items_def)

lemma rf_wr_index: "rf_ok f \<Longrightarrow> rf_wr_addr f mod rf_depth f = (rf_rd_addr f + rf_count f) mod rf_depth f"
  using rf_bounds [of f] mod_add_self2 [of "rf_wr_addr f + rf_depth f" "rf_depth f"]
  by (auto simp: rf_count_def mult_2 add.assoc)

text \<open>A window of \<open>n\<close> cells from address \<open>r\<close>.\<close>

definition window :: "'a list \<Rightarrow> nat \<Rightarrow> nat \<Rightarrow> 'a list" where
  "window b r n = map (\<lambda>i. b ! ((r + i) mod length b)) [0..<n]"

lemma rf_items_window: "rf_items f = window (rf_buf f) (rf_rd_addr f) (rf_count f)"
  by (simp add: rf_items_def window_def)

lemma window_shift: "window b (r mod (2 * length b)) n = window b r n"
  by (simp add: window_def) (metis (no_types, lifting) mod_add_left_eq mod_mod_cancel dvd_triv_right)

lemma window_pop: "window b ((r + 1) mod (2 * length b)) n = tl (window b r (Suc n))"
proof -
  have "window b (r + 1) n = tl (window b r (Suc n))"
    by (simp add: window_def upt_rec [of 0 "Suc n"] map_Suc_upt [symmetric] del: upt_Suc)
  then show ?thesis by (simp add: window_shift)
qed

lemma window_hd: "0 < n \<Longrightarrow> hd (window b r n) = b ! (r mod length b)"
  by (simp add: window_def hd_map)

lemma window_push:
  assumes "n < length b"
  shows "window (b[(r + n) mod length b := x]) r (Suc n) = window b r n @ [x]"
proof -
  have "(r + n) mod length b \<noteq> (r + i) mod length b" if "i < n" for i
  proof
    assume "(r + n) mod length b = (r + i) mod length b"
    then have "length b dvd n - i" using that by (metis add_diff_cancel_left mod_eq_dvd_iff_nat add_le_cancel_left less_imp_le_nat)
    with that assms show False by (auto dest: dvd_imp_le)
  qed
  moreover have "(r + n) mod length b < length b" using assms by (intro mod_less_divisor) auto
  ultimately show ?thesis by (auto simp: window_def intro!: nth_list_update_neq)
qed

lemma window_other:
  assumes "n < length b"
  shows "window (b[(r + n) mod length b := x]) r n = window b r n"
proof -
  have "window (b[(r + n) mod length b := x]) r (Suc n) = window b r n @ [x]" by (rule window_push [OF assms])
  then have "window (b[(r + n) mod length b := x]) r n = butlast (window b r n @ [x])" by (simp add: window_def)
  then show ?thesis by simp
qed

section \<open>One clock\<close>

lemma rf_addr_next:
  assumes "rf_ok f"
  shows "rf_wr_addr_t wr_en f = (if wr_en \<and> \<not> rf_full f then (rf_wr_addr f + 1) mod (2 * rf_depth f) else rf_wr_addr f)"
    and "rf_rd_addr_t rd_en f = (if rd_en \<and> rf_count f \<noteq> 0 then (rf_rd_addr f + 1) mod (2 * rf_depth f) else rf_rd_addr f)"
  by (simp_all add: rf_wr_addr_t_def rf_rd_addr_t_def rf_bits [OF assms] rf_empty_count [OF assms])

lemma rf_wrap:
  assumes "rf_ok f" and "x < 2 * rf_depth f"
  shows "(x + 1) mod (2 * rf_depth f) = (if x + 1 = 2 * rf_depth f then 0 else x + 1)"
  using assms(2) by (simp add: mod_if)

lemma rf_popped_length: "length (popped rd_en (rf_items f)) = rf_count f - (if rd_en \<and> rf_count f \<noteq> 0 then 1 else 0)"
  by (simp add: popped_def rf_items_def)

lemma rf_popped:
  assumes "rf_ok f"
  shows "popped rd_en (rf_items f) = window (rf_buf f) (rf_rd_addr_t rd_en f) (length (popped rd_en (rf_items f)))"
  unfolding rf_popped_length rf_addr_next(2) [OF assms]
  by (cases "rf_count f")
    (simp_all add: popped_def rf_items_window window_pop [simplified] window_def [of _ _ 0])

lemma rf_clock_parts:
  "rf_depth (rf_clock r wr_en din rd_en f) = rf_depth f"
  "rf_rd_addr (rf_clock False wr_en din rd_en f) = rf_rd_addr_t rd_en f"
  "rf_wr_addr (rf_clock False wr_en din rd_en f) = rf_wr_addr_t wr_en f"
  by (simp_all add: rf_clock_def)

lemma rf_clock_count:
  assumes "rf_ok f"
  shows "rf_count (rf_clock False wr_en din rd_en f)
      = length (popped rd_en (rf_items f)) + (if wr_en \<and> \<not> rf_full f then 1 else 0)"
proof -
  note b = rf_bounds [OF assms] and pos = rf_pos [OF assms]
  have c: "rf_count f = (if rf_rd_addr f \<le> rf_wr_addr f then rf_wr_addr f - rf_rd_addr f
     else rf_wr_addr f + 2 * rf_depth f - rf_rd_addr f)" by (rule rf_count_def)
  show ?thesis
    using b pos c
    unfolding rf_count_def [of "rf_clock False wr_en din rd_en f"] rf_clock_parts rf_addr_next [OF assms]
      rf_popped_length rf_full_count [OF assms] rf_wrap [OF assms b [THEN conjunct1]]
      rf_wrap [OF assms b [THEN conjunct2, THEN conjunct1]]
    by (cases "rf_depth f") (auto split: if_splits)
qed

lemma rf_clock_empty:
  assumes "rf_ok f"
  shows "rf_empty (rf_clock False wr_en din rd_en f) \<longleftrightarrow> popped rd_en (rf_items f) = []"
proof -
  note b = rf_bounds [OF assms] and pos = rf_pos [OF assms]
  have c: "rf_count f = (if rf_rd_addr f \<le> rf_wr_addr f then rf_wr_addr f - rf_rd_addr f
     else rf_wr_addr f + 2 * rf_depth f - rf_rd_addr f)" by (rule rf_count_def)
  have "rf_wr_addr f = rf_rd_addr_t rd_en f \<longleftrightarrow> length (popped rd_en (rf_items f)) = 0"
    using b pos c
    unfolding rf_addr_next [OF assms] rf_popped_length rf_wrap [OF assms b [THEN conjunct2, THEN conjunct1]]
    by (auto split: if_splits)
  then show ?thesis by (simp add: rf_clock_def)
qed

lemma rf_write_index:
  assumes "rf_ok f"
  shows "rf_index f (rf_wr_addr f) = (rf_rd_addr_t rd_en f + length (popped rd_en (rf_items f))) mod rf_depth f"
proof -
  have "((rf_rd_addr f + 1) mod (2 * rf_depth f) + m) mod rf_depth f = (rf_rd_addr f + Suc m) mod rf_depth f" for m
    by (metis (no_types, lifting) add.assoc dvd_triv_right mod_add_left_eq mod_mod_cancel plus_1_eq_Suc)
  then show ?thesis
    unfolding rf_bits [OF assms] rf_wr_index [OF assms] rf_popped_length rf_addr_next(2) [OF assms]
    by (cases "rf_count f") simp_all
qed

lemma rf_clock_items:
  assumes "rf_ok f"
  shows "rf_items (rf_clock False wr_en din rd_en f)
      = popped rd_en (rf_items f) @ (if wr_en \<and> \<not> rf_full f then [din] else [])"
proof -
  let ?n = "length (popped rd_en (rf_items f))" and ?r = "rf_rd_addr_t rd_en f"
  have items: "rf_items (rf_clock False wr_en din rd_en f)
      = window (if wr_en \<and> \<not> rf_full f then (rf_buf f)[(?r + ?n) mod rf_depth f := din] else rf_buf f) ?r
          (?n + (if wr_en \<and> \<not> rf_full f then 1 else 0))"
    unfolding rf_items_window [of "rf_clock False wr_en din rd_en f"] rf_clock_count [OF assms] rf_clock_parts
    by (simp add: rf_clock_def rf_write_index [OF assms, of rd_en])
  show ?thesis
  proof (cases "wr_en \<and> \<not> rf_full f")
    case True
    then have "?n < rf_depth f"
      using rf_full_count [OF assms] rf_bounds [OF assms] by (auto simp: rf_popped_length)
    from window_push [OF this, of ?r din] True show ?thesis
      unfolding items by (simp add: rf_popped [OF assms, symmetric])
  next
    case False
    then show ?thesis unfolding items by (auto simp: rf_popped [OF assms, symmetric])
  qed
qed

lemma rf_clock_dout:
  assumes "rf_ok f" and "popped rd_en (rf_items f) \<noteq> []"
  shows "rf_dout (rf_clock False wr_en din rd_en f) = hd (popped rd_en (rf_items f))"
  using assms(2) window_hd [of "length (popped rd_en (rf_items f))" "rf_buf f" "rf_rd_addr_t rd_en f"]
  by (simp add: rf_popped [OF assms(1), symmetric]) (simp add: rf_clock_def rf_bits [OF assms(1)])

lemma rf_clock_ok:
  assumes "rf_ok f"
  shows "rf_ok (rf_clock False wr_en din rd_en f)"
proof -
  note b = rf_bounds [OF assms] and pos = rf_pos [OF assms]
  have addr: "rf_wr_addr_t wr_en f < 2 * rf_depth f" "rf_rd_addr_t rd_en f < 2 * rf_depth f"
    using b pos by (simp_all add: rf_addr_next [OF assms])
  have "rf_count (rf_clock False wr_en din rd_en f) \<le> rf_depth f"
    using b rf_full_count [OF assms] by (auto simp: rf_clock_count [OF assms] rf_popped_length)
  then show ?thesis
    using addr assms
    by (auto simp: rf_ok_def [of "rf_clock False wr_en din rd_en f"] rf_clock_parts rf_clock_empty [OF assms]
        rf_clock_items [OF assms] rf_clock_dout [OF assms]) (auto simp: rf_ok_def)
qed

interpretation hwq: clocked_fifo "rf_clock False" rf_items rf_full rf_empty rf_dout "\<lambda>f. rf_depth f" rf_ok
proof
  fix q :: "'a rtl_fifo"
  assume "rf_ok q"
  then show "rf_full q \<longleftrightarrow> length (rf_items q) = rf_depth q"
    by (simp add: rf_full_count rf_items_def)
qed (simp_all add: rf_clock_items rf_clock_empty rf_clock_parts rf_clock_ok, auto simp: rf_ok_def)

text \<open>Out of reset.\<close>

lemma rf_reset:
  assumes "rf_depth f = 2 ^ k"
  shows "rf_ok (rf_clock True wr_en din rd_en f)" and "rf_items (rf_clock True wr_en din rd_en f) = []"
    and "rf_empty (rf_clock True wr_en din rd_en f)"
  using assms by (auto simp: rf_ok_def rf_items_def rf_count_def rf_clock_def)

section \<open>Properties\<close>

text \<open>
  C14. From reset on, whatever is written when, and whenever the reader reads, as long as it does so only
  while the empty flag is low: the words on the output port of \<open>fifo.sv\<close> in the clocks of the reads are the
  words that were written while the full flag was low, in order, without loss or repetition, up to
  those still held, of which there are at most its depth; and while the empty flag is low the port
  shows the oldest of them. (The flag rises one clock after a write; a read before that would lose the
  word. \<open>rtl_readers_wait\<close> shows that no module reads then.)
\<close>

theorem rtl_fifo_in_order:
  assumes "length (rf_buf f) = 2 ^ k" and "reads_shown (rf_clock False) rf_empty cs (rf_clock True w d r f)"
    and "fifo_run (rf_clock False) rf_full rf_dout cs (rf_clock True w d r f) = (ins, outs, f')"
  shows "outs @ rf_items f' = ins \<and> length (rf_items f') \<le> 2 ^ k \<and>
    (\<not> rf_empty f' \<longrightarrow> rf_items f' \<noteq> [] \<and> rf_dout f' = hd (rf_items f'))"
proof -
  note ok = rf_reset(1) [OF assms(1)]
  have ok': "rf_ok f'" by (rule hwq.run_ok [OF ok assms(3)])
  have "length (rf_buf f') = length (rf_buf f)"
    using hwq.run_depth [OF assms(3)] by (simp add: rf_clock_parts)
  with rf_bounds [OF ok'] assms(1) have "length (rf_items f') \<le> 2 ^ k" by (simp add: rf_items_def)
  then show ?thesis
    using hwq.first_in_first_out [OF ok assms(2,3)] hwq.dout_head [OF ok'] by (simp add: rf_reset(2) [OF assms(1)])
qed

theorem rtl_fifo_in_order_witness:
  "\<exists>f'. fifo_run (rf_clock False) rf_full rf_dout [(True, 7, False), (True, 8, False), (True, 9, True), (True, 6, True)]
      (rf_clock True False 0 False \<lparr>rf_buf = [0, 0 :: int], rf_wr_addr = 1, rf_rd_addr = 3, rf_dout = 0, rf_empty = False\<rparr>)
    = ([7, 8, 6], [7, 8], f') \<and> rf_items f' = [6]"
proof -
  let ?f = "\<lparr>rf_buf = [0, 0 :: int], rf_wr_addr = 1, rf_rd_addr = 3, rf_dout = 0, rf_empty = False\<rparr>"
    and ?cs = "[(True, 7, False), (True, 8, False), (True, 9, True), (True, 6, True)]"
  have "fst (fifo_run (rf_clock False) rf_full rf_dout ?cs (rf_clock True False 0 False ?f)) = [7, 8, 6]"
    and "fst (snd (fifo_run (rf_clock False) rf_full rf_dout ?cs (rf_clock True False 0 False ?f))) = [7, 8]"
    and shown: "reads_shown (rf_clock False) rf_empty ?cs (rf_clock True False 0 False ?f)"
    by code_simp+
  then obtain f' where run: "fifo_run (rf_clock False) rf_full rf_dout ?cs (rf_clock True False 0 False ?f) = ([7, 8, 6], [7, 8], f')"
    by (metis prod.collapse)
  have "length (rf_buf ?f) = 2 ^ 1" by simp
  from rtl_fifo_in_order [OF this shown run] run show ?thesis by simp
qed

text \<open>
  C13. A FIFO of \<open>fifo.sv\<close> and a \<open>FIFOQueue\<close> of the golden model with the same length and content: a clock
  in which nothing is read while the empty flag is high or written while the full flag is high does
  what \<open>dequeue\<close> and then \<open>enqueue\<close> do, and the word that is read is the one \<open>dequeue\<close> returns.
\<close>

theorem rtl_fifo_refines_queue:
  assumes "rf_ok f" and "rf_items f = buffer q" and "int (length (rf_buf f)) = queue_length q"
    and "rd_en \<longrightarrow> \<not> rf_empty f" and "wr_en \<longrightarrow> \<not> rf_full f"
  shows "\<exists>q'. act_bind (if rd_en then act_bind fifo_dequeue (\<lambda>x. act_return (x = rf_dout f)) else act_return True) (\<lambda>same.
      act_bind (if wr_en then fifo_enqueue din else act_return ()) (\<lambda>_. act_return same)) q = (Inr True, q') \<and>
    (let f' = rf_clock False wr_en din rd_en f
     in rf_ok f' \<and> rf_items f' = buffer q' \<and> int (length (rf_buf f')) = queue_length q')"
proof -
  have count: "length (buffer q) = rf_count f" by (simp add: assms(2) [symmetric] rf_items_def)
  have len: "int (length (buffer q)) \<le> queue_length q" "wr_en \<Longrightarrow> int (length (buffer q)) < queue_length q"
    using rf_bounds [OF assms(1)] rf_full_count [OF assms(1)] assms(3,5) count by auto
  have read: "rd_en \<Longrightarrow> buffer q \<noteq> [] \<and> rf_dout f = hd (buffer q)"
    using hwq.dout_head [OF assms(1)] assms(2,4) by simp
  have "rf_items (rf_clock False wr_en din rd_en f) = popped rd_en (buffer q) @ (if wr_en then [din] else [])"
    using rf_clock_items [OF assms(1)] assms(2,5) by auto
  then show ?thesis
    using len read rf_clock_ok [OF assms(1)] assms(3)
    by (auto simp: Let_def rf_clock_parts act_bind_def act_return_def fifo_defs popped_def)
qed

theorem rtl_fifo_refines_queue_witness:
  "\<exists>q'. act_bind fifo_dequeue (\<lambda>x. act_return (x = 5)) \<lparr>fifo_id = ''mid'', queue_length = 2, buffer = [5]\<rparr> = (Inr True, q')"
proof -
  let ?f = "\<lparr>rf_buf = [5, 0], rf_wr_addr = 1, rf_rd_addr = 0, rf_dout = 5, rf_empty = False\<rparr>"
  have "rf_ok ?f" by (auto simp: rf_ok_def rf_count_def rf_items_def intro: exI [of _ 1])
  moreover have "rf_items ?f = buffer \<lparr>fifo_id = ''mid'', queue_length = 2, buffer = [5]\<rparr>"
    by (simp add: rf_items_def rf_count_def)
  ultimately obtain q' where "act_bind (if True then act_bind fifo_dequeue (\<lambda>x. act_return (x = rf_dout ?f)) else act_return True)
      (\<lambda>same. act_bind (if False then fifo_enqueue 0 else act_return ()) (\<lambda>_. act_return same))
      \<lparr>fifo_id = ''mid'', queue_length = 2, buffer = [5]\<rparr> = (Inr True, q')"
    using rtl_fifo_refines_queue [of ?f "\<lparr>fifo_id = ''mid'', queue_length = 2, buffer = [5]\<rparr>" True False 0] by auto
  then show ?thesis by (auto simp: act_bind_def act_return_def split: prod.splits sum.splits)
qed

end
