(* ===== verification/Rtl_Modules.thy ===== *)
theory Rtl_Modules
  imports Dma_Prelude
begin

text \<open>
  The modules of the datapath under \<open>src/rtl\<close>: the descriptor fetcher, the data mover, the AXI master,
  the SRAM controller with its block RAM, and the memory behind the AXI bus. A module is a record of its
  registers, its outputs as functions of registers and inputs, and the registers after one clock edge
  out of reset. A vector is an \<open>int\<close> in the range of its width; arithmetic that can leave it is
  reduced as the width of the expression says.
\<close>

section \<open>Vectors\<close>

text \<open>\<open>x[hi:lo]\<close>, and the wrapping decrement and increment of the eight-bit beat counters.\<close>

definition sel :: "nat \<Rightarrow> nat \<Rightarrow> int \<Rightarrow> int" where
  "sel hi lo x = take_bit (hi + 1 - lo) (drop_bit lo x)"

definition inc8 :: "int \<Rightarrow> int" where
  "inc8 x = (x + 1) mod 256"

definition last_beat :: "int \<Rightarrow> int" where
  "last_beat len = (len - 1) mod 256"

definition inc32 :: "int \<Rightarrow> int" where
  "inc32 x = (x + 1) mod 2 ^ 32"

section \<open>descriptor_fetcher.sv\<close>

definition MAX_SRAM_ADDR :: int where
  "MAX_SRAM_ADDR = 2 ^ 16 - 1"

datatype fetch_state = Fetch_error | Fetch_normal

record fetch_hw =
  fh_dm_wr_en :: bool
  fh_dm_din :: int
  fh_df_wr_en :: bool
  fh_df_din :: int
  fh_state :: fetch_state

definition fetch_reset :: fetch_hw where
  "fetch_reset = \<lparr>fh_dm_wr_en = False, fh_dm_din = 0, fh_df_wr_en = False, fh_df_din = 0, fh_state = Fetch_normal\<rparr>"

definition desc_end_addr :: "int \<Rightarrow> int" where
  "desc_end_addr d =
     (let sram_byte_addr = (if sel 96 96 d = 1 then sel 63 32 d else sel 31 0 d);
          sram_word_idx = drop_bit 2 sram_byte_addr;
          len_beats = sel 71 64 d
      in if len_beats = 0 then sram_word_idx else sram_word_idx + len_beats - 1)"

definition fetch_accepts :: "bool \<Rightarrow> bool \<Rightarrow> bool" where
  "fetch_accepts df_in_full req_valid \<longleftrightarrow> \<not> df_in_full \<and> req_valid"

definition fetch_takes :: "bool \<Rightarrow> bool \<Rightarrow> bool" where
  "fetch_takes df_out_empty dm_in_full \<longleftrightarrow> \<not> df_out_empty \<and> \<not> dm_in_full"

definition fetch_error :: "bool \<Rightarrow> int \<Rightarrow> bool \<Rightarrow> bool" where
  "fetch_error df_out_empty df_out_dout dm_in_full \<longleftrightarrow>
     fetch_takes df_out_empty dm_in_full \<and> desc_end_addr df_out_dout > MAX_SRAM_ADDR"

definition fetch_next :: "bool \<Rightarrow> bool \<Rightarrow> int \<Rightarrow> bool \<Rightarrow> int \<Rightarrow> bool \<Rightarrow> fetch_hw \<Rightarrow> fetch_hw" where
  "fetch_next df_in_full df_out_empty df_out_dout dm_in_full rm_df_addr req_valid f =
     (let accept = fetch_accepts df_in_full req_valid;
          bad = fetch_error df_out_empty df_out_dout dm_in_full;
          pass = fetch_takes df_out_empty dm_in_full \<and> \<not> bad
      in \<lparr>fh_dm_wr_en = pass, fh_dm_din = (if pass then df_out_dout else 0),
          fh_df_wr_en = accept, fh_df_din = (if accept then rm_df_addr OR push_bit 32 4 else 0),
          fh_state = (case fh_state f of
              Fetch_normal \<Rightarrow> (if bad then Fetch_error else Fetch_normal)
            | Fetch_error \<Rightarrow> (if accept then Fetch_normal else Fetch_error))\<rparr>)"

section \<open>data_mover.sv\<close>

datatype mover_state = GET_DATA | DECODE | SEND_INSTR

record mover_hw =
  mh_state :: mover_state
  mh_input :: int
  mh_axi :: int
  mh_sram :: int

definition mover_reset :: mover_hw where
  "mover_reset = \<lparr>mh_state = GET_DATA, mh_input = 0, mh_axi = 0, mh_sram = 0\<rparr>"

definition wide_instr :: "int \<Rightarrow> int \<Rightarrow> int \<Rightarrow> int" where
  "wide_instr addr len rw = addr OR push_bit 32 len OR push_bit 64 rw"

text \<open>The words of the descriptor: \<open>[31:0]\<close> source, \<open>[63:32]\<close> destination, \<open>[95:64]\<close> length, bit 96 direction.\<close>

definition mover_decode :: "int \<Rightarrow> int \<times> int" where
  "mover_decode d =
     (if sel 96 96 d = 1
      then (wide_instr (sel 31 0 d) (sel 95 64 d) 0, wide_instr (sel 63 32 d) (sel 95 64 d) 1)
      else (wide_instr (sel 63 32 d) (sel 95 64 d) 1, wide_instr (sel 31 0 d) (sel 95 64 d) 0))"

definition mover_reads :: "bool \<Rightarrow> mover_hw \<Rightarrow> bool" where
  "mover_reads desc_empty m \<longleftrightarrow> mh_state m = GET_DATA \<and> \<not> desc_empty"

definition mover_sends :: "bool \<Rightarrow> bool \<Rightarrow> mover_hw \<Rightarrow> bool" where
  "mover_sends axi_full sram_full m \<longleftrightarrow> mh_state m = SEND_INSTR \<and> \<not> sram_full \<and> \<not> axi_full"

definition mover_next :: "bool \<Rightarrow> int \<Rightarrow> bool \<Rightarrow> bool \<Rightarrow> mover_hw \<Rightarrow> mover_hw" where
  "mover_next desc_empty desc_dout axi_full sram_full m = (case mh_state m of
     GET_DATA \<Rightarrow> (if desc_empty then m else m\<lparr>mh_state := DECODE, mh_input := desc_dout\<rparr>)
   | DECODE \<Rightarrow> m\<lparr>mh_state := SEND_INSTR, mh_axi := fst (mover_decode (mh_input m)),
       mh_sram := snd (mover_decode (mh_input m))\<rparr>
   | SEND_INSTR \<Rightarrow> (if mover_sends axi_full sram_full m then m\<lparr>mh_state := GET_DATA\<rparr> else m))"

text \<open>The 41 bits of an instruction that \<open>movement_top.sv\<close> passes on.\<close>

definition narrow_instr :: "int \<Rightarrow> int" where
  "narrow_instr w = sel 31 0 w OR push_bit 32 (sel 39 32 w) OR push_bit 40 (sel 64 64 w)"

section \<open>axi_4_master.sv\<close>

datatype master_state = Idle | Df_get | Df_ar | Df_r | Df_push
  | Dm_get | Dm_rd_ar | Dm_rd_r | Dm_wr_aw | Dm_wr_w | Dm_wr_b | Wait_sram

record master_hw =
  ah_state :: master_state
  ah_addr :: int
  ah_len :: int
  ah_write :: bool
  ah_beat :: int
  ah_desc :: int

definition master_reset :: master_hw where
  "master_reset = \<lparr>ah_state = Idle, ah_addr = 0, ah_len = 0, ah_write = False, ah_beat = 0, ah_desc = 0\<rparr>"

text \<open>The bus, seen from the slave: what it answers in this clock.\<close>

record axi_reply =
  arready :: bool
  rvalid :: bool
  rdata :: int
  rlast :: bool
  awready :: bool
  wready :: bool
  bvalid :: bool

text \<open>And from the master: what it drives.\<close>

record axi_request =
  arvalid :: bool
  araddr :: int
  arlen :: int
  rready :: bool
  awvalid :: bool
  awaddr :: int
  awlen :: int
  wvalid :: bool
  wdata :: int
  wlast :: bool
  bready :: bool

definition burst_len :: "int \<Rightarrow> int" where
  "burst_len len = (if len = 0 then 0 else len - 1)"

definition master_drives :: "bool \<Rightarrow> bool \<Rightarrow> int \<Rightarrow> master_hw \<Rightarrow> axi_request" where
  "master_drives mid_full mid_empty mid_dout a =
     (let w = ah_state a = Dm_wr_w \<and> \<not> mid_empty
      in \<lparr>arvalid = (ah_state a = Df_ar \<or> ah_state a = Dm_rd_ar), araddr = ah_addr a, arlen = burst_len (ah_len a),
          rready = (ah_state a = Df_r \<or> ah_state a = Dm_rd_r \<and> \<not> mid_full),
          awvalid = (ah_state a = Dm_wr_aw), awaddr = ah_addr a, awlen = burst_len (ah_len a),
          wvalid = w, wdata = mid_dout, wlast = (w \<and> ah_beat a = last_beat (ah_len a)),
          bready = (ah_state a = Dm_wr_b)\<rparr>)"

text \<open>The strobes to the FIFOs.\<close>

definition master_df_in_rd :: "master_hw \<Rightarrow> bool" where
  "master_df_in_rd a \<longleftrightarrow> ah_state a = Df_get"

definition master_df_out_wr :: "bool \<Rightarrow> master_hw \<Rightarrow> bool" where
  "master_df_out_wr df_out_full a \<longleftrightarrow> ah_state a = Df_push \<and> \<not> df_out_full"

definition master_dm_rd :: "master_hw \<Rightarrow> bool" where
  "master_dm_rd a \<longleftrightarrow> ah_state a = Dm_get"

definition master_mid_wr :: "bool \<Rightarrow> axi_reply \<Rightarrow> master_hw \<Rightarrow> bool" where
  "master_mid_wr mid_full r a \<longleftrightarrow> ah_state a = Dm_rd_r \<and> rvalid r \<and> \<not> mid_full"

definition master_mid_rd :: "bool \<Rightarrow> axi_reply \<Rightarrow> master_hw \<Rightarrow> bool" where
  "master_mid_rd mid_empty r a \<longleftrightarrow> ah_state a = Dm_wr_w \<and> \<not> mid_empty \<and> wready r"

definition master_done :: "master_hw \<Rightarrow> bool" where
  "master_done a \<longleftrightarrow> ah_state a = Wait_sram"

text \<open>\<open>desc_buf[beat*32 +: 32] = rdata\<close>; a beat past the last word of the buffer is lost.\<close>

definition desc_put :: "int \<Rightarrow> int \<Rightarrow> int \<Rightarrow> int" where
  "desc_put beat x buf =
     (if beat < 4 then (buf AND NOT (push_bit (32 * nat beat) 0xFFFFFFFF)) OR push_bit (32 * nat beat) x else buf)"

definition master_next ::
  "bool \<Rightarrow> int \<Rightarrow> bool \<Rightarrow> bool \<Rightarrow> int \<Rightarrow> bool \<Rightarrow> bool \<Rightarrow> bool \<Rightarrow> axi_reply \<Rightarrow> master_hw \<Rightarrow> master_hw" where
  "master_next df_in_empty df_in_dout df_out_full dm_empty dm_dout mid_full mid_empty sram_done r a = (case ah_state a of
     Idle \<Rightarrow> (if \<not> df_in_empty then a\<lparr>ah_state := Df_get\<rparr> else if \<not> dm_empty then a\<lparr>ah_state := Dm_get\<rparr> else a)
   | Df_get \<Rightarrow> a\<lparr>ah_state := Df_ar, ah_addr := sel 31 0 df_in_dout, ah_len := sel 39 32 df_in_dout,
       ah_beat := 0, ah_desc := 0\<rparr>
   | Df_ar \<Rightarrow> (if arready r then a\<lparr>ah_state := Df_r\<rparr> else a)
   | Df_r \<Rightarrow> (if rvalid r then a\<lparr>ah_desc := desc_put (ah_beat a) (rdata r) (ah_desc a), ah_beat := inc8 (ah_beat a),
         ah_state := (if rlast r then Df_push else Df_r)\<rparr> else a)
   | Df_push \<Rightarrow> (if df_out_full then a else a\<lparr>ah_state := Idle\<rparr>)
   | Dm_get \<Rightarrow> a\<lparr>ah_state := (if sel 40 40 dm_dout = 1 then Dm_wr_aw else Dm_rd_ar), ah_addr := sel 31 0 dm_dout,
       ah_len := sel 39 32 dm_dout, ah_write := (sel 40 40 dm_dout = 1), ah_beat := 0\<rparr>
   | Dm_rd_ar \<Rightarrow> (if arready r then a\<lparr>ah_state := Dm_rd_r\<rparr> else a)
   | Dm_rd_r \<Rightarrow> (if rvalid r \<and> \<not> mid_full \<and> rlast r then a\<lparr>ah_state := Wait_sram\<rparr> else a)
   | Dm_wr_aw \<Rightarrow> (if awready r then a\<lparr>ah_state := Dm_wr_w, ah_beat := 0\<rparr> else a)
   | Dm_wr_w \<Rightarrow> (if \<not> mid_empty \<and> wready r then a\<lparr>ah_beat := inc8 (ah_beat a),
         ah_state := (if ah_beat a = last_beat (ah_len a) then Dm_wr_b else Dm_wr_w)\<rparr> else a)
   | Dm_wr_b \<Rightarrow> (if bvalid r then a\<lparr>ah_state := Wait_sram\<rparr> else a)
   | Wait_sram \<Rightarrow> (if sram_done then a\<lparr>ah_state := Idle\<rparr> else a))"

section \<open>sram_controller.sv and bram.sv\<close>

datatype sram_state = S_idle | S_dm_get | S_writing | S_reading | S_wait_axi

record sram_hw =
  sh_state :: sram_state
  sh_addr :: int
  sh_len :: int
  sh_write :: bool
  sh_beat :: int

definition sram_reset :: sram_hw where
  "sram_reset = \<lparr>sh_state = S_idle, sh_addr = 0, sh_len = 0, sh_write = False, sh_beat = 0\<rparr>"

definition sram_done :: "sram_hw \<Rightarrow> bool" where
  "sram_done s \<longleftrightarrow> sh_state s = S_wait_axi"

definition sram_dm_rd :: "sram_hw \<Rightarrow> bool" where
  "sram_dm_rd s \<longleftrightarrow> sh_state s = S_dm_get"

text \<open>Writing takes a word from MID in every clock it has one; reading puts one whenever there is room.\<close>

definition sram_mid_rd :: "bool \<Rightarrow> sram_hw \<Rightarrow> bool" where
  "sram_mid_rd mid_empty s \<longleftrightarrow> sh_state s = S_writing \<and> \<not> mid_empty"

definition sram_mid_wr :: "bool \<Rightarrow> sram_hw \<Rightarrow> bool" where
  "sram_mid_wr mid_full s \<longleftrightarrow> sh_state s = S_reading \<and> \<not> mid_full"

text \<open>The address presented to the block RAM in this clock; its word arrives in the next one.\<close>

definition sram_read_addr :: "int \<Rightarrow> bool \<Rightarrow> sram_hw \<Rightarrow> int" where
  "sram_read_addr dm_dout mid_full s =
     (if sh_state s = S_dm_get \<and> sel 40 40 dm_dout \<noteq> 1 then sel 31 2 dm_dout
      else if sram_mid_wr mid_full s then sh_addr s else 0)"

definition sram_last :: "sram_hw \<Rightarrow> bool" where
  "sram_last s \<longleftrightarrow> sh_beat s = last_beat (sh_len s) \<or> sh_len s = 0"

definition sram_next :: "int \<Rightarrow> bool \<Rightarrow> bool \<Rightarrow> bool \<Rightarrow> bool \<Rightarrow> sram_hw \<Rightarrow> sram_hw" where
  "sram_next dm_dout dm_empty mid_full mid_empty axi_done s = (case sh_state s of
     S_idle \<Rightarrow> (if dm_empty then s else s\<lparr>sh_state := S_dm_get\<rparr>)
   | S_dm_get \<Rightarrow> s\<lparr>sh_addr := (if sel 40 40 dm_dout = 1 then sel 31 2 dm_dout else inc32 (sel 31 2 dm_dout)),
       sh_len := sel 39 32 dm_dout, sh_write := (sel 40 40 dm_dout = 1), sh_beat := 0,
       sh_state := (if sel 40 40 dm_dout = 1 then S_writing else S_reading)\<rparr>
   | S_writing \<Rightarrow> (if mid_empty then s else s\<lparr>sh_addr := inc32 (sh_addr s), sh_beat := inc8 (sh_beat s),
       sh_state := (if sram_last s then S_wait_axi else S_writing)\<rparr>)
   | S_reading \<Rightarrow> (if mid_full then s else s\<lparr>sh_addr := inc32 (sh_addr s), sh_beat := inc8 (sh_beat s),
       sh_state := (if sram_last s then S_wait_axi else S_reading)\<rparr>)
   | S_wait_axi \<Rightarrow> (if axi_done then s\<lparr>sh_state := S_idle\<rparr> else s))"

record bram_hw =
  br_mem :: "int list"
  br_dout :: int

text \<open>Addresses are as wide as the depth needs: a power of two.\<close>

definition bram_index :: "bram_hw \<Rightarrow> int \<Rightarrow> nat" where
  "bram_index b a = nat (a mod int (length (br_mem b)))"

definition bram_clock :: "int \<Rightarrow> int \<Rightarrow> bool \<Rightarrow> int \<Rightarrow> bram_hw \<Rightarrow> bram_hw" where
  "bram_clock rd_addr wr_addr wr_en din b =
     \<lparr>br_mem = (if wr_en then (br_mem b)[bram_index b wr_addr := din] else br_mem b),
      br_dout = br_mem b ! bram_index b rd_addr\<rparr>"

section \<open>sys_mem.sv\<close>

datatype read_state = R_IDLE | R_ISSUE
datatype write_state = W_IDLE | W_DATA | W_RESP

record mem_hw =
  mm_ram :: "int list"
  mm_r_state :: read_state
  mm_r_addr :: int
  mm_r_last :: int
  mm_r_beat :: int
  mm_w_state :: write_state
  mm_w_addr :: int
  mm_w_last :: int
  mm_w_beat :: int
  mm_bvalid :: bool

definition mem_reset :: "int list \<Rightarrow> mem_hw" where
  "mem_reset ram = \<lparr>mm_ram = ram, mm_r_state = R_IDLE, mm_r_addr = 0, mm_r_last = 0, mm_r_beat = 0,
     mm_w_state = W_IDLE, mm_w_addr = 0, mm_w_last = 0, mm_w_beat = 0, mm_bvalid = False\<rparr>"

definition mem_replies :: "mem_hw \<Rightarrow> axi_reply" where
  "mem_replies m =
     (let word = drop_bit 2 (mm_r_addr m) + mm_r_beat m; issue = (mm_r_state m = R_ISSUE)
      in \<lparr>arready = (mm_r_state m = R_IDLE), rvalid = issue,
          rdata = (if issue \<and> word < int (length (mm_ram m)) then mm_ram m ! nat word else 0),
          rlast = (issue \<and> mm_r_beat m = mm_r_last m),
          awready = (mm_w_state m = W_IDLE), wready = (mm_w_state m = W_DATA), bvalid = mm_bvalid m\<rparr>)"

definition mem_read_next :: "axi_request \<Rightarrow> mem_hw \<Rightarrow> mem_hw" where
  "mem_read_next q m = (case mm_r_state m of
     R_IDLE \<Rightarrow> (if arvalid q then m\<lparr>mm_r_addr := araddr q, mm_r_last := arlen q, mm_r_beat := 0, mm_r_state := R_ISSUE\<rparr> else m)
   | R_ISSUE \<Rightarrow> (if rready q then (if mm_r_beat m = mm_r_last m then m\<lparr>mm_r_state := R_IDLE\<rparr>
       else m\<lparr>mm_r_beat := inc8 (mm_r_beat m)\<rparr>) else m))"

text \<open>The write side, and the port of the memory-access shim, whose write wins.\<close>

definition mem_write_next :: "axi_request \<Rightarrow> mem_hw \<Rightarrow> mem_hw" where
  "mem_write_next q m = (case mm_w_state m of
     W_IDLE \<Rightarrow> (let m' = m\<lparr>mm_bvalid := False\<rparr> in
       if awvalid q then m'\<lparr>mm_w_addr := awaddr q, mm_w_last := awlen q, mm_w_beat := 0, mm_w_state := W_DATA\<rparr> else m')
   | W_DATA \<Rightarrow> (let m' = m\<lparr>mm_bvalid := False\<rparr>; word = drop_bit 2 (mm_w_addr m) + mm_w_beat m in
       if wvalid q
       then (let m'' = (if word < int (length (mm_ram m)) then m'\<lparr>mm_ram := (mm_ram m)[nat word := wdata q]\<rparr> else m')
             in if wlast q then m''\<lparr>mm_w_state := W_RESP\<rparr> else m''\<lparr>mm_w_beat := inc8 (mm_w_beat m)\<rparr>)
       else m')
   | W_RESP \<Rightarrow> (let m' = m\<lparr>mm_bvalid := True\<rparr> in if bready q then m'\<lparr>mm_w_state := W_IDLE\<rparr> else m'))"

definition mem_init_write :: "bool \<Rightarrow> int \<Rightarrow> int \<Rightarrow> mem_hw \<Rightarrow> mem_hw" where
  "mem_init_write wr_en addr x m =
     (if wr_en then m\<lparr>mm_ram := (mm_ram m)[nat (addr div 4 mod int (length (mm_ram m))) := x]\<rparr> else m)"

definition mem_clock :: "axi_request \<Rightarrow> bool \<Rightarrow> int \<Rightarrow> int \<Rightarrow> mem_hw \<Rightarrow> mem_hw" where
  "mem_clock q init_wr_en init_addr init_wdata m =
     mem_init_write init_wr_en init_addr init_wdata (mem_write_next q (mem_read_next q m))"

end
