(* ===== verification/Rtl_Movement.thy ===== *)
theory Rtl_Movement
  imports Rtl_Fifo Rtl_Modules
begin

text \<open>
  \<open>rtl/movement_top.sv\<close>: the modules of the datapath and the six FIFOs between them, and the memory on
  the other side of its AXI port. The FIFO is a parameter (\<open>fifo_ops\<close>): the theory defines the hardware
  with the FIFO of \<open>fifo.sv\<close>, and the same wiring over plain queues with a late empty flag, and shows
  that no module ever sees the difference.
\<close>

section \<open>Queues in place of FIFOs\<close>

record 'q fifo_ops =
  f_clock :: "bool \<Rightarrow> int \<Rightarrow> bool \<Rightarrow> 'q \<Rightarrow> 'q"
  f_full :: "'q \<Rightarrow> bool"
  f_empty :: "'q \<Rightarrow> bool"
  f_dout :: "'q \<Rightarrow> int"

definition rtl_ops :: "int rtl_fifo fifo_ops" where
  "rtl_ops = \<lparr>f_clock = rf_clock False, f_full = rf_full, f_empty = rf_empty, f_dout = rf_dout\<rparr>"

record late_queue =
  lq_depth :: nat
  lq_items :: "int list"
  lq_empty :: bool

definition lq_full :: "late_queue \<Rightarrow> bool" where
  "lq_full q \<longleftrightarrow> length (lq_items q) = lq_depth q"

definition lq_clock :: "bool \<Rightarrow> int \<Rightarrow> bool \<Rightarrow> late_queue \<Rightarrow> late_queue" where
  "lq_clock wr_en din rd_en q =
     (let xs = popped rd_en (lq_items q)
      in q\<lparr>lq_items := xs @ (if wr_en \<and> \<not> lq_full q then [din] else []), lq_empty := (xs = [])\<rparr>)"

definition lq_ops :: "late_queue fifo_ops" where
  "lq_ops = \<lparr>f_clock = lq_clock, f_full = lq_full, f_empty = lq_empty, f_dout = (\<lambda>q. hd (lq_items q))\<rparr>"

definition lq_ok :: "late_queue \<Rightarrow> bool" where
  "lq_ok q \<longleftrightarrow> length (lq_items q) \<le> lq_depth q \<and> (\<not> lq_empty q \<longrightarrow> lq_items q \<noteq> [])"

interpretation lateq: clocked_fifo lq_clock lq_items lq_full lq_empty "\<lambda>q. hd (lq_items q)" lq_depth lq_ok
  by unfold_locales
    (auto simp: lq_clock_def lq_ok_def lq_full_def popped_def Let_def)

section \<open>movement_top.sv\<close>

record 'q movement_hw =
  mv_fetch :: fetch_hw
  mv_mover :: mover_hw
  mv_master :: master_hw
  mv_sram :: sram_hw
  mv_bram :: bram_hw
  mv_df_in :: 'q
  mv_df_out :: 'q
  mv_desc :: 'q
  mv_dm_axi :: 'q
  mv_dm_sram :: 'q
  mv_mid :: 'q
  mv_done_d :: bool
  mv_done :: bool

text \<open>What comes from the ring manager and from the memory-access shim.\<close>

record movement_in =
  in_addr :: int
  in_valid :: bool
  in_init_done :: bool
  in_bram_addr :: int
  in_bram_wr_en :: bool
  in_bram_din :: int

definition movement_drives :: "'q fifo_ops \<Rightarrow> 'q movement_hw \<Rightarrow> axi_request" where
  "movement_drives ops s = master_drives (f_full ops (mv_mid s)) (f_empty ops (mv_mid s)) (f_dout ops (mv_mid s)) (mv_master s)"

text \<open>\<open>fetch_req_ready\<close> and \<open>df_error\<close>, to the ring manager.\<close>

definition movement_ready :: "'q fifo_ops \<Rightarrow> 'q movement_hw \<Rightarrow> bool" where
  "movement_ready ops s \<longleftrightarrow> \<not> f_full ops (mv_df_in s)"

definition movement_error :: "'q fifo_ops \<Rightarrow> 'q movement_hw \<Rightarrow> bool" where
  "movement_error ops s \<longleftrightarrow>
     fetch_error (f_empty ops (mv_df_out s)) (f_dout ops (mv_df_out s)) (f_full ops (mv_desc s))"

definition movement_clock :: "'q fifo_ops \<Rightarrow> movement_in \<Rightarrow> axi_reply \<Rightarrow> 'q movement_hw \<Rightarrow> 'q movement_hw" where
  "movement_clock ops i r s =
     (let full = f_full ops; empty = f_empty ops; dout = f_dout ops; clock = f_clock ops;
          fh = mv_fetch s; mh = mv_mover s; ah = mv_master s; sh = mv_sram s;
          mid_full = full (mv_mid s); mid_empty = empty (mv_mid s); mid_dout = dout (mv_mid s);
          axi_dm = narrow_instr (dout (mv_dm_axi s)); sram_dm = narrow_instr (dout (mv_dm_sram s));
          send = mover_sends (full (mv_dm_axi s)) (full (mv_dm_sram s)) mh;
          axi_wr = master_mid_wr mid_full r ah; sram_wr = sram_mid_wr mid_full sh;
          mid_rd = (master_mid_rd mid_empty r ah \<or> sram_mid_rd mid_empty sh);
          bram_wr = sram_mid_rd mid_empty sh;
          handshake = (sram_done sh \<and> master_done ah)
      in \<lparr>mv_fetch = fetch_next (full (mv_df_in s)) (empty (mv_df_out s)) (dout (mv_df_out s)) (full (mv_desc s))
            (in_addr i) (in_valid i) fh,
          mv_mover = mover_next (empty (mv_desc s)) (dout (mv_desc s)) (full (mv_dm_axi s)) (full (mv_dm_sram s)) mh,
          mv_master = master_next (empty (mv_df_in s)) (dout (mv_df_in s)) (full (mv_df_out s))
            (empty (mv_dm_axi s)) axi_dm mid_full mid_empty (sram_done sh) r ah,
          mv_sram = sram_next sram_dm (empty (mv_dm_sram s)) mid_full mid_empty (master_done ah) sh,
          mv_bram = (if in_init_done i
            then bram_clock (sram_read_addr sram_dm mid_full sh) (sh_addr sh) bram_wr mid_dout (mv_bram s)
            else bram_clock (in_bram_addr i) (in_bram_addr i) (in_bram_wr_en i) (in_bram_din i) (mv_bram s)),
          mv_df_in = clock (fh_df_wr_en fh) (fh_df_din fh) (master_df_in_rd ah) (mv_df_in s),
          mv_df_out = clock (master_df_out_wr (full (mv_df_out s)) ah) (ah_desc ah)
            (fetch_takes (empty (mv_df_out s)) (full (mv_desc s))) (mv_df_out s),
          mv_desc = clock (fh_dm_wr_en fh) (fh_dm_din fh) (mover_reads (empty (mv_desc s)) mh) (mv_desc s),
          mv_dm_axi = clock send (mh_axi mh) (master_dm_rd ah) (mv_dm_axi s),
          mv_dm_sram = clock send (mh_sram mh) (sram_dm_rd sh) (mv_dm_sram s),
          mv_mid = clock (axi_wr \<or> sram_wr) (if axi_wr then rdata r else br_dout (mv_bram s)) mid_rd (mv_mid s),
          mv_done_d = handshake,
          mv_done = (handshake \<and> \<not> mv_done_d s)\<rparr>)"

section \<open>With the memory on the bus\<close>

record 'q engine_hw =
  en_move :: "'q movement_hw"
  en_mem :: mem_hw

definition engine_clock :: "'q fifo_ops \<Rightarrow> movement_in \<Rightarrow> 'q engine_hw \<Rightarrow> 'q engine_hw" where
  "engine_clock ops i e =
     \<lparr>en_move = movement_clock ops i (mem_replies (en_mem e)) (en_move e),
      en_mem = mem_clock (movement_drives ops (en_move e)) False 0 0 (en_mem e)\<rparr>"

fun engine_run :: "'q fifo_ops \<Rightarrow> movement_in list \<Rightarrow> 'q engine_hw \<Rightarrow> 'q engine_hw" where
  "engine_run ops [] e = e"
| "engine_run ops (i # is) e = engine_run ops is (engine_clock ops i e)"

text \<open>Out of reset, with the contents of the two memories and the FIFO depths of \<open>dma_pkg.sv\<close>.\<close>

definition DF_IN_FIFO_Q :: nat where "DF_IN_FIFO_Q = 64"
definition DF_OUT_FIFO_Q :: nat where "DF_OUT_FIFO_Q = 64"
definition DM_FIFO_Q :: nat where "DM_FIFO_Q = 16"
definition MID_FIFO_Q :: nat where "MID_FIFO_Q = 64"

definition engine_start :: "(nat \<Rightarrow> 'q) \<Rightarrow> int list \<Rightarrow> int list \<Rightarrow> 'q engine_hw" where
  "engine_start fifo sys ram = \<lparr>en_move = \<lparr>mv_fetch = fetch_reset, mv_mover = mover_reset, mv_master = master_reset,
       mv_sram = sram_reset, mv_bram = \<lparr>br_mem = ram, br_dout = 0\<rparr>,
       mv_df_in = fifo DF_IN_FIFO_Q, mv_df_out = fifo DF_OUT_FIFO_Q, mv_desc = fifo DM_FIFO_Q,
       mv_dm_axi = fifo DM_FIFO_Q, mv_dm_sram = fifo DM_FIFO_Q, mv_mid = fifo MID_FIFO_Q,
       mv_done_d = False, mv_done = False\<rparr>, en_mem = mem_reset sys\<rparr>"

definition rtl_fifo_reset :: "nat \<Rightarrow> int rtl_fifo" where
  "rtl_fifo_reset n = rf_clock True False 0 False
     \<lparr>rf_buf = replicate n 0, rf_wr_addr = 0, rf_rd_addr = 0, rf_dout = 0, rf_empty = True\<rparr>"

definition late_queue_reset :: "nat \<Rightarrow> late_queue" where
  "late_queue_reset n = \<lparr>lq_depth = n, lq_items = [], lq_empty = True\<rparr>"

section \<open>The FIFOs as queues\<close>

definition same_queue :: "int rtl_fifo \<Rightarrow> late_queue \<Rightarrow> bool" where
  "same_queue f q \<longleftrightarrow> rf_ok f \<and> rf_items f = lq_items q \<and> rf_empty f = lq_empty q \<and> length (rf_buf f) = lq_depth q"

lemma same_queue_flags:
  assumes "same_queue f q"
  shows "rf_full f = lq_full q" and "rf_empty f = lq_empty q" and "\<not> lq_empty q \<Longrightarrow> rf_dout f = hd (lq_items q)"
  using assms hwq.full_iff [of f] hwq.dout_head [of f] by (auto simp: same_queue_def lq_full_def)

lemma same_queue_clock:
  assumes "same_queue f q" and "w = w'" and "w \<Longrightarrow> x = x'" and "r = r'"
  shows "same_queue (rf_clock False w x r f) (lq_clock w' x' r' q)"
  using assms same_queue_flags(1) [OF assms(1)]
  by (auto simp: same_queue_def lq_clock_def rf_clock_ok rf_clock_items rf_clock_empty rf_clock_parts Let_def)

lemma same_queue_reset: "same_queue (rtl_fifo_reset (2 ^ k)) (late_queue_reset (2 ^ k))"
  using rf_reset [of "\<lparr>rf_buf = replicate (2 ^ k) (0 :: int), rf_wr_addr = 0, rf_rd_addr = 0, rf_dout = 0, rf_empty = True\<rparr>" k]
  by (simp add: same_queue_def rtl_fifo_reset_def late_queue_reset_def rf_clock_parts)

text \<open>A master or a controller that is about to take a word has seen that there is one.\<close>

definition takers_ok :: "late_queue movement_hw \<Rightarrow> bool" where
  "takers_ok s \<longleftrightarrow> lq_ok (mv_df_in s) \<and> lq_ok (mv_dm_axi s) \<and> lq_ok (mv_dm_sram s) \<and>
     (ah_state (mv_master s) = Df_get \<longrightarrow> \<not> lq_empty (mv_df_in s)) \<and>
     (ah_state (mv_master s) = Dm_get \<longrightarrow> \<not> lq_empty (mv_dm_axi s)) \<and>
     (sh_state (mv_sram s) = S_dm_get \<longrightarrow> \<not> lq_empty (mv_dm_sram s))"

definition same_move :: "int rtl_fifo movement_hw \<Rightarrow> late_queue movement_hw \<Rightarrow> bool" where
  "same_move s t \<longleftrightarrow> mv_fetch s = mv_fetch t \<and> mv_mover s = mv_mover t \<and> mv_master s = mv_master t \<and>
     mv_sram s = mv_sram t \<and> mv_bram s = mv_bram t \<and> mv_done_d s = mv_done_d t \<and> mv_done s = mv_done t \<and>
     same_queue (mv_df_in s) (mv_df_in t) \<and> same_queue (mv_df_out s) (mv_df_out t) \<and>
     same_queue (mv_desc s) (mv_desc t) \<and> same_queue (mv_dm_axi s) (mv_dm_axi t) \<and>
     same_queue (mv_dm_sram s) (mv_dm_sram t) \<and> same_queue (mv_mid s) (mv_mid t)"

definition same_engine :: "int rtl_fifo engine_hw \<Rightarrow> late_queue engine_hw \<Rightarrow> bool" where
  "same_engine d e \<longleftrightarrow> same_move (en_move d) (en_move e) \<and> en_mem d = en_mem e \<and> takers_ok (en_move e)"

text \<open>Outputs of an empty FIFO do not matter to any of the modules.\<close>

lemma mem_clock_wdata:
  assumes "\<not> wvalid q"
  shows "mem_clock (q\<lparr>wdata := x\<rparr>) w b c m = mem_clock q w b c m"
proof -
  have "mem_read_next (q\<lparr>wdata := x\<rparr>) m = mem_read_next q m"
    by (cases "mm_r_state m") (simp_all add: mem_read_next_def)
  moreover have "mem_write_next (q\<lparr>wdata := x\<rparr>) n = mem_write_next q n" for n
    using assms by (cases "mm_w_state n") (simp_all add: mem_write_next_def Let_def)
  ultimately show ?thesis by (simp add: mem_clock_def)
qed

lemma master_drives_same:
  assumes "\<not> mid_empty \<Longrightarrow> x = y"
  shows "mem_clock (master_drives mid_full mid_empty x a) w b c m
     = mem_clock (master_drives mid_full mid_empty y a) w b c m"
proof (cases mid_empty)
  case True
  have "master_drives mid_full mid_empty x a = (master_drives mid_full mid_empty y a)\<lparr>wdata := x\<rparr>"
    by (simp add: master_drives_def Let_def)
  moreover have "\<not> wvalid (master_drives mid_full mid_empty y a)" using True by (simp add: master_drives_def Let_def)
  ultimately show ?thesis using mem_clock_wdata by metis
qed (simp add: assms)

lemma master_next_same:
  "(ah_state a = Df_get \<Longrightarrow> x = x') \<Longrightarrow> (ah_state a = Dm_get \<Longrightarrow> y = y') \<Longrightarrow>
   master_next e x f g y mf me d r a = master_next e x' f g y' mf me d r a"
  by (cases "ah_state a") (simp_all add: master_next_def)

lemma sram_next_same:
  "(sh_state s = S_dm_get \<Longrightarrow> x = x') \<Longrightarrow> sram_next x e mf me d s = sram_next x' e mf me d s"
  by (cases "sh_state s") (simp_all add: sram_next_def)

lemma sram_read_addr_same:
  "(sh_state s = S_dm_get \<Longrightarrow> x = x') \<Longrightarrow> sram_read_addr x mf s = sram_read_addr x' mf s"
  by (auto simp: sram_read_addr_def sram_mid_wr_def)

lemma mover_next_same: "(\<not> e \<Longrightarrow> x = x') \<Longrightarrow> mover_next e x f g m = mover_next e x' f g m"
  by (cases "mh_state m") (simp_all add: mover_next_def)

lemma fetch_same:
  "(\<not> e \<Longrightarrow> x = x') \<Longrightarrow> fetch_next a e x f b v s = fetch_next a e x' f b v s"
  "(\<not> e \<Longrightarrow> x = x') \<Longrightarrow> fetch_error e x f = fetch_error e x' f"
  by (auto simp: fetch_next_def fetch_error_def fetch_takes_def Let_def)

lemma bram_clock_same: "ra = ra' \<Longrightarrow> (w \<Longrightarrow> x = x') \<Longrightarrow> bram_clock ra wa w x b = bram_clock ra' wa w x' b"
  by (simp add: bram_clock_def)

lemma same_moveD:
  assumes "same_move s t" and "takers_ok t"
  shows "mv_fetch s = mv_fetch t" "mv_mover s = mv_mover t" "mv_master s = mv_master t"
    "mv_sram s = mv_sram t" "mv_bram s = mv_bram t" "mv_done_d s = mv_done_d t" "mv_done s = mv_done t"
    "rf_full (mv_df_in s) = lq_full (mv_df_in t)" "rf_empty (mv_df_in s) = lq_empty (mv_df_in t)"
    "rf_full (mv_df_out s) = lq_full (mv_df_out t)" "rf_empty (mv_df_out s) = lq_empty (mv_df_out t)"
    "rf_full (mv_desc s) = lq_full (mv_desc t)" "rf_empty (mv_desc s) = lq_empty (mv_desc t)"
    "rf_full (mv_dm_axi s) = lq_full (mv_dm_axi t)" "rf_empty (mv_dm_axi s) = lq_empty (mv_dm_axi t)"
    "rf_full (mv_dm_sram s) = lq_full (mv_dm_sram t)" "rf_empty (mv_dm_sram s) = lq_empty (mv_dm_sram t)"
    "rf_full (mv_mid s) = lq_full (mv_mid t)" "rf_empty (mv_mid s) = lq_empty (mv_mid t)"
  using assms by (simp_all add: same_move_def same_queue_flags)

lemma same_douts:
  assumes "same_move s t" and "takers_ok t"
  shows "ah_state (mv_master t) = Df_get \<Longrightarrow> rf_dout (mv_df_in s) = hd (lq_items (mv_df_in t))"
    and "ah_state (mv_master t) = Dm_get \<Longrightarrow> rf_dout (mv_dm_axi s) = hd (lq_items (mv_dm_axi t))"
    and "sh_state (mv_sram t) = S_dm_get \<Longrightarrow> rf_dout (mv_dm_sram s) = hd (lq_items (mv_dm_sram t))"
    and "\<not> lq_empty (mv_df_out t) \<Longrightarrow> rf_dout (mv_df_out s) = hd (lq_items (mv_df_out t))"
    and "\<not> lq_empty (mv_desc t) \<Longrightarrow> rf_dout (mv_desc s) = hd (lq_items (mv_desc t))"
    and "\<not> lq_empty (mv_mid t) \<Longrightarrow> rf_dout (mv_mid s) = hd (lq_items (mv_mid t))"
  using assms by (simp_all add: same_move_def takers_ok_def same_queue_flags)

lemma same_move_clock:
  assumes "same_move s t" and "takers_ok t"
  shows "same_move (movement_clock rtl_ops i r s) (movement_clock lq_ops i r t)"
proof -
  note d = same_moveD [OF assms] and o = same_douts [OF assms]
  have q: "same_queue (mv_df_in s) (mv_df_in t)" "same_queue (mv_df_out s) (mv_df_out t)"
    "same_queue (mv_desc s) (mv_desc t)" "same_queue (mv_dm_axi s) (mv_dm_axi t)"
    "same_queue (mv_dm_sram s) (mv_dm_sram t)" "same_queue (mv_mid s) (mv_mid t)"
    using assms(1) by (simp_all add: same_move_def)
  have r: "f_clock rtl_ops = rf_clock False" "f_full rtl_ops = rf_full" "f_empty rtl_ops = rf_empty" "f_dout rtl_ops = rf_dout"
    by (simp_all add: rtl_ops_def)
  have l: "f_clock lq_ops = lq_clock" "f_full lq_ops = lq_full" "f_empty lq_ops = lq_empty" "f_dout lq_ops = (\<lambda>q. hd (lq_items q))"
    by (simp_all add: lq_ops_def)
  show ?thesis
    unfolding same_move_def movement_clock_def Let_def movement_hw.select_convs r l d
    by (intro conjI refl same_queue_clock q master_next_same sram_next_same mover_next_same fetch_same if_cong
        bram_clock_same sram_read_addr_same) (simp_all add: o sram_mid_rd_def)
qed

lemma lq_empty_unread:
  "lq_ok q \<Longrightarrow> lq_empty (lq_clock w x r q) \<longleftrightarrow> popped r (lq_items q) = []"
  by (rule lateq.empty_clock)

lemma takers_clock:
  assumes "takers_ok t"
  shows "takers_ok (movement_clock lq_ops i r t)"
proof -
  have l: "f_clock lq_ops = lq_clock" "f_full lq_ops = lq_full" "f_empty lq_ops = lq_empty" "f_dout lq_ops = (\<lambda>q. hd (lq_items q))"
    by (simp_all add: lq_ops_def)
  have ok: "lq_ok (mv_df_in t)" "lq_ok (mv_dm_axi t)" "lq_ok (mv_dm_sram t)"
    using assms by (simp_all add: takers_ok_def)
  have stays: "lq_ok q \<Longrightarrow> \<not> lq_empty q \<Longrightarrow> \<not> lq_empty (lq_clock w x False q)" for q w x
    by (auto simp: lq_empty_unread popped_def lq_ok_def)
  let ?m = "movement_clock lq_ops i r t"
  have df: "ah_state (mv_master ?m) = Df_get \<longrightarrow> \<not> lq_empty (mv_df_in t) \<and> ah_state (mv_master t) = Idle"
    unfolding movement_clock_def Let_def movement_hw.select_convs l
    by (cases "ah_state (mv_master t)") (auto simp: master_next_def)
  have dm: "ah_state (mv_master ?m) = Dm_get \<longrightarrow> \<not> lq_empty (mv_dm_axi t) \<and> ah_state (mv_master t) = Idle"
    unfolding movement_clock_def Let_def movement_hw.select_convs l
    by (cases "ah_state (mv_master t)") (auto simp: master_next_def)
  have sr: "sh_state (mv_sram ?m) = S_dm_get \<longrightarrow> \<not> lq_empty (mv_dm_sram t) \<and> sh_state (mv_sram t) = S_idle"
    unfolding movement_clock_def Let_def movement_hw.select_convs l
    by (cases "sh_state (mv_sram t)") (auto simp: sram_next_def)
  have fifos: "mv_df_in ?m = lq_clock (fh_df_wr_en (mv_fetch t)) (fh_df_din (mv_fetch t)) (master_df_in_rd (mv_master t)) (mv_df_in t)"
    "\<exists>w x. mv_dm_axi ?m = lq_clock w x (master_dm_rd (mv_master t)) (mv_dm_axi t)"
    "\<exists>w x. mv_dm_sram ?m = lq_clock w x (sram_dm_rd (mv_sram t)) (mv_dm_sram t)"
    unfolding movement_clock_def Let_def movement_hw.select_convs l by blast+
  then obtain w x v y where f2: "mv_dm_axi ?m = lq_clock w x (master_dm_rd (mv_master t)) (mv_dm_axi t)"
    "mv_dm_sram ?m = lq_clock v y (sram_dm_rd (mv_sram t)) (mv_dm_sram t)" by blast
  show ?thesis
    unfolding takers_ok_def fifos(1) f2
    using df dm sr ok by (auto simp: lateq.ok_clock stays master_df_in_rd_def master_dm_rd_def sram_dm_rd_def)
qed

lemma same_engine_clock:
  assumes "same_engine d e"
  shows "same_engine (engine_clock rtl_ops i d) (engine_clock lq_ops i e)"
proof -
  have m: "same_move (en_move d) (en_move e)" "takers_ok (en_move e)" "en_mem d = en_mem e"
    using assms by (simp_all add: same_engine_def)
  have "movement_drives rtl_ops (en_move d) = master_drives (lq_full (mv_mid (en_move e))) (lq_empty (mv_mid (en_move e)))
      (rf_dout (mv_mid (en_move d))) (mv_master (en_move e))"
    by (simp add: movement_drives_def rtl_ops_def same_moveD [OF m(1,2)])
  moreover have "movement_drives lq_ops (en_move e) = master_drives (lq_full (mv_mid (en_move e))) (lq_empty (mv_mid (en_move e)))
      (hd (lq_items (mv_mid (en_move e)))) (mv_master (en_move e))"
    by (simp add: movement_drives_def lq_ops_def)
  ultimately have "mem_clock (movement_drives rtl_ops (en_move d)) False 0 0 (en_mem d)
      = mem_clock (movement_drives lq_ops (en_move e)) False 0 0 (en_mem e)"
    using master_drives_same [OF same_douts(6) [OF m(1,2)]] m(3) by simp
  then show ?thesis
    using same_move_clock [OF m(1,2)] takers_clock [OF m(2)] m(3) by (simp add: same_engine_def engine_clock_def)
qed

lemma same_engine_run: "same_engine d e \<Longrightarrow> same_engine (engine_run rtl_ops is d) (engine_run lq_ops is e)"
  by (induction "is" arbitrary: d e) (simp_all add: same_engine_clock)

lemma same_engine_start: "same_engine (engine_start rtl_fifo_reset sys ram) (engine_start late_queue_reset sys ram)"
proof -
  have "same_queue (rtl_fifo_reset n) (late_queue_reset n)" if "n \<in> {64, 16}" for n
    using same_queue_reset [of 6] same_queue_reset [of 4] that by auto
  then show ?thesis
    by (simp add: same_engine_def same_move_def engine_start_def takers_ok_def lq_ok_def late_queue_reset_def
        master_reset_def sram_reset_def DF_IN_FIFO_Q_def DF_OUT_FIFO_Q_def DM_FIFO_Q_def MID_FIFO_Q_def)
qed

section \<open>Properties\<close>

text \<open>
  C15. No module reads a FIFO whose empty flag is still high: out of reset, whatever is requested and
  whatever the memories hold, in every clock the AXI master, the SRAM controller, the descriptor fetcher
  and the data mover raise the read strobe of a FIFO only while its registered flag is low, also where
  the strobe follows one clock after the flag was looked at. This is what \<open>fifo.sv\<close> needs to lose nothing.
\<close>

theorem rtl_readers_wait:
  "let e = engine_run rtl_ops is (engine_start rtl_fifo_reset sys ram); s = en_move e
   in \<not> (master_df_in_rd (mv_master s) \<and> rf_empty (mv_df_in s)) \<and>
      \<not> (fetch_takes (rf_empty (mv_df_out s)) (rf_full (mv_desc s)) \<and> rf_empty (mv_df_out s)) \<and>
      \<not> (mover_reads (rf_empty (mv_desc s)) (mv_mover s) \<and> rf_empty (mv_desc s)) \<and>
      \<not> (master_dm_rd (mv_master s) \<and> rf_empty (mv_dm_axi s)) \<and>
      \<not> (sram_dm_rd (mv_sram s) \<and> rf_empty (mv_dm_sram s)) \<and>
      \<not> (master_mid_rd (rf_empty (mv_mid s)) (mem_replies (en_mem e)) (mv_master s) \<and> rf_empty (mv_mid s)) \<and>
      \<not> (sram_mid_rd (rf_empty (mv_mid s)) (mv_sram s) \<and> rf_empty (mv_mid s))"
proof -
  let ?d = "engine_run rtl_ops is (engine_start rtl_fifo_reset sys ram)"
    and ?e = "engine_run lq_ops is (engine_start late_queue_reset sys ram)"
  have "same_engine ?d ?e" by (rule same_engine_run [OF same_engine_start])
  then have m: "same_move (en_move ?d) (en_move ?e)" and t: "takers_ok (en_move ?e)" by (simp_all add: same_engine_def)
  show ?thesis
    unfolding Let_def same_moveD [OF m t]
    using t by (auto simp: takers_ok_def master_df_in_rd_def fetch_takes_def mover_reads_def master_dm_rd_def sram_dm_rd_def
        master_mid_rd_def sram_mid_rd_def)
qed

end
