(* ===== verification/Rtl_Words.thy ===== *)
theory Rtl_Words
  imports Rtl_Movement Movement
begin

text \<open>
  The words that travel through the datapath, field by field: the descriptor the AXI master collects from
  four beats is the packed descriptor of the golden model, and the instructions of \<open>data_mover.sv\<close>,
  narrowed as \<open>movement_top.sv\<close> does it, are those of \<open>desc_to_instr_pair\<close>.
\<close>

section \<open>Fields of the words on the wires\<close>

lemma sel_div: "sel hi lo x = x div 2 ^ lo mod 2 ^ (hi + 1 - lo)"
  by (simp add: sel_def take_bit_eq_mod drop_bit_eq_div)

lemma sel_steps:
  "sel 31 0 x = x mod 4294967296"
  "sel 39 32 x = x div 4294967296 mod 256"
  "sel 40 40 x = x div 4294967296 div 256 mod 2"
  "sel 63 32 x = x div 4294967296 mod 4294967296"
  "sel 95 64 x = x div 4294967296 div 4294967296 mod 4294967296"
  "sel 71 64 x = x div 4294967296 div 4294967296 mod 256"
  "sel 64 64 x = x div 4294967296 div 4294967296 mod 2"
  "sel 96 96 x = x div 4294967296 div 4294967296 div 4294967296 mod 2"
  by (simp_all add: sel_div zdiv_zmult2_eq [symmetric])

lemma sel_31_2: "sel 31 2 x = sel 31 0 x div 4"
proof -
  have "drop_bit 2 (take_bit 32 x) = take_bit 30 (drop_bit 2 x)" by (simp add: drop_bit_take_bit)
  then show ?thesis by (simp add: sel_def drop_bit_eq_div)
qed

lemma sel_descriptor [simp]:
  assumes "desc_ok d"
  shows "sel 31 0 (pack d) = w0 d" and "sel 63 32 (pack d) = w1 d" and "sel 95 64 (pack d) = w2 d"
    and "sel 96 96 (pack d) = w3 d mod 2" and "sel 71 64 (pack d) = w2 d mod 256"
  using assms by (simp_all add: pack_words4 sel_steps words4_def desc_ok_def field_mod_256)

lemma sel_instruction [simp]:
  "sel 31 0 (pack_instruction a n wr) = a mod 4294967296"
  "sel 39 32 (pack_instruction a n wr) = n mod 256"
  "sel 40 40 (pack_instruction a n wr) = of_bool wr"
  "sel 31 2 (pack_instruction a n wr) = a mod 4294967296 div 4"
proof -
  let ?p = "pack_instruction a n wr"
  show len: "sel 39 32 ?p = n mod 256" by (simp add: sel_steps pack_instruction_field)
  show low: "sel 31 0 ?p = a mod 4294967296" by (simp add: sel_steps pack_instruction_field)
  show "sel 40 40 ?p = of_bool wr" by (simp add: sel_steps pack_instruction_field)
  show "sel 31 2 ?p = a mod 4294967296 div 4" unfolding sel_31_2 low by simp
qed

lemma sel_handle [simp]:
  assumes "0 \<le> v" and "v < 4294967296"
  shows "sel 31 0 (v OR push_bit 32 4) = v" and "sel 39 32 (v OR push_bit 32 4) = 4"
  using assms by (simp_all add: or_field [of v 32 4, simplified] sel_steps)

text \<open>The hardware's data mover with the narrowing of \<open>movement_top.sv\<close> is \<open>desc_to_instr_pair\<close>.\<close>

lemma narrow_golden: "narrow_instr x = narrow65_to_41 x"
  by (simp add: narrow_instr_def narrow65_to_41_def sel_steps bits drop_bit_steps GOLDEN_LEN_LSB_def GOLDEN_RW_BIT_def)

lemma wide_golden: "0 \<le> a \<Longrightarrow> a < 4294967296 \<Longrightarrow> 0 \<le> n \<Longrightarrow> n < 4294967296 \<Longrightarrow> wide_instr a n (of_bool b) = build_65 a n (of_bool b)"
  by (simp add: wide_instr_def build_65_def bits)

lemma decode_golden:
  assumes "desc_ok d"
  shows "map_prod narrow_instr narrow_instr (mover_decode (pack d)) = desc_to_instr_pair d"
proof -
  have "0 \<le> w0 d" "w0 d < 4294967296" "0 \<le> w1 d" "w1 d < 4294967296" "0 \<le> w2 d" "w2 d < 4294967296"
    using assms by (simp_all add: desc_ok_def)
  then show ?thesis
    using wide_golden [of _ _ True] wide_golden [of _ _ False]
    by (simp add: mover_decode_def assms narrow_golden narrow_build instr_pair odd_iff_mod_2_eq_one)
qed

text \<open>The four words of a descriptor, put into the buffer one after the other.\<close>

lemma desc_put_next:
  assumes "0 \<le> buf" and "buf < 2 ^ (32 * j)" and "j < 4"
  shows "desc_put (int j) x buf = buf OR push_bit (32 * j) x"
proof -
  have low: "bit buf i \<Longrightarrow> i < 32 * j" for i
  proof -
    have "take_bit (32 * j) buf = buf" using assms(1,2) by (simp add: take_bit_int_eq_self)
    then show "bit buf i \<Longrightarrow> i < 32 * j" by (metis bit_take_bit_iff)
  qed
  have "buf AND NOT (push_bit (32 * j) 0xFFFFFFFF) = buf"
    by (intro bit_eqI) (auto simp: bit_and_iff bit_not_iff bit_push_bit_iff dest: low)
  then show ?thesis using assms(3) by (simp add: desc_put_def)
qed

lemma desc_put_all:
  assumes "desc_ok d"
  shows "desc_put 3 (w3 d) (desc_put 2 (w2 d) (desc_put 1 (w1 d) (desc_put 0 (w0 d) 0))) = pack d"
proof -
  let ?m = "4294967296 :: int"
  have r: "0 \<le> w0 d" "w0 d < ?m" "0 \<le> w1 d" "w1 d < ?m" "0 \<le> w2 d" "w2 d < ?m" "0 \<le> w3 d" "w3 d < ?m"
    using assms by (simp_all add: desc_ok_def)
  have q: "words4 (w0 d) (w1 d) 0 0 = w0 d OR push_bit 32 (w1 d)"
    "words4 (w0 d) (w1 d) (w2 d) 0 = w0 d OR push_bit 32 (w1 d) OR push_bit 64 (w2 d)"
    "words4 (w0 d) (w1 d) (w2 d) (w3 d) = w0 d OR push_bit 32 (w1 d) OR push_bit 64 (w2 d) OR push_bit 96 (w3 d)"
    using or_words4 [of "w0 d" "w1 d" 0 0] or_words4 [of "w0 d" "w1 d" "w2 d" 0] or_words4 [of "w0 d" "w1 d" "w2 d" "w3 d"] r
    by simp_all
  have b: "0 \<le> words4 (w0 d) (w1 d) 0 0" "words4 (w0 d) (w1 d) 0 0 < 2 ^ (32 * 2)"
    "0 \<le> words4 (w0 d) (w1 d) (w2 d) 0" "words4 (w0 d) (w1 d) (w2 d) 0 < 2 ^ (32 * 3)"
    using r by (simp_all add: words4_def field_def)
  have p1: "desc_put 0 (w0 d) 0 = w0 d" using desc_put_next [of 0 0 "w0 d"] by simp
  have p2: "desc_put 1 (w1 d) (w0 d) = words4 (w0 d) (w1 d) 0 0" using desc_put_next [of "w0 d" 1 "w1 d"] r q(1) by simp
  have p3: "desc_put 2 (w2 d) (words4 (w0 d) (w1 d) 0 0) = words4 (w0 d) (w1 d) (w2 d) 0"
    using desc_put_next [OF b(1,2), of "w2 d"] by (simp add: q or.assoc)
  have p4: "desc_put 3 (w3 d) (words4 (w0 d) (w1 d) (w2 d) 0) = words4 (w0 d) (w1 d) (w2 d) (w3 d)"
    using desc_put_next [OF b(3,4), of "w3 d"] by (simp add: q or.assoc)
  show ?thesis unfolding p1 p2 p3 p4 pack_words4 [OF assms] by (rule refl)
qed

end
