(* ===== verification/Rtl_Transfer.thy ===== *)
theory Rtl_Transfer
  imports Rtl_Words
begin

text \<open>
  The front of the datapath, clock by clock: from an address the ring manager offers, through the
  descriptor fetcher, the AXI master and the data mover, to the two instructions at the heads of their
  FIFOs. The state is that of every register; \<open>leads\<close> says where a stretch of clocks ends and how often
  \<open>dm_done\<close> was raised.
\<close>

section \<open>One clock of the datapath\<close>

definition ask_in :: "int \<Rightarrow> bool \<Rightarrow> movement_in" where
  "ask_in a v = \<lparr>in_addr = a, in_valid = v, in_init_done = True, in_bram_addr = 0, in_bram_wr_en = False, in_bram_din = 0\<rparr>"

abbreviation queue :: "nat \<Rightarrow> int list \<Rightarrow> bool \<Rightarrow> late_queue" where
  "queue n xs e \<equiv> \<lparr>lq_depth = n, lq_items = xs, lq_empty = e\<rparr>"

definition eng :: "fetch_hw \<Rightarrow> mover_hw \<Rightarrow> master_hw \<Rightarrow> sram_hw \<Rightarrow> bram_hw \<Rightarrow>
    late_queue \<Rightarrow> late_queue \<Rightarrow> late_queue \<Rightarrow> late_queue \<Rightarrow> late_queue \<Rightarrow> late_queue \<Rightarrow>
    bool \<Rightarrow> bool \<Rightarrow> mem_hw \<Rightarrow> late_queue engine_hw" where
  "eng f m a s b di df ds qa qs mid dd dn mem = \<lparr>en_move = \<lparr>mv_fetch = f, mv_mover = m, mv_master = a, mv_sram = s, mv_bram = b,
     mv_df_in = di, mv_df_out = df, mv_desc = ds, mv_dm_axi = qa, mv_dm_sram = qs,
     mv_mid = mid, mv_done_d = dd, mv_done = dn\<rparr>, en_mem = mem\<rparr>"

lemma eng_clock:
  "engine_clock lq_ops (ask_in v req) (eng f m a s b di df ds qa qs mid dd dn mem) =
    eng (fetch_next (lq_full di) (lq_empty df) (hd (lq_items df)) (lq_full ds) v req f)
      (mover_next (lq_empty ds) (hd (lq_items ds)) (lq_full qa) (lq_full qs) m)
      (master_next (lq_empty di) (hd (lq_items di)) (lq_full df) (lq_empty qa) (narrow_instr (hd (lq_items qa)))
        (lq_full mid) (lq_empty mid) (sram_done s) (mem_replies mem) a)
      (sram_next (narrow_instr (hd (lq_items qs))) (lq_empty qs) (lq_full mid) (lq_empty mid) (master_done a) s)
      (bram_clock (sram_read_addr (narrow_instr (hd (lq_items qs))) (lq_full mid) s) (sh_addr s)
        (sram_mid_rd (lq_empty mid) s) (hd (lq_items mid)) b)
      (lq_clock (fh_df_wr_en f) (fh_df_din f) (master_df_in_rd a) di)
      (lq_clock (master_df_out_wr (lq_full df) a) (ah_desc a) (fetch_takes (lq_empty df) (lq_full ds)) df)
      (lq_clock (fh_dm_wr_en f) (fh_dm_din f) (mover_reads (lq_empty ds) m) ds)
      (lq_clock (mover_sends (lq_full qa) (lq_full qs) m) (mh_axi m) (master_dm_rd a) qa)
      (lq_clock (mover_sends (lq_full qa) (lq_full qs) m) (mh_sram m) (sram_dm_rd s) qs)
      (lq_clock (master_mid_wr (lq_full mid) (mem_replies mem) a \<or> sram_mid_wr (lq_full mid) s)
        (if master_mid_wr (lq_full mid) (mem_replies mem) a then rdata (mem_replies mem) else br_dout b)
        (master_mid_rd (lq_empty mid) (mem_replies mem) a \<or> sram_mid_rd (lq_empty mid) s) mid)
      (sram_done s \<and> master_done a) ((sram_done s \<and> master_done a) \<and> \<not> dd)
      (mem_clock (master_drives (lq_full mid) (lq_empty mid) (hd (lq_items mid)) a) False 0 0 mem)"
proof -
  have ops: "f_clock lq_ops = lq_clock" "f_full lq_ops = lq_full" "f_empty lq_ops = lq_empty" "f_dout lq_ops = (\<lambda>q. hd (lq_items q))"
    by (simp_all add: lq_ops_def)
  have i: "in_addr (ask_in v req) = v" "in_valid (ask_in v req) = req" "in_init_done (ask_in v req) = True"
    by (simp_all add: ask_in_def)
  show ?thesis
    unfolding engine_clock_def eng_def movement_clock_def movement_drives_def Let_def ops i movement_hw.select_convs
      engine_hw.select_convs if_True
    by (rule refl)
qed


lemma queue_simps [simp]:
  "lq_clock False x r (queue n xs e) = queue n (popped r xs) (popped r xs = [])"
  "lq_full (queue n xs e) \<longleftrightarrow> length xs = n"
  "popped False xs = xs" "popped r [] = []" "popped True (y # ys) = ys"
  by (simp_all add: lq_clock_def Let_def lq_full_def popped_def)

lemma queue_push [simp]: "length xs < n \<Longrightarrow> lq_clock True x r (queue n xs e) = queue n (popped r xs @ [x]) (popped r xs = [])"
  by (simp add: lq_clock_def Let_def lq_full_def)

lemmas strobes = fetch_accepts_def fetch_takes_def fetch_error_def mover_sends_def mover_reads_def master_df_in_rd_def
  master_df_out_wr_def master_dm_rd_def master_mid_wr_def master_mid_rd_def master_done_def sram_done_def sram_dm_rd_def
  sram_mid_rd_def sram_mid_wr_def sram_read_addr_def

lemmas registers = fetch_next_def mover_next_def master_next_def sram_next_def

abbreviation "quiet \<equiv> ask_in 0 False"
abbreviation "hand v \<equiv> v OR push_bit 32 4"

text \<open>The registers of the modules, in the order of their declarations.\<close>

abbreviation "fetcher w x v y st \<equiv> \<lparr>fh_dm_wr_en = w, fh_dm_din = x, fh_df_wr_en = v, fh_df_din = y, fh_state = st\<rparr>"
abbreviation "fetch_idle \<equiv> fetcher False 0 False 0"
abbreviation "mover st x ia ir \<equiv> \<lparr>mh_state = st, mh_input = x, mh_axi = ia, mh_sram = ir\<rparr>"
abbreviation "master st v n wr k d \<equiv> \<lparr>ah_state = st, ah_addr = v, ah_len = n, ah_write = wr, ah_beat = k, ah_desc = d\<rparr>"
abbreviation "ctrl st v n wr k \<equiv> \<lparr>sh_state = st, sh_addr = v, sh_len = n, sh_write = wr, sh_beat = k\<rparr>"
abbreviation "block_ram ram x \<equiv> \<lparr>br_mem = ram, br_dout = x\<rparr>"
abbreviation "memory sys rs ra rl rb ws wa wl wb v \<equiv> \<lparr>mm_ram = sys, mm_r_state = rs, mm_r_addr = ra, mm_r_last = rl, mm_r_beat = rb,
  mm_w_state = ws, mm_w_addr = wa, mm_w_last = wl, mm_w_beat = wb, mm_bvalid = v\<rparr>"
abbreviation "q64 \<equiv> queue 64 [] True"
abbreviation "q16 \<equiv> queue 16 [] True"

lemma bram_clock_parts [simp]:
  "bram_clock v w False y (block_ram ram x) = block_ram ram (ram ! nat (v mod int (length ram)))"
  "bram_clock v w True y (block_ram ram x) = block_ram (ram[nat (w mod int (length ram)) := y]) (ram ! nat (v mod int (length ram)))"
  by (simp_all add: bram_clock_def bram_index_def)

definition word_in :: "int list \<Rightarrow> int \<Rightarrow> int" where
  "word_in sys i = (if i < int (length sys) then sys ! nat i else 0)"

lemma mem_reply [simp]:
  "arready (mem_replies mem) \<longleftrightarrow> mm_r_state mem = R_IDLE"
  "rvalid (mem_replies mem) \<longleftrightarrow> mm_r_state mem = R_ISSUE"
  "mm_r_state mem = R_ISSUE \<Longrightarrow> rdata (mem_replies mem) = word_in (mm_ram mem) (drop_bit 2 (mm_r_addr mem) + mm_r_beat mem)"
  "rlast (mem_replies mem) \<longleftrightarrow> mm_r_state mem = R_ISSUE \<and> mm_r_beat mem = mm_r_last mem"
  "awready (mem_replies mem) \<longleftrightarrow> mm_w_state mem = W_IDLE"
  "wready (mem_replies mem) \<longleftrightarrow> mm_w_state mem = W_DATA"
  "bvalid (mem_replies mem) = mm_bvalid mem"
  by (simp_all add: mem_replies_def Let_def word_in_def)

lemmas mem_next = mem_clock_def mem_read_next_def mem_write_next_def mem_init_write_def
lemmas clocks = eng_clock strobes registers master_drives_def Let_def burst_len_def mem_next

lemma fetch_state_same: "(case st of Fetch_error \<Rightarrow> Fetch_error | Fetch_normal \<Rightarrow> Fetch_normal) = st"
  by (cases st) simp_all

text \<open>A stretch of clocks: where it leads, and how many of them end with the completion pulse.\<close>

fun engine_pulses :: "'q fifo_ops \<Rightarrow> movement_in list \<Rightarrow> 'q engine_hw \<Rightarrow> nat" where
  "engine_pulses ops [] e = 0"
| "engine_pulses ops (i # is) e =
     of_bool (mv_done (en_move (engine_clock ops i e))) + engine_pulses ops is (engine_clock ops i e)"

text \<open>The clocks in which the fetcher reports a bad descriptor.\<close>

fun engine_errors :: "'q fifo_ops \<Rightarrow> movement_in list \<Rightarrow> 'q engine_hw \<Rightarrow> nat" where
  "engine_errors ops [] e = 0"
| "engine_errors ops (i # is) e = of_bool (movement_error ops (en_move e)) + engine_errors ops is (engine_clock ops i e)"

definition leads :: "movement_in list \<Rightarrow> late_queue engine_hw \<Rightarrow> late_queue engine_hw \<Rightarrow> nat \<Rightarrow> bool" where
  "leads is e e' k \<longleftrightarrow> engine_run lq_ops is e = e' \<and> engine_pulses lq_ops is e = k \<and> engine_errors lq_ops is e = 0"

lemma engine_append:
  "engine_run ops (is @ js) e = engine_run ops js (engine_run ops is e)"
  "engine_pulses ops (is @ js) e = engine_pulses ops is e + engine_pulses ops js (engine_run ops is e)"
  "engine_errors ops (is @ js) e = engine_errors ops is e + engine_errors ops js (engine_run ops is e)"
  by (induction "is" arbitrary: e) simp_all

lemma leads_trans [trans]: "leads is e e' j \<Longrightarrow> leads js e' e'' k \<Longrightarrow> leads (is @ js) e e'' (j + k)"
  by (auto simp: leads_def engine_append)

lemma eng_done [simp]: "mv_done (en_move (eng f m a s b di df ds qa qs mid dd dn mem)) = dn"
  by (simp add: eng_def)

lemma fetch_error_empty [simp]: "\<not> fetch_error True x f"
  by (simp add: fetch_error_def fetch_takes_def)

lemma eng_error [simp]:
  "movement_error lq_ops (en_move (eng f m a s b di df ds qa qs mid dd dn mem)) = fetch_error (lq_empty df) (hd (lq_items df)) (lq_full ds)"
  by (simp add: movement_error_def lq_ops_def eng_def)

text \<open>The request goes through the fetcher and the first FIFO to the AXI master.\<close>

lemma front_request:
  assumes "0 \<le> v" and "v < 2 ^ 32"
  shows "leads [ask_in v True, quiet, quiet, quiet, quiet]
    (eng (fetch_idle st) (mover GET_DATA mi ma ms) (master Idle av an aw ak ad) (ctrl S_idle sv sn sw sk) (block_ram ram x)
      q64 q64 q16 q16 q16 q64 dd dn (memory sys R_IDLE ra rl rb W_IDLE wa wl wb False))
    (eng (fetch_idle Fetch_normal) (mover GET_DATA mi ma ms) (master Df_ar v 4 aw 0 0) (ctrl S_idle sv sn sw sk) (block_ram ram (ram ! 0))
      q64 q64 q16 q16 q16 q64 False False (memory sys R_IDLE ra rl rb W_IDLE wa wl wb False)) 0"
  using assms sel_handle [of v] by (cases st) (simp_all add: leads_def clocks del: push_bit_numeral)

lemma front_fetch:
  shows "leads [quiet, quiet, quiet, quiet, quiet]
    (eng (fetch_idle Fetch_normal) (mover GET_DATA mi ma ms) (master Df_ar v 4 aw 0 0) (ctrl S_idle sv sn sw sk) (block_ram ram x)
      q64 q64 q16 q16 q16 q64 False False (memory sys R_IDLE ra rl rb W_IDLE wa wl wb False))
    (eng (fetch_idle Fetch_normal) (mover GET_DATA mi ma ms) (master Df_push v 4 aw 4
      (let i = drop_bit 2 v in desc_put 3 (word_in sys (i + 3)) (desc_put 2 (word_in sys (i + 2))
         (desc_put 1 (word_in sys (i + 1)) (desc_put 0 (word_in sys i) 0))))) (ctrl S_idle sv sn sw sk) (block_ram ram (ram ! 0))
      q64 q64 q16 q16 q16 q64 False False (memory sys R_IDLE v 3 3 W_IDLE wa wl wb False)) 0"
  by (simp add: leads_def clocks inc8_def)

text \<open>
  The descriptor goes back through the fetcher to the data mover, and the two instructions to the AXI
  master and to the SRAM controller.
\<close>

lemma front_decode:
  assumes "desc_end_addr y \<le> MAX_SRAM_ADDR" and "mover_decode y = (ia, ir)"
  shows "leads [quiet, quiet, quiet, quiet, quiet, quiet, quiet, quiet, quiet]
    (eng (fetch_idle Fetch_normal) (mover GET_DATA mi ma ms) (master Df_push av an aw ak y) (ctrl S_idle sv sn sw sk) (block_ram ram x)
      q64 q64 q16 q16 q16 q64 False False (memory sys R_IDLE ra rl rb W_IDLE wa wl wb False))
    (eng (fetch_idle Fetch_normal) (mover GET_DATA y ia ir) (master Idle av an aw ak y) (ctrl S_idle sv sn sw sk) (block_ram ram (ram ! 0))
      q64 q64 q16 (queue 16 [ia] False) (queue 16 [ir] False) q64 False False (memory sys R_IDLE ra rl rb W_IDLE wa wl wb False)) 0"
  using assms by (simp add: leads_def clocks)

lemma front_to_sram:
  assumes "narrow_instr ia = pack_instruction src n False" and "narrow_instr ir = pack_instruction dst n True"
    and "0 \<le> src" "src < 2 ^ 32" "0 \<le> dst" "dst < 2 ^ 32"
  shows "leads [quiet, quiet, quiet]
    (eng (fetch_idle Fetch_normal) (mover GET_DATA mi ma ms) (master Idle av an aw ak ad) (ctrl S_idle sv sn sw sk) (block_ram ram x)
      q64 q64 q16 (queue 16 [ia] False) (queue 16 [ir] False) q64 False False (memory sys R_IDLE ra rl rb W_IDLE wa wl wb False))
    (eng (fetch_idle Fetch_normal) (mover GET_DATA mi ma ms) (master Dm_rd_r src (n mod 256) False 0 ad) (ctrl S_writing (dst div 4) (n mod 256) True 0) (block_ram ram (ram ! 0))
      q64 q64 q16 q16 q16 q64 False False (memory sys R_ISSUE src (burst_len (n mod 256)) 0 W_IDLE wa wl wb False)) 0"
  using assms by (simp add: leads_def clocks)

lemma front_to_system:
  assumes "narrow_instr ia = pack_instruction dst n True" and "narrow_instr ir = pack_instruction src n False"
    and "0 \<le> src" "src < 2 ^ 32" "0 \<le> dst" "dst < 2 ^ 32"
  shows "leads [quiet, quiet]
    (eng (fetch_idle Fetch_normal) (mover GET_DATA mi ma ms) (master Idle av an aw ak ad) (ctrl S_idle sv sn sw sk) (block_ram ram x)
      q64 q64 q16 (queue 16 [ia] False) (queue 16 [ir] False) q64 False False (memory sys R_IDLE ra rl rb W_IDLE wa wl wb False))
    (eng (fetch_idle Fetch_normal) (mover GET_DATA mi ma ms) (master Dm_wr_aw dst (n mod 256) True 0 ad) (ctrl S_reading (inc32 (src div 4)) (n mod 256) False 0)
      (block_ram ram (ram ! nat (src div 4 mod int (length ram))))
      q64 q64 q16 q16 q16 q64 False False (memory sys R_IDLE ra rl rb W_IDLE wa wl wb False)) 0"
  using assms by (simp add: leads_def clocks)

end
