(* ===== verification/Rtl_Burst.thy ===== *)
theory Rtl_Burst
  imports Rtl_Transfer
begin

text \<open>
  The burst between the AXI master and the SRAM controller, in both directions, as an induction over its
  clocks: the registers of both sides and of the memory behind the bus after \<open>j\<close> clocks are written down
  (\<open>inward\<close>, \<open>outward\<close>), and one clock leads from each to the next.
\<close>

section \<open>The burst\<close>

text \<open>
  One side puts a word into MID in every clock, the other takes one in every clock from the third on,
  so after \<open>j\<close> clocks the words \<open>j - 2\<close> and \<open>j - 1\<close> are between them.
\<close>

definition between :: "int list \<Rightarrow> nat \<Rightarrow> int list" where
  "between xs j = drop (j - 2) (take j xs)"

lemma between_start [simp]: "between xs 0 = []"
  by (simp add: between_def)

lemma between_length: "length (between xs j) \<le> 2"
  by (simp add: between_def)

text \<open>A clock in which a word is put, taken, or both.\<close>

lemma two_or_more: "2 \<le> j \<Longrightarrow> \<exists>k. j = Suc (Suc k)"
  using le_Suc_ex [of 2 j] by auto

lemma between_tl: "2 \<le> j \<Longrightarrow> popped True (between xs j) = drop (j - 1) (take j xs)"
  using two_or_more [of j] by (auto simp: between_def popped_def tl_drop drop_Suc)

lemma between_put:
  assumes "j < length xs"
  shows "popped (2 \<le> j) (between xs j) @ [xs ! j] = between xs (Suc j)"
proof (cases "2 \<le> j")
  case True
  then show ?thesis
    using assms by (simp add: between_tl) (simp add: between_def take_Suc_conv_app_nth numeral_2_eq_2)
next
  case False
  then show ?thesis using assms by (simp add: between_def popped_def take_Suc_conv_app_nth)
qed

lemma between_take:
  assumes "length xs \<le> j" and "1 \<le> length xs"
  shows "popped (2 \<le> j) (between xs j) = between xs (Suc j)"
proof (cases "2 \<le> j")
  case True
  then show ?thesis
    using assms by (simp add: between_tl) (simp add: between_def numeral_2_eq_2)
next
  case False
  then show ?thesis using assms by (simp add: between_def popped_def)
qed

lemma between_hd: "2 \<le> j \<Longrightarrow> j \<le> length xs + 1 \<Longrightarrow> hd (between xs j) = xs ! (j - 2)"
  by (auto simp: between_def hd_drop_conv_nth)

lemma between_left:
  assumes "1 \<le> length xs" and "j \<le> length xs + 1"
  shows "popped (2 \<le> j) (between xs j) = [] \<longleftrightarrow> Suc j < 2 \<or> length xs + 1 < Suc j"
proof (cases "2 \<le> j")
  case True
  then show ?thesis using assms by (auto simp: between_tl)
next
  case False
  then show ?thesis using assms by (auto simp: between_def popped_def)
qed

lemma store_next:
  assumes "w + length xs \<le> length mem" and "2 \<le> j" and "j \<le> length xs + 1"
  shows "(store_block mem w (take (j - 2) xs))[w + (j - 2) := xs ! (j - 2)] = store_block mem w (take (Suc j - 2) xs)"
proof -
  obtain k where j: "j = Suc (Suc k)" using two_or_more [OF assms(2)] by blast
  then show ?thesis
    using assms store_block_snoc [of w "take k xs" mem "xs ! k"] by (simp add: take_Suc_conv_app_nth)
qed

definition burst_fifo :: "int list \<Rightarrow> nat \<Rightarrow> late_queue" where
  "burst_fifo xs j = queue 64 (between xs j) (j < 2 \<or> length xs + 1 < j)"

lemma burst_fifo_clock:
  assumes "1 \<le> length xs" and "j \<le> length xs + 1" and "j < length xs \<Longrightarrow> y = xs ! j"
    and "w \<longleftrightarrow> j < length xs" and "r \<longleftrightarrow> 2 \<le> j"
  shows "lq_clock w y r (burst_fifo xs j) = burst_fifo xs (Suc j)"
proof -
  have "length (between xs j) < 64" using between_length [of xs j] by simp
  moreover have "popped r (between xs j) = [] \<longleftrightarrow> Suc j < 2 \<or> length xs + 1 < Suc j"
    using between_left [OF assms(1,2)] assms(5) by simp
  ultimately show ?thesis
    using assms between_put [of j xs] between_take [of xs j] by (cases "j < length xs") (simp_all add: burst_fifo_def)
qed

lemma burst_fifo_flags:
  "lq_full (burst_fifo xs j) = False"
  "j \<le> length xs + 1 \<Longrightarrow> lq_empty (burst_fifo xs j) \<longleftrightarrow> \<not> 2 \<le> j"
  "2 \<le> j \<Longrightarrow> j \<le> length xs + 1 \<Longrightarrow> hd (lq_items (burst_fifo xs j)) = xs ! (j - 2)"
  "burst_fifo xs 0 = q64" "burst_fifo xs (length xs + 2) = q64"
  using between_length [of xs j] between_hd [of j xs] by (auto simp: burst_fifo_def) (auto simp: between_def)

text \<open>From system memory into the SRAM: the registers of both sides after \<open>j\<close> clocks.\<close>

definition inward_master :: "int \<Rightarrow> int list \<Rightarrow> nat \<Rightarrow> int \<Rightarrow> master_hw" where
  "inward_master src xs j ad = master (if j < length xs then Dm_rd_r else Wait_sram) src (int (length xs)) False 0 ad"

definition inward_ctrl :: "nat \<Rightarrow> int list \<Rightarrow> nat \<Rightarrow> sram_hw" where
  "inward_ctrl dst xs j = ctrl (if j \<le> length xs + 1 then S_writing else S_wait_axi) (int (dst + (j - 2))) (int (length xs)) True (int (j - 2))"

definition inward_memory :: "int list \<Rightarrow> int \<Rightarrow> int list \<Rightarrow> nat \<Rightarrow> int \<Rightarrow> int \<Rightarrow> int \<Rightarrow> mem_hw" where
  "inward_memory sys src xs j wa wl wb = memory sys (if j < length xs then R_ISSUE else R_IDLE) src (int (length xs) - 1)
     (int (min j (length xs - 1))) W_IDLE wa wl wb False"

definition inward where
  "inward sys ram src dst xs j x m ad wa wl wb =
    eng (fetch_idle Fetch_normal) m (inward_master src xs j ad) (inward_ctrl dst xs j)
      (block_ram (store_block ram dst (take (j - 2) xs)) x)
      q64 q64 q16 q16 q16 (burst_fifo xs j) False False (inward_memory sys src xs j wa wl wb)"

lemma last_beat_burst: "1 \<le> n \<Longrightarrow> n < 256 \<Longrightarrow> last_beat (int n) = int (n - 1)"
  by (simp add: last_beat_def of_nat_diff)

lemma inward_master_clock:
  assumes "1 \<le> length xs" and "j \<le> length xs + 1"
  shows "master_next True y False True i False e (sram_done (inward_ctrl dst xs j))
      (mem_replies (inward_memory sys src xs j wa wl wb)) (inward_master src xs j ad) = inward_master src xs (Suc j) ad"
  using assms by (auto simp: inward_master_def inward_ctrl_def inward_memory_def master_next_def sram_done_def)

lemma inward_ctrl_clock:
  assumes "1 \<le> length xs" and "length xs < 256" and "j \<le> length xs + 1" and "dst + length xs < 2 ^ 32"
  shows "sram_next y True False (\<not> 2 \<le> j) d (inward_ctrl dst xs j) = inward_ctrl dst xs (Suc j)"
proof (cases "2 \<le> j")
  case True
  then obtain k where "j = Suc (Suc k)" using two_or_more by blast
  then show ?thesis
    using assms by (auto simp: inward_ctrl_def sram_next_def sram_last_def last_beat_burst inc8_def inc32_def)
next
  case False
  then show ?thesis using assms by (auto simp: inward_ctrl_def sram_next_def)
qed

lemma inward_memory_clock:
  assumes "1 \<le> length xs" and "length xs < 256" and "j \<le> length xs + 1"
  shows "mem_clock (master_drives False e y (inward_master src xs j ad)) False 0 0 (inward_memory sys src xs j wa wl wb)
    = inward_memory sys src xs (Suc j) wa wl wb"
  using assms
  by (auto simp: inward_memory_def inward_master_def mem_next master_drives_def Let_def inc8_def min_def of_nat_diff)

lemma inward_clock:
  assumes "1 \<le> length xs" and "length xs < 256" and "j \<le> length xs + 1" and "dst + length xs \<le> length ram" and "length ram < 2 ^ 32"
    and "\<forall>k < length xs. word_in sys (drop_bit 2 src + int k) = xs ! k" and "mh_state m = GET_DATA"
  shows "\<exists>x'. leads [quiet] (inward sys ram src dst xs j x m ad wa wl wb) (inward sys ram src dst xs (Suc j) x' m ad wa wl wb) 0"
proof -
  let ?a = "inward_master src xs j ad" and ?s = "inward_ctrl dst xs j" and ?mem = "inward_memory sys src xs j wa wl wb"
  have put: "master_mid_wr False (mem_replies ?mem) ?a \<longleftrightarrow> j < length xs" "\<not> sram_mid_wr False ?s"
    "\<not> master_mid_rd e (mem_replies ?mem) ?a" "sram_mid_rd (\<not> 2 \<le> j) ?s \<longleftrightarrow> 2 \<le> j" "sram_done ?s \<and> master_done ?a \<longleftrightarrow> False"
    "\<not> master_df_in_rd ?a" "\<not> master_df_out_wr False ?a" "\<not> master_dm_rd ?a" "\<not> sram_dm_rd ?s" for e
    using assms(3) by (auto simp: strobes inward_master_def inward_ctrl_def inward_memory_def)
  have word: "j < length xs \<Longrightarrow> rdata (mem_replies ?mem) = xs ! j"
    using assms(6) by (auto simp: inward_memory_def min_def)
  have ram: "\<exists>x'. bram_clock v (sh_addr ?s) (2 \<le> j) (hd (lq_items (burst_fifo xs j))) (block_ram (store_block ram dst (take (j - 2) xs)) x)
      = block_ram (store_block ram dst (take (Suc j - 2) xs)) x'" for v
  proof (cases "2 \<le> j")
    case True
    then obtain k where k: "j = Suc (Suc k)" using two_or_more by blast
    then have "sh_addr ?s = int (dst + k)" and "dst + k < length ram" using assms(3,4) by (simp_all add: inward_ctrl_def)
    then have "nat (sh_addr ?s mod int (length ram)) = dst + k" by simp
    then show ?thesis
      using True assms(3,4) store_next [OF assms(4) True assms(3)] k
      by (simp add: burst_fifo_flags(3) bram_clock_def bram_index_def)
  qed (simp add: bram_clock_def)
  obtain x' where x': "bram_clock (sram_read_addr (narrow_instr (hd [])) False ?s) (sh_addr ?s) (2 \<le> j) (hd (lq_items (burst_fifo xs j)))
      (block_ram (store_block ram dst (take (j - 2) xs)) x) = block_ram (store_block ram dst (take (Suc j - 2) xs)) x'"
    using ram by blast
  have "dst + length xs < 2 ^ 32" using assms(4,5) by linarith
  note next_regs = inward_master_clock [OF assms(1,3)] inward_ctrl_clock [OF assms(1-3) this] inward_memory_clock [OF assms(1-3)]
  have mid: "lq_clock (j < length xs) (if j < length xs then rdata (mem_replies ?mem) else x) (2 \<le> j) (burst_fifo xs j)
      = burst_fifo xs (Suc j)"
    by (rule burst_fifo_clock [OF assms(1,3)]) (simp_all add: word)
  show ?thesis
    using assms(7) mid burst_fifo_flags(1,2) [where xs = xs and j = j] assms(3)
    unfolding inward_def leads_def engine_run.simps engine_pulses.simps engine_errors.simps eng_clock eng_error
    by (intro exI [of _ x']) (cases "j < length xs"; simp add: put next_regs x' fetch_next_def mover_next_def fetch_accepts_def fetch_takes_def fetch_error_def mover_sends_def
        mover_reads_def)
qed

lemma leads_steps:
  assumes "\<And>j x. j < n \<Longrightarrow> \<exists>x'. leads [i] (f j x) (f (Suc j) x') 0"
  shows "\<exists>x'. leads (replicate n i) (f 0 x) (f n x') 0"
  using assms
proof (induction n)
  case 0
  then show ?case by (auto simp: leads_def)
next
  case (Suc n)
  then obtain y where "leads (replicate n i) (f 0 x) (f n y) 0" by auto
  moreover obtain x' where "leads [i] (f n y) (f (Suc n) x') 0" using Suc.prems by blast
  ultimately have "leads (replicate n i @ [i]) (f 0 x) (f (Suc n) x') (0 + 0)" by (rule leads_trans)
  then show ?case by (auto simp: replicate_append_same)
qed

text \<open>Both sides are done: the pulse, and the clock after it.\<close>

lemma handshake:
  "leads [quiet, quiet] (eng (fetch_idle Fetch_normal) (mover GET_DATA mi ma ms) (master Wait_sram av an aw ak ad)
      (ctrl S_wait_axi sv sn sw sk) (block_ram ram x) q64 q64 q16 q16 q16 q64 False False (memory sys R_IDLE ra rl rb W_IDLE wa wl wb False))
    (eng (fetch_idle Fetch_normal) (mover GET_DATA mi ma ms) (master Idle av an aw ak ad)
      (ctrl S_idle sv sn sw sk) (block_ram ram (ram ! 0)) q64 q64 q16 q16 q16 q64 False False (memory sys R_IDLE ra rl rb W_IDLE wa wl wb False)) 1"
  by (simp add: leads_def clocks)

text \<open>From the SRAM into system memory.\<close>

definition outward_master :: "int \<Rightarrow> int list \<Rightarrow> nat \<Rightarrow> int \<Rightarrow> master_hw" where
  "outward_master dst xs j ad = master (if j = 0 then Dm_wr_aw else if j \<le> length xs + 1 then Dm_wr_w else Dm_wr_b)
     dst (int (length xs)) True (int (j - 2)) ad"

definition outward_ctrl :: "nat \<Rightarrow> int list \<Rightarrow> nat \<Rightarrow> sram_hw" where
  "outward_ctrl src xs j = ctrl (if j < length xs then S_reading else S_wait_axi) (int (src + 1 + min j (length xs)))
     (int (length xs)) False (int (min j (length xs)))"

definition outward_memory :: "int list \<Rightarrow> int \<Rightarrow> int list \<Rightarrow> nat \<Rightarrow> int \<Rightarrow> int \<Rightarrow> int \<Rightarrow> int \<Rightarrow> int \<Rightarrow> int \<Rightarrow> mem_hw" where
  "outward_memory sys dst xs j ra rl rb wa wl wb = memory (store_block sys (nat (drop_bit 2 dst)) (take (j - 2) xs)) R_IDLE ra rl rb
     (if j = 0 then W_IDLE else if j \<le> length xs + 1 then W_DATA else W_RESP) (if j = 0 then wa else dst)
     (if j = 0 then wl else int (length xs) - 1) (if j = 0 then wb else int (min (j - 2) (length xs - 1))) False"

definition outward where
  "outward sys ram src dst xs j x m ad ra rl rb wa wl wb =
    eng (fetch_idle Fetch_normal) m (outward_master dst xs j ad) (outward_ctrl src xs j)
      (block_ram ram (if j < length xs then xs ! j else x))
      q64 q64 q16 q16 q16 (burst_fifo xs j) False False (outward_memory sys dst xs j ra rl rb wa wl wb)"

lemma outward_master_clock:
  assumes "1 \<le> length xs" and "length xs < 256" and "j \<le> length xs + 1"
  shows "master_next True y False True i False (\<not> 2 \<le> j) d
      (mem_replies (outward_memory sys dst xs j ra rl rb wa wl wb)) (outward_master dst xs j ad) = outward_master dst xs (Suc j) ad"
proof (cases "2 \<le> j")
  case True
  then obtain k where "j = Suc (Suc k)" using two_or_more by blast
  then show ?thesis
    using assms by (auto simp: outward_master_def outward_memory_def master_next_def last_beat_burst inc8_def)
next
  case False
  then show ?thesis using assms by (auto simp: outward_master_def outward_memory_def master_next_def)
qed

lemma outward_ctrl_clock:
  assumes "1 \<le> length xs" and "length xs < 256" and "j \<le> length xs + 1" and "src + length xs + 1 < 2 ^ 32"
  shows "sram_next y True False e False (outward_ctrl src xs j) = outward_ctrl src xs (Suc j)"
  using assms
  by (auto simp: outward_ctrl_def sram_next_def sram_last_def last_beat_burst inc8_def inc32_def min_def
      of_nat_diff)

lemma outward_memory_clock:
  assumes "1 \<le> length xs" and "length xs < 256" and "j \<le> length xs + 1" and "2 \<le> j \<Longrightarrow> y = xs ! (j - 2)"
    and "0 \<le> dst" and "nat (drop_bit 2 dst) + length xs \<le> length sys"
  shows "mem_clock (master_drives False (\<not> 2 \<le> j) y (outward_master dst xs j ad)) False 0 0 (outward_memory sys dst xs j ra rl rb wa wl wb)
    = outward_memory sys dst xs (Suc j) ra rl rb wa wl wb"
proof (cases "2 \<le> j")
  case True
  then obtain k where k: "j = Suc (Suc k)" using two_or_more by blast
  define w where "w = nat (drop_bit 2 dst)"
  have w: "drop_bit 2 dst = int w" using assms(5) by (simp add: w_def)
  have fits: "w + length xs \<le> length sys" using assms(6) by (simp add: w_def)
  have y: "y = xs ! k" using assms(4) k by simp
  have next_word: "(store_block sys w (take k xs))[w + k := xs ! k] = store_block sys w (take (Suc k) xs)"
    using store_next [OF fits, of j] k assms(3) by simp
  have word: "nat (int w + int k) = w + k" by simp
  show ?thesis
  proof (cases "Suc k < length xs")
    case True
    then show ?thesis
      using k y assms(2) fits next_word
      by (simp add: outward_memory_def outward_master_def mem_next master_drives_def Let_def inc8_def min_def
          last_beat_burst w word)
  next
    case False
    then have n: "length xs = Suc k" using k assms(3) by simp
    then show ?thesis
      using k y assms(2) fits next_word last_beat_burst [of "Suc k"]
      by (simp add: outward_memory_def outward_master_def mem_next master_drives_def Let_def w word)
  qed
next
  case False
  then have "j = 0 \<or> j = 1" by linarith
  moreover have "xs \<noteq> []" using assms(1) by auto
  ultimately show ?thesis
    using assms(1,2)
    by (elim disjE) (simp_all add: outward_memory_def outward_master_def mem_next master_drives_def Let_def burst_len_def)
qed

lemma outward_clock:
  assumes "1 \<le> length xs" and "length xs < 256" and "j \<le> length xs + 1" and "src + length xs \<le> length ram" and "length ram + 1 < 2 ^ 32"
    and "\<forall>k < length xs. ram ! (src + k) = xs ! k" and "mh_state m = GET_DATA"
    and "0 \<le> dst" and "nat (drop_bit 2 dst) + length xs \<le> length sys"
  shows "\<exists>x'. leads [quiet] (outward sys ram src dst xs j x m ad ra rl rb wa wl wb) (outward sys ram src dst xs (Suc j) x' m ad ra rl rb wa wl wb) 0"
proof -
  let ?a = "outward_master dst xs j ad" and ?s = "outward_ctrl src xs j" and ?mem = "outward_memory sys dst xs j ra rl rb wa wl wb"
  have put: "\<not> master_mid_wr False (mem_replies ?mem) ?a" "sram_mid_wr False ?s \<longleftrightarrow> j < length xs"
    "master_mid_rd (\<not> 2 \<le> j) (mem_replies ?mem) ?a \<longleftrightarrow> 2 \<le> j" "\<not> sram_mid_rd e ?s" "\<not> master_done ?a"
    "\<not> master_df_in_rd ?a" "\<not> master_df_out_wr False ?a" "\<not> master_dm_rd ?a" "\<not> sram_dm_rd ?s" for e
    using assms(3) by (auto simp: strobes outward_master_def outward_ctrl_def outward_memory_def)
  let ?x = "if j < length xs then xs ! j else x"
  have ram: "\<exists>x'. bram_clock (sram_read_addr v False ?s) (sh_addr ?s) False y (block_ram ram z)
      = block_ram ram (if Suc j < length xs then xs ! Suc j else x')" for v y z
  proof (cases "Suc j < length xs")
    case True
    then have "sram_read_addr v False ?s = int (src + Suc j)" by (simp add: sram_read_addr_def strobes outward_ctrl_def)
    moreover have "src + Suc j < length ram" using True assms(4) by linarith
    then have "nat (int (src + Suc j) mod int (length ram)) = src + Suc j" by simp
    ultimately show ?thesis using True assms(6) [rule_format, of "Suc j"] by simp
  qed auto
  obtain x' where x': "bram_clock (sram_read_addr (narrow_instr (hd [])) False ?s) (sh_addr ?s) False (hd (lq_items (burst_fifo xs j)))
      (block_ram ram ?x) = block_ram ram (if Suc j < length xs then xs ! Suc j else x')"
    using ram by blast
  have hd: "2 \<le> j \<Longrightarrow> hd (lq_items (burst_fifo xs j)) = xs ! (j - 2)" by (rule burst_fifo_flags(3) [OF _ assms(3)])
  have "src + length xs + 1 < 2 ^ 32" using assms(4,5) by linarith
  note next_regs = outward_master_clock [OF assms(1-3)] outward_ctrl_clock [OF assms(1-3) this]
  have next_mem: "mem_clock (master_drives False (\<not> 2 \<le> j) (hd (lq_items (burst_fifo xs j))) ?a) False 0 0 ?mem
      = outward_memory sys dst xs (Suc j) ra rl rb wa wl wb"
    by (rule outward_memory_clock [OF assms(1-3) _ assms(8,9)]) (rule hd)
  have mid: "lq_clock (j < length xs) ?x (2 \<le> j) (burst_fifo xs j) = burst_fifo xs (Suc j)"
    by (rule burst_fifo_clock [OF assms(1,3)]) simp_all
  have idle: "fetch_next False True y False (in_addr quiet) (in_valid quiet) (fetch_idle Fetch_normal) = fetch_idle Fetch_normal" for y
    by (simp add: fetch_next_def ask_in_def fetch_accepts_def fetch_takes_def fetch_error_def)
  have "lq_empty (burst_fifo xs j) \<longleftrightarrow> \<not> 2 \<le> j" "lq_full (burst_fifo xs j) = False"
    using assms(3) by (simp_all add: burst_fifo_flags)
  then have "engine_clock lq_ops quiet (outward sys ram src dst xs j x m ad ra rl rb wa wl wb)
      = outward sys ram src dst xs (Suc j) x' m ad ra rl rb wa wl wb"
    using assms(7) mid x'
    unfolding outward_def eng_clock
    by (simp add: put next_regs next_mem fetch_next_def mover_next_def fetch_accepts_def fetch_takes_def fetch_error_def mover_sends_def
        mover_reads_def)
  then show ?thesis by (auto simp: leads_def outward_def)
qed

text \<open>After the last word the write is answered.\<close>

lemma response:
  "leads [quiet, quiet] (eng (fetch_idle Fetch_normal) (mover GET_DATA mi ma ms) (master Dm_wr_b av an aw ak ad)
      (ctrl S_wait_axi sv sn sw sk) (block_ram ram x) q64 q64 q16 q16 q16 q64 False False (memory sys R_IDLE ra rl rb W_RESP wa wl wb False))
    (eng (fetch_idle Fetch_normal) (mover GET_DATA mi ma ms) (master Wait_sram av an aw ak ad)
      (ctrl S_wait_axi sv sn sw sk) (block_ram ram (ram ! 0)) q64 q64 q16 q16 q16 q64 False False (memory sys R_IDLE ra rl rb W_IDLE wa wl wb False)) 0"
  by (simp add: leads_def clocks)

end
