(* ===== verification/Rtl_Golden.thy ===== *)
theory Rtl_Golden
  imports Rtl_Burst Transfers
begin

text \<open>
  The datapath as a whole: one request to an idle engine carries out one descriptor, a list of requests
  the list of block copies, and the memories it leaves are those of the golden model. The clocks of
  \<open>Rtl_Transfer\<close> and \<open>Rtl_Burst\<close> are those of queues in place of the FIFOs; \<open>same_engine_run\<close> carries the result
  over to the FIFOs of \<open>fifo.sv\<close>.
\<close>

section \<open>One descriptor\<close>

text \<open>Nothing under way: every state machine idle, every FIFO empty, no pulse.\<close>

definition engine_rest :: "int list \<times> int list \<Rightarrow> late_queue engine_hw \<Rightarrow> bool" where
  "engine_rest m e \<longleftrightarrow> (\<exists>st mi ma ms av an aw ak ad sv sn sw sk x ra rl rb wa wl wb.
     e = eng (fetch_idle st) (mover GET_DATA mi ma ms) (master Idle av an aw ak ad) (ctrl S_idle sv sn sw sk) (block_ram (snd m) x)
       q64 q64 q16 q16 q16 q64 False False (memory (fst m) R_IDLE ra rl rb W_IDLE wa wl wb False))"

lemma engine_restI:
  "engine_rest (sys, ram) (eng (fetch_idle st) (mover GET_DATA mi ma ms) (master Idle av an aw ak ad) (ctrl S_idle sv sn sw sk)
     (block_ram ram x) q64 q64 q16 q16 q16 q64 False False (memory sys R_IDLE ra rl rb W_IDLE wa wl wb False))"
  unfolding engine_rest_def fst_conv snd_conv by (intro exI) (rule refl)

text \<open>The two instructions stand at the heads of their FIFOs.\<close>

definition instructed :: "int list \<times> int list \<Rightarrow> int \<Rightarrow> int \<Rightarrow> late_queue engine_hw \<Rightarrow> bool" where
  "instructed m ia ir e \<longleftrightarrow> (\<exists>mi ma ms av an aw ak ad sv sn sw sk x ra rl rb wa wl wb.
     e = eng (fetch_idle Fetch_normal) (mover GET_DATA mi ma ms) (master Idle av an aw ak ad) (ctrl S_idle sv sn sw sk) (block_ram (snd m) x)
       q64 q64 q16 (queue 16 [ia] False) (queue 16 [ir] False) q64 False False (memory (fst m) R_IDLE ra rl rb W_IDLE wa wl wb False))"

lemma instructedI:
  "instructed (sys, ram) ia ir (eng (fetch_idle Fetch_normal) (mover GET_DATA mi ma ms) (master Idle av an aw ak ad) (ctrl S_idle sv sn sw sk)
     (block_ram ram x) q64 q64 q16 (queue 16 [ia] False) (queue 16 [ir] False) q64 False False (memory sys R_IDLE ra rl rb W_IDLE wa wl wb False))"
  unfolding instructed_def fst_conv snd_conv by (intro exI) (rule refl)

lemma rest_quiet:
  assumes "engine_rest m e"
  shows "\<exists>e'. leads (replicate k quiet) e e' 0 \<and> engine_rest m e'"
  using assms
proof (induction k arbitrary: e)
  case 0
  then show ?case by (auto simp: leads_def)
next
  case (Suc k)
  from Suc.prems obtain st mi ma ms av an aw ak ad sv sn sw sk x ra rl rb wa wl wb
    where e: "e = eng (fetch_idle st) (mover GET_DATA mi ma ms) (master Idle av an aw ak ad) (ctrl S_idle sv sn sw sk)
      (block_ram (snd m) x) q64 q64 q16 q16 q16 q64 False False (memory (fst m) R_IDLE ra rl rb W_IDLE wa wl wb False)"
    unfolding engine_rest_def by blast
  let ?e = "eng (fetch_idle st) (mover GET_DATA mi ma ms) (master Idle av an aw ak ad) (ctrl S_idle sv sn sw sk)
      (block_ram (snd m) (snd m ! 0)) q64 q64 q16 q16 q16 q64 False False (memory (fst m) R_IDLE ra rl rb W_IDLE wa wl wb False)"
  have step: "leads [quiet] e ?e 0" unfolding e by (cases st) (simp_all add: leads_def clocks)
  have "engine_rest m ?e" unfolding engine_rest_def by blast
  then obtain e' where "leads (replicate k quiet) ?e e' 0" "engine_rest m e'" using Suc.IH by blast
  with leads_trans [OF step this(1)] show ?case by auto
qed

text \<open>What has to hold of a transfer: at least one word, a word-aligned address in system memory, both blocks in range.\<close>

definition rtl_fits :: "int \<Rightarrow> int list \<times> int list \<Rightarrow> bool" where
  "rtl_fits v m \<longleftrightarrow> 0 \<le> v \<and> v < 2 ^ 32 \<and> nat (v div 4) + 4 \<le> length (fst m) \<and>
     (let d = desc_at (fst m) (nat (v div 4)) in 1 \<le> dma_beats d \<and> dma_fits 255 d m)"

definition move_at :: "int \<Rightarrow> int list \<times> int list \<Rightarrow> int list \<times> int list" where
  "move_at v m = dma_move (desc_at (fst m) (nat (v div 4))) m"

lemma fetched:
  assumes "0 \<le> v" and "nat (v div 4) + 4 \<le> length sys" and "u32s sys" and "d = desc_at sys (nat (v div 4))"
  shows "(let i = drop_bit 2 v in desc_put 3 (word_in sys (i + 3)) (desc_put 2 (word_in sys (i + 2))
     (desc_put 1 (word_in sys (i + 1)) (desc_put 0 (word_in sys i) 0)))) = pack d"
proof -
  define w where "w = nat (v div 4)"
  have i: "drop_bit 2 v = int w" using assms(1) by (simp add: w_def drop_bit_eq_div)
  have d: "d = desc_at sys w" and fit: "w + 4 \<le> length sys" using assms(2,4) by (simp_all add: w_def)
  have "word_in sys (int w + int k) = sys ! (w + k)" if "k < 4" for k
    using fit that nat_int_add [of w k] by (simp add: word_in_def)
  from this [of 0] this [of 1] this [of 2] this [of 3]
  have words: "word_in sys (int w) = w0 d" "word_in sys (int w + 1) = w1 d" "word_in sys (int w + 2) = w2 d"
    "word_in sys (int w + 3) = w3 d"
    by (simp_all add: d desc_at_def)
  have "desc_ok d" unfolding d by (rule desc_at_ok [OF assms(3) fit])
  then show ?thesis unfolding i Let_def words by (rule desc_put_all)
qed

lemma two_more: "replicate k q @ [q, q] = replicate (k + 2) q"
  using replicate_add [of k 2 q] by (simp add: numeral_2_eq_2)

lemma end_addr:
  assumes "desc_ok d" and "dma_fits k d (sys, ram)" and "length ram \<le> 65536" and "1 \<le> dma_beats d"
  shows "desc_end_addr (pack d) \<le> MAX_SRAM_ADDR"
proof -
  define y where "y = (if odd (w3 d) then w1 d else w0 d)"
  have range: "0 \<le> y" "int (dma_beats d) = w2 d mod 256"
    using assms(1) by (simp_all add: y_def desc_ok_def dma_beats_def)
  have "nat (y div 4) + dma_beats d \<le> 65536"
    using assms(2,3) by (auto simp: dma_fits_def y_def Let_def split: if_splits)
  then have "y div 4 + w2 d mod 256 \<le> 65536" "1 \<le> w2 d mod 256" using range assms(4) by linarith+
  then show ?thesis
    using range by (auto simp: desc_end_addr_def assms(1) y_def Let_def MAX_SRAM_ADDR_def drop_bit_eq_div odd_iff_mod_2_eq_one split: if_splits)
qed

text \<open>From the request to the two instructions.\<close>

lemma front:
  assumes "0 \<le> v" and "v < 2 ^ 32" and "nat (v div 4) + 4 \<le> length (fst m)" and "u32s (fst m)" and "engine_rest m e"
    and "d = desc_at (fst m) (nat (v div 4))" and "desc_end_addr (pack d) \<le> MAX_SRAM_ADDR"
  shows "\<exists>e' ia ir. leads (ask_in v True # replicate 18 quiet) e e' 0 \<and> instructed m ia ir e' \<and>
    (narrow_instr ia, narrow_instr ir) = desc_to_instr_pair d"
proof -
  obtain sys ram where m: "m = (sys, ram)" by (cases m)
  have ok: "desc_ok d" using desc_at_ok assms(3,4,6) by (simp add: m)
  obtain ia ir where dec: "mover_decode (pack d) = (ia, ir)" by fastforce
  have pair: "(narrow_instr ia, narrow_instr ir) = desc_to_instr_pair d" using decode_golden [OF ok] dec by simp
  note dec_leads = front_decode [OF assms(7) dec]
  from assms(5) obtain st mi ma ms av an aw ak ad sv sn sw sk x ra rl rb wa wl wb
    where e: "e = eng (fetch_idle st) (mover GET_DATA mi ma ms) (master Idle av an aw ak ad) (ctrl S_idle sv sn sw sk)
      (block_ram ram x) q64 q64 q16 q16 q16 q64 False False (memory sys R_IDLE ra rl rb W_IDLE wa wl wb False)"
    unfolding engine_rest_def m by auto
  have fit: "nat (v div 4) + 4 \<le> length sys" and "u32s sys" and "d = desc_at sys (nat (v div 4))"
    using assms(3,4,6) by (simp_all add: m)
  note got = fetched [OF assms(1) this]
  note all = leads_trans [OF leads_trans [OF front_request [OF assms(1,2)] front_fetch [where sys = sys and v = v, unfolded got]] dec_leads]
  have clocks: "([ask_in v True, quiet, quiet, quiet, quiet] @ [quiet, quiet, quiet, quiet, quiet]) @
      [quiet, quiet, quiet, quiet, quiet, quiet, quiet, quiet, quiet] = ask_in v True # replicate 18 quiet"
    by (simp add: eval_nat_numeral)
  show ?thesis
    unfolding e m by (intro exI conjI) (rule all [unfolded clocks add_0], rule instructedI, rule pair)
qed

lemma block_words:
  assumes "nat (x div 4) + n \<le> length mem" and "0 \<le> x"
  shows "length (load_block mem (nat (x div 4)) n) = n"
    and "\<forall>k < n. word_in mem (drop_bit 2 x + int k) = load_block mem (nat (x div 4)) n ! k"
    and "\<forall>k < n. mem ! (nat (x div 4) + k) = load_block mem (nat (x div 4)) n ! k"
proof -
  obtain w where w: "nat (x div 4) = w" by simp
  then have x: "drop_bit 2 x = int w" using assms(2) by (auto simp: drop_bit_eq_div)
  show "length (load_block mem (nat (x div 4)) n) = n" using assms(1) by simp
  show "\<forall>k < n. mem ! (nat (x div 4) + k) = load_block mem (nat (x div 4)) n ! k"
    using assms(1) by (simp add: load_block_nth)
  then show "\<forall>k < n. word_in mem (drop_bit 2 x + int k) = load_block mem (nat (x div 4)) n ! k"
    using assms(1) unfolding x w by (simp add: word_in_def nat_int_add)
qed

lemma burst_in:
  assumes "n = length xs" and "1 \<le> n" and "n < 256" and "dst + n \<le> length ram" and "length ram \<le> 65536"
    and "\<forall>k < n. word_in sys (drop_bit 2 src + int k) = xs ! k"
  shows "\<exists>e'. leads (replicate (n + 4) quiet)
      (eng (fetch_idle Fetch_normal) (mover GET_DATA mi ma ms) (master Dm_rd_r src (int n) False 0 ad) (ctrl S_writing (int dst) (int n) True 0)
        (block_ram ram x) q64 q64 q16 q16 q16 q64 False False (memory sys R_ISSUE src (burst_len (int n)) 0 W_IDLE wa wl wb False)) e' 1 \<and>
    engine_rest (sys, store_block ram dst xs) e'"
proof -
  let ?m = "mover GET_DATA mi ma ms"
  have "\<exists>x'. leads [quiet] (inward sys ram src dst xs j y ?m ad wa wl wb) (inward sys ram src dst xs (Suc j) x' ?m ad wa wl wb) 0"
    if "j < n + 2" for j y
    using assms that by (intro inward_clock) auto
  from leads_steps [where f = "\<lambda>j x. inward sys ram src dst xs j x ?m ad wa wl wb" and x = x, OF this] obtain x'
    where steps: "leads (replicate (n + 2) quiet) (inward sys ram src dst xs 0 x ?m ad wa wl wb)
      (inward sys ram src dst xs (n + 2) x' ?m ad wa wl wb) 0" by blast
  have first: "inward sys ram src dst xs 0 x ?m ad wa wl wb = eng (fetch_idle Fetch_normal) ?m (master Dm_rd_r src (int n) False 0 ad)
      (ctrl S_writing (int dst) (int n) True 0) (block_ram ram x) q64 q64 q16 q16 q16 q64 False False
      (memory sys R_ISSUE src (burst_len (int n)) 0 W_IDLE wa wl wb False)"
    using assms(1,2) by (auto simp: inward_def inward_master_def inward_ctrl_def inward_memory_def burst_fifo_flags burst_len_def)
  have final: "inward sys ram src dst xs (n + 2) x' ?m ad wa wl wb = eng (fetch_idle Fetch_normal) ?m (master Wait_sram src (int n) False 0 ad)
      (ctrl S_wait_axi (int (dst + n)) (int n) True (int n)) (block_ram (store_block ram dst xs) x') q64 q64 q16 q16 q16 q64 False False
      (memory sys R_IDLE src (int n - 1) (int (n - 1)) W_IDLE wa wl wb False)"
    using burst_fifo_flags(5) [of xs] assms(1)
    by (simp add: inward_def inward_master_def inward_ctrl_def inward_memory_def)
  have two: "replicate (n + 2) quiet @ [quiet, quiet] = replicate (n + 4) quiet"
  proof -
    have "n + 4 = n + 2 + 2" by simp
    then show ?thesis by (simp only: two_more)
  qed
  from leads_trans [OF steps [unfolded first final] handshake]
  show ?thesis unfolding two add_0 by (intro exI conjI) (assumption, rule engine_restI)
qed

lemma burst_out:
  assumes "n = length xs" and "1 \<le> n" and "n < 256" and "src + n \<le> length ram" and "length ram \<le> 65536"
    and "\<forall>k < n. ram ! (src + k) = xs ! k" and "0 \<le> dst" and "nat (drop_bit 2 dst) + n \<le> length sys" and "x = xs ! 0"
  shows "\<exists>e'. leads (replicate (n + 6) quiet)
      (eng (fetch_idle Fetch_normal) (mover GET_DATA mi ma ms) (master Dm_wr_aw dst (int n) True 0 ad) (ctrl S_reading (int (src + 1)) (int n) False 0)
        (block_ram ram x) q64 q64 q16 q16 q16 q64 False False (memory sys R_IDLE ra rl rb W_IDLE wa wl wb False)) e' 1 \<and>
    engine_rest (store_block sys (nat (drop_bit 2 dst)) xs, ram) e'"
proof -
  let ?m = "mover GET_DATA mi ma ms"
  have step: "\<exists>x'. leads [quiet] (outward sys ram src dst xs j y ?m ad ra rl rb wa wl wb)
      (outward sys ram src dst xs (Suc j) x' ?m ad ra rl rb wa wl wb) 0" if "j < n + 2" for j y
    using assms that by (intro outward_clock) auto
  obtain x' where steps: "leads (replicate (n + 2) quiet) (outward sys ram src dst xs 0 x ?m ad ra rl rb wa wl wb)
      (outward sys ram src dst xs (n + 2) x' ?m ad ra rl rb wa wl wb) 0"
    using leads_steps [where f = "\<lambda>j x. outward sys ram src dst xs j x ?m ad ra rl rb wa wl wb" and x = x, OF step] by blast
  have first: "outward sys ram src dst xs 0 x ?m ad ra rl rb wa wl wb = eng (fetch_idle Fetch_normal) ?m (master Dm_wr_aw dst (int n) True 0 ad)
      (ctrl S_reading (int (src + 1)) (int n) False 0) (block_ram ram x) q64 q64 q16 q16 q16 q64 False False
      (memory sys R_IDLE ra rl rb W_IDLE wa wl wb False)"
    using assms(1,2,9) by (auto simp: outward_def outward_master_def outward_ctrl_def outward_memory_def burst_fifo_flags)
  have final: "outward sys ram src dst xs (n + 2) x' ?m ad ra rl rb wa wl wb = eng (fetch_idle Fetch_normal) ?m (master Dm_wr_b dst (int n) True (int n) ad)
      (ctrl S_wait_axi (int (src + 1 + n)) (int n) False (int n)) (block_ram ram x') q64 q64 q16 q16 q16 q64 False False
      (memory (store_block sys (nat (drop_bit 2 dst)) xs) R_IDLE ra rl rb W_RESP dst (int n - 1) (int (n - 1)) False)"
    using burst_fifo_flags(5) [of xs] assms(1)
    by (simp add: outward_def outward_master_def outward_ctrl_def outward_memory_def)
  have four: "(replicate (n + 2) quiet @ [quiet, quiet]) @ [quiet, quiet] = replicate (n + 6) quiet"
  proof -
    have "n + 6 = n + 2 + 2 + 2" by simp
    then show ?thesis by (simp only: two_more)
  qed
  show ?thesis
    using leads_trans [OF leads_trans [OF steps [unfolded first final] response] handshake, unfolded four add_0]
    by (intro exI conjI) (assumption, rule engine_restI)
qed

lemma clocks_split:
  "replicate j q @ ([q, q, q] @ replicate k q) = replicate (j + k + 3) q"
  "replicate j q @ ([q, q] @ replicate k q) = replicate (j + k + 2) q"
  by (simp_all add: replicate_add [symmetric] numeral_3_eq_3 flip: replicate_Suc)

text \<open>
  One request to an idle engine: after at most \<open>27\<close> clocks and one for every word, the descriptor at the
  address has been carried out as the golden model specifies it, with one completion pulse.
\<close>

lemma one_descriptor:
  assumes "rtl_fits v m" and "u32s (fst m)" and "length (snd m) \<le> 65536" and "engine_rest m e"
    and "d = desc_at (fst m) (nat (v div 4))" and "dma_beats d + 26 \<le> w"
  shows "\<exists>e'. leads (ask_in v True # replicate w quiet) e e' 1 \<and> engine_rest (move_at v m) e'"
proof -
  obtain sys ram where m: "m = (sys, ram)" by (cases m)
  define n where "n = dma_beats d"
  have fit: "nat (v div 4) + 4 \<le> length sys" and beats: "1 \<le> n" and fits: "dma_fits 255 d (sys, ram)"
    using assms(1,5) by (simp_all add: rtl_fits_def m Let_def n_def)
  have d: "d = desc_at sys (nat (v div 4))" using assms(5) by (simp add: m)
  have ok: "desc_ok d" using desc_at_ok assms(2) fit by (simp add: m d)
  have w: "0 \<le> w0 d" "w0 d < 2 ^ 32" "0 \<le> w1 d" "w1 d < 2 ^ 32" using ok by (simp_all add: desc_ok_def)
  have n: "w2 d mod 256 = int n" "n < 256" by (simp_all add: n_def dma_beats_def)
  have quarter: "drop_bit 2 x = x div 4" "0 \<le> x \<Longrightarrow> int (nat (x div 4)) = x div 4" for x :: int
    by (simp_all add: drop_bit_eq_div)
  have ram: "length ram \<le> 65536" using assms(3) by (simp add: m)
  obtain e1 ia ir where e1: "leads (ask_in v True # replicate 18 quiet) e e1 0" "instructed (sys, ram) ia ir e1"
    and pair: "(narrow_instr ia, narrow_instr ir) = desc_to_instr_pair d"
    using front [OF _ _ _ assms(2,4,5) end_addr [OF ok fits ram _]] assms(1) beats unfolding m n_def by (auto simp: rtl_fits_def Let_def)
  have "\<exists>k e'. k \<le> n + 8 \<and> leads (replicate k quiet) e1 e' 1 \<and> engine_rest (move_at v m) e'"
  proof (cases "odd (w3 d)")
    case True
    have narrow: "narrow_instr ia = pack_instruction (w0 d) (w2 d) False" "narrow_instr ir = pack_instruction (w1 d) (w2 d) True"
      using pair True by (simp_all add: instr_pair)
    have range: "nat (w0 d div 4) + n \<le> length sys" "nat (w1 d div 4) + n \<le> length ram"
      using fits True by (simp_all add: dma_fits_def Let_def n_def)
    let ?xs = "load_block sys (nat (w0 d div 4)) n"
    note words = block_words [OF range(1) w(1)]
    obtain mi ma ms av an aw ak ad sv sn sw sk x ra rl rb wa wl wb where e1': "e1 = eng (fetch_idle Fetch_normal)
        (mover GET_DATA mi ma ms) (master Idle av an aw ak ad) (ctrl S_idle sv sn sw sk) (block_ram ram x)
        q64 q64 q16 (queue 16 [ia] False) (queue 16 [ir] False) q64 False False (memory sys R_IDLE ra rl rb W_IDLE wa wl wb False)"
      using e1(2) by (auto simp: instructed_def)
    obtain e' where e': "leads (replicate (n + 4) quiet) (eng (fetch_idle Fetch_normal) (mover GET_DATA mi ma ms)
        (master Dm_rd_r (w0 d) (int n) False 0 ad) (ctrl S_writing (int (nat (w1 d div 4))) (int n) True 0)
        (block_ram ram (ram ! 0)) q64 q64 q16 q16 q16 q64 False False (memory sys R_ISSUE (w0 d) (burst_len (int n)) 0 W_IDLE wa wl wb False)) e' 1"
      "engine_rest (sys, store_block ram (nat (w1 d div 4)) ?xs) e'"
      using burst_in [OF words(1) [symmetric] beats n(2) range(2) ram words(2)] by blast
    have "leads ([quiet, quiet, quiet] @ replicate (n + 4) quiet) e1 e' (0 + 1)"
      unfolding e1' by (rule leads_trans [OF front_to_sram [OF narrow w]])
        (use e'(1) n(1) quarter(2) [OF w(3)] in simp)
    moreover have "move_at v m = (sys, store_block ram (nat (w1 d div 4)) ?xs)"
      using True by (simp add: move_at_def m d [symmetric] dma_move_def Let_def n_def)
    ultimately show ?thesis using e'(2) clocks_split(1) [of 0 quiet "n + 4"] by (intro exI [of _ "n + 7"]) (auto simp: add.commute)
  next
    case False
    have narrow: "narrow_instr ia = pack_instruction (w1 d) (w2 d) True" "narrow_instr ir = pack_instruction (w0 d) (w2 d) False"
      using pair False by (simp_all add: instr_pair)
    have range: "nat (w0 d div 4) + n \<le> length ram" "nat (w1 d div 4) + n \<le> length sys"
      using fits False by (simp_all add: dma_fits_def Let_def n_def)
    let ?xs = "load_block ram (nat (w0 d div 4)) n"
    let ?src = "nat (w0 d div 4)"
    note words = block_words [OF range(1) w(1)]
    obtain mi ma ms av an aw ak ad sv sn sw sk x ra rl rb wa wl wb where e1': "e1 = eng (fetch_idle Fetch_normal)
        (mover GET_DATA mi ma ms) (master Idle av an aw ak ad) (ctrl S_idle sv sn sw sk) (block_ram ram x)
        q64 q64 q16 (queue 16 [ia] False) (queue 16 [ir] False) q64 False False (memory sys R_IDLE ra rl rb W_IDLE wa wl wb False)"
      using e1(2) by (auto simp: instructed_def)
    have src: "inc32 (w0 d div 4) = int (?src + 1)" "nat (w0 d div 4 mod int (length ram)) = ?src" "ram ! ?src = ?xs ! 0"
      using w(1,2) range(1) beats quarter(2) [OF w(1)] by (simp_all add: inc32_def load_block_nth)
    obtain e' where e': "leads (replicate (n + 6) quiet) (eng (fetch_idle Fetch_normal) (mover GET_DATA mi ma ms)
        (master Dm_wr_aw (w1 d) (int n) True 0 ad) (ctrl S_reading (int (?src + 1)) (int n) False 0)
        (block_ram ram (?xs ! 0)) q64 q64 q16 q16 q16 q64 False False (memory sys R_IDLE ra rl rb W_IDLE wa wl wb False)) e' 1"
      "engine_rest (store_block sys (nat (w1 d div 4)) ?xs, ram) e'"
      using burst_out [OF words(1) [symmetric] beats n(2) range(1) ram words(3) w(3) range(2) [folded quarter(1)] refl]
      unfolding quarter(1) by blast
    have "leads ([quiet, quiet] @ replicate (n + 6) quiet) e1 e' (0 + 1)"
      unfolding e1' by (rule leads_trans [OF front_to_system [OF narrow w]])
        (use e'(1) n(1) src in simp)
    moreover have "move_at v m = (store_block sys (nat (w1 d div 4)) ?xs, ram)"
      using False by (simp add: move_at_def m d [symmetric] dma_move_def Let_def n_def)
    ultimately show ?thesis using e'(2) clocks_split(2) [of 0 quiet "n + 6"] by (intro exI [of _ "n + 8"]) (auto simp: add.commute)
  qed
  then obtain k e2 where e2: "k \<le> n + 8" "leads (replicate k quiet) e1 e2 1" "engine_rest (move_at v m) e2" by blast
  obtain e' where e': "leads (replicate (w - 18 - k) quiet) e2 e' 0" "engine_rest (move_at v m) e'"
    using rest_quiet [OF e2(3)] by blast
  have "(ask_in v True # replicate 18 quiet) @ replicate k quiet @ replicate (w - 18 - k) quiet = ask_in v True # replicate w quiet"
    using assms(6) e2(1) by (simp add: replicate_add [symmetric] n_def)
  then show ?thesis
    using leads_trans [OF e1(1) leads_trans [OF e2(2) e'(1)]] e'(2) by auto
qed

section \<open>Any number of descriptors\<close>

text \<open>The ring manager offers an address for one clock and waits \<open>w\<close> clocks before the next.\<close>

definition request :: "nat \<Rightarrow> int \<Rightarrow> movement_in list" where
  "request w v = ask_in v True # replicate w (ask_in 0 False)"

text \<open>The descriptors at these addresses, each read when its turn comes; \<open>None\<close> when one does not fit.\<close>

fun moves_at :: "int list \<Rightarrow> int list \<times> int list \<Rightarrow> (int list \<times> int list) option" where
  "moves_at [] m = Some m"
| "moves_at (v # vs) m = (if rtl_fits v m then moves_at vs (move_at v m) else None)"

lemma run_requests:
  assumes "moves_at vs m = Some m'" and "u32s (fst m)" and "u32s (snd m)" and "length (snd m) \<le> 65536"
    and "engine_rest m e" and "281 \<le> w"
  shows "\<exists>e'. leads (concat (map (request w) vs)) e e' (length vs) \<and> engine_rest m' e'"
  using assms
proof (induction vs arbitrary: m e)
  case Nil
  then show ?case by (auto simp: leads_def)
next
  case (Cons v vs)
  let ?d = "desc_at (fst m) (nat (v div 4))"
  from Cons.prems(1) have fits: "rtl_fits v m" and rest: "moves_at vs (move_at v m) = Some m'" by (auto split: if_splits)
  have "dma_beats ?d < 256" by (simp add: dma_beats_def)
  then have "dma_beats ?d + 26 \<le> w" using Cons.prems(6) by linarith
  then obtain e1 where e1: "leads (request w v) e e1 1" "engine_rest (move_at v m) e1"
    using one_descriptor [OF fits Cons.prems(2,4,5) refl] by (auto simp: request_def)
  have "dma_fits 255 ?d m" using fits by (simp add: rtl_fits_def Let_def)
  note keeps = dma_move_keeps [OF this Cons.prems(2,3), folded move_at_def]
  obtain e' where e': "leads (concat (map (request w) vs)) e1 e' (length vs)" "engine_rest m' e'"
    using Cons.IH [OF rest keeps(3,4) _ e1(2) Cons.prems(6)] Cons.prems(4) keeps(2) by auto
  show ?case using leads_trans [OF e1(1) e'(1)] e'(2) by auto
qed

lemma start_rest: "engine_rest (sys, ram) (engine_start late_queue_reset sys ram)"
proof -
  have "engine_start late_queue_reset sys ram = eng (fetch_idle Fetch_normal) (mover GET_DATA 0 0 0) (master Idle 0 0 False 0 0)
    (ctrl S_idle 0 0 False 0) (block_ram ram 0) q64 q64 q16 q16 q16 q64 False False (memory sys R_IDLE 0 0 0 W_IDLE 0 0 0 False)"
    by (simp add: engine_start_def eng_def fetch_reset_def mover_reset_def master_reset_def sram_reset_def late_queue_reset_def
        mem_reset_def DF_IN_FIFO_Q_def DF_OUT_FIFO_Q_def DM_FIFO_Q_def MID_FIFO_Q_def)
  then show ?thesis by (simp only: engine_restI)
qed

lemma rest_memories:
  "engine_rest m e \<Longrightarrow> mm_ram (en_mem e) = fst m \<and> br_mem (mv_bram (en_move e)) = snd m \<and> \<not> lq_full (mv_df_in (en_move e))"
  by (auto simp: engine_rest_def eng_def)

lemma same_done: "same_engine d e \<Longrightarrow> mv_done (en_move d) = mv_done (en_move e)"
  by (simp add: same_engine_def same_move_def)

lemma same_pulses: "same_engine d e \<Longrightarrow> engine_pulses rtl_ops is d = engine_pulses lq_ops is e"
proof (induction "is" arbitrary: d e)
  case (Cons i "is")
  note same = same_engine_clock [OF Cons.prems, of i]
  show ?case using Cons.IH [OF same] same_done [OF same] by simp
qed simp

lemma rtl_requests:
  assumes "moves_at vs (sys, ram) = Some m'" and "u32s sys" and "u32s ram" and "length ram \<le> 65536" and "281 \<le> w"
  defines "is \<equiv> concat (map (request w) vs)" and "d \<equiv> engine_start rtl_fifo_reset sys ram"
  shows "mm_ram (en_mem (engine_run rtl_ops is d)) = fst m'" "br_mem (mv_bram (en_move (engine_run rtl_ops is d))) = snd m'"
    "engine_pulses rtl_ops is d = length vs" "movement_ready rtl_ops (en_move (engine_run rtl_ops is d))"
proof -
  let ?e = "engine_start late_queue_reset sys ram"
  obtain e' where e': "leads is ?e e' (length vs)" "engine_rest m' e'"
    using run_requests [OF assms(1) _ _ _ start_rest assms(5)] assms(2-4) unfolding is_def by auto
  have same: "same_engine d ?e" unfolding d_def by (rule same_engine_start)
  have end_same: "same_engine (engine_run rtl_ops is d) e'"
    using same_engine_run [OF same, of "is"] e'(1) by (simp add: leads_def)
  then have m: "same_move (en_move (engine_run rtl_ops is d)) (en_move e')" "en_mem (engine_run rtl_ops is d) = en_mem e'"
    "takers_ok (en_move e')" by (simp_all add: same_engine_def)
  show "mm_ram (en_mem (engine_run rtl_ops is d)) = fst m'" "br_mem (mv_bram (en_move (engine_run rtl_ops is d))) = snd m'"
    using rest_memories [OF e'(2)] m by (simp_all add: same_move_def)
  show "engine_pulses rtl_ops is d = length vs" using same_pulses [OF same] e'(1) by (simp add: leads_def)
  show "movement_ready rtl_ops (en_move (engine_run rtl_ops is d))"
    using rest_memories [OF e'(2)] same_moveD(8) [OF m(1,3)] by (simp add: movement_ready_def rtl_ops_def)
qed

text \<open>The golden model's event loop takes the descriptors from the same addresses.\<close>

abbreviation slot_addresses :: "int \<Rightarrow> int \<Rightarrow> int \<Rightarrow> nat \<Rightarrow> int list" where
  "slot_addresses base rlen h n \<equiv> map (\<lambda>i. base + i * 16) (slots rlen h n)"

lemma dma_fits_longer: "dma_fits k d m \<Longrightarrow> dma_fits 255 d m"
proof -
  have "int (dma_beats d) \<le> 255" using pos_mod_bound [of 256 "w2 d"] by (simp add: dma_beats_def)
  then show "dma_fits k d m \<Longrightarrow> dma_fits 255 d m" by (cases m) (simp add: dma_fits_def Let_def split: if_splits)
qed

lemma run_moves:
  assumes "dma_run k n base rlen h m = Some (ds, m')" and "\<forall>d \<in> set ds. 1 \<le> dma_beats d"
    and "0 \<le> h" and "h < rlen" and "u32s (fst m)" and "u32s (snd m)"
    and "\<forall>i. 0 \<le> i \<and> i < rlen \<longrightarrow> 0 \<le> base + i * 16 \<and> base + i * 16 < 2 ^ 32 \<and>
      int (slot_word base i) = (base + i * 16) div 4 \<and> slot_word base i + 4 \<le> length (fst m)"
  shows "moves_at (slot_addresses base rlen h n) m = Some m'"
  using assms
proof (induction n arbitrary: h m ds)
  case 0
  then show ?case by (simp add: slots_def)
next
  case (Suc n)
  let ?d = "desc_at (fst m) (slot_word base h)" and ?h = "(h + 1) mod rlen"
  have slots: "slots rlen h (Suc n) = h # slots rlen ?h n" using Suc.prems(3,4) by (simp add: slots_Cons)
  from Suc.prems(1) obtain es where fits: "dma_fits k ?d m" and ds: "ds = ?d # es"
    and rest: "dma_run k n base rlen ?h (dma_move ?d m) = Some (es, m')"
    by (auto simp: Let_def split: if_splits option.splits)
  note keeps = dma_move_keeps [OF fits Suc.prems(5,6)]
  have slot: "0 \<le> base + h * 16" "base + h * 16 < 2 ^ 32" "int (slot_word base h) = (base + h * 16) div 4"
    "slot_word base h + 4 \<le> length (fst m)"
    using Suc.prems(3,4,7) by blast+
  have word: "nat ((base + h * 16) div 4) = slot_word base h" using slot(3) by linarith
  have here: "move_at (base + h * 16) m = dma_move ?d m" by (simp only: move_at_def word)
  have "rtl_fits (base + h * 16) m"
    using slot(1,2,4) fits Suc.prems(2) dma_fits_longer unfolding rtl_fits_def word Let_def ds by auto
  moreover have "moves_at (slot_addresses base rlen ?h n) (dma_move ?d m) = Some m'"
    using Suc.prems(2-4,7) keeps by (intro Suc.IH [OF rest]) (auto simp: ds)
  ultimately show ?case by (simp add: slots here)
qed

text \<open>What the event loop drains is the block copies of the pending slots.\<close>

lemma golden_moves:
  assumes "golden_ok g" and "is_enabled (rm_csr (gd_ring g))" and "length (pending (gd_ring g)) < MAX_ITERS"
    and run: "dma_run (queue_length (am_mid (g_axi g))) (length (pending (gd_ring g))) (base_of (gd_ring g)) (rlen_of (gd_ring g))
      (head_of (gd_ring g)) (smem g, bram g) = Some (ds, m')"
    and "\<forall>d \<in> set ds. 1 \<le> dma_beats d"
  shows "\<exists>g'. hardware_phase g = (Inr (map pack ds), g') \<and> (smem g', bram g') = m' \<and>
    moves_at (slot_addresses (base_of (gd_ring g)) (rlen_of (gd_ring g)) (head_of (gd_ring g)) (length (pending (gd_ring g))))
      (smem g, bram g) = Some m'"
proof -
  have r: "ring_ok (gd_ring g)" using assms(1) by (simp add: golden_ok_def)
  have "moves_at (slot_addresses (base_of (gd_ring g)) (rlen_of (gd_ring g)) (head_of (gd_ring g)) (length (pending (gd_ring g))))
      (smem g, bram g) = Some m'"
    using head_range [OF r] golden_okD(7,8) [OF assms(1)] slot_facts(2,3,6,7) [OF r]
    by (intro run_moves [OF run assms(5)]) auto
  then show ?thesis using hardware_drains [OF assms(1-3) run] by blast
qed

section \<open>A length of zero\<close>

text \<open>Into the SRAM: one word is read and one is written, and both sides are done.\<close>

lemma zero_beats_in:
  "leads [quiet, quiet, quiet] (eng (fetch_idle Fetch_normal) (mover GET_DATA mi ma ms) (master Dm_rd_r src 0 False 0 ad)
      (ctrl S_writing dst 0 True 0) (block_ram ram x) q64 q64 q16 q16 q16 q64 False False (memory sys R_ISSUE src 0 0 W_IDLE wa wl wb False))
    (eng (fetch_idle Fetch_normal) (mover GET_DATA mi ma ms) (master Wait_sram src 0 False 0 ad)
      (ctrl S_wait_axi (inc32 dst) 0 True 1) (block_ram (ram[nat (dst mod int (length ram)) := word_in sys (drop_bit 2 src)]) (ram ! 0))
      q64 q64 q16 q16 q16 q64 False False (memory sys R_IDLE src 0 0 W_IDLE wa wl wb False)) 0"
  by (simp add: leads_def clocks sram_last_def inc8_def)

text \<open>Out of it: one word is written, and the master waits for the 256th.\<close>

definition zero_stuck :: "int list \<Rightarrow> int list \<Rightarrow> late_queue engine_hw \<Rightarrow> bool" where
  "zero_stuck sys ram e \<longleftrightarrow> (\<exists>mi ma ms av ad sv ra rl rb wa. e = eng (fetch_idle Fetch_normal) (mover GET_DATA mi ma ms)
     (master Dm_wr_w av 0 True 1 ad) (ctrl S_wait_axi sv 0 False 1) (block_ram ram (ram ! 0))
     q64 q64 q16 q16 q16 q64 False False (memory sys R_IDLE ra rl rb W_DATA wa 0 1 False))"

lemma zero_stuckI:
  "zero_stuck sys ram (eng (fetch_idle Fetch_normal) (mover GET_DATA mi ma ms) (master Dm_wr_w av 0 True 1 ad) (ctrl S_wait_axi sv 0 False 1)
     (block_ram ram (ram ! 0)) q64 q64 q16 q16 q16 q64 False False (memory sys R_IDLE ra rl rb W_DATA wa 0 1 False))"
  unfolding zero_stuck_def by (intro exI) (rule refl)

lemma zero_stays:
  assumes "zero_stuck sys ram e"
  shows "engine_clock lq_ops quiet e = e" and "\<not> mv_done (en_move e)" and "ah_state (mv_master (en_move e)) = Dm_wr_w"
    and "mm_ram (en_mem e) = sys" and "br_mem (mv_bram (en_move e)) = ram"
  using assms unfolding zero_stuck_def by (auto simp: clocks) (auto simp: eng_def)

lemma zero_beats_out:
  assumes "0 \<le> dst" and "drop_bit 2 dst < int (length sys)"
  shows "leads [quiet, quiet, quiet] (eng (fetch_idle Fetch_normal) (mover GET_DATA mi ma ms) (master Dm_wr_aw dst 0 True 0 ad)
      (ctrl S_reading sv 0 False 0) (block_ram ram x) q64 q64 q16 q16 q16 q64 False False (memory sys R_IDLE ra rl rb W_IDLE wa wl wb False))
    (eng (fetch_idle Fetch_normal) (mover GET_DATA mi ma ms) (master Dm_wr_w dst 0 True 1 ad)
      (ctrl S_wait_axi (inc32 sv) 0 False 1) (block_ram ram (ram ! 0)) q64 q64 q16 q16 q16 q64 False False
      (memory (sys[nat (drop_bit 2 dst) := x]) R_IDLE ra rl rb W_DATA dst 0 1 False)) 0"
  using assms by (simp add: leads_def clocks sram_last_def last_beat_def inc8_def)

lemma stuck_run:
  assumes "engine_clock ops i e = e"
  shows "engine_run ops (replicate n i) e = e" and "\<not> mv_done (en_move e) \<Longrightarrow> engine_pulses ops (replicate n i) e = 0"
  using assms by (induction n) simp_all

text \<open>One descriptor of length zero, whose first words exist on both sides.\<close>

lemma zero_descriptor:
  assumes "0 \<le> v" and "v < 2 ^ 32" and "nat (v div 4) + 4 \<le> length sys" and "u32s sys" and "length ram \<le> 65536"
    and "engine_rest (sys, ram) e" and "d = desc_at sys (nat (v div 4))" and "dma_beats d = 0" and "40 \<le> w"
    and "if odd (w3 d) then nat (w0 d div 4) < length sys \<and> nat (w1 d div 4) < length ram
      else nat (w0 d div 4) < length ram \<and> nat (w1 d div 4) < length sys"
  shows "if odd (w3 d)
    then \<exists>e'. leads (request w v) e e' 1 \<and> engine_rest (sys, ram[nat (w1 d div 4) := sys ! nat (w0 d div 4)]) e'
    else \<exists>e'. engine_run lq_ops (request w v) e = e' \<and> engine_pulses lq_ops (request w v) e = 0 \<and>
      zero_stuck (sys[nat (w1 d div 4) := ram ! nat (w0 d div 4)]) ram e'"
proof -
  have ok: "desc_ok d" unfolding assms(7) by (rule desc_at_ok [OF assms(4,3)])
  have w: "0 \<le> w0 d" "w0 d < 2 ^ 32" "0 \<le> w1 d" "w1 d < 2 ^ 32" using ok by (simp_all add: desc_ok_def)
  have n: "w2 d mod 256 = 0" using assms(8) pos_mod_sign [of 256 "w2 d"] by (simp add: dma_beats_def)
  have quarter: "drop_bit 2 x = x div 4" "0 \<le> x \<Longrightarrow> int (nat (x div 4)) = x div 4" for x :: int
    by (simp_all add: drop_bit_eq_div)
  have inside: "odd (w3 d) \<Longrightarrow> w0 d div 4 < int (length sys) \<and> w1 d div 4 < int (length ram)"
    "even (w3 d) \<Longrightarrow> w0 d div 4 < int (length ram) \<and> w1 d div 4 < int (length sys)"
    using assms(10) w by (auto simp: nat_less_iff split: if_splits)
  have "desc_end_addr (pack d) \<le> MAX_SRAM_ADDR"
    using inside n w assms(5)
    by (auto simp: desc_end_addr_def ok Let_def MAX_SRAM_ADDR_def drop_bit_eq_div odd_iff_mod_2_eq_one split: if_splits)
  from front [of v "(sys, ram)" e, OF assms(1,2) _ _ assms(6) _ this] assms(3,4,7) obtain e1 ia ir where
    e1: "leads (ask_in v True # replicate 18 quiet) e e1 0" "instructed (sys, ram) ia ir e1"
    and pair: "(narrow_instr ia, narrow_instr ir) = desc_to_instr_pair d" by auto
  obtain mi ma ms av an aw ak ad sv sn sw sk x ra rl rb wa wl wb where e1': "e1 = eng (fetch_idle Fetch_normal)
      (mover GET_DATA mi ma ms) (master Idle av an aw ak ad) (ctrl S_idle sv sn sw sk) (block_ram ram x)
      q64 q64 q16 (queue 16 [ia] False) (queue 16 [ir] False) q64 False False (memory sys R_IDLE ra rl rb W_IDLE wa wl wb False)"
    using e1(2) by (auto simp: instructed_def)
  show ?thesis
  proof (cases "odd (w3 d)")
    case True
    have narrow: "narrow_instr ia = pack_instruction (w0 d) (w2 d) False" "narrow_instr ir = pack_instruction (w1 d) (w2 d) True"
      using pair True by (simp_all add: instr_pair)
    have word: "word_in sys (drop_bit 2 (w0 d)) = sys ! nat (w0 d div 4)" "nat (w1 d div 4 mod int (length ram)) = nat (w1 d div 4)"
      using inside(1) [OF True] w by (simp_all add: word_in_def quarter)
    let ?ram = "ram[nat (w1 d div 4) := sys ! nat (w0 d div 4)]"
    have zero: "burst_len 0 = 0" by (simp add: burst_len_def)
    note steps = leads_trans [OF leads_trans [OF front_to_sram [OF narrow w, unfolded n zero] zero_beats_in] handshake]
    have "\<exists>e2. leads (([quiet, quiet, quiet] @ [quiet, quiet, quiet]) @ [quiet, quiet]) e1 e2 (0 + 0 + 1) \<and>
      engine_rest (sys, ram[nat (w1 d div 4 mod int (length ram)) := word_in sys (drop_bit 2 (w0 d))]) e2"
      unfolding e1' by (intro exI conjI) (rule steps, rule engine_restI)
    then obtain e2 where e2: "leads (([quiet, quiet, quiet] @ [quiet, quiet, quiet]) @ [quiet, quiet]) e1 e2 (0 + 0 + 1)"
      "engine_rest (sys, ram[nat (w1 d div 4 mod int (length ram)) := word_in sys (drop_bit 2 (w0 d))]) e2" by blast
    have eight: "([quiet, quiet, quiet] @ [quiet, quiet, quiet]) @ [quiet, quiet] = replicate 8 quiet" by (simp add: eval_nat_numeral)
    note e2 = e2 [unfolded word eight add_0]
    obtain e' where e': "leads (replicate (w - 26) quiet) e2 e' 0" "engine_rest (sys, ?ram) e'"
      using rest_quiet [OF e2(2)] by blast
    have "(ask_in v True # replicate 18 quiet) @ replicate 8 quiet @ replicate (w - 26) quiet = request w v"
      using assms(9) by (simp add: request_def replicate_add [symmetric])
    then show ?thesis using leads_trans [OF e1(1) leads_trans [OF e2(1) e'(1)]] e'(2) True by auto
  next
    case False
    have narrow: "narrow_instr ia = pack_instruction (w1 d) (w2 d) True" "narrow_instr ir = pack_instruction (w0 d) (w2 d) False"
      using pair False by (simp_all add: instr_pair)
    have word: "nat (w0 d div 4 mod int (length ram)) = nat (w0 d div 4)" "nat (drop_bit 2 (w1 d)) = nat (w1 d div 4)"
      using inside(2) False w by (simp_all add: quarter)
    let ?sys = "sys[nat (w1 d div 4) := ram ! nat (w0 d div 4)]"
    have last: "drop_bit 2 (w1 d) < int (length sys)" using inside(2) False by (simp add: quarter)
    note steps = leads_trans [OF front_to_system [OF narrow w, unfolded n] zero_beats_out [OF w(3) last]]
    have "\<exists>e2. leads ([quiet, quiet] @ [quiet, quiet, quiet]) e1 e2 (0 + 0) \<and>
      zero_stuck (sys[nat (drop_bit 2 (w1 d)) := ram ! nat (w0 d div 4 mod int (length ram))]) ram e2"
      unfolding e1' by (intro exI conjI) (rule steps, rule zero_stuckI)
    then obtain e2 where e2: "leads ([quiet, quiet] @ [quiet, quiet, quiet]) e1 e2 (0 + 0)"
      "zero_stuck (sys[nat (drop_bit 2 (w1 d)) := ram ! nat (w0 d div 4 mod int (length ram))]) ram e2" by blast
    have five: "[quiet, quiet] @ [quiet, quiet, quiet] = replicate 5 quiet" by (simp add: eval_nat_numeral)
    note e2 = e2 [unfolded word five add_0]
    have "(ask_in v True # replicate 18 quiet) @ replicate 5 quiet @ replicate (w - 23) quiet = request w v"
      using assms(9) by (simp add: request_def replicate_add [symmetric])
    moreover have "engine_run lq_ops (replicate (w - 23) quiet) e2 = e2" "engine_pulses lq_ops (replicate (w - 23) quiet) e2 = 0"
      using stuck_run [OF zero_stays(1) [OF e2(2)]] zero_stays(2) [OF e2(2)] by simp_all
    ultimately show ?thesis
      using leads_trans [OF e1(1) e2(1)] e2(2) False engine_append [of lq_ops "(ask_in v True # replicate 18 quiet) @ replicate 5 quiet" "replicate (w - 23) quiet" e]
      by (auto simp: leads_def)
  qed
qed

lemma same_start_run:
  assumes "same_engine (engine_run rtl_ops is d) e"
  shows "mm_ram (en_mem (engine_run rtl_ops is d)) = mm_ram (en_mem e)"
    "br_mem (mv_bram (en_move (engine_run rtl_ops is d))) = br_mem (mv_bram (en_move e))"
    "mv_master (en_move (engine_run rtl_ops is d)) = mv_master (en_move e)"
  using assms by (simp_all add: same_engine_def same_move_def)

section \<open>Properties\<close>

text \<open>
  C5. The datapath of \<open>rtl/movement_top.sv\<close>, with the FIFOs of \<open>fifo.sv\<close> and the memory of
  \<open>sys_mem.sv\<close> on its AXI port, out of reset: when the ring manager offers a list of descriptor
  addresses one after the other, 281 or more clocks apart, every transfer that fits is the block copy of
  the specification, each transfer raises \<open>dm_done\<close> for one clock, and the engine is ready for the next
  request.
\<close>

theorem rtl_moves_descriptors:
  assumes "moves_at vs (sys, ram) = Some (sys', ram')" and "u32s sys" and "u32s ram" and "length ram \<le> 65536" and "281 \<le> w"
  shows "let is = concat (map (request w) vs); start = engine_start rtl_fifo_reset sys ram; e = engine_run rtl_ops is start
    in mm_ram (en_mem e) = sys' \<and> br_mem (mv_bram (en_move e)) = ram' \<and> engine_pulses rtl_ops is start = length vs \<and>
       movement_ready rtl_ops (en_move e)"
  using rtl_requests [OF assms] by (simp add: Let_def)

text \<open>
  The hardware and the golden model agree: for any machine the event loop of \<open>run_golden.py\<close> drains
  without an exception and whose descriptors have at least one word, the datapath started on the same
  memories and asked for the same ring slots ends with the memories of the golden model.
\<close>

theorem rtl_agrees_with_golden:
  assumes "golden_ok g" and "is_enabled (rm_csr (gd_ring g))"
    and "length (pending (gd_ring g)) < MAX_ITERS"
    and "dma_run (queue_length (am_mid (g_axi g))) (length (pending (gd_ring g)))
      (csr_baseaddr (rm_csr (gd_ring g))) (csr_ringlen (rm_csr (gd_ring g)))
      (csr_read (rm_csr (gd_ring g)) REG_HEAD) (smem g, bram g) = Some (ds, m')"
    and "\<forall>d \<in> set ds. 1 \<le> dma_beats d" and "length (bram g) \<le> 65536" and "281 \<le> w"
  shows "\<exists>g'. hardware_phase g = (Inr (map pack ds), g') \<and>
    (let is = concat (map (request w) (slot_addresses (csr_baseaddr (rm_csr (gd_ring g))) (csr_ringlen (rm_csr (gd_ring g)))
           (csr_read (rm_csr (gd_ring g)) REG_HEAD) (length (pending (gd_ring g)))));
         e = engine_run rtl_ops is (engine_start rtl_fifo_reset (smem g) (bram g))
     in mm_ram (en_mem e) = smem g' \<and> br_mem (mv_bram (en_move e)) = bram g')"
proof -
  obtain g' where g': "hardware_phase g = (Inr (map pack ds), g')" "(smem g', bram g') = m'"
    and moves: "moves_at (slot_addresses (base_of (gd_ring g)) (rlen_of (gd_ring g)) (head_of (gd_ring g)) (length (pending (gd_ring g))))
      (smem g, bram g) = Some m'"
    using golden_moves [OF assms(1-3) _ assms(5)] assms(4) by (auto simp: csr_baseaddr_def csr_ringlen_def csr_read_def)
  from rtl_requests [OF moves golden_okD(7,8) [OF assms(1)] assms(6,7)] g'
  show ?thesis
    by (intro exI [of _ g']) (auto simp: Let_def csr_baseaddr_def csr_ringlen_def csr_read_def)
qed

theorem rtl_agrees_with_golden_witness:
  "\<exists>g'. hardware_phase small_golden = (Inr [pack small_d1, pack small_d2], g') \<and>
    (let e = engine_run rtl_ops (request 300 0 @ request 300 16) (engine_start rtl_fifo_reset small_words (replicate 8 0))
     in mm_ram (en_mem e) = smem g' \<and> br_mem (mv_bram (en_move e)) = bram g')"
proof -
  have slots: "slots 4 0 (Suc (Suc 0)) = [0, 1]" by (simp add: slots_def upt_rec)
  show ?thesis
    using rtl_agrees_with_golden [OF small_golden_ok small_enabled, of "[small_d1, small_d2]" small_result 300]
      small_run [unfolded numeral_2_eq_2]
    unfolding small_pending small_golden_parts csr_baseaddr_def csr_ringlen_def csr_read_def small_golden_regs
    by (simp add: MAX_ITERS_def reg_offsets dma_beats_def slots del: dma_run.simps)
qed

theorem rtl_moves_descriptors_witness:
  "engine_pulses rtl_ops (concat (map (request 300) [0, 16])) (engine_start rtl_fifo_reset small_words (replicate 8 0)) = 2"
proof -
  have "moves_at [0, 16] (small_words, replicate 8 0) = Some (fst small_result, snd small_result)"
    by (simp add: rtl_fits_def move_at_def desc_at_def dma_move_def dma_fits_def dma_beats_def small_words_def small_result_def Let_def
        load_block_def store_block_def eval_nat_numeral)
  moreover have "u32s small_words" "u32s (replicate 8 0)" by (simp_all add: u32s_def small_words_def)
  ultimately show ?thesis
    using rtl_moves_descriptors [of "[0, 16]" small_words "replicate 8 0" "fst small_result" "snd small_result" 300]
    by (simp add: Let_def)
qed

text \<open>
  C18. A length of zero is where the two part. For every pending descriptor whose LEN is a multiple of 256, with its
  system address aligned and its first words inside both memories, the event loop of \<open>run_golden.py\<close> completes the
  descriptor and goes on with both memories as they were. The hardware, asked for the same ring slot out of
  reset and given \<open>40\<close> clocks or more, has copied one word: into the SRAM with one completion pulse, or into system
  memory, where it waits for a last beat for ever: the master is in its write state, and \<open>dm_done\<close> has not
  been raised.
\<close>

theorem zero_length_diverges:
  assumes "golden_ok g" and "pending (gd_ring g) = d # ds" and "dma_beats d = 0" and "length (bram g) \<le> 65536"
    and "(if odd (w3 d) then w0 d else w1 d) mod 4 = 0"
    and "if odd (w3 d) then nat (w0 d div 4) < length (smem g) \<and> nat (w1 d div 4) < length (bram g)
      else nat (w0 d div 4) < length (bram g) \<and> nat (w1 d div 4) < length (smem g)"
    and "40 \<le> w"
  shows "(\<exists>g'. (\<forall>k. event_loop (Suc k) acc g = event_loop k (acc @ [pack d]) g') \<and> smem g' = smem g \<and> bram g' = bram g) \<and>
    (let src = nat (w0 d div 4); dst = nat (w1 d div 4); c = rm_csr (gd_ring g);
         is = request w (csr_baseaddr c + csr_read c REG_HEAD * 16);
         start = engine_start rtl_fifo_reset (smem g) (bram g); e = engine_run rtl_ops is start
     in if odd (w3 d)
        then mm_ram (en_mem e) = smem g \<and> br_mem (mv_bram (en_move e)) = (bram g)[dst := smem g ! src] \<and>
          engine_pulses rtl_ops is start = 1
        else mm_ram (en_mem e) = (smem g)[dst := bram g ! src] \<and> br_mem (mv_bram (en_move e)) = bram g \<and>
          engine_pulses rtl_ops is start = 0 \<and> ah_state (mv_master (en_move e)) = Dm_wr_w)"
proof -
  have r: "ring_ok (gd_ring g)" using assms(1) by (simp add: golden_ok_def)
  let ?h = "head_of (gd_ring g)" and ?b = "base_of (gd_ring g)"
  note slot = slot_facts(2,3,6,7) [OF r, of ?h] and h = head_range [OF r]
  have at: "csr_baseaddr (rm_csr (gd_ring g)) + csr_read (rm_csr (gd_ring g)) REG_HEAD * 16 = ?b + ?h * 16"
    by (simp add: csr_baseaddr_def csr_read_def)
  have d: "d = desc_at (smem g) (slot_word ?b ?h)" using pending_Cons(1) [OF r assms(2)] by simp
  have word: "slot_word ?b ?h = nat ((?b + ?h * 16) div 4)" using slot(3) h by linarith
  have "0 \<le> queue_length (am_mid (g_axi g))" using assms(1) by (simp add: golden_ok_def ring_ok_def axi_ok_def fifo_ok_def)
  then have "dma_fits (queue_length (am_mid (g_axi g))) d (smem g, bram g)" "dma_move d (smem g, bram g) = (smem g, bram g)"
    using assms(3,5,6) by (auto simp: dma_fits_def dma_move_def Let_def split: if_splits)
  then have "dma_run (queue_length (am_mid (g_axi g))) 1 ?b (rlen_of (gd_ring g)) ?h (smem g, bram g) = Some ([d], smem g, bram g)"
    by (simp add: d [symmetric])
  then have golden: "\<exists>g'. (\<forall>k. event_loop (Suc k) acc g = event_loop k (acc @ [pack d]) g') \<and> smem g' = smem g \<and> bram g' = bram g"
    using event_prefix [OF assms(1), of 1 "[d]" "(smem g, bram g)" acc] assms(2) by auto
  let ?is = "request w (?b + ?h * 16)" and ?s = "engine_start rtl_fifo_reset (smem g) (bram g)"
    and ?t = "engine_start late_queue_reset (smem g) (bram g)"
  note same = same_start_run [OF same_engine_run [OF same_engine_start, of ?is "smem g" "bram g"]]
    and pulses = same_pulses [OF same_engine_start, of ?is "smem g" "bram g"]
  have fit: "0 \<le> ?b + ?h * 16" "?b + ?h * 16 < 2 ^ 32" "nat ((?b + ?h * 16) div 4) + 4 \<le> length (smem g)"
    using slot h word by auto
  note zero = zero_descriptor [OF fit golden_okD(7) [OF assms(1)] assms(4) start_rest d [unfolded word] assms(3,7,6)]
  show ?thesis
  proof (cases "odd (w3 d)")
    case True
    with zero obtain e' where e': "leads ?is ?t e' 1"
      "engine_rest (smem g, (bram g)[nat (w1 d div 4) := smem g ! nat (w0 d div 4)]) e'" by auto
    have run: "engine_run lq_ops ?is ?t = e'" "engine_pulses lq_ops ?is ?t = 1" using e'(1) by (simp_all add: leads_def)
    show ?thesis unfolding at Let_def same pulses run by (rule conjI [OF golden]) (use rest_memories [OF e'(2)] True in simp)
  next
    case False
    with zero obtain e' where run: "engine_run lq_ops ?is ?t = e'" "engine_pulses lq_ops ?is ?t = 0"
      and e': "zero_stuck ((smem g)[nat (w1 d div 4) := bram g ! nat (w0 d div 4)]) (bram g) e'" by auto
    show ?thesis unfolding at Let_def same pulses run by (rule conjI [OF golden]) (use zero_stays(3-5) [OF e'] False in simp)
  qed
qed

text \<open>The small machine with two descriptors of length zero, one in each direction.\<close>

abbreviation zero_golden :: "int \<Rightarrow> golden" where
  "zero_golden f \<equiv> with_mems ([64, 4, 0, f] @ drop 4 small_words, replicate 8 5) small_golden"

lemma zero_golden_ok: "f < 2 \<Longrightarrow> 0 \<le> f \<Longrightarrow> golden_ok (zero_golden f)"
  by (rule golden_ok_with_mems [OF small_golden_ok]) (simp_all add: small_golden_parts small_words_def u32s_def)

lemma zero_golden_pending: "pending (gd_ring (zero_golden f)) = [\<lparr>w0 = 64, w1 = 4, w2 = 0, w3 = f\<rparr>, small_d2]"
  unfolding pending_def with_mems_simps small_golden_regs
  by (simp add: reg_offsets ring_count_def slots_def desc_at_def slot_word_def small_words_def upt_rec)

theorem zero_length_diverges_witness:
  "br_mem (mv_bram (en_move (engine_run rtl_ops (request 40 0)
     (engine_start rtl_fifo_reset (smem (zero_golden 1)) (replicate 8 5))))) = (replicate 8 5)[1 := 11]"
proof -
  let ?g = "zero_golden 1"
  have base: "csr_baseaddr (rm_csr (gd_ring ?g)) + csr_read (rm_csr (gd_ring ?g)) REG_HEAD * 16 = 0"
    by (simp add: csr_baseaddr_def csr_read_def small_golden_regs reg_offsets)
  have mems: "bram ?g = replicate 8 5" "smem ?g = [64, 4, 0, 1] @ drop 4 small_words" "length small_words = 32"
    "small_words ! 16 = 11" by (simp_all add: small_words_def nth_append)
  have "br_mem (mv_bram (en_move (engine_run rtl_ops (request 40 0) (engine_start rtl_fifo_reset (smem ?g) (bram ?g)))))
      = (bram ?g)[1 := smem ?g ! 16]"
    using conjunct2 [OF zero_length_diverges [OF zero_golden_ok zero_golden_pending, of 1 40]]
    unfolding base Let_def by (simp add: dma_beats_def mems)
  then show ?thesis by (simp add: mems nth_append)
qed

end
