(* ===== verification/Rtl_Csr.thy ===== *)
theory Rtl_Csr
  imports Irq_Axi_Lite Memory_Model
begin

text \<open>
  The register file of the hardware, \<open>rtl/csr.sv\<close>, clock by clock: its registers, what it reads, its next
  state. The theory shows what it answers over its AXI-Lite port to any sequence of accesses: on plain accesses what
  \<open>axi-lite.py\<close> and \<open>csr.py\<close> answer, and what it does beyond them with strobes, read-only and unmapped offsets, and CTRL.RESET.
\<close>

section \<open>Registers and ports\<close>

record csr_hw =
  ch_baseaddr :: int
  ch_ringlen :: int
  ch_tail :: int
  ch_ctrl :: int
  ch_status_error :: bool
  ch_irq_empty :: bool
  ch_irq_error :: bool
  ch_aw_pending :: bool
  ch_awaddr :: int
  ch_w_pending :: bool
  ch_wdata :: int
  ch_wstrb :: int
  ch_bvalid :: bool
  ch_bresp :: int
  ch_rdata :: int
  ch_rvalid :: bool
  ch_error_clear :: bool
  ch_clear_pending :: bool
  ch_readback_pending :: bool
  ch_readback_data :: int

definition csr_hw_reset :: csr_hw where
  "csr_hw_reset = \<lparr>ch_baseaddr = 0, ch_ringlen = 0, ch_tail = 0, ch_ctrl = 0, ch_status_error = False, ch_irq_empty = False,
     ch_irq_error = False, ch_aw_pending = False, ch_awaddr = 0, ch_w_pending = False, ch_wdata = 0, ch_wstrb = 0,
     ch_bvalid = False, ch_bresp = 0, ch_rdata = 0, ch_rvalid = False, ch_error_clear = False, ch_clear_pending = False,
     ch_readback_pending = False, ch_readback_data = 0\<rparr>"

text \<open>What the bus master drives, and what the ring manager does.\<close>

record soc_in =
  si_awvalid :: bool
  si_awaddr :: int
  si_wvalid :: bool
  si_wdata :: int
  si_wstrb :: int
  si_bready :: bool
  si_arvalid :: bool
  si_araddr :: int
  si_rready :: bool

record ring_in =
  ri_head :: int
  ri_busy :: bool
  ri_ring_empty :: bool
  ri_irq_empty_set :: bool
  ri_error_set :: bool

section \<open>One clock\<close>

text \<open>\<open>apply_wstrb\<close>: the bytes whose strobe is set come from the new word.\<close>

definition lane_mask :: "int \<Rightarrow> int" where
  "lane_mask wstrb = fold (\<lambda>i m. if bit wstrb i then m OR push_bit (8 * i) 0xFF else m) [0, 1, 2, 3] 0"

definition apply_wstrb :: "int \<Rightarrow> int \<Rightarrow> int \<Rightarrow> int" where
  "apply_wstrb old_data new_data wstrb =
     (old_data AND NOT (lane_mask wstrb)) OR (new_data AND lane_mask wstrb)"

definition status_word :: "ring_in \<Rightarrow> csr_hw \<Rightarrow> int" where
  "status_word r c = of_bool (ri_busy r) + 2 * of_bool (ri_ring_empty r) + 4 * of_bool (ch_status_error c)"

definition irq_status_word :: "csr_hw \<Rightarrow> int" where
  "irq_status_word c = of_bool (ch_irq_empty c) + 2 * of_bool (ch_irq_error c)"

definition read_data :: "int \<Rightarrow> ring_in \<Rightarrow> csr_hw \<Rightarrow> int" where
  "read_data araddr r c =
     (let a = araddr mod 256
      in if a = REG_BASEADDR then ch_baseaddr c
         else if a = REG_RINGLEN then ch_ringlen c
         else if a = REG_HEAD then ri_head r
         else if a = REG_TAIL then ch_tail c
         else if a = REG_CTRL then (if ch_readback_pending c then ch_readback_data c else unset_bit 1 (ch_ctrl c))
         else if a = REG_STATUS then status_word r c
         else if a = REG_IRQ_STATUS then irq_status_word c
         else 0)"

text \<open>Both channels of a write have been captured and no response is pending.\<close>

definition commits :: "csr_hw \<Rightarrow> bool" where
  "commits c \<longleftrightarrow> \<not> ch_bvalid c \<and> ch_aw_pending c \<and> ch_w_pending c"

definition irq_clear_pulse :: "nat \<Rightarrow> csr_hw \<Rightarrow> bool" where
  "irq_clear_pulse b c \<longleftrightarrow> commits c \<and> ch_awaddr c mod 256 = REG_IRQ_CLEAR \<and> bit (apply_wstrb 0 (ch_wdata c) (ch_wstrb c)) b"

text \<open>Capture of the two write channels.\<close>

definition capture :: "soc_in \<Rightarrow> csr_hw \<Rightarrow> csr_hw" where
  "capture i c =
     (let aw_hs = si_awvalid i \<and> \<not> ch_aw_pending c \<and> \<not> ch_bvalid c; w_hs = si_wvalid i \<and> \<not> ch_w_pending c \<and> \<not> ch_bvalid c;
          c1 = (if aw_hs then c\<lparr>ch_aw_pending := True, ch_awaddr := si_awaddr i\<rparr> else c)
      in if w_hs then c1\<lparr>ch_w_pending := True, ch_wdata := si_wdata i, ch_wstrb := si_wstrb i\<rparr> else c1)"

text \<open>The write itself: \<open>c\<close> are the registers at the edge, \<open>n\<close> what has been decided so far.\<close>

definition commit_write :: "csr_hw \<Rightarrow> csr_hw \<Rightarrow> csr_hw" where
  "commit_write c n =
     (let a = ch_awaddr c mod 256; merge = (\<lambda>old. apply_wstrb old (ch_wdata c) (ch_wstrb c));
          masked = merge 0; ctrl = merge (ch_ctrl c)
      in if a = REG_BASEADDR then n\<lparr>ch_baseaddr := merge (ch_baseaddr c)\<rparr>
         else if a = REG_RINGLEN then n\<lparr>ch_ringlen := merge (ch_ringlen c)\<rparr>
         else if a = REG_TAIL then n\<lparr>ch_tail := merge (ch_tail c)\<rparr>
         else if a = REG_CTRL then
           (let n1 = n\<lparr>ch_ctrl := take_bit 3 ctrl\<rparr>
            in if bit ctrl 1 then n1\<lparr>ch_readback_pending := True, ch_readback_data := unset_bit 1 (take_bit 3 ctrl)\<rparr> else n1)
         else if a = REG_IRQ_CLEAR then
           (let n1 = (if bit masked 0 then n\<lparr>ch_irq_empty := False\<rparr> else n)
            in if bit masked 1 then n1\<lparr>ch_irq_error := False, ch_status_error := False, ch_clear_pending := True\<rparr> else n1)
         else n)"

definition respond :: "soc_in \<Rightarrow> csr_hw \<Rightarrow> csr_hw \<Rightarrow> csr_hw" where
  "respond i c n =
     (if commits c
      then (let n1 = commit_write c n in n1\<lparr>ch_aw_pending := False, ch_w_pending := False, ch_bvalid := True,
             ch_bresp := (if ch_bresp n1 \<noteq> 2 then 0 else ch_bresp n1)\<rparr>)
      else if ch_bvalid c \<and> si_bready i
      then (if ch_clear_pending c then n\<lparr>ch_bvalid := False, ch_error_clear := True, ch_clear_pending := False\<rparr>
            else n\<lparr>ch_bvalid := False\<rparr>)
      else n)"

definition read_channel :: "soc_in \<Rightarrow> ring_in \<Rightarrow> csr_hw \<Rightarrow> csr_hw \<Rightarrow> csr_hw" where
  "read_channel i r c n =
     (if si_arvalid i \<and> \<not> ch_rvalid c
      then n\<lparr>ch_rvalid := True, ch_rdata := read_data (si_araddr i) r c, ch_readback_pending := False\<rparr>
      else if ch_rvalid c \<and> si_rready i then n\<lparr>ch_rvalid := False\<rparr> else n)"

definition ring_events :: "ring_in \<Rightarrow> csr_hw \<Rightarrow> csr_hw" where
  "ring_events r n =
     (let n1 = (if ri_irq_empty_set r then n\<lparr>ch_irq_empty := True\<rparr> else n)
      in if ri_error_set r then n1\<lparr>ch_status_error := True, ch_irq_error := True\<rparr> else n1)"

definition soft_reset :: "soc_in \<Rightarrow> csr_hw \<Rightarrow> csr_hw \<Rightarrow> csr_hw" where
  "soft_reset i c n =
     (if bit (ch_ctrl c) 1 \<and> \<not> ch_bvalid c \<and> \<not> si_arvalid i \<and> \<not> ch_rvalid c
      then n\<lparr>ch_baseaddr := 0, ch_ringlen := 0, ch_tail := 0, ch_ctrl := 0, ch_status_error := False, ch_irq_empty := False,
        ch_irq_error := False, ch_error_clear := True\<rparr>
      else n)"

definition csr_clock :: "soc_in \<Rightarrow> ring_in \<Rightarrow> csr_hw \<Rightarrow> csr_hw" where
  "csr_clock i r c =
     soft_reset i c (ring_events r (read_channel i r c (respond i c (capture i (c\<lparr>ch_error_clear := False\<rparr>)))))"

text \<open>The interrupt line.\<close>

definition csr_irq :: "csr_hw \<Rightarrow> bool" where
  "csr_irq c \<longleftrightarrow> bit (ch_ctrl c) 2 \<and> (ch_irq_empty c \<or> ch_irq_error c)"

section \<open>Transactions\<close>

text \<open>
  The two channels of a write may arrive together or one before the other, any number of clocks
  apart, and the master may let the response wait.
\<close>

datatype arrival = Together | AddressFirst nat | DataFirst nat

definition bus_idle :: soc_in where
  "bus_idle = \<lparr>si_awvalid = False, si_awaddr = 0, si_wvalid = False, si_wdata = 0, si_wstrb = 0, si_bready = False,
     si_arvalid = False, si_araddr = 0, si_rready = False\<rparr>"

definition write_clocks :: "arrival \<Rightarrow> nat \<Rightarrow> int \<Rightarrow> int \<Rightarrow> int \<Rightarrow> soc_in list" where
  "write_clocks arr k a d st =
     (let aw = (\<lambda>i. i\<lparr>si_awvalid := True, si_awaddr := a\<rparr>); w = (\<lambda>i. i\<lparr>si_wvalid := True, si_wdata := d, si_wstrb := st\<rparr>)
      in (case arr of Together \<Rightarrow> [aw (w bus_idle)]
          | AddressFirst n \<Rightarrow> aw bus_idle # replicate n bus_idle @ [w bus_idle]
          | DataFirst n \<Rightarrow> w bus_idle # replicate n bus_idle @ [aw bus_idle])
         @ bus_idle # replicate k bus_idle @ [bus_idle\<lparr>si_bready := True\<rparr>])"

definition csr_clocks :: "soc_in list \<Rightarrow> ring_in \<Rightarrow> csr_hw \<Rightarrow> csr_hw" where
  "csr_clocks is r = fold (\<lambda>i. csr_clock i r) is"

text \<open>A read and the value it returns while \<open>rvalid\<close> is up.\<close>

definition rtl_read :: "nat \<Rightarrow> int \<Rightarrow> ring_in \<Rightarrow> csr_hw \<Rightarrow> int \<times> csr_hw" where
  "rtl_read k a r c =
     (let c1 = csr_clocks (bus_idle\<lparr>si_arvalid := True, si_araddr := a\<rparr> # replicate k bus_idle) r c
      in (ch_rdata c1, csr_clock (bus_idle\<lparr>si_rready := True\<rparr>) r c1))"

text \<open>Accesses over the bus, with the strobes of a write, and clocks in which the ring manager reports something.\<close>

datatype reg_event = Read int nat | Write int int int arrival nat | Report ring_in

definition levels :: "ring_in \<Rightarrow> ring_in" where
  "levels r = r\<lparr>ri_irq_empty_set := False, ri_error_set := False\<rparr>"

fun rtl_events :: "reg_event list \<Rightarrow> ring_in \<Rightarrow> csr_hw \<Rightarrow> int list \<times> ring_in \<times> csr_hw" where
  "rtl_events [] r c = ([], r, c)"
| "rtl_events (Read a k # es) r c =
     (case rtl_read k a r c of (v, c1) \<Rightarrow> (case rtl_events es r c1 of (vs, x) \<Rightarrow> (v # vs, x)))"
| "rtl_events (Write a d st arr k # es) r c = rtl_events es r (csr_clocks (write_clocks arr k a d st) r c)"
| "rtl_events (Report r' # es) r c = rtl_events es (levels r') (csr_clock bus_idle r' c)"

text \<open>The same on the registers of \<open>csr.py\<close>: the accesses of \<open>axi-lite.py\<close>, and the hooks the ring manager calls.\<close>

definition model_report :: "ring_in \<Rightarrow> csr \<Rightarrow> csr" where
  "model_report r c =
     (let c1 = hw_set_ring_empty (ri_ring_empty r) (hw_set_busy (ri_busy r) (hw_set_head (ri_head r) c));
          c2 = (if ri_irq_empty_set r then hw_set_empty_irq c1 else c1)
      in if ri_error_set r then hw_set_error c2 else c2)"

fun model_events :: "reg_event list \<Rightarrow> csr \<Rightarrow> int list \<times> csr" where
  "model_events [] c = ([], c)"
| "model_events (Read a k # es) c = (case model_events es c of (vs, c1) \<Rightarrow> (fst (bus_spec [BusRead a] c) @ vs, c1))"
| "model_events (Write a d st arr k # es) c = model_events es (snd (bus_spec [BusWrite a d] c))"
| "model_events (Report r # es) c = model_events es (model_report r c)"

text \<open>
  What \<open>csr.sv\<close> does beyond \<open>csr.py\<close>, on the registers of \<open>csr.py\<close>: the strobes select the bytes of the register that are
  written; a write to IRQ_STATUS or to an offset that is not mapped is ignored; CTRL.RESET clears the registers software
  owns at the next clock without a read, and the first read afterwards still finds the CTRL word that was written, less
  that bit.
\<close>

definition soc_write :: "int \<Rightarrow> int \<Rightarrow> int \<Rightarrow> csr \<Rightarrow> csr" where
  "soc_write a d st c =
     (if a \<in> {REG_BASEADDR, REG_RINGLEN, REG_TAIL, REG_CTRL} then csr_write a (apply_wstrb (csr_read c a) d st) c
      else if a = REG_IRQ_CLEAR then csr_write a (apply_wstrb 0 d st) c else c)"

definition soc_reset :: "csr \<Rightarrow> csr" where
  "soc_reset c = (if bit (csr_read c REG_CTRL) 1
     then hw_set_ring_empty (bit (csr_read c REG_STATUS) 1) (hw_set_busy (bit (csr_read c REG_STATUS) 0)
       (hw_set_head (csr_read c REG_HEAD) csr_init))
     else c)"

fun soc_events :: "reg_event list \<Rightarrow> csr \<Rightarrow> int option \<Rightarrow> int list \<times> csr \<times> int option" where
  "soc_events [] c left = ([], c, left)"
| "soc_events (Read a k # es) c left = (case soc_events es c None of (vs, x) \<Rightarrow>
     ((if a mod 256 = REG_CTRL then (case left of None \<Rightarrow> unset_bit 1 (csr_read c REG_CTRL) | Some v \<Rightarrow> v)
       else csr_read c (a mod 256)) # vs, x))"
| "soc_events (Write a d st arr k # es) c left =
     (let c1 = soc_write (a mod 256) d st (soc_reset c)
      in soc_events es c1 (if a mod 256 = REG_CTRL \<and> bit (csr_read c1 REG_CTRL) 1 then Some (unset_bit 1 (csr_read c1 REG_CTRL)) else left))"
| "soc_events (Report r # es) c left = soc_events es (soc_reset (model_report r c)) left"

section \<open>One transaction\<close>

definition csr_quiet :: "csr_hw \<Rightarrow> bool" where
  "csr_quiet c \<longleftrightarrow> \<not> ch_aw_pending c \<and> \<not> ch_w_pending c \<and> \<not> ch_bvalid c \<and> \<not> ch_rvalid c \<and> \<not> ch_clear_pending c"

text \<open>What the registers hold, against the dictionary of the model.\<close>

definition csr_same :: "ring_in \<Rightarrow> csr_hw \<Rightarrow> csr \<Rightarrow> int option \<Rightarrow> bool" where
  "csr_same r h c left \<longleftrightarrow> csr_quiet h \<and> \<not> ri_irq_empty_set r \<and> \<not> ri_error_set r \<and>
     (\<forall>k. reg c k = (if k = REG_BASEADDR then ch_baseaddr h else if k = REG_RINGLEN then ch_ringlen h
       else if k = REG_HEAD then ri_head r else if k = REG_TAIL then ch_tail h else if k = REG_CTRL then ch_ctrl h
       else if k = REG_STATUS then status_word r h else if k = REG_IRQ_STATUS then irq_status_word h else 0)) \<and>
     u32s [ch_baseaddr h, ch_ringlen h, ri_head r, ch_tail h, ch_ctrl h] \<and>
     left = (if ch_readback_pending h then Some (ch_readback_data h) else None)"

lemma full_strobe:
  assumes "0 \<le> old" and "old < 2 ^ 32" and "0 \<le> d" and "d < 2 ^ 32"
  shows "apply_wstrb old d 15 = d"
proof -
  have m: "lane_mask 15 = 0xFFFFFFFF" by (simp add: lane_mask_def)
  have "old AND mask 32 = old" using assms(1,2) by (simp add: take_bit_int_eq_self flip: take_bit_eq_mask)
  then have "old AND NOT (mask 32) = old AND (mask 32 AND NOT (mask 32))" by (simp only: and.assoc [symmetric])
  then have "old AND NOT (0xFFFFFFFF) = 0" by (simp add: mask_eq_exp_minus_1)
  then show ?thesis using assms(3,4) by (simp add: apply_wstrb_def m bits)
qed

lemma merged_range:
  assumes "0 \<le> old" and "old < 2 ^ 32"
  shows "0 \<le> apply_wstrb old d st" and "apply_wstrb old d st < 2 ^ 32"
proof -
  have lanes: "\<not> bit (lane_mask st) n" if "32 \<le> n" for n
  proof -
    have "take_bit 32 (lane_mask st) = lane_mask st"
      by (cases "bit st 0"; cases "bit st 1"; cases "bit st 2"; cases "bit st 3"; simp add: lane_mask_def)
    then show ?thesis using that bit_take_bit_iff [of 32 "lane_mask st" n] by simp
  qed
  have "take_bit 32 old = old" using assms by (simp add: take_bit_int_eq_self)
  then have old: "\<not> bit old n" if "32 \<le> n" for n using that bit_take_bit_iff [of 32 old n] by simp
  have "take_bit 32 (apply_wstrb old d st) = apply_wstrb old d st"
  proof (rule bit_eqI)
    fix n
    show "bit (take_bit 32 (apply_wstrb old d st)) n = bit (apply_wstrb old d st) n"
      using lanes [of n] old [of n] by (cases "n < 32") (simp_all add: apply_wstrb_def bit_simps)
  qed
  then show "0 \<le> apply_wstrb old d st" "apply_wstrb old d st < 2 ^ 32"
    using take_bit_nonnegative [of 32 "apply_wstrb old d st"] take_bit_int_less_exp [of 32 "apply_wstrb old d st"] by simp_all
qed

lemma idle_clock:
  assumes "\<not> commits c" and "bit (ch_ctrl c) 1 \<Longrightarrow> ch_bvalid c \<or> ch_rvalid c" and "\<not> ri_irq_empty_set r" and "\<not> ri_error_set r"
  shows "csr_clock bus_idle r c = c\<lparr>ch_error_clear := False\<rparr>"
  using assms
  by (auto simp: csr_clock_def capture_def respond_def read_channel_def ring_events_def soft_reset_def bus_idle_def Let_def)

lemma idle_clocks:
  assumes "\<not> commits c" and "bit (ch_ctrl c) 1 \<Longrightarrow> ch_bvalid c \<or> ch_rvalid c" and "\<not> ri_irq_empty_set r" and "\<not> ri_error_set r"
    and "\<not> ch_error_clear c"
  shows "csr_clocks (replicate n bus_idle) r c = c"
proof -
  have "csr_clock bus_idle r c = c" using idle_clock [OF assms(1-4)] assms(5) by simp
  then show ?thesis unfolding csr_clocks_def by (induction n) simp_all
qed

lemma capture_clock:
  assumes "\<not> commits c" and "\<not> ch_bvalid c" and "\<not> bit (ch_ctrl c) 1" and "\<not> ri_irq_empty_set r" and "\<not> ri_error_set r"
    and "\<not> si_arvalid i" and "\<not> ch_rvalid c"
  shows "csr_clock i r c = capture i (c\<lparr>ch_error_clear := False\<rparr>)"
  using assms
  by (simp add: csr_clock_def respond_def read_channel_def ring_events_def soft_reset_def Let_def)

lemma error_clear_same: "\<not> ch_error_clear c \<Longrightarrow> c\<lparr>ch_error_clear := False\<rparr> = c"
  by (cases c) simp

lemma commit_clock:
  assumes "commits c" and "\<not> bit (ch_ctrl c) 1" and "\<not> ri_irq_empty_set r" and "\<not> ri_error_set r" and "\<not> ch_rvalid c"
    and "\<not> ch_error_clear c"
  shows "\<exists>b. csr_clock bus_idle r c = (commit_write c c)\<lparr>ch_aw_pending := False, ch_w_pending := False,
    ch_bvalid := True, ch_bresp := b\<rparr>"
  using assms(1-5) error_clear_same [OF assms(6)]
  unfolding csr_clock_def
  by (intro exI [of _ "if ch_bresp (commit_write c c) \<noteq> 2 then 0 else ch_bresp (commit_write c c)"])
    (simp add: capture_def respond_def read_channel_def ring_events_def soft_reset_def Let_def bus_idle_def)

lemma response_clock:
  assumes "ch_bvalid c" and "\<not> ri_irq_empty_set r" and "\<not> ri_error_set r" and "\<not> ch_rvalid c" and "\<not> ch_error_clear c"
  shows "csr_clock (bus_idle\<lparr>si_bready := True\<rparr>) r c = c\<lparr>ch_bvalid := False, ch_error_clear := ch_clear_pending c, ch_clear_pending := False\<rparr>"
  using assms
  by (simp add: csr_clock_def capture_def respond_def commits_def read_channel_def ring_events_def soft_reset_def Let_def bus_idle_def)

text \<open>The captured write.\<close>

lemma write_captured:
  assumes "csr_quiet c" and "\<not> bit (ch_ctrl c) 1" and "\<not> ri_irq_empty_set r" and "\<not> ri_error_set r"
  shows "csr_clocks (case arr of Together \<Rightarrow> [bus_idle\<lparr>si_wvalid := True, si_wdata := d, si_wstrb := st, si_awvalid := True, si_awaddr := a\<rparr>]
      | AddressFirst n \<Rightarrow> bus_idle\<lparr>si_awvalid := True, si_awaddr := a\<rparr> # replicate n bus_idle @ [bus_idle\<lparr>si_wvalid := True, si_wdata := d, si_wstrb := st\<rparr>]
      | DataFirst n \<Rightarrow> bus_idle\<lparr>si_wvalid := True, si_wdata := d, si_wstrb := st\<rparr> # replicate n bus_idle @ [bus_idle\<lparr>si_awvalid := True, si_awaddr := a\<rparr>]) r c
    = c\<lparr>ch_error_clear := False, ch_aw_pending := True, ch_awaddr := a, ch_w_pending := True, ch_wdata := d, ch_wstrb := st\<rparr>"
proof (cases arr)
  case Together
  then show ?thesis using assms by (simp add: csr_clocks_def capture_clock csr_quiet_def commits_def capture_def Let_def bus_idle_def)
next
  case (AddressFirst n)
  let ?c = "c\<lparr>ch_error_clear := False, ch_aw_pending := True, ch_awaddr := a\<rparr>"
  have "csr_clocks (replicate n bus_idle) r ?c = ?c" using assms by (intro idle_clocks) (simp_all add: csr_quiet_def commits_def)
  moreover have "csr_clock (bus_idle\<lparr>si_awvalid := True, si_awaddr := a\<rparr>) r c = ?c"
    using assms by (simp add: capture_clock csr_quiet_def commits_def capture_def Let_def bus_idle_def)
  moreover have "csr_clock (bus_idle\<lparr>si_wvalid := True, si_wdata := d, si_wstrb := st\<rparr>) r ?c
      = ?c\<lparr>ch_w_pending := True, ch_wdata := d, ch_wstrb := st\<rparr>"
    using assms by (simp add: capture_clock csr_quiet_def commits_def capture_def Let_def bus_idle_def)
  ultimately show ?thesis using AddressFirst by (simp add: csr_clocks_def)
next
  case (DataFirst n)
  let ?c = "c\<lparr>ch_error_clear := False, ch_w_pending := True, ch_wdata := d, ch_wstrb := st\<rparr>"
  have "csr_clocks (replicate n bus_idle) r ?c = ?c" using assms by (intro idle_clocks) (simp_all add: csr_quiet_def commits_def)
  moreover have "csr_clock (bus_idle\<lparr>si_wvalid := True, si_wdata := d, si_wstrb := st\<rparr>) r c = ?c"
    using assms by (simp add: capture_clock csr_quiet_def commits_def capture_def Let_def bus_idle_def)
  moreover have "csr_clock (bus_idle\<lparr>si_awvalid := True, si_awaddr := a\<rparr>) r ?c = ?c\<lparr>ch_aw_pending := True, ch_awaddr := a\<rparr>"
    using assms by (simp add: capture_clock csr_quiet_def commits_def capture_def Let_def bus_idle_def)
  ultimately show ?thesis using DataFirst by (simp add: csr_clocks_def)
qed

text \<open>The write as a whole.\<close>

definition write_result :: "int \<Rightarrow> int \<Rightarrow> int \<Rightarrow> csr_hw \<Rightarrow> csr_hw" where
  "write_result a d st c =
     (let c1 = c\<lparr>ch_error_clear := False, ch_aw_pending := True, ch_awaddr := a, ch_w_pending := True, ch_wdata := d, ch_wstrb := st\<rparr>
      in commit_write c1 c1)"

lemma commit_write_keeps:
  "ch_rvalid (commit_write c n) = ch_rvalid n" "ch_error_clear (commit_write c n) = ch_error_clear n"
  by (simp_all add: commit_write_def Let_def)

lemma write_done:
  assumes "csr_quiet c" and "\<not> bit (ch_ctrl c) 1" and "\<not> ri_irq_empty_set r" and "\<not> ri_error_set r"
  shows "\<exists>b. csr_clocks (write_clocks arr k a d st) r c = (write_result a d st c)\<lparr>ch_aw_pending := False, ch_w_pending := False,
    ch_bvalid := False, ch_bresp := b, ch_error_clear := ch_clear_pending (write_result a d st c), ch_clear_pending := False\<rparr>"
proof -
  let ?c = "c\<lparr>ch_error_clear := False, ch_aw_pending := True, ch_awaddr := a, ch_w_pending := True, ch_wdata := d, ch_wstrb := st\<rparr>"
  let ?w = "write_result a d st c"
  have "commits ?c" "\<not> bit (ch_ctrl ?c) 1" "\<not> ch_rvalid ?c" "\<not> ch_error_clear ?c" using assms(1,2) by (simp_all add: csr_quiet_def commits_def)
  then obtain b where commit: "csr_clock bus_idle r ?c = ?w\<lparr>ch_aw_pending := False, ch_w_pending := False, ch_bvalid := True, ch_bresp := b\<rparr>"
    using commit_clock [of ?c r] assms(3,4) by (auto simp: write_result_def Let_def)
  let ?n = "?w\<lparr>ch_aw_pending := False, ch_w_pending := False, ch_bvalid := True, ch_bresp := b\<rparr>"
  have n: "\<not> ch_rvalid ?n" "\<not> ch_error_clear ?n" "\<not> commits ?n" "ch_bvalid ?n"
    using assms(1) by (simp_all add: write_result_def Let_def commit_write_keeps csr_quiet_def commits_def)
  have wait: "csr_clocks (replicate k bus_idle) r ?n = ?n" using n assms(3,4) by (intro idle_clocks) simp_all
  have resp: "csr_clock (bus_idle\<lparr>si_bready := True\<rparr>) r ?n = ?n\<lparr>ch_bvalid := False, ch_error_clear := ch_clear_pending ?n, ch_clear_pending := False\<rparr>"
    using n assms(3,4) by (intro response_clock) simp_all
  show ?thesis
    using write_captured [OF assms, where arr = arr and d = d and a = a] commit wait resp
    by (intro exI [of _ b]) (simp add: write_clocks_def csr_clocks_def Let_def)
qed

text \<open>A reset that was asked for happens in the first clock without a read, and changes nothing else of what follows.\<close>

definition cleared :: "csr_hw \<Rightarrow> csr_hw" where
  "cleared c = (if bit (ch_ctrl c) 1 then c\<lparr>ch_baseaddr := 0, ch_ringlen := 0, ch_tail := 0, ch_ctrl := 0,
     ch_status_error := False, ch_irq_empty := False, ch_irq_error := False\<rparr> else c)"

lemma cleared_quiet: "csr_quiet (cleared c) = csr_quiet c" "\<not> bit (ch_ctrl (cleared c)) 1"
  by (simp_all add: cleared_def csr_quiet_def)

lemma without_error_clear [simp]:
  "commits (c\<lparr>ch_error_clear := b\<rparr>) = commits c" "commit_write (c\<lparr>ch_error_clear := b\<rparr>) n = commit_write c n"
  "read_data x r (c\<lparr>ch_error_clear := b\<rparr>) = read_data x r c"
  by (simp_all add: commits_def commit_write_def read_data_def status_word_def irq_status_word_def Let_def)

lemma clock_error_clear: "csr_clock i r (c\<lparr>ch_error_clear := b\<rparr>) = csr_clock i r c"
proof -
  have "respond i (c\<lparr>ch_error_clear := b\<rparr>) n = respond i c n" "read_channel i r (c\<lparr>ch_error_clear := b\<rparr>) n = read_channel i r c n"
    "soft_reset i (c\<lparr>ch_error_clear := b\<rparr>) n = soft_reset i c n" for n
    by (simp_all add: respond_def read_channel_def soft_reset_def)
  then show ?thesis by (simp add: csr_clock_def)
qed

lemma reset_clock:
  assumes "csr_quiet c" and "\<not> ri_irq_empty_set r" and "\<not> ri_error_set r" and "\<not> si_arvalid i"
  shows "\<exists>b. csr_clock i r c = (csr_clock i r (cleared c))\<lparr>ch_error_clear := b\<rparr>"
proof (cases "bit (ch_ctrl c) 1")
  case True
  have clock: "csr_clock i r c = soft_reset i c (capture i (c\<lparr>ch_error_clear := False\<rparr>))" if "csr_quiet c" for c
    using assms(2-4) that by (simp add: csr_clock_def csr_quiet_def commits_def respond_def read_channel_def ring_events_def)
  have "soft_reset i c (capture i (c\<lparr>ch_error_clear := False\<rparr>)) =
      (soft_reset i (cleared c) (capture i ((cleared c)\<lparr>ch_error_clear := False\<rparr>)))\<lparr>ch_error_clear := True\<rparr>"
    using True assms(1,4) by (simp add: cleared_def csr_quiet_def capture_def soft_reset_def Let_def)
  then show ?thesis using clock assms(1) cleared_quiet(1) [of c] by auto
next
  case False
  then show ?thesis by (intro exI [of _ "ch_error_clear (csr_clock i r c)"]) (simp add: cleared_def)
qed

lemma reset_clocks:
  assumes "csr_quiet c" and "\<not> ri_irq_empty_set r" and "\<not> ri_error_set r" and "\<not> si_arvalid i"
  shows "csr_clocks (i # j # is) r c = csr_clocks (i # j # is) r (cleared c)"
proof -
  obtain b where "csr_clock i r c = (csr_clock i r (cleared c))\<lparr>ch_error_clear := b\<rparr>" using reset_clock [OF assms] by blast
  then show ?thesis by (simp add: csr_clocks_def clock_error_clear)
qed

lemma write_after_reset:
  assumes "csr_quiet c" and "\<not> ri_irq_empty_set r" and "\<not> ri_error_set r"
  shows "csr_clocks (write_clocks arr k a d st) r c = csr_clocks (write_clocks arr k a d st) r (cleared c)"
proof -
  obtain i j js where "write_clocks arr k a d st = i # j # js" "\<not> si_arvalid i"
  proof (cases arr)
    case (AddressFirst n)
    then show ?thesis using that by (cases n) (auto simp: write_clocks_def Let_def bus_idle_def)
  next
    case (DataFirst n)
    then show ?thesis using that by (cases n) (auto simp: write_clocks_def Let_def bus_idle_def)
  qed (use that in \<open>auto simp: write_clocks_def Let_def bus_idle_def\<close>)
  then show ?thesis using reset_clocks [OF assms] by metis
qed

text \<open>Three flags as a number.\<close>

definition flags :: "bool \<Rightarrow> bool \<Rightarrow> bool \<Rightarrow> int" where
  "flags a b c = of_bool a + 2 * of_bool b + 4 * of_bool c"

lemma status_word_flags:
  "status_word r h = flags (ri_busy r) (ri_ring_empty r) (ch_status_error h)"
  "irq_status_word h = flags (ch_irq_empty h) (ch_irq_error h) False"
  by (simp_all add: status_word_def irq_status_word_def flags_def)

lemma flags_bits [simp]:
  "unset_bit 0 (flags a b c) = flags False b c" "set_bit 0 (flags a b c) = flags True b c"
  "unset_bit 1 (flags a b c) = flags a False c" "set_bit 1 (flags a b c) = flags a True c"
  "unset_bit 2 (flags a b c) = flags a b False" "set_bit 2 (flags a b c) = flags a b True"
  by (cases a; cases b; cases c; simp add: flags_def unset_bit_eq_and_not set_bit_eq_or)+

lemmas flags_bit_one [simp] = flags_bits(3,4) [unfolded One_nat_def]

lemma flags_put [simp]:
  "(if f then set_bit 0 else unset_bit 0) (flags a b c) = flags f b c"
  "(if f then set_bit 1 else unset_bit 1) (flags a b c) = flags a f c"
  "(if f then set_bit (Suc 0) else unset_bit (Suc 0)) (flags a b c) = flags a f c"
  by (cases f; simp)+

lemma flags_are [simp]: "bit (flags a b c) 0 = a" "bit (flags a b c) 1 = b" "bit (flags a b c) (Suc 0) = b"
  by (cases a; cases b; cases c; simp add: flags_def)+

lemma csr_sameD:
  assumes "csr_same r h c left"
  shows "csr_quiet h" "\<not> ri_irq_empty_set r" "\<not> ri_error_set r"
    "0 \<le> ch_baseaddr h" "ch_baseaddr h < 2 ^ 32" "0 \<le> ch_ringlen h" "ch_ringlen h < 2 ^ 32"
    "0 \<le> ch_tail h" "ch_tail h < 2 ^ 32" "0 \<le> ch_ctrl h" "ch_ctrl h < 2 ^ 32" "0 \<le> ri_head r" "ri_head r < 2 ^ 32"
    "left = (if ch_readback_pending h then Some (ch_readback_data h) else None)"
    "reg c k = (if k = REG_BASEADDR then ch_baseaddr h else if k = REG_RINGLEN then ch_ringlen h
       else if k = REG_HEAD then ri_head r else if k = REG_TAIL then ch_tail h else if k = REG_CTRL then ch_ctrl h
       else if k = REG_STATUS then flags (ri_busy r) (ri_ring_empty r) (ch_status_error h)
       else if k = REG_IRQ_STATUS then flags (ch_irq_empty h) (ch_irq_error h) False else 0)"
  using assms unfolding csr_same_def status_word_flags by simp_all

lemma csr_same_reads:
  assumes "csr_same r h c left"
  shows "csr_read c REG_BASEADDR = ch_baseaddr h" "csr_read c REG_RINGLEN = ch_ringlen h" "csr_read c REG_HEAD = ri_head r"
    "csr_read c REG_TAIL = ch_tail h" "csr_read c REG_CTRL = ch_ctrl h"
    "csr_read c REG_STATUS = flags (ri_busy r) (ri_ring_empty r) (ch_status_error h)"
  unfolding csr_read_def csr_sameD(15) [OF assms] by (simp_all add: reg_offsets)

text \<open>The reset, on both sides.\<close>

lemma same_cleared:
  assumes "csr_same r h c left"
  shows "csr_same r (cleared h) (soc_reset c) left"
proof (cases "bit (ch_ctrl h) 1")
  case True
  note s = csr_sameD [OF assms] and reads = csr_same_reads [OF assms]
  have "ri_head r mod 4294967296 = ri_head r" using s(12,13) by simp
  then have "reg (soc_reset c) k = (if k = REG_HEAD then ri_head r
      else if k = REG_STATUS then flags (ri_busy r) (ri_ring_empty r) False else 0)" for k
    using True reads
    by (cases "ri_busy r"; cases "ri_ring_empty r")
      (simp_all add: soc_reset_def reg_hw reg_csr_init flags_def set_bit_eq_or unset_bit_eq_and_not reg_offsets)
  then show ?thesis
    using True s(1-3,12-14) cleared_quiet(1) [of h] unfolding csr_same_def status_word_flags
    by (simp add: cleared_def reg_offsets) (simp add: flags_def)
next
  case False
  then show ?thesis using assms csr_same_reads(5) [OF assms] by (simp add: cleared_def soc_reset_def)
qed

lemma write_same:
  assumes "csr_same r h c left" and "\<not> bit (ch_ctrl h) 1"
  shows "csr_same r (csr_clocks (write_clocks arr k a d st) r h) (soc_write (a mod 256) d st c)
    (if a mod 256 = REG_CTRL \<and> bit (csr_read (soc_write (a mod 256) d st c) REG_CTRL) 1
     then Some (unset_bit 1 (csr_read (soc_write (a mod 256) d st c) REG_CTRL)) else left)"
proof -
  note s = csr_sameD [OF assms(1)] and reads = csr_same_reads [OF assms(1)]
  define x where "x = a mod 256"
  note range = merged_range [OF s(4,5), of d st] merged_range [OF s(6,7), of d st] merged_range [OF s(8,9), of d st]
    merged_range [OF s(10,11), of d st]
  obtain b where w: "csr_clocks (write_clocks arr k a d st) r h = (write_result a d st h)\<lparr>ch_aw_pending := False, ch_w_pending := False,
      ch_bvalid := False, ch_bresp := b, ch_error_clear := ch_clear_pending (write_result a d st h), ch_clear_pending := False\<rparr>"
    using write_done [OF s(1) assms(2) s(2,3)] by blast
  define h' where "h' = csr_clocks (write_clocks arr k a d st) r h"
  have quiet: "csr_quiet h'"
    using s(1) unfolding h'_def w by (auto simp: csr_quiet_def write_result_def commit_write_def Let_def)
  let ?v = "take_bit 3 (apply_wstrb (ch_ctrl h) d st)"
  have fields: "ch_baseaddr h' = (if x = REG_BASEADDR then apply_wstrb (ch_baseaddr h) d st else ch_baseaddr h)"
    "ch_ringlen h' = (if x = REG_RINGLEN then apply_wstrb (ch_ringlen h) d st else ch_ringlen h)"
    "ch_tail h' = (if x = REG_TAIL then apply_wstrb (ch_tail h) d st else ch_tail h)"
    "ch_ctrl h' = (if x = REG_CTRL then ?v else ch_ctrl h)"
    "ch_irq_empty h' \<longleftrightarrow> ch_irq_empty h \<and> \<not> (x = REG_IRQ_CLEAR \<and> bit (apply_wstrb 0 d st) 0)"
    "ch_irq_error h' \<longleftrightarrow> ch_irq_error h \<and> \<not> (x = REG_IRQ_CLEAR \<and> bit (apply_wstrb 0 d st) 1)"
    "ch_status_error h' \<longleftrightarrow> ch_status_error h \<and> \<not> (x = REG_IRQ_CLEAR \<and> bit (apply_wstrb 0 d st) 1)"
    "ch_readback_pending h' \<longleftrightarrow> ch_readback_pending h \<or> x = REG_CTRL \<and> bit ?v 1"
    "ch_readback_data h' = (if x = REG_CTRL \<and> bit ?v 1 then unset_bit 1 ?v else ch_readback_data h)"
    unfolding h'_def w x_def by (auto simp: write_result_def commit_write_def Let_def reg_offsets bit_take_bit_iff)
  have "?v < 2 ^ 3" "0 \<le> ?v" by (rule take_bit_int_less_exp) simp
  then have ranges: "u32s [ch_baseaddr h', ch_ringlen h', ri_head r, ch_tail h', ch_ctrl h']"
    using s(4-13) range by (auto simp: u32s_def fields)
  have reg: "reg (soc_write x d st c) k = (if k = REG_BASEADDR then ch_baseaddr h' else if k = REG_RINGLEN then ch_ringlen h'
       else if k = REG_HEAD then ri_head r else if k = REG_TAIL then ch_tail h' else if k = REG_CTRL then ch_ctrl h'
       else if k = REG_STATUS then flags (ri_busy r) (ri_ring_empty r) (ch_status_error h')
       else if k = REG_IRQ_STATUS then flags (ch_irq_empty h') (ch_irq_error h') False else 0)" for k
  proof -
    consider "x = REG_BASEADDR" | "x = REG_RINGLEN" | "x = REG_TAIL" | "x = REG_CTRL" | "x = REG_IRQ_CLEAR"
      | "x \<notin> {REG_BASEADDR, REG_RINGLEN, REG_TAIL, REG_CTRL, REG_IRQ_CLEAR}" by blast
    then show ?thesis
    proof cases
      case 5
      have "soc_write x d st c = csr_write REG_IRQ_CLEAR (apply_wstrb 0 d st) c" unfolding 5 by (simp add: soc_write_def reg_offsets)
      then show ?thesis unfolding fields 5 by (simp only: reg_csr_write_clear s(15)) (auto simp: reg_offsets)
    next
      case 6
      then show ?thesis by (simp add: soc_write_def fields s(15))
    qed (use range in \<open>simp_all add: soc_write_def fields reads [unfolded reg_offsets] reg_csr_write_plain reg_csr_write_ctrl [unfolded reg_offsets] s(15)
        reg_offsets take_bit_eq_mod\<close>)
  qed
  have "csr_read (soc_write x d st c) REG_CTRL = ch_ctrl h'"
    unfolding csr_read_def reg by (simp add: reg_offsets)
  then show ?thesis
    using quiet s(2,3,14) ranges reg unfolding csr_same_def status_word_flags h'_def [symmetric] x_def [symmetric] by (auto simp: fields)
qed

lemma read_same:
  assumes "csr_same r h c left"
  shows "fst (rtl_read k a r h) = (if a mod 256 = REG_CTRL then (case left of None \<Rightarrow> unset_bit 1 (csr_read c REG_CTRL) | Some v \<Rightarrow> v)
      else csr_read c (a mod 256))"
    and "csr_same r (snd (rtl_read k a r h)) c None"
proof -
  note s = csr_sameD [OF assms(1)]
  let ?h = "h\<lparr>ch_error_clear := False, ch_rvalid := True, ch_rdata := read_data a r h, ch_readback_pending := False\<rparr>"
  have "csr_clock (bus_idle\<lparr>si_arvalid := True, si_araddr := a\<rparr>) r h = ?h"
    using s(1-3) by (simp add: csr_clock_def capture_def respond_def commits_def read_channel_def ring_events_def soft_reset_def
        Let_def bus_idle_def csr_quiet_def)
  moreover have "csr_clocks (replicate k bus_idle) r ?h = ?h"
    using s(1-3) by (intro idle_clocks) (simp_all add: commits_def csr_quiet_def)
  moreover have "csr_clock (bus_idle\<lparr>si_rready := True\<rparr>) r ?h = ?h\<lparr>ch_rvalid := False\<rparr>"
    using s(1-3) by (simp add: csr_clock_def capture_def respond_def commits_def read_channel_def ring_events_def soft_reset_def
        Let_def bus_idle_def csr_quiet_def)
  ultimately have read: "rtl_read k a r h = (read_data a r h, ?h\<lparr>ch_rvalid := False\<rparr>)"
    by (simp add: rtl_read_def csr_clocks_def)
  show "fst (rtl_read k a r h) = (if a mod 256 = REG_CTRL then (case left of None \<Rightarrow> unset_bit 1 (csr_read c REG_CTRL) | Some v \<Rightarrow> v)
      else csr_read c (a mod 256))"
    unfolding read fst_conv csr_read_def s(14,15) by (simp add: read_data_def status_word_flags Let_def reg_offsets)
  show "csr_same r (snd (rtl_read k a r h)) c None"
    using assms(1) by (simp add: read csr_same_def csr_quiet_def status_word_def irq_status_word_def)
qed

lemma ring_events_fields:
  "ch_irq_empty (ring_events r n) \<longleftrightarrow> ch_irq_empty n \<or> ri_irq_empty_set r"
  "ch_irq_error (ring_events r n) \<longleftrightarrow> ch_irq_error n \<or> ri_error_set r"
  "ch_status_error (ring_events r n) \<longleftrightarrow> ch_status_error n \<or> ri_error_set r"
  "ch_baseaddr (ring_events r n) = ch_baseaddr n" "ch_ringlen (ring_events r n) = ch_ringlen n"
  "ch_tail (ring_events r n) = ch_tail n" "ch_ctrl (ring_events r n) = ch_ctrl n" "csr_quiet (ring_events r n) = csr_quiet n"
  "ch_readback_pending (ring_events r n) = ch_readback_pending n" "ch_readback_data (ring_events r n) = ch_readback_data n"
  by (simp_all add: ring_events_def Let_def csr_quiet_def)

lemma report_clock:
  assumes "csr_quiet h"
  shows "\<exists>b. csr_clock bus_idle r' h = (cleared (ring_events r' h))\<lparr>ch_error_clear := b\<rparr>"
proof -
  have ctrl: "ch_ctrl (ring_events r' h) = ch_ctrl h" by (rule ring_events_fields)
  have clock: "csr_clock bus_idle r' h = soft_reset bus_idle h (ring_events r' (h\<lparr>ch_error_clear := False\<rparr>))"
    using assms by (simp add: csr_clock_def csr_quiet_def commits_def respond_def read_channel_def capture_def bus_idle_def)
  have moved: "ring_events r' (h\<lparr>ch_error_clear := False\<rparr>) = (ring_events r' h)\<lparr>ch_error_clear := False\<rparr>"
    by (simp add: ring_events_def Let_def)
  show ?thesis
  proof (cases "bit (ch_ctrl h) 1")
    case True
    then show ?thesis unfolding clock moved using assms
      by (intro exI [of _ True]) (simp add: soft_reset_def cleared_def ctrl csr_quiet_def bus_idle_def)
  next
    case False
    then show ?thesis unfolding clock moved
      by (intro exI [of _ False]) (simp add: soft_reset_def cleared_def ctrl)
  qed
qed

lemma report_same:
  assumes "csr_same r h c left" and "0 \<le> ri_head r'" and "ri_head r' < 2 ^ 32"
  shows "csr_same (levels r') (csr_clock bus_idle r' h) (soc_reset (model_report r' c)) left"
proof -
  note s = csr_sameD [OF assms(1)]
  have model: "reg (model_report r' c) k = (if k = REG_HEAD then ri_head r'
     else if k = REG_STATUS then flags (ri_busy r') (ri_ring_empty r') (ch_status_error h \<or> ri_error_set r')
     else if k = REG_IRQ_STATUS then flags (ch_irq_empty h \<or> ri_irq_empty_set r') (ch_irq_error h \<or> ri_error_set r') False
     else reg c k)" for k
  proof -
    have at: "reg c REG_STATUS = flags (ri_busy r) (ri_ring_empty r) (ch_status_error h)"
      "reg c REG_IRQ_STATUS = flags (ch_irq_empty h) (ch_irq_error h) False"
      by (simp_all add: s(15)) (simp_all add: reg_offsets)
    have "ri_head r' mod 4294967296 = ri_head r'" using assms(2,3) by simp
    moreover have "REG_HEAD \<noteq> REG_STATUS" "REG_IRQ_STATUS \<noteq> REG_STATUS" "REG_IRQ_STATUS \<noteq> REG_HEAD" by (simp_all add: reg_offsets)
    ultimately show ?thesis
      by (cases "ri_irq_empty_set r'"; cases "ri_error_set r'"; cases "k = REG_STATUS"; cases "k = REG_HEAD"; cases "k = REG_IRQ_STATUS")
        (simp_all add: model_report_def Let_def reg_hw at del: if_split)
  qed
  have "csr_same (levels r') (ring_events r' h) (model_report r' c) left"
    using assms(2,3) s(1,4-11,14) unfolding csr_same_def status_word_flags model ring_events_fields
    by (simp add: levels_def s(15)) (simp add: reg_offsets)
  then have "csr_same (levels r') (cleared (ring_events r' h)) (soc_reset (model_report r' c)) left" by (rule same_cleared)
  moreover obtain b where "csr_clock bus_idle r' h = (cleared (ring_events r' h))\<lparr>ch_error_clear := b\<rparr>"
    using report_clock [OF s(1)] by blast
  ultimately show ?thesis by (simp add: csr_same_def csr_quiet_def status_word_def irq_status_word_def)
qed

section \<open>Property\<close>

text \<open>The pointer reported by the ring manager is a 32-bit word.\<close>

definition event_ok :: "reg_event \<Rightarrow> bool" where
  "event_ok e = (case e of Report r \<Rightarrow> 0 \<le> ri_head r \<and> ri_head r < 2 ^ 32 | _ \<Rightarrow> True)"

text \<open>What \<open>axi-lite.py\<close> can ask for: whole 32-bit words to a mapped register other than IRQ_STATUS, and no CTRL.RESET.\<close>

definition event_plain :: "reg_event \<Rightarrow> bool" where
  "event_plain e = (case e of
     Write a d st arr k \<Rightarrow> a \<in> {REG_BASEADDR, REG_RINGLEN, REG_HEAD, REG_TAIL, REG_CTRL, REG_STATUS, REG_IRQ_CLEAR} \<and> st = 15 \<and>
       0 \<le> d \<and> d < 2 ^ 32 \<and> \<not> (a = REG_CTRL \<and> bit d 1)
   | Read a k \<Rightarrow> 0 \<le> a \<and> a < 256
   | Report r \<Rightarrow> True)"

definition no_report :: ring_in where
  "no_report = \<lparr>ri_head = 0, ri_busy = False, ri_ring_empty = False, ri_irq_empty_set = False, ri_error_set = False\<rparr>"

lemma events_same:
  assumes "csr_same r h c left" and "\<forall>e \<in> set es. event_ok e"
  shows "case rtl_events es r h of (vs, r', h') \<Rightarrow> vs = fst (soc_events es c left) \<and>
    csr_same r' h' (fst (snd (soc_events es c left))) (snd (snd (soc_events es c left)))"
  using assms
proof (induction es arbitrary: r h c left)
  case (Cons e es)
  note s = csr_sameD [OF Cons.prems(1)]
  have es: "\<forall>e \<in> set es. event_ok e" using Cons.prems(2) by simp
  show ?case
  proof (cases e)
    case (Read a k)
    obtain v h1 where v: "rtl_read k a r h = (v, h1)" by fastforce
    show ?thesis
      using Cons.IH [of r h1 c None] read_same [OF Cons.prems(1), of k a] es v by (auto simp: Read split: prod.splits)
  next
    case (Write a d st arr k)
    note same = write_same [OF same_cleared [OF Cons.prems(1)] cleared_quiet(2), of arr k a d st]
    show ?thesis
      using Cons.IH [OF same es] write_after_reset [OF s(1-3)] by (simp add: Write Let_def)
  next
    case (Report r')
    have "0 \<le> ri_head r'" "ri_head r' < 2 ^ 32" using Cons.prems(2) by (simp_all add: Report event_ok_def)
    then show ?thesis using Cons.IH [OF report_same [OF Cons.prems(1)] es] by (simp add: Report)
  qed
qed simp

lemma same_reset: "csr_same no_report csr_hw_reset csr_init None"
  by (simp add: csr_same_def csr_quiet_def no_report_def csr_hw_reset_def reg_csr_init status_word_def irq_status_word_def)

text \<open>What \<open>csr.sv\<close> does beyond \<open>csr.py\<close> does not show in a sequence of plain accesses.\<close>

lemma soc_write_plain:
  assumes "csr_ok c" and "event_plain (Write a d st arr k)"
  shows "a mod 256 = a" and "soc_write (a mod 256) d st c = csr_write a d c"
proof -
  have a: "a \<in> {REG_BASEADDR, REG_RINGLEN, REG_HEAD, REG_TAIL, REG_CTRL, REG_STATUS, REG_IRQ_CLEAR}" "st = 15" "0 \<le> d" "d < 2 ^ 32"
    using assms(2) by (simp_all add: event_plain_def)
  from a(1) show "a mod 256 = a" by (auto simp: reg_offsets)
  moreover have "apply_wstrb (csr_read c x) d 15 = d" "apply_wstrb 0 d 15 = d" for x
    using csr_ok_reg [OF assms(1), of x] a(3,4) by (simp_all add: full_strobe csr_read_def)
  moreover have "a \<in> {REG_HEAD, REG_STATUS} \<Longrightarrow> csr_write a d c = c" by (rule csr_write_read_only)
  ultimately show "soc_write (a mod 256) d st c = csr_write a d c"
    using a(1,2) by (auto simp: soc_write_def reg_offsets)
qed

lemma no_reset: "\<not> bit (reg c REG_CTRL) 1 \<Longrightarrow> soc_reset c = c"
  by (simp add: soc_reset_def csr_read_def)

lemma model_report_keeps:
  assumes "csr_ok c"
  shows "csr_ok (model_report r c)" and "reg (model_report r c) REG_CTRL = reg c REG_CTRL"
  using assms by (simp_all add: model_report_def Let_def csr_ok_hw) (simp add: reg_hw reg_offsets)

lemma write_keeps_no_reset:
  assumes "\<not> bit (reg c REG_CTRL) 1" and "event_plain (Write a d st arr k)"
  shows "\<not> bit (reg (csr_write a d c) REG_CTRL) 1"
proof (cases "a = REG_CTRL")
  case True
  then have "\<not> bit d 1" using assms(2) by (simp add: event_plain_def)
  then show ?thesis unfolding True reg_csr_write_ctrl using bit_take_bit_iff [of 3 d 1] by (simp add: take_bit_eq_mod)
next
  case False
  have "a \<in> {REG_BASEADDR, REG_RINGLEN, REG_HEAD, REG_TAIL, REG_CTRL, REG_STATUS, REG_IRQ_CLEAR}"
    using assms(2) by (simp add: event_plain_def)
  with False have "reg (csr_write a d c) REG_CTRL = reg c REG_CTRL"
    by (elim insertE emptyE) (simp_all add: reg_csr_write_plain reg_csr_write_clear [unfolded reg_offsets] csr_write_read_only reg_offsets)
  then show ?thesis using assms(1) by simp
qed

lemma plain_events:
  assumes "csr_ok c" and "\<not> bit (reg c REG_CTRL) 1" and "\<forall>e \<in> set es. event_plain e"
  shows "soc_events es c None = (fst (model_events es c), snd (model_events es c), None)"
  using assms
proof (induction es arbitrary: c)
  case (Cons e es)
  have es: "\<forall>e \<in> set es. event_plain e" using Cons.prems(3) by simp
  show ?case
  proof (cases e)
    case (Read a k)
    have "a mod 256 = a" using Cons.prems(3) by (simp add: Read event_plain_def)
    moreover have "unset_bit 1 (reg c REG_CTRL) = reg c REG_CTRL"
      using Cons.prems(2) by (intro bit_eqI) (auto simp: bit_unset_bit_iff)
    ultimately show ?thesis using Cons.IH [OF Cons.prems(1,2) es] by (simp add: Read csr_read_def split: prod.splits)
  next
    case (Write a d st arr k)
    have plain: "event_plain (Write a d st arr k)" using Cons.prems(3) by (simp add: Write)
    note w = soc_write_plain [OF Cons.prems(1) plain] and no = write_keeps_no_reset [OF Cons.prems(2) plain]
    show ?thesis
      using Cons.IH [OF csr_ok_write [OF Cons.prems(1)] no es] no w
      by (simp add: Write Let_def no_reset [OF Cons.prems(2)] csr_read_def)
  next
    case (Report r')
    note kept = model_report_keeps [OF Cons.prems(1), of r']
    show ?thesis using Cons.IH [OF kept(1) _ es] kept(2) Cons.prems(2) by (simp add: Report no_reset)
  qed
qed simp

text \<open>
  C4. From reset on, \<open>csr.sv\<close> answers every sequence of AXI-Lite accesses, to any address, with any strobes, with the
  channels of a write arriving in any order and any number of clocks apart, and with reports of the ring
  manager in between, as \<open>soc_events\<close> says, and its registers hold afterwards what that says: the registers of
  \<open>csr.py\<close>, except for byte strobes, for writes to IRQ_STATUS and to offsets that are not mapped, and for CTRL.RESET.
  A sequence without these, that is, reads below offset 256 and 32-bit writes to mapped registers other than IRQ_STATUS that
  do not set CTRL.RESET, is answered exactly as by \<open>axi-lite.py\<close> and \<open>csr.py\<close>.
\<close>

theorem rtl_registers_are_model:
  assumes "\<forall>e \<in> set es. event_ok e"
  shows "(\<exists>r h. rtl_events es no_report csr_hw_reset = (fst (soc_events es csr_init None), r, h) \<and>
      csr_same r h (fst (snd (soc_events es csr_init None))) (snd (snd (soc_events es csr_init None)))) \<and>
    ((\<forall>e \<in> set es. event_plain e) \<longrightarrow>
      soc_events es csr_init None = (fst (model_events es csr_init), snd (model_events es csr_init), None))"
proof -
  have "csr_ok csr_init" "\<not> bit (reg csr_init REG_CTRL) 1" by (simp_all add: csr_ok_init reg_csr_init)
  then show ?thesis using events_same [OF same_reset assms] plain_events by (auto split: prod.splits)
qed

text \<open>Two bytes of BASEADDR are written; a soft reset then clears them, after the CTRL word has been read back without RESET. After
  a second reset the word read back is that of the reset, although CTRL has been written again since.\<close>

theorem rtl_registers_are_model_witness:
  "fst (rtl_events [Write REG_BASEADDR 0xAABBCCDD 3 (AddressFirst 3) 0, Read REG_BASEADDR 1, Write REG_CTRL 7 15 Together 2,
      Read REG_CTRL 0, Report (no_report\<lparr>ri_busy := True\<rparr>), Read REG_BASEADDR 0, Read REG_STATUS 0] no_report csr_hw_reset)
    = [0xCCDD, 5, 0, 1] \<and>
   fst (rtl_events [Write REG_CTRL 2 15 Together 0, Write REG_CTRL 5 15 Together 0, Read REG_CTRL 0, Read REG_CTRL 0]
     no_report csr_hw_reset) = [0, 5] \<and>
   fst (rtl_events [Write REG_BASEADDR 64 15 (DataFirst 1) 0, Read REG_BASEADDR 1] no_report csr_hw_reset) = [64]"
proof (intro conjI)
  let ?es = "[Write REG_BASEADDR 0xAABBCCDD 3 (AddressFirst 3) 0, Read REG_BASEADDR 1, Write REG_CTRL 7 15 Together 2,
      Read REG_CTRL 0, Report (no_report\<lparr>ri_busy := True\<rparr>), Read REG_BASEADDR 0, Read REG_STATUS 0]"
  have "\<forall>e \<in> set ?es. event_ok e" by (simp add: event_ok_def no_report_def)
  moreover have "fst (soc_events ?es csr_init None) = [0xCCDD, 5, 0, 1]" by code_simp
  ultimately show "fst (rtl_events ?es no_report csr_hw_reset) = [0xCCDD, 5, 0, 1]" using rtl_registers_are_model [of ?es] by auto
next
  let ?es = "[Write REG_CTRL 2 15 Together 0, Write REG_CTRL 5 15 Together 0, Read REG_CTRL 0, Read REG_CTRL 0]"
  have "\<forall>e \<in> set ?es. event_ok e" by (simp add: event_ok_def)
  moreover have "fst (soc_events ?es csr_init None) = [0, 5]" by code_simp
  ultimately show "fst (rtl_events ?es no_report csr_hw_reset) = [0, 5]" using rtl_registers_are_model [of ?es] by auto
next
  let ?es = "[Write REG_BASEADDR 64 15 (DataFirst 1) 0, Read REG_BASEADDR 1]"
  have "\<forall>e \<in> set ?es. event_ok e" "\<forall>e \<in> set ?es. event_plain e" by (simp_all add: event_ok_def event_plain_def reg_offsets)
  moreover have "fst (model_events ?es csr_init) = [64]" by code_simp
  ultimately show "fst (rtl_events ?es no_report csr_hw_reset) = [64]" using rtl_registers_are_model [of ?es] by auto
qed

end
