(* ===== verification/Rtl_Ring.thy ===== *)
theory Rtl_Ring
  imports Ring_Manager
begin

text \<open>
  The ring manager of the hardware, \<open>rtl/ring_manager.sv\<close>, and the interrupt latches of \<open>rtl/IRQ.sv\<close>,
  clock by clock. What the register file drives and what the datapath answers are inputs.
\<close>

section \<open>ring_manager.sv\<close>

definition MAX_INFLIGHT :: int where
  "MAX_INFLIGHT = 4"

record rm_hw =
  rh_head :: int
  rh_inflight :: int
  rh_was_empty :: bool
  rh_status_error :: bool
  rh_sw_rst_enable :: bool

record rm_in =
  rm_baseaddr :: int
  rm_ringlen :: int
  rm_tail :: int
  rm_enable :: bool
  rm_reset :: bool
  rm_irq_en :: bool
  rm_error_clear :: bool
  rm_ready :: bool
  rm_df_error :: bool
  rm_as_done :: bool

definition rm_hw_reset :: rm_hw where
  "rm_hw_reset = \<lparr>rh_head = 0, rh_inflight = 0, rh_was_empty = True, rh_status_error = False, rh_sw_rst_enable = False\<rparr>"

definition rm_empty :: "rm_in \<Rightarrow> rm_hw \<Rightarrow> bool" where
  "rm_empty i s \<longleftrightarrow> rh_head s = rm_tail i"

definition rm_valid :: "rm_in \<Rightarrow> rm_hw \<Rightarrow> bool" where
  "rm_valid i s \<longleftrightarrow> \<not> rm_empty i s \<and> rm_enable i \<and> rm_ringlen i > 0 \<and> rh_inflight s < MAX_INFLIGHT \<and> \<not> rh_status_error s"

definition rm_df_addr :: "rm_in \<Rightarrow> rm_hw \<Rightarrow> int" where
  "rm_df_addr i s = (rm_baseaddr i + rh_head s * 16) mod 2 ^ 32"

definition rm_busy :: "rm_hw \<Rightarrow> bool" where
  "rm_busy s \<longleftrightarrow> rh_inflight s > 0"

definition rm_empty_set :: "rm_in \<Rightarrow> rm_hw \<Rightarrow> bool" where
  "rm_empty_set i s \<longleftrightarrow> \<not> rh_was_empty s \<and> rm_empty i s"

definition rm_irq_empty :: "rm_in \<Rightarrow> rm_hw \<Rightarrow> bool" where
  "rm_irq_empty i s \<longleftrightarrow> rm_irq_en i \<and> rm_empty_set i s"

definition rm_irq_error :: "rm_in \<Rightarrow> bool" where
  "rm_irq_error i \<longleftrightarrow> rm_irq_en i \<and> rm_df_error i"

definition rm_issues :: "rm_in \<Rightarrow> rm_hw \<Rightarrow> bool" where
  "rm_issues i s \<longleftrightarrow> rm_valid i s \<and> rm_ready i"

text \<open>The counter has three bits.\<close>

definition rm_clock :: "rm_in \<Rightarrow> rm_hw \<Rightarrow> rm_hw" where
  "rm_clock i s =
     (if rm_reset i then rm_hw_reset
      else \<lparr>rh_head = (if rm_issues i s
              then (if rh_head s = (rm_ringlen i - 1) mod 2 ^ 32 then 0 else (rh_head s + 1) mod 2 ^ 32) else rh_head s),
            rh_inflight = (if rm_issues i s \<and> rm_as_done i then rh_inflight s
              else if rm_issues i s then (rh_inflight s + 1) mod 8
              else if rm_as_done i \<or> rm_df_error i then (rh_inflight s - 1) mod 8 else rh_inflight s),
            rh_was_empty = rm_empty i s,
            rh_status_error = (if rm_error_clear i then False else rh_status_error s \<or> rm_df_error i),
            rh_sw_rst_enable = (if rm_error_clear i then False
              else rh_sw_rst_enable s \<or> (\<not> rh_status_error s \<and> rh_inflight s = 0))\<rparr>)"

text \<open>A run: the addresses handed to the descriptor fetcher, and the registers at the end.\<close>

fun rm_run :: "rm_in list \<Rightarrow> rm_hw \<Rightarrow> int list \<times> rm_hw" where
  "rm_run [] s = ([], s)"
| "rm_run (i # is) s =
     (case rm_run is (rm_clock i s) of (vs, s') \<Rightarrow> ((if rm_issues i s then [rm_df_addr i s] else []) @ vs, s'))"

section \<open>IRQ.sv\<close>

record irq_hw =
  iq_empty :: bool
  iq_error :: bool

definition irq_clock :: "bool \<Rightarrow> bool \<Rightarrow> bool \<Rightarrow> bool \<Rightarrow> irq_hw \<Rightarrow> irq_hw" where
  "irq_clock empty_event error_event clear_empty clear_error s =
     \<lparr>iq_empty = (empty_event \<or> iq_empty s \<and> \<not> clear_empty), iq_error = (error_event \<or> iq_error s \<and> \<not> clear_error)\<rparr>"

definition irq_out :: "bool \<Rightarrow> irq_hw \<Rightarrow> bool" where
  "irq_out en s \<longleftrightarrow> (iq_error s \<or> iq_empty s) \<and> en"

section \<open>The ring in order\<close>

text \<open>
  A run of \<open>n\<close> descriptors in flight at the beginning, with one base and length, TAIL inside the ring
  and moved as software likes, and no CTRL.RESET. The datapath reports a completion or an error only of
  a descriptor that is in flight; one clock may report one of each.
\<close>

fun rm_normal :: "int \<Rightarrow> int \<Rightarrow> nat \<Rightarrow> rm_in list \<Rightarrow> rm_hw \<Rightarrow> bool" where
  "rm_normal base rlen n [] s = True"
| "rm_normal base rlen n (i # is) s \<longleftrightarrow> rm_baseaddr i = base \<and> rm_ringlen i = rlen \<and> 0 \<le> rm_tail i \<and> rm_tail i < rlen \<and>
     \<not> rm_reset i \<and> of_bool (rm_as_done i) + of_bool (rm_df_error i) \<le> n \<and>
     rm_normal base rlen (n + of_bool (rm_issues i s) - of_bool (rm_as_done i) - of_bool (rm_df_error i)) is (rm_clock i s)"

text \<open>The reports of completions and of errors, and those of them the counter does not see.\<close>

fun rm_reports :: "rm_in list \<Rightarrow> nat" where
  "rm_reports [] = 0"
| "rm_reports (i # is) = of_bool (rm_as_done i) + of_bool (rm_df_error i) + rm_reports is"

definition rm_misses :: "rm_in \<Rightarrow> rm_hw \<Rightarrow> bool" where
  "rm_misses i s \<longleftrightarrow> rm_df_error i \<and> (rm_issues i s \<or> rm_as_done i)"

fun rm_missed :: "rm_in list \<Rightarrow> rm_hw \<Rightarrow> nat" where
  "rm_missed [] s = 0"
| "rm_missed (i # is) s = of_bool (rm_misses i s) + rm_missed is (rm_clock i s)"

definition rm_ok :: "int \<Rightarrow> rm_hw \<Rightarrow> bool" where
  "rm_ok rlen s \<longleftrightarrow> 0 \<le> rh_head s \<and> rh_head s < rlen \<and> 0 \<le> rh_inflight s \<and> rh_inflight s \<le> MAX_INFLIGHT"

lemma rm_clock_normal:
  assumes "rm_ok rlen s" and "rm_ringlen i = rlen" and "rlen < 2 ^ 32" and "\<not> rm_reset i"
    and "of_bool (rm_as_done i) + of_bool (rm_df_error i) \<le> rh_inflight s"
  shows "rm_ok rlen (rm_clock i s)"
    and "rh_head (rm_clock i s) = (if rm_issues i s then (rh_head s + 1) mod rlen else rh_head s)"
    and "rh_inflight (rm_clock i s) = rh_inflight s + of_bool (rm_issues i s) - of_bool (rm_as_done i) - of_bool (rm_df_error i)
      + of_bool (rm_misses i s)"
proof -
  have four: "rm_issues i s \<Longrightarrow> rh_inflight s < 4" by (simp add: rm_issues_def rm_valid_def MAX_INFLIGHT_def)
  have r: "rh_inflight s \<le> 4" "0 \<le> rh_inflight s" "0 \<le> rh_head s" "rh_head s < rlen"
    using assms(1) by (simp_all add: rm_ok_def MAX_INFLIGHT_def)
  show head: "rh_head (rm_clock i s) = (if rm_issues i s then (rh_head s + 1) mod rlen else rh_head s)"
    using assms r by (auto simp: rm_clock_def)
  show count: "rh_inflight (rm_clock i s) = rh_inflight s + of_bool (rm_issues i s) - of_bool (rm_as_done i) - of_bool (rm_df_error i)
      + of_bool (rm_misses i s)"
    using assms(4,5) r four by (cases "rm_as_done i"; cases "rm_df_error i"; cases "rm_issues i s"; simp add: rm_clock_def rm_misses_def)
  show "rm_ok rlen (rm_clock i s)"
    unfolding rm_ok_def head count using r four assms(5)
    by (cases "rm_as_done i"; cases "rm_df_error i"; cases "rm_issues i s"; simp add: rm_misses_def MAX_INFLIGHT_def)
qed

lemma rm_run_normal:
  assumes "rm_normal base rlen n is s" and "rm_ok rlen s" and "rlen < 2 ^ 32" and "int n \<le> rh_inflight s" and "rm_run is s = (vs, s')"
  shows "vs = map (\<lambda>i. (base + i * 16) mod 2 ^ 32) (slots rlen (rh_head s) (length vs)) \<and>
    rh_head s' = (rh_head s + int (length vs)) mod rlen \<and>
    rh_inflight s' = rh_inflight s + int (length vs) - int (rm_reports is) + int (rm_missed is s) \<and> rm_ok rlen s'"
  using assms
proof (induction "is" arbitrary: n s vs)
  case Nil
  then show ?case by (simp add: slots_def rm_ok_def)
next
  case (Cons i "is")
  let ?n = "n + of_bool (rm_issues i s) - of_bool (rm_as_done i) - of_bool (rm_df_error i)"
  have i: "rm_baseaddr i = base" "rm_ringlen i = rlen" "\<not> rm_reset i" "of_bool (rm_as_done i) + of_bool (rm_df_error i) \<le> n"
    and more: "rm_normal base rlen ?n is (rm_clock i s)"
    using Cons.prems(1) by simp_all
  have room: "of_bool (rm_as_done i) + of_bool (rm_df_error i) \<le> rh_inflight s"
    using i(4) Cons.prems(4) by (cases "rm_as_done i"; cases "rm_df_error i"; simp)
  note c = rm_clock_normal [OF Cons.prems(2) i(2) Cons.prems(3) i(3) room]
  have n: "int ?n \<le> rh_inflight (rm_clock i s)"
    using i(4) Cons.prems(4) unfolding c(3) by (cases "rm_as_done i"; cases "rm_df_error i"; cases "rm_issues i s"; simp)
  obtain ws where run: "rm_run is (rm_clock i s) = (ws, s')" and vs: "vs = (if rm_issues i s then [rm_df_addr i s] else []) @ ws"
    using Cons.prems(5) by (auto split: prod.splits)
  have ih: "ws = map (\<lambda>i. (base + i * 16) mod 2 ^ 32) (slots rlen (rh_head (rm_clock i s)) (length ws))"
    "rh_head s' = (rh_head (rm_clock i s) + int (length ws)) mod rlen"
    "rh_inflight s' = rh_inflight (rm_clock i s) + int (length ws) - int (rm_reports is) + int (rm_missed is (rm_clock i s))"
    "rm_ok rlen s'"
    using Cons.IH [OF more c(1) Cons.prems(3) n run] by simp_all
  have len: "int (length vs) = of_bool (rm_issues i s) + int (length ws)" by (simp add: vs)
  have count: "rh_inflight s' = rh_inflight s + int (length vs) - int (rm_reports (i # is)) + int (rm_missed (i # is) s)"
    unfolding ih(3) c(3) len by simp
  show ?case
  proof (cases "rm_issues i s")
    case True
    have h: "0 \<le> rh_head s" "rh_head s < rlen" using Cons.prems(2) by (simp_all add: rm_ok_def)
    have "slots rlen (rh_head s) (Suc (length ws)) = rh_head s # slots rlen ((rh_head s + 1) mod rlen) (length ws)"
      using h by (simp add: slots_Cons)
    moreover have "((rh_head s + 1) mod rlen + int (length ws)) mod rlen = (rh_head s + (1 + int (length ws))) mod rlen"
      by (simp add: mod_simps add.assoc)
    ultimately show ?thesis
      using ih(1,2,4) count True by (simp add: vs c(2) rm_df_addr_def i(1))
  next
    case False
    then show ?thesis using ih(1,2,4) count by (simp add: vs c(2))
  qed
qed

section \<open>Properties\<close>

text \<open>
  C16. From an idle ring manager, as long as the configuration stands, TAIL stays inside the ring,
  CTRL.RESET is not set and the datapath reports only descriptors that are in flight: whatever its
  readiness and its errors, and however software moves TAIL, the addresses handed out are those of the
  slots from HEAD on, in ring order; HEAD is the next slot to hand out (it moves when a descriptor is
  handed out, not when it is done); and the counter stays between 0 and 4 and is the number handed out
  less the number of reports, plus the error reports it missed because they came in a clock in which
  another descriptor was handed out or completed.
\<close>

theorem rtl_ring_in_order:
  assumes "rm_normal base rlen 0 is s" and "0 \<le> rh_head s" and "rh_head s < rlen" and "rlen < 2 ^ 32" and "rh_inflight s = 0"
    and "rm_run is s = (vs, s')"
  shows "vs = map (\<lambda>i. (base + i * 16) mod 2 ^ 32) (slots rlen (rh_head s) (length vs)) \<and>
    rh_head s' = (rh_head s + int (length vs)) mod rlen \<and>
    rh_inflight s' = int (length vs) - int (rm_reports is) + int (rm_missed is s) \<and> 0 \<le> rh_inflight s' \<and> rh_inflight s' \<le> 4"
  using rm_run_normal [OF assms(1) _ assms(4) _ assms(6)] assms(2,3,5) by (simp add: rm_ok_def MAX_INFLIGHT_def)

abbreviation rm_example :: "int \<Rightarrow> bool \<Rightarrow> bool \<Rightarrow> bool \<Rightarrow> bool \<Rightarrow> rm_in" where
  "rm_example tail ready err clr dn \<equiv> \<lparr>rm_baseaddr = 64, rm_ringlen = 4, rm_tail = tail, rm_enable = True, rm_reset = False, rm_irq_en = True,
     rm_error_clear = clr, rm_ready = ready, rm_df_error = err, rm_as_done = dn\<rparr>"

lemmas rm_steps = rm_clock_def rm_issues_def rm_valid_def rm_empty_def rm_df_addr_def rm_hw_reset_def MAX_INFLIGHT_def rm_misses_def

theorem rtl_ring_in_order_witness:
  "\<exists>s'. rm_run [rm_example 2 True False False False, rm_example 2 False False False True, rm_example 2 True False False False] rm_hw_reset
     = ([64, 80], s') \<and> rh_head s' = 2 \<and> rh_inflight s' = 1"
proof -
  let ?is = "[rm_example 2 True False False False, rm_example 2 False False False True, rm_example 2 True False False False]"
  obtain s' where run: "rm_run ?is rm_hw_reset = ([64, 80], s')" by (simp add: rm_steps)
  have normal: "rm_normal 64 4 0 ?is rm_hw_reset" and "rm_missed ?is rm_hw_reset = 0" by (simp_all add: rm_steps)
  with rtl_ring_in_order [OF normal _ _ _ _ run] run show ?thesis by (simp add: rm_hw_reset_def)
qed



end
