(* ===== verification/Rtl_System.thy ===== *)
theory Rtl_System
  imports Rtl_Golden Rtl_Ring
begin

text \<open>
  The ring manager on top of the datapath: what \<open>ring_manager.sv\<close> offers goes to \<open>movement_top.sv\<close>,
  whose readiness, errors and completions come back, as the ports of the two name each other. The
  register file is the input: base, length, TAIL, enable.
\<close>

section \<open>The composition\<close>

definition system_in :: "'q fifo_ops \<Rightarrow> rm_in \<Rightarrow> 'q engine_hw \<Rightarrow> rm_in" where
  "system_in ops c e = c\<lparr>rm_ready := movement_ready ops (en_move e), rm_df_error := movement_error ops (en_move e),
     rm_as_done := mv_done (en_move e)\<rparr>"

definition system_clock :: "'q fifo_ops \<Rightarrow> rm_in \<Rightarrow> 'q engine_hw \<times> rm_hw \<Rightarrow> 'q engine_hw \<times> rm_hw" where
  "system_clock ops c x =
     (let i = system_in ops c (fst x)
      in (engine_clock ops (ask_in (rm_df_addr i (snd x)) (rm_valid i (snd x))) (fst x), rm_clock i (snd x)))"

fun system_run :: "'q fifo_ops \<Rightarrow> rm_in list \<Rightarrow> 'q engine_hw \<times> rm_hw \<Rightarrow> 'q engine_hw \<times> rm_hw" where
  "system_run ops [] x = x"
| "system_run ops (c # cs) x = system_run ops cs (system_clock ops c x)"

lemma system_append: "system_run ops (cs @ ds) x = system_run ops ds (system_run ops cs x)"
  by (induction cs arbitrary: x) simp_all

section \<open>While nothing is offered\<close>

text \<open>The completions the ring manager sees: those at the beginning of a clock.\<close>

fun engine_dones :: "'q fifo_ops \<Rightarrow> movement_in list \<Rightarrow> 'q engine_hw \<Rightarrow> nat" where
  "engine_dones ops [] e = 0"
| "engine_dones ops (i # is) e = of_bool (mv_done (en_move e)) + engine_dones ops is (engine_clock ops i e)"

lemma dones_pulses:
  "engine_dones ops is e + of_bool (mv_done (en_move (engine_run ops is e))) = engine_pulses ops is e + of_bool (mv_done (en_move e))"
  by (induction "is" arbitrary: e) (simp_all add: add.assoc)

lemma eng_form: "\<exists>f m a s b di df ds qa qs mid dd dn mem. e = eng f m a s b di df ds qa qs mid dd dn mem"
proof -
  obtain mv mem where e: "e = \<lparr>en_move = mv, en_mem = mem\<rparr>" by (cases e)
  obtain f m a s b di df ds qa qs mid dd dn where mv: "mv = \<lparr>mv_fetch = f, mv_mover = m, mv_master = a, mv_sram = s, mv_bram = b,
     mv_df_in = di, mv_df_out = df, mv_desc = ds, mv_dm_axi = qa, mv_dm_sram = qs, mv_mid = mid, mv_done_d = dd, mv_done = dn\<rparr>"
    by (cases mv)
  have "e = eng f m a s b di df ds qa qs mid dd dn mem" unfolding e mv eng_def by (rule refl)
  then show ?thesis by (intro exI)
qed

text \<open>The address lines do not matter while no request is made.\<close>

lemma unasked: "engine_clock lq_ops (ask_in v False) e = engine_clock lq_ops quiet e"
proof -
  have same: "fetch_next a b x f v False h = fetch_next a b x f 0 False h" for a b x f h
    by (simp add: fetch_next_def fetch_accepts_def)
  obtain f m a s b di df ds qa qs mid dd dn mem where e: "e = eng f m a s b di df ds qa qs mid dd dn mem"
    using eng_form [of e] by (elim exE) (rule that)
  show ?thesis unfolding e eng_clock by (simp only: same)
qed

definition rm_idle :: "int \<Rightarrow> int \<Rightarrow> rm_hw \<Rightarrow> bool" where
  "rm_idle h k s \<longleftrightarrow> rh_head s = h \<and> rh_inflight s = k \<and> \<not> rh_status_error s"

lemma waiting_ring:
  assumes "rm_idle (rm_tail c) k s" and "\<not> rm_reset c" and "engine_errors lq_ops (replicate n quiet) e = 0"
    and "int (engine_dones lq_ops (replicate n quiet) e) \<le> k" and "k < 8"
  shows "\<exists>s'. system_run lq_ops (replicate n c) (e, s) = (engine_run lq_ops (replicate n quiet) e, s') \<and>
    rm_idle (rm_tail c) (k - int (engine_dones lq_ops (replicate n quiet) e)) s'"
  using assms
proof (induction n arbitrary: e s k)
  case (Suc n)
  let ?i = "system_in lq_ops c e" and ?d = "mv_done (en_move e)"
  have err: "\<not> movement_error lq_ops (en_move e)" using Suc.prems(3) by simp
  have valid: "\<not> rm_valid ?i s" using Suc.prems(1) by (simp add: rm_valid_def rm_empty_def rm_idle_def system_in_def)
  have "?d \<Longrightarrow> 1 \<le> k" using Suc.prems(4) by auto
  then have "rm_idle (rm_tail c) (k - of_bool ?d) (rm_clock ?i s)"
    using Suc.prems(1,2,5) err valid by (auto simp: rm_idle_def rm_clock_def rm_issues_def system_in_def)
  moreover have "system_clock lq_ops c (e, s) = (engine_clock lq_ops quiet e, rm_clock ?i s)"
    using valid by (simp add: system_clock_def Let_def unasked [of "rm_df_addr ?i s"])
  moreover have "engine_errors lq_ops (replicate n quiet) (engine_clock lq_ops quiet e) = 0" using Suc.prems(3) by simp
  moreover have "int (engine_dones lq_ops (replicate n quiet) (engine_clock lq_ops quiet e)) \<le> k - of_bool ?d"
    "k - of_bool ?d < 8" using Suc.prems(4,5) by auto
  ultimately show ?case
    using Suc.IH [of "k - of_bool ?d" "rm_clock ?i s" "engine_clock lq_ops quiet e"] Suc.prems(2) by (simp add: algebra_simps)
qed simp

section \<open>One descriptor\<close>

lemma rest_ports:
  assumes "engine_rest m e"
  shows "\<not> mv_done (en_move e)" and "\<not> movement_error lq_ops (en_move e)" and "movement_ready lq_ops (en_move e)"
proof -
  obtain st mi ma ms av an aw ak ad sv sn sw sk x ra rl rb wa wl wb where e: "e = eng (fetch_idle st) (mover GET_DATA mi ma ms)
      (master Idle av an aw ak ad) (ctrl S_idle sv sn sw sk) (block_ram (snd m) x)
      q64 q64 q16 q16 q16 q64 False False (memory (fst m) R_IDLE ra rl rb W_IDLE wa wl wb False)"
    using assms unfolding engine_rest_def by blast
  show "\<not> mv_done (en_move e)" "\<not> movement_error lq_ops (en_move e)" "movement_ready lq_ops (en_move e)"
    unfolding e by (simp_all add: eng_def lq_ops_def movement_ready_def movement_error_def)
qed

text \<open>
  TAIL one slot ahead of HEAD: the address of the slot is handed out in the first clock, the datapath
  carries the descriptor out, and its completion brings the counter back to zero.
\<close>

lemma one_slot:
  assumes "rm_idle h 0 s" and "0 \<le> h" and "h < rm_ringlen c" and "2 \<le> rm_ringlen c" and "rm_ringlen c < 2 ^ 32"
    and c: "\<not> rm_reset c" "rm_enable c" "rm_tail c = (h + 1) mod rm_ringlen c"
    and v: "v = rm_baseaddr c + h * 16" and "v < 2 ^ 32"
    and fits: "rtl_fits v m" and mem: "u32s (fst m)" "length (snd m) \<le> 65536" and rest: "engine_rest m e" and "281 \<le> w"
  shows "\<exists>e' s'. system_run lq_ops (replicate (Suc w) c) (e, s) = (e', s') \<and> engine_rest (move_at v m) e' \<and> rm_idle (rm_tail c) 0 s'"
proof -
  let ?i = "system_in lq_ops c e"
  let ?e = "engine_clock lq_ops (ask_in v True) e" and ?s = "rm_clock ?i s"
  note ports = rest_ports [OF rest]
  have "h \<noteq> (h + 1) mod rm_ringlen c"
    using assms(2-4) by (cases "h + 1 = rm_ringlen c") auto
  then have valid: "rm_valid ?i s"
    using assms(1,4) c by (simp add: rm_valid_def rm_empty_def rm_idle_def system_in_def MAX_INFLIGHT_def)
  have issues: "rm_issues ?i s" using valid ports(3) by (simp add: rm_issues_def system_in_def)
  have "0 \<le> v" using fits by (simp add: rtl_fits_def Let_def)
  then have addr: "rm_df_addr ?i s = v"
    using assms(1,10) by (simp add: rm_df_addr_def rm_idle_def system_in_def v)
  have first: "system_clock lq_ops c (e, s) = (?e, ?s)"
    by (simp add: system_clock_def Let_def valid addr)
  have bump: "(if h = (rm_ringlen c - 1) mod 2 ^ 32 then 0 else (h + 1) mod 2 ^ 32) = rm_tail c"
    using assms(2-5) c(3) by auto
  have s: "rm_idle (rm_tail c) 1 ?s"
    using assms(1) issues ports(1,2) c(1) bump unfolding rm_idle_def rm_clock_def by (auto simp: system_in_def)
  have "dma_beats (desc_at (fst m) (nat (v div 4))) + 26 \<le> w"
  proof -
    have "dma_beats (desc_at (fst m) (nat (v div 4))) < 256" by (simp add: dma_beats_def)
    then show ?thesis using assms(15) by linarith
  qed
  from one_descriptor [OF fits mem rest refl this] obtain e'
    where e': "leads (ask_in v True # replicate w quiet) e e' 1" "engine_rest (move_at v m) e'" by blast
  have run: "engine_run lq_ops (replicate w quiet) ?e = e'" and errors: "engine_errors lq_ops (replicate w quiet) ?e = 0"
    and pulses: "of_bool (mv_done (en_move ?e)) + engine_pulses lq_ops (replicate w quiet) ?e = 1"
    using e'(1) by (simp_all add: leads_def)
  have dones: "engine_dones lq_ops (replicate w quiet) ?e = 1"
    using dones_pulses [of lq_ops "replicate w quiet" ?e] pulses rest_ports(1) [OF e'(2)] by (simp add: run add.commute)
  from waiting_ring [OF s c(1) errors] obtain s' where
    "system_run lq_ops (replicate w c) (?e, ?s) = (e', s')" "rm_idle (rm_tail c) 0 s'"
    by (auto simp: dones run)
  then show ?thesis using e'(2) by (auto simp: first)
qed

section \<open>Software moving TAIL\<close>

text \<open>TAIL is moved on by one slot \<open>n\<close> times, and left alone for \<open>w\<close> clocks each time.\<close>

fun tail_moves :: "nat \<Rightarrow> rm_in \<Rightarrow> int \<Rightarrow> nat \<Rightarrow> rm_in list" where
  "tail_moves w c t 0 = []"
| "tail_moves w c t (Suc n) =
     (let t' = (t + 1) mod rm_ringlen c in replicate (Suc w) (c\<lparr>rm_tail := t'\<rparr>) @ tail_moves w c t' n)"

lemma slots_run:
  assumes "moves_at (slot_addresses (rm_baseaddr c) (rm_ringlen c) h n) m = Some m'"
    and "u32s (fst m)" and "u32s (snd m)" and "length (snd m) \<le> 65536" and "engine_rest m e" and "281 \<le> w"
    and "rm_idle h 0 s" and "0 \<le> h" and "h < rm_ringlen c" and "n \<noteq> 0 \<Longrightarrow> 2 \<le> rm_ringlen c"
    and "rm_ringlen c < 2 ^ 32" and "\<not> rm_reset c" and "rm_enable c" and "rm_baseaddr c + (rm_ringlen c - 1) * 16 < 2 ^ 32"
  shows "\<exists>e' s'. system_run lq_ops (tail_moves w c h n) (e, s) = (e', s') \<and> engine_rest m' e' \<and>
    rm_idle ((h + int n) mod rm_ringlen c) 0 s'"
  using assms
proof (induction n arbitrary: h m e s)
  case 0
  then show ?case by (simp add: slots_def)
next
  case (Suc n)
  let ?h = "(h + 1) mod rm_ringlen c" and ?v = "rm_baseaddr c + h * 16"
  let ?c = "c\<lparr>rm_tail := ?h\<rparr>"
  have "slots (rm_ringlen c) h (Suc n) = h # slots (rm_ringlen c) ?h n" using Suc.prems(8,9) by (simp add: slots_Cons)
  with Suc.prems(1) have fits: "rtl_fits ?v m"
    and rest: "moves_at (slot_addresses (rm_baseaddr c) (rm_ringlen c) ?h n) (move_at ?v m) = Some m'"
    by (auto split: if_splits)
  have "h * 16 \<le> (rm_ringlen c - 1) * 16" using Suc.prems(9) by simp
  then have v: "?v < 2 ^ 32" using Suc.prems(14) by simp
  note two = Suc.prems(10) [OF nat.discI, OF refl]
  obtain e1 s1 where one: "system_run lq_ops (replicate (Suc w) ?c) (e, s) = (e1, s1)" "engine_rest (move_at ?v m) e1" "rm_idle ?h 0 s1"
    using one_slot [of h s ?c ?v m e w] Suc.prems(2,4-9,11-13) two fits v by auto
  have "dma_fits 255 (desc_at (fst m) (nat (?v div 4))) m" using fits by (simp add: rtl_fits_def Let_def)
  note keeps = dma_move_keeps [OF this Suc.prems(2,3), folded move_at_def]
  have h: "0 \<le> ?h" "?h < rm_ringlen c" using two by simp_all
  obtain e' s' where e': "system_run lq_ops (tail_moves w c ?h n) (e1, s1) = (e', s')" "engine_rest m' e'"
    "rm_idle ((?h + int n) mod rm_ringlen c) 0 s'"
    using Suc.IH [OF rest keeps(3,4) _ one(2) Suc.prems(6) one(3) h two Suc.prems(11-14)] Suc.prems(4) keeps(2) by auto
  have "(?h + int n) mod rm_ringlen c = (h + int (Suc n)) mod rm_ringlen c" by (simp add: mod_simps add.assoc)
  then show ?case
    using e' by (intro exI [of _ e'] exI [of _ s']) (simp add: Let_def system_append one(1) del: replicate.simps)
qed

section \<open>With the FIFOs of the hardware\<close>

lemma system_same:
  assumes "same_engine d e"
  shows "system_in rtl_ops c d = system_in lq_ops c e"
proof -
  have m: "same_move (en_move d) (en_move e)" "takers_ok (en_move e)" using assms by (simp_all add: same_engine_def)
  have "fetch_error a (rf_dout (mv_df_out (en_move d))) f = fetch_error a (hd (lq_items (mv_df_out (en_move e)))) f"
    if "a = lq_empty (mv_df_out (en_move e))" for a f
    using that by (intro fetch_same(2)) (simp add: same_douts(4) [OF m])
  then show ?thesis
    unfolding system_in_def movement_ready_def movement_error_def rtl_ops_def lq_ops_def fifo_ops.select_convs
      same_moveD(7,8,11,12) [OF m] by simp
qed

lemma system_run_same:
  assumes "same_engine d e"
  shows "same_engine (fst (system_run rtl_ops cs (d, s))) (fst (system_run lq_ops cs (e, s))) \<and>
    snd (system_run rtl_ops cs (d, s)) = snd (system_run lq_ops cs (e, s))"
  using assms
proof (induction cs arbitrary: d e s)
  case (Cons c cs)
  show ?case
    using Cons.IH [OF same_engine_clock [OF Cons.prems]] by (simp add: system_clock_def Let_def system_same [OF Cons.prems])
qed simp

section \<open>Out of reset\<close>

lemma rtl_slots_run:
  assumes "moves_at (slot_addresses (rm_baseaddr c) (rm_ringlen c) h n) (sys, ram) = Some m'"
    and "u32s sys" and "u32s ram" and "length ram \<le> 65536" and "281 \<le> w" and "0 \<le> h" and "h < rm_ringlen c"
    and "n \<noteq> 0 \<Longrightarrow> 2 \<le> rm_ringlen c" and "rm_ringlen c < 2 ^ 32" and "\<not> rm_reset c" and "rm_enable c"
    and "rm_baseaddr c + (rm_ringlen c - 1) * 16 < 2 ^ 32"
    and "system_run rtl_ops (tail_moves w c h n) (engine_start rtl_fifo_reset sys ram, rm_hw_reset\<lparr>rh_head := h\<rparr>) = (d', s')"
  shows "mm_ram (en_mem d') = fst m' \<and> br_mem (mv_bram (en_move d')) = snd m' \<and>
    rh_head s' = (h + int n) mod rm_ringlen c \<and> \<not> rm_busy s' \<and> \<not> rh_status_error s'"
proof -
  let ?e = "engine_start late_queue_reset sys ram" and ?s = "rm_hw_reset\<lparr>rh_head := h\<rparr>" and ?cs = "tail_moves w c h n"
  have "rm_idle h 0 ?s" by (simp add: rm_idle_def rm_hw_reset_def)
  from slots_run [OF assms(1) _ _ _ start_rest assms(5) this assms(6-12)] assms(2-4)
  obtain e' t' where run: "system_run lq_ops ?cs (?e, ?s) = (e', t')" and rest: "engine_rest m' e'"
    and t': "rm_idle ((h + int n) mod rm_ringlen c) 0 t'" by auto
  have same: "same_engine d' e'" and s': "s' = t'"
    using system_run_same [OF same_engine_start, of ?cs sys ram ?s] by (simp_all add: run assms(13))
  have "en_mem d' = en_mem e'" "mv_bram (en_move d') = mv_bram (en_move e')"
    using same by (simp_all add: same_engine_def same_move_def)
  then show ?thesis
    using rest_memories [OF rest] t' by (simp add: s' rm_idle_def rm_busy_def)
qed

text \<open>What the registers of the golden model drive into the ring manager; the other inputs are low.\<close>

definition csr_levels :: "csr \<Rightarrow> rm_in" where
  "csr_levels c = \<lparr>rm_baseaddr = csr_baseaddr c, rm_ringlen = csr_ringlen c, rm_tail = csr_read c REG_HEAD, rm_enable = is_enabled c,
     rm_reset = False, rm_irq_en = False, rm_error_clear = False, rm_ready = False, rm_df_error = False, rm_as_done = False\<rparr>"

section \<open>Properties\<close>

text \<open>
  C3. The hardware, the ring manager on top of the datapath, agrees with the golden model: for any machine
  that the event loop of \<open>run_golden.py\<close> drains without an exception and whose descriptors have at least
  one word, out of reset, on the same memories and with the same registers, software appends the
  descriptors one by one (281 clocks or more apart, so that one is in flight at a time). The
  memories end as the golden model leaves them, HEAD has followed TAIL round the ring, nothing is in
  flight and no error is recorded.
\<close>

theorem rtl_system_agrees_with_golden:
  assumes "golden_ok g" and "is_enabled (rm_csr (gd_ring g))" and "length (pending (gd_ring g)) < MAX_ITERS"
    and "dma_run (queue_length (am_mid (g_axi g))) (length (pending (gd_ring g)))
      (csr_baseaddr (rm_csr (gd_ring g))) (csr_ringlen (rm_csr (gd_ring g)))
      (csr_read (rm_csr (gd_ring g)) REG_HEAD) (smem g, bram g) = Some (ds, m')"
    and "\<forall>d \<in> set ds. 1 \<le> dma_beats d" and "length (bram g) \<le> 65536" and "281 \<le> w"
    and "system_run rtl_ops (tail_moves w (csr_levels (rm_csr (gd_ring g))) (csr_read (rm_csr (gd_ring g)) REG_HEAD) (length (pending (gd_ring g))))
      (engine_start rtl_fifo_reset (smem g) (bram g), rm_hw_reset\<lparr>rh_head := csr_read (rm_csr (gd_ring g)) REG_HEAD\<rparr>) = (e, s)"
  shows "\<exists>g'. hardware_phase g = (Inr (map pack ds), g') \<and> mm_ram (en_mem e) = smem g' \<and>
    br_mem (mv_bram (en_move e)) = bram g' \<and> rh_head s = csr_read (rm_csr (gd_ring g)) REG_TAIL \<and>
    \<not> rm_busy s \<and> \<not> rh_status_error s"
proof -
  let ?r = "gd_ring g" and ?n = "length (pending (gd_ring g))"
  let ?c = "csr_levels (rm_csr ?r)"
  have r: "ring_ok ?r" using assms(1) by (simp add: golden_ok_def)
  note regs = csr_baseaddr_def csr_ringlen_def csr_read_def
  have c: "rm_baseaddr ?c = base_of ?r" "rm_ringlen ?c = rlen_of ?r" "rm_enable ?c" "\<not> rm_reset ?c"
    using assms(2) by (simp_all add: csr_levels_def regs)
  obtain g' where g': "hardware_phase g = (Inr (map pack ds), g')" "(smem g', bram g') = m'"
    and moves: "moves_at (slot_addresses (rm_baseaddr ?c) (rm_ringlen ?c) (head_of ?r) ?n) (smem g, bram g) = Some m'"
    using golden_moves [OF assms(1-3) _ assms(5)] assms(4) unfolding c regs by auto
  have n: "int ?n = ring_count (rlen_of ?r) (head_of ?r) (tail_of ?r)" by (rule length_pending [OF r])
  then have tail: "(head_of ?r + int ?n) mod rlen_of ?r = tail_of ?r"
    using tail_range [OF r] by (simp add: head_plus_count)
  have "0 < rlen_of ?r" "rlen_of ?r < 2 ^ 32" using r ring_ok_regs [OF r, of REG_RINGLEN] by (simp_all add: ring_ok_def)
  moreover have "?n \<noteq> 0 \<Longrightarrow> 2 \<le> rlen_of ?r"
  proof (rule ccontr)
    assume "?n \<noteq> 0" and "\<not> 2 \<le> rlen_of ?r"
    then have "rlen_of ?r = 1" using \<open>0 < rlen_of ?r\<close> by linarith
    then show False using n \<open>?n \<noteq> 0\<close> by (simp add: ring_count_def)
  qed
  moreover have "base_of ?r + (rlen_of ?r - 1) * 16 < 2 ^ 32"
    using slot_facts(3) [OF r, of "rlen_of ?r - 1"] \<open>0 < rlen_of ?r\<close> by simp
  ultimately show ?thesis
    using rtl_slots_run [OF moves golden_okD(7,8) [OF assms(1)] assms(6,7) _ _ _ _ c(4,3)] head_range [OF r] assms(8) g' tail
    unfolding c regs by (intro exI [of _ g']) auto
qed

theorem rtl_system_agrees_with_golden_witness:
  "\<exists>e s. system_run rtl_ops (tail_moves 300 (csr_levels (rm_csr (gd_ring small_golden))) 0 2)
      (engine_start rtl_fifo_reset small_words (replicate 8 0), rm_hw_reset\<lparr>rh_head := 0\<rparr>) = (e, s) \<and>
    mm_ram (en_mem e) = fst small_result \<and> br_mem (mv_bram (en_move e)) = snd small_result \<and> rh_head s = 2"
proof -
  obtain e s where run: "system_run rtl_ops (tail_moves 300 (csr_levels (rm_csr (gd_ring small_golden))) 0 2)
      (engine_start rtl_fifo_reset small_words (replicate 8 0), rm_hw_reset\<lparr>rh_head := 0\<rparr>) = (e, s)"
    by (rule prod.exhaust)
  have regs: "csr_read (rm_csr (gd_ring small_golden)) REG_HEAD = 0" "csr_read (rm_csr (gd_ring small_golden)) REG_TAIL = 2"
    "csr_baseaddr (rm_csr (gd_ring small_golden)) = 0" "csr_ringlen (rm_csr (gd_ring small_golden)) = 4"
    "length (pending (gd_ring small_golden)) = 2"
    "base_of (gd_ring small_golden) = 0" "rlen_of (gd_ring small_golden) = 4" "head_of (gd_ring small_golden) = 0"
    unfolding csr_read_def csr_baseaddr_def csr_ringlen_def small_golden_regs small_pending by (simp_all add: reg_offsets)
  note drains = hardware_drains [OF small_golden_ok small_enabled, of "[small_d1, small_d2]" small_result,
      unfolded regs small_golden_parts]
  note small = rtl_system_agrees_with_golden [OF small_golden_ok small_enabled, of "[small_d1, small_d2]" small_result 300 e s]
  show ?thesis
    using small [unfolded regs small_golden_parts, OF _ small_run _ _ _ run] drains [OF _ small_run] run
    by (auto simp: MAX_ITERS_def dma_beats_def prod_eq_iff)
qed

end
